(* ===== verification/Js_Prelude.thy ===== *)
theory Js_Prelude
  imports Main "HOL-Library.Char_ord" "HOL-Library.List_Lexorder"
begin

text \<open>
  Shared vocabulary of the development: the error type and the result monad in which every
  fallible function of the code is written, the strings and decimal numerals of JavaScript, and
  plain objects as association lists in enumeration order.

  A JavaScript throw is the value \<open>Inl e\<close>. \<open>Err m\<close> is \<open>throw Error(m)\<close>; where the code
  interpolates values into the message, \<open>m\<close> is the literal text in front of the first one.
  \<open>TypeErr\<close> is the engine's own TypeError (a property of \<open>undefined\<close> or \<open>null\<close> is read, a
  non-function is called). \<open>Fuel\<close> is not a behaviour of the code: a recursion that is given a
  bound returns it when the bound is used up, and a theorem says when that cannot happen.
\<close>

named_theorems js_simps \<open>unfolding rules of the small operators\<close>
named_theorems kv_simps \<open>reads after writes\<close>
named_theorems inv_intros \<open>preservation of well-formedness\<close>

section \<open>Errors and the result monad\<close>

datatype js_error = Err string | TypeErr string | Fuel

type_synonym 'a res = "js_error + 'a"

text \<open>
  The operators are polymorphic in the error: where the code mutates a store and may throw halfway,
  the error carries the store at the throw (\<open>'e = js_error \<times> store\<close>).
\<close>

definition rbind :: "'e + 'a \<Rightarrow> ('a \<Rightarrow> 'e + 'b) \<Rightarrow> 'e + 'b" where
  "rbind m f = (case m of Inl e \<Rightarrow> Inl e | Inr x \<Rightarrow> f x)"

lemma rbind_simps [simp]:
  "rbind (Inl e) f = Inl e"
  "rbind (Inr x) f = f x"
  by (simp_all add: rbind_def)

lemma rbind_Inr_iff: "rbind m f = Inr y \<longleftrightarrow> (\<exists>x. m = Inr x \<and> f x = Inr y)"
  by (cases m) auto

lemma rbind_assoc: "rbind (rbind m f) g = rbind m (\<lambda>x. rbind (f x) g)"
  by (cases m) auto

lemma rbind_return [simp]: "rbind m Inr = m"
  by (cases m) auto

lemma rbind_InrE:
  assumes "rbind m f = Inr y"
  obtains x where "m = Inr x" and "f x = Inr y"
  using assms by (auto simp: rbind_Inr_iff)

lemma rbind_cong [fundef_cong]:
  "m = m' \<Longrightarrow> (\<And>x. m' = Inr x \<Longrightarrow> f x = g x) \<Longrightarrow> rbind m f = rbind m' g"
  by (cases m') auto

definition rguard :: "bool \<Rightarrow> 'e \<Rightarrow> 'e + unit" where
  "rguard b e = (if b then Inr () else Inl e)"

lemma rguard_simps [simp]:
  "rguard True e = Inr ()"
  "rguard False e = Inl e"
  by (simp_all add: rguard_def)

lemma rguard_Inr_iff [simp]: "rguard b e = Inr u \<longleftrightarrow> b"
  by (simp add: rguard_def)

lemma rbind_rguard: "rbind (rguard b e) f = (if b then f () else Inl e)"
  by (simp add: rguard_def)

text \<open>A \<open>for\<close> loop over a list that threads a state and may throw.\<close>

fun rfoldl :: "('s \<Rightarrow> 'a \<Rightarrow> 'e + 's) \<Rightarrow> 's \<Rightarrow> 'a list \<Rightarrow> 'e + 's" where
  "rfoldl f s [] = Inr s"
| "rfoldl f s (x # xs) = rbind (f s x) (\<lambda>s'. rfoldl f s' xs)"

lemma rfoldl_append: "rfoldl f s (xs @ ys) = rbind (rfoldl f s xs) (\<lambda>s'. rfoldl f s' ys)"
  by (induction xs arbitrary: s) (auto simp: rbind_assoc)

lemma rfoldl_invariant:
  assumes "rfoldl f s xs = Inr t" and "P s"
    and "\<And>s x s'. x \<in> set xs \<Longrightarrow> P s \<Longrightarrow> f s x = Inr s' \<Longrightarrow> P s'"
  shows "P t"
  using assms
proof (induction xs arbitrary: s)
  case Nil
  then show ?case by simp
next
  case (Cons x xs)
  then obtain s' where s': "f s x = Inr s'" "rfoldl f s' xs = Inr t"
    by (auto elim: rbind_InrE)
  from Cons.prems s'(1) have "P s'" by (metis list.set_intros(1))
  with s'(2) Cons.prems(3) show ?case by (intro Cons.IH) auto
qed

lemma rfoldl_cong [fundef_cong]:
  "s = s' \<Longrightarrow> xs = ys \<Longrightarrow> (\<And>t x. x \<in> set ys \<Longrightarrow> f t x = g t x) \<Longrightarrow> rfoldl f s xs = rfoldl g s' ys"
  by (induction ys arbitrary: s s' xs) (auto intro!: rbind_cong)

fun rmap :: "('a \<Rightarrow> 'e + 'b) \<Rightarrow> 'a list \<Rightarrow> 'e + 'b list" where
  "rmap f [] = Inr []"
| "rmap f (x # xs) = rbind (f x) (\<lambda>y. rbind (rmap f xs) (\<lambda>ys. Inr (y # ys)))"

lemma rmap_cong [fundef_cong]:
  "xs = ys \<Longrightarrow> (\<And>x. x \<in> set ys \<Longrightarrow> f x = g x) \<Longrightarrow> rmap f xs = rmap g ys"
  by (induction ys arbitrary: xs) (auto intro!: rbind_cong)

definition of_opt :: "'e \<Rightarrow> 'a option \<Rightarrow> 'e + 'a" where
  "of_opt e m = (case m of None \<Rightarrow> Inl e | Some x \<Rightarrow> Inr x)"

lemma of_opt_simps [simp]:
  "of_opt e None = Inl e"
  "of_opt e (Some x) = Inr x"
  by (simp_all add: of_opt_def)

lemma of_opt_Inr_iff [simp]: "of_opt e m = Inr x \<longleftrightarrow> m = Some x"
  by (simp add: of_opt_def split: option.splits)

text \<open>Attach the current store to an error.\<close>

definition at_store :: "'w \<Rightarrow> 'a res \<Rightarrow> (js_error \<times> 'w) + 'a" where
  "at_store w m = (case m of Inl e \<Rightarrow> Inl (e, w) | Inr x \<Rightarrow> Inr x)"

lemma at_store_simps [simp]:
  "at_store w (Inl e) = Inl (e, w)"
  "at_store w (Inr x) = Inr x"
  by (simp_all add: at_store_def)

lemma at_store_Inr_iff [simp]: "at_store w m = Inr x \<longleftrightarrow> m = Inr x"
  by (cases m) auto

lemma at_store_Inl_iff: "at_store w m = Inl p \<longleftrightarrow> (\<exists>e. m = Inl e \<and> p = (e, w))"
  by (cases m) auto

section \<open>Strings\<close>

text \<open>\<open>s.split(c)\<close> for a one-character separator, and \<open>xs.join(sep)\<close>.\<close>

fun split_on :: "char \<Rightarrow> string \<Rightarrow> string list" where
  "split_on c [] = [[]]"
| "split_on c (x # xs) =
     (if x = c then [] # split_on c xs
      else (case split_on c xs of [] \<Rightarrow> [[x]] | y # ys \<Rightarrow> (x # y) # ys))"

fun join_with :: "string \<Rightarrow> string list \<Rightarrow> string" where
  "join_with sep [] = []"
| "join_with sep [x] = x"
| "join_with sep (x # y # ys) = x @ sep @ join_with sep (y # ys)"

lemma split_on_not_Nil [simp]: "split_on c s \<noteq> []"
  by (induction s) (auto split: list.splits)

lemma split_on_no_sep: "c \<notin> set s \<Longrightarrow> split_on c s = [s]"
  by (induction s) auto

lemma split_on_append:
  "c \<notin> set s \<Longrightarrow> split_on c (s @ c # t) = s # split_on c t"
  by (induction s) auto

lemma split_on_join:
  "xs \<noteq> [] \<Longrightarrow> \<forall>x \<in> set xs. c \<notin> set x \<Longrightarrow> split_on c (join_with [c] xs) = xs"
  by (induction "[c]" xs rule: join_with.induct) (auto simp: split_on_no_sep split_on_append)

lemma join_split_on: "join_with [c] (split_on c s) = s"
proof (induction s)
  case (Cons x s)
  then show ?case
    by (cases "split_on c s" rule: list.exhaust; cases "tl (split_on c s)") auto
qed simp

definition starts_with :: "string \<Rightarrow> string \<Rightarrow> bool" where
  "starts_with p s \<longleftrightarrow> take (length p) s = p"

lemma starts_with_append [simp]: "starts_with p (p @ s)"
  by (simp add: starts_with_def)

lemma starts_with_iff: "starts_with p s \<longleftrightarrow> (\<exists>t. s = p @ t)"
  by (metis append_take_drop_id starts_with_append starts_with_def)

section \<open>Decimal numerals\<close>

definition digit_char :: "nat \<Rightarrow> char" where
  "digit_char d = char_of (48 + d)"

fun nat_to_string :: "nat \<Rightarrow> string" where
  "nat_to_string n =
     (if n < 10 then [digit_char n] else nat_to_string (n div 10) @ [digit_char (n mod 10)])"

declare nat_to_string.simps [simp del]

definition int_to_string :: "int \<Rightarrow> string" where
  "int_to_string i = (if i < 0 then CHR ''-'' # nat_to_string (nat (- i)) else nat_to_string (nat i))"

definition is_digit :: "char \<Rightarrow> bool" where
  "is_digit c \<longleftrightarrow> 48 \<le> (of_char c :: nat) \<and> (of_char c :: nat) \<le> 57"

definition digit_val :: "char \<Rightarrow> nat" where
  "digit_val c = of_char c - 48"

definition digits_val :: "string \<Rightarrow> nat" where
  "digits_val s = foldl (\<lambda>a c. 10 * a + digit_val c) 0 s"

lemma digit_char_simps [simp]:
  "d < 10 \<Longrightarrow> is_digit (digit_char d)"
  "d < 10 \<Longrightarrow> digit_val (digit_char d) = d"
  by (simp_all add: is_digit_def digit_val_def digit_char_def)

lemma digit_char_inj: "d < 10 \<Longrightarrow> e < 10 \<Longrightarrow> digit_char d = digit_char e \<Longrightarrow> d = e"
  by (metis digit_char_simps(2))

lemma nat_to_string_digits: "list_all is_digit (nat_to_string n)"
proof (induction n rule: nat_to_string.induct)
  case (1 n)
  then show ?case by (subst nat_to_string.simps) auto
qed

lemma nat_to_string_not_Nil [simp]: "nat_to_string n \<noteq> []"
  by (subst nat_to_string.simps) simp

lemma digits_val_nat_to_string [simp]: "digits_val (nat_to_string n) = n"
proof (induction n rule: nat_to_string.induct)
  case (1 n)
  then show ?case by (subst nat_to_string.simps) (auto simp: digits_val_def)
qed

lemma nat_to_string_inj [simp]: "nat_to_string m = nat_to_string n \<longleftrightarrow> m = n"
  by (metis digits_val_nat_to_string)

lemma nat_to_string_no_char:
  assumes "\<not> is_digit c" shows "c \<notin> set (nat_to_string n)"
  using nat_to_string_digits [of n] assms by (auto simp: list_all_iff)

lemma slash_not_in_nat_to_string [simp]: "CHR ''/'' \<notin> set (nat_to_string n)"
  by (rule nat_to_string_no_char) (simp add: is_digit_def)

lemma minus_not_in_nat_to_string [simp]: "CHR ''-'' \<notin> set (nat_to_string n)"
  by (rule nat_to_string_no_char) (simp add: is_digit_def)

lemma nat_to_string_neq_minus [simp]:
  "nat_to_string n \<noteq> CHR ''-'' # s" "CHR ''-'' # s \<noteq> nat_to_string n"
  using minus_not_in_nat_to_string [of n] by (metis list.set_intros(1))+

lemma int_to_string_inj [simp]: "int_to_string i = int_to_string j \<longleftrightarrow> i = j"
  by (cases "i < 0"; cases "j < 0") (auto simp: int_to_string_def)

section \<open>Plain objects\<close>

text \<open>
  A plain object is the association list of its own properties in the order in which
  \<open>for (k in o)\<close> visits them: array-index keys first, ascending, then the other keys in the order
  in which they were created. Writing an existing property keeps its place.
\<close>

definition is_index_key :: "string \<Rightarrow> bool" where
  "is_index_key k \<longleftrightarrow>
     k \<noteq> [] \<and> list_all is_digit k \<and> (hd k = CHR ''0'' \<longrightarrow> tl k = []) \<and> digits_val k < 4294967295"

definition key_before :: "string \<Rightarrow> string \<Rightarrow> bool" where
  "key_before k k' \<longleftrightarrow>
     is_index_key k \<and> (\<not> is_index_key k' \<or> digits_val k < digits_val k')"

fun oinsert :: "string \<Rightarrow> 'a \<Rightarrow> (string \<times> 'a) list \<Rightarrow> (string \<times> 'a) list" where
  "oinsert k v [] = [(k, v)]"
| "oinsert k v ((k', v') # o') =
     (if key_before k k' then (k, v) # (k', v') # o' else (k', v') # oinsert k v o')"

definition oput :: "string \<Rightarrow> 'a \<Rightarrow> (string \<times> 'a) list \<Rightarrow> (string \<times> 'a) list" where
  "oput k v o' =
     (if k \<in> fst ` set o' then map (\<lambda>p. if fst p = k then (k, v) else p) o'
      else oinsert k v o')"

definition odel :: "string \<Rightarrow> (string \<times> 'a) list \<Rightarrow> (string \<times> 'a) list" where
  "odel k o' = filter (\<lambda>(k', v). k' \<noteq> k) o'"

lemmas obj_eval = oput_def key_before_def is_index_key_def is_digit_def digits_val_def digit_val_def

abbreviation okeys :: "(string \<times> 'a) list \<Rightarrow> string list" where
  "okeys \<equiv> map fst"

lemma map_of_oinsert: "k \<notin> fst ` set o' \<Longrightarrow> map_of (oinsert k v o') = (map_of o')(k \<mapsto> v)"
  by (induction o') (auto simp: fun_eq_iff)

abbreviation oreplace :: "string \<Rightarrow> 'a \<Rightarrow> (string \<times> 'a) list \<Rightarrow> (string \<times> 'a) list" where
  "oreplace k v \<equiv> map (\<lambda>p. if fst p = k then (k, v) else p)"

lemma map_of_oreplace:
  "map_of (oreplace k v o') = (if k \<in> fst ` set o' then (map_of o')(k \<mapsto> v) else map_of o')"
  by (induction o') (auto simp: fun_eq_iff image_iff)

lemma okeys_oreplace [simp]: "okeys (oreplace k v o') = okeys o'"
  by (induction o') auto

lemma map_of_oput [simp]: "map_of (oput k v o') = (map_of o')(k \<mapsto> v)"
  by (simp add: oput_def map_of_oreplace map_of_oinsert)

lemma map_of_odel [simp]: "map_of (odel k o') = (map_of o')(k := None)"
  by (induction o') (auto simp: odel_def fun_eq_iff)

lemma set_oinsert: "set (oinsert k v o') = insert (k, v) (set o')"
  by (induction k v o' rule: oinsert.induct) auto

lemma fst_set_oreplace: "fst ` set (oreplace k v o') = fst ` set o'"
  using okeys_oreplace [of k v o'] by (metis list.set_map)

lemma fst_set_oput [simp]: "fst ` set (oput k v o') = insert k (fst ` set o')"
  by (cases "k \<in> fst ` set o'")
    (simp_all only: oput_def if_True if_False fst_set_oreplace set_oinsert image_insert
      insert_absorb fst_conv)

lemma distinct_oinsert: "k \<notin> fst ` set o' \<Longrightarrow> distinct (okeys o') \<Longrightarrow> distinct (okeys (oinsert k v o'))"
  by (induction o') (auto simp: set_oinsert image_iff)

lemma distinct_oput [inv_intros]: "distinct (okeys o') \<Longrightarrow> distinct (okeys (oput k v o'))"
  by (cases "k \<in> fst ` set o'")
    (simp_all only: oput_def if_True if_False okeys_oreplace distinct_oinsert not_False_eq_True)

lemma distinct_odel [inv_intros]: "distinct (okeys o') \<Longrightarrow> distinct (okeys (odel k o'))"
  by (induction o') (auto simp: odel_def)

lemma fst_set_odel [simp]: "fst ` set (odel k o') = fst ` set o' - {k}"
  by (auto simp: odel_def)

end
