(* ===== verification/Js_Value.thy ===== *)
theory Js_Value
  imports Js_Prelude
begin

text \<open>
  The JavaScript values the database handles: JSON values and \<open>undefined\<close>, with the operators
  of the language and of ramda the code applies to them. Numbers are integers (the safe integers
  of JavaScript; fractions, \<open>NaN\<close> and infinities as stored data are outside the model), strings
  are sequences of code units below 256, objects are in enumeration order (\<open>Js_Prelude\<close>).
  Inherited properties of \<open>Object.prototype\<close> are not visible through \<open>jget\<close>.
\<close>

datatype jv =
    JUndef
  | JNull
  | JBool bool
  | JNum int
  | JStr string
  | JArr "jv list"
  | JObj "(string \<times> jv) list"

lemma size_JObj_snd [termination_simp]:
  "(k, v) \<in> set o' \<Longrightarrow> size v < Suc (size_list (size_prod f size) o')"
  by (induction o') (auto simp: size_list_estimation)

section \<open>Nullish values, truthiness, property access\<close>

definition is_nil :: "jv \<Rightarrow> bool" where
  "is_nil v \<longleftrightarrow> v = JUndef \<or> v = JNull"

definition nullish :: "jv \<Rightarrow> jv \<Rightarrow> jv" where
  "nullish a b = (if is_nil a then b else a)"

fun truthy :: "jv \<Rightarrow> bool" where
  "truthy JUndef = False"
| "truthy JNull = False"
| "truthy (JBool b) = b"
| "truthy (JNum n) = (n \<noteq> 0)"
| "truthy (JStr s) = (s \<noteq> [])"
| "truthy (JArr xs) = True"
| "truthy (JObj o') = True"

lemma is_nil_simps [simp]:
  "is_nil JUndef" "is_nil JNull" "\<not> is_nil (JBool b)" "\<not> is_nil (JNum n)" "\<not> is_nil (JStr s)"
  "\<not> is_nil (JArr xs)" "\<not> is_nil (JObj o')"
  by (simp_all add: is_nil_def)

lemma truthy_not_nil: "truthy v \<Longrightarrow> \<not> is_nil v"
  by (cases v) auto

lemma nullish_simps [simp]:
  "is_nil a \<Longrightarrow> nullish a b = b"
  "\<not> is_nil a \<Longrightarrow> nullish a b = a"
  by (simp_all add: nullish_def)

definition opt_jv :: "jv option \<Rightarrow> jv" where
  "opt_jv m = (case m of None \<Rightarrow> JUndef | Some v \<Rightarrow> v)"

lemma opt_jv_simps [simp]: "opt_jv None = JUndef" "opt_jv (Some v) = v"
  by (simp_all add: opt_jv_def)

text \<open>
  \<open>jget v k\<close> is \<open>v?.[k]\<close>: \<open>undefined\<close> on a nullish value. \<open>jprop v k\<close> is \<open>v[k]\<close>, which throws there.
\<close>

fun jget :: "jv \<Rightarrow> string \<Rightarrow> jv" where
  "jget (JObj o') k = opt_jv (map_of o' k)"
| "jget (JArr xs) k =
     (if k = ''length'' then JNum (int (length xs))
      else if is_index_key k \<and> digits_val k < length xs then xs ! digits_val k
      else JUndef)"
| "jget (JStr s) k =
     (if k = ''length'' then JNum (int (length s))
      else if is_index_key k \<and> digits_val k < length s then JStr [s ! digits_val k]
      else JUndef)"
| "jget v k = JUndef"

definition jprop :: "jv \<Rightarrow> string \<Rightarrow> jv res" where
  "jprop v k = (if is_nil v then Inl (TypeErr ''Cannot read properties'') else Inr (jget v k))"

definition jidx :: "jv list \<Rightarrow> nat \<Rightarrow> jv" where
  "jidx xs i = (if i < length xs then xs ! i else JUndef)"

lemma jidx_simps [simp]:
  "jidx [] i = JUndef"
  "jidx (x # xs) 0 = x"
  "jidx (x # xs) (Suc i) = jidx xs i"
  by (simp_all add: jidx_def)

text \<open>\<open>v[k] = w\<close> on an object; other values that are not nullish ignore it here.\<close>

fun jset :: "jv \<Rightarrow> string \<Rightarrow> jv \<Rightarrow> jv" where
  "jset (JObj o') k w = JObj (oput k w o')"
| "jset v k w = v"

fun jdel :: "jv \<Rightarrow> string \<Rightarrow> jv" where
  "jdel (JObj o') k = JObj (odel k o')"
| "jdel v k = v"

lemma jget_jset [simp]:
  "jget (jset (JObj o') k w) k' = (if k' = k then w else jget (JObj o') k')"
  by simp

lemma jget_jdel [simp]:
  "jget (jdel (JObj o') k) k' = (if k' = k then JUndef else jget (JObj o') k')"
  by simp

fun is_obj :: "jv \<Rightarrow> bool" where
  "is_obj (JObj o') = True"
| "is_obj v = False"

fun is_arr :: "jv \<Rightarrow> bool" where
  "is_arr (JArr xs) = True"
| "is_arr v = False"

fun is_str :: "jv \<Rightarrow> bool" where
  "is_str (JStr s) = True"
| "is_str v = False"

text \<open>\<open>R.is(Object, v)\<close>: arrays are objects too.\<close>

definition is_object :: "jv \<Rightarrow> bool" where
  "is_object v \<longleftrightarrow> is_obj v \<or> is_arr v"

text \<open>The own keys in the order of \<open>Object.keys\<close> and of \<open>for (k in v)\<close>; ramda's \<open>keys\<close> is \<open>[]\<close> on a
  primitive.\<close>

fun jkeys :: "jv \<Rightarrow> string list" where
  "jkeys (JObj o') = okeys o'"
| "jkeys (JArr xs) = map nat_to_string [0..<length xs]"
| "jkeys v = []"

fun jelems :: "jv \<Rightarrow> jv list" where
  "jelems (JArr xs) = xs"
| "jelems v = []"

text \<open>\<open>R.path(p, v)\<close>: stops with \<open>undefined\<close> at a nullish value.\<close>

fun jpath :: "string list \<Rightarrow> jv \<Rightarrow> jv" where
  "jpath [] v = v"
| "jpath (k # ks) v = (if is_nil v then JUndef else jpath ks (jget v k))"

section \<open>Equality\<close>

text \<open>
  \<open>===\<close> on primitives; two objects obtained from different reads are different references.
  ramda's \<open>equals\<close> compares structurally and ignores the order of keys.
\<close>

definition js_eq :: "jv \<Rightarrow> jv \<Rightarrow> bool" where
  "js_eq a b \<longleftrightarrow> a = b \<and> \<not> is_object a"

fun jequals :: "jv \<Rightarrow> jv \<Rightarrow> bool" and jequals_list :: "jv list \<Rightarrow> jv list \<Rightarrow> bool"
  and jequals_props :: "(string \<times> jv) list \<Rightarrow> (string \<times> jv) list \<Rightarrow> bool" where
  "jequals (JArr xs) (JArr ys) = jequals_list xs ys"
| "jequals (JObj p) (JObj q) = (length p = length q \<and> jequals_props p q)"
| "jequals a b = (a = b)"
| "jequals_list [] [] = True"
| "jequals_list (x # xs) (y # ys) = (jequals x y \<and> jequals_list xs ys)"
| "jequals_list xs ys = False"
| "jequals_props [] q = True"
| "jequals_props ((k, v) # p) q =
     ((case map_of q k of None \<Rightarrow> False | Some w \<Rightarrow> jequals v w) \<and> jequals_props p q)"

text \<open>Values whose objects have no duplicate keys, at every depth.\<close>

fun jwf :: "jv \<Rightarrow> bool" where
  "jwf (JArr xs) = list_all jwf xs"
| "jwf (JObj p) = (distinct (okeys p) \<and> list_all (\<lambda>kv. jwf (snd kv)) p)"
| "jwf v = True"

lemma jequals_props_refl:
  "distinct (okeys q) \<Longrightarrow> set p \<subseteq> set q \<Longrightarrow> \<forall>(k, v) \<in> set p. jequals v v \<Longrightarrow> jequals_props p q"
  by (induction p) (auto simp: map_of_is_SomeI)

lemma jequals_list_refl: "(\<And>x. x \<in> set xs \<Longrightarrow> jequals x x) \<Longrightarrow> jequals_list xs xs"
  by (induction xs) auto

lemma jequals_refl: "jwf v \<Longrightarrow> jequals v v"
proof (induction v)
  case (JArr xs)
  then show ?case by (auto intro!: jequals_list_refl simp: list_all_iff)
next
  case (JObj p)
  have "jequals w w" if "(k, w) \<in> set p" for k w
    using JObj that by (auto simp: list_all_iff)
  with JObj.prems show ?case by (auto intro!: jequals_props_refl)
qed auto

section \<open>Conversions and the relational operator\<close>

definition quote_char :: char where
  "quote_char = CHR 0x22"

definition hex_digit :: "nat \<Rightarrow> char" where
  "hex_digit d = (if d < 10 then char_of (48 + d) else char_of (87 + d))"

definition json_escape_char :: "char \<Rightarrow> string" where
  "json_escape_char c =
     (if c = CHR 0x22 then [CHR 0x5C, CHR 0x22]
      else if c = CHR 0x5C then [CHR 0x5C, CHR 0x5C]
      else if c = CHR 0x08 then [CHR 0x5C, CHR ''b'']
      else if c = CHR 0x0C then [CHR 0x5C, CHR ''f'']
      else if c = CHR 0x0A then [CHR 0x5C, CHR ''n'']
      else if c = CHR 0x0D then [CHR 0x5C, CHR ''r'']
      else if c = CHR 0x09 then [CHR 0x5C, CHR ''t'']
      else if (of_char c :: nat) < 32 then
        [CHR 0x5C] @ ''u00'' @ [hex_digit (of_char c div 16), hex_digit (of_char c mod 16)]
      else [c])"

definition json_quote :: "string \<Rightarrow> string" where
  "json_quote s = [quote_char] @ concat (map json_escape_char s) @ [quote_char]"

text \<open>\<open>JSON.stringify\<close> (\<open>undefined\<close> is \<open>null\<close> inside an array and left out of an object).\<close>

fun stringify :: "jv \<Rightarrow> string" where
  "stringify JUndef = ''null''"
| "stringify JNull = ''null''"
| "stringify (JBool b) = (if b then ''true'' else ''false'')"
| "stringify (JNum n) = int_to_string n"
| "stringify (JStr s) = json_quote s"
| "stringify (JArr xs) = ''['' @ join_with '','' (map stringify xs) @ '']''"
| "stringify (JObj p) =
     ''{'' @ join_with '','' (map (\<lambda>(k, v). json_quote k @ '':'' @ stringify v)
       (filter (\<lambda>(k, v). v \<noteq> JUndef) p)) @ ''}''"

text \<open>\<open>String(v)\<close>, template interpolation.\<close>

fun to_str :: "jv \<Rightarrow> string" where
  "to_str JUndef = ''undefined''"
| "to_str JNull = ''null''"
| "to_str (JBool b) = (if b then ''true'' else ''false'')"
| "to_str (JNum n) = int_to_string n"
| "to_str (JStr s) = s"
| "to_str (JArr xs) = join_with '','' (map (\<lambda>x. if is_nil x then '''' else to_str x) xs)"
| "to_str (JObj p) = ''[object Object]''"

definition is_space :: "char \<Rightarrow> bool" where
  "is_space c \<longleftrightarrow> c = CHR 0x20 \<or> (9 \<le> (of_char c :: nat) \<and> (of_char c :: nat) \<le> 13) \<or> c = CHR 0xA0"

definition trim :: "string \<Rightarrow> string" where
  "trim s = rev (dropWhile is_space (rev (dropWhile is_space s)))"

text \<open>
  \<open>Number(s)\<close> on decimal integer literals; \<open>None\<close> is \<open>NaN\<close>. (Literals with a fraction, an exponent
  or a radix prefix denote no value of the model and are read as \<open>NaN\<close>.)
\<close>

definition str_to_num :: "string \<Rightarrow> int option" where
  "str_to_num s =
     (let t = trim s in
      if t = [] then Some 0
      else let (sg, u) = (if hd t = CHR ''-'' then (-1, tl t)
                          else if hd t = CHR ''+'' then (1, tl t) else (1, t))
           in if u \<noteq> [] \<and> list_all is_digit u then Some (sg * int (digits_val u)) else None)"

fun to_num :: "jv \<Rightarrow> int option" where
  "to_num JUndef = None"
| "to_num JNull = Some 0"
| "to_num (JBool b) = Some (if b then 1 else 0)"
| "to_num (JNum n) = Some n"
| "to_num (JStr s) = str_to_num s"
| "to_num v = str_to_num (to_str v)"

fun to_prim :: "jv \<Rightarrow> jv" where
  "to_prim (JArr xs) = JStr (to_str (JArr xs))"
| "to_prim (JObj p) = JStr (to_str (JObj p))"
| "to_prim v = v"

definition js_lt :: "jv \<Rightarrow> jv \<Rightarrow> bool" where
  "js_lt a b =
     (case (to_prim a, to_prim b) of
        (JStr s, JStr t) \<Rightarrow> s < t
      | (x, y) \<Rightarrow> (case (to_num x, to_num y) of (Some m, Some n) \<Rightarrow> m < n | _ \<Rightarrow> False))"

lemma js_lt_num [simp]: "js_lt (JNum m) (JNum n) \<longleftrightarrow> m < n"
  by (simp add: js_lt_def)

lemma js_lt_str [simp]: "js_lt (JStr s) (JStr t) \<longleftrightarrow> s < t"
  by (simp add: js_lt_def)

lemma js_lt_undef [simp]: "\<not> js_lt JUndef v" "\<not> js_lt v JUndef"
  by (cases v; simp add: js_lt_def split: option.splits)+

section \<open>ramda on lists\<close>

text \<open>\<open>includes\<close>, \<open>difference\<close>, \<open>intersection\<close>, \<open>without\<close>, \<open>uniq\<close> over strings; each keeps first
  occurrences only where ramda does.\<close>

definition difference :: "'a list \<Rightarrow> 'a list \<Rightarrow> 'a list" where
  "difference xs ys = filter (\<lambda>x. x \<notin> set ys) (rev (remdups (rev xs)))"

definition intersection :: "'a list \<Rightarrow> 'a list \<Rightarrow> 'a list" where
  "intersection xs ys = filter (\<lambda>x. x \<in> set xs) (rev (remdups (rev ys)))"

definition without :: "'a list \<Rightarrow> 'a list \<Rightarrow> 'a list" where
  "without rs xs = filter (\<lambda>x. x \<notin> set rs) xs"

definition uniq :: "'a list \<Rightarrow> 'a list" where
  "uniq xs = rev (remdups (rev xs))"

lemma set_difference [simp]: "set (difference xs ys) = set xs - set ys"
  by (auto simp: difference_def)

lemma set_intersection [simp]: "set (intersection xs ys) = set xs \<inter> set ys"
  by (auto simp: intersection_def)

lemma set_without [simp]: "set (without rs xs) = set xs - set rs"
  by (auto simp: without_def)

lemma set_uniq [simp]: "set (uniq xs) = set xs"
  by (simp add: uniq_def)

lemma distinct_uniq [simp]: "distinct (uniq xs)"
  by (simp add: uniq_def)

lemma difference_Nil_iff: "difference xs ys = [] \<longleftrightarrow> set xs \<subseteq> set ys"
  by (metis Diff_eq_empty_iff set_difference set_empty)

lemma length_difference_0_iff: "length (difference xs ys) = 0 \<longleftrightarrow> set xs \<subseteq> set ys"
  by (simp add: difference_Nil_iff)

section \<open>ramda on values\<close>

definition jmem :: "jv \<Rightarrow> jv list \<Rightarrow> bool" where
  "jmem x xs = list_ex (jequals x) xs"

fun juniq_from :: "jv list \<Rightarrow> jv list \<Rightarrow> jv list" where
  "juniq_from seen [] = []"
| "juniq_from seen (x # xs) = (if jmem x seen then juniq_from seen xs else x # juniq_from (x # seen) xs)"

definition juniq :: "jv list \<Rightarrow> jv list" where
  "juniq xs = juniq_from [] xs"

definition jdifference :: "jv list \<Rightarrow> jv list \<Rightarrow> jv list" where
  "jdifference xs ys = juniq (filter (\<lambda>x. \<not> jmem x ys) xs)"

definition jintersection :: "jv list \<Rightarrow> jv list \<Rightarrow> jv list" where
  "jintersection xs ys = juniq (filter (\<lambda>x. jmem x xs) ys)"

end
