(* ===== verification/Weave_Kv.thy ===== *)
theory Weave_Kv
  imports Js_Value
begin

text \<open>
  The storage stack under every database: the in-memory backend (\<open>core/src/io.js\<close>), the layered
  key-value store with its write-ahead log (\<open>core/src/weavekv.js\<close>, instantiated by \<open>kv.js\<close> and
  \<open>kv_nosql.js\<close>), and the \<open>dir/doc\<close> view of it that \<open>core/src/build.js\<close> hands to the devices.

  The layers of \<open>weavekv\<close> are \<open>kv_l\<close> (writes of the running transaction), \<open>kv_s\<close> (everything
  committed since start-up) and \<open>kv_io\<close> (the backend). \<open>commit\<close> moves \<open>kv_l\<close> to the queue \<open>kv_c\<close>;
  a flush, which the backend schedules later, drains the queue into the backend and the log. The
  two run as separate steps here, in any interleaving (\<open>kv_step\<close>).
\<close>

section \<open>The in-memory backend: io.js\<close>

datatype iokey = KStr string | KNum int | KArr "jv list" | KBuf string | KObj

text \<open>A buffer is given by its base64 text.\<close>

fun keyToString :: "iokey \<Rightarrow> string res" where
  "keyToString (KArr xs) = Inr (''__array__:'' @ stringify (JArr xs))"
| "keyToString (KBuf b) = Inr (''__buffer__:'' @ b)"
| "keyToString KObj = Inl (Err ''Object keys are not supported (use string, number, buffer, or array)'')"
| "keyToString (KStr s) = Inr (''__string__:'' @ s)"
| "keyToString (KNum n) = Inr (''__string__:'' @ int_to_string n)"

type_synonym io = "string \<rightharpoonup> jv"

definition io_put :: "iokey \<Rightarrow> jv \<Rightarrow> io \<Rightarrow> io res" where
  "io_put k v st = rbind (keyToString k) (\<lambda>s. Inr (st(s \<mapsto> v)))"

definition io_get :: "iokey \<Rightarrow> io \<Rightarrow> jv res" where
  "io_get k st = rbind (keyToString k) (\<lambda>s. Inr (nullish (opt_jv (st s)) JNull))"

definition io_remove :: "iokey \<Rightarrow> io \<Rightarrow> io res" where
  "io_remove k st = rbind (keyToString k) (\<lambda>s. Inr (st(s := None)))"

text \<open>String keys and \<open>[name, i]\<close> keys, the only ones \<open>weavekv\<close> uses, never throw.\<close>

definition skey :: "string \<Rightarrow> string" where
  "skey k = ''__string__:'' @ k"

definition sget :: "io \<Rightarrow> string \<Rightarrow> jv" where
  "sget st k = nullish (opt_jv (st (skey k))) JNull"

definition logkey :: "string \<Rightarrow> int \<Rightarrow> string" where
  "logkey name i = ''__array__:'' @ stringify (JArr [JStr name, JNum i])"

lemma skey_eq_iff [simp]: "skey k = skey k' \<longleftrightarrow> k = k'"
  by (simp add: skey_def)

lemma keyToString_KStr [simp]: "keyToString (KStr k) = Inr (skey k)"
  by (simp add: skey_def)

declare keyToString.simps(4) [simp del]

lemma io_get_str [simp]: "io_get (KStr k) st = Inr (sget st k)"
  by (simp add: io_get_def sget_def)

lemma io_put_str [simp]: "io_put (KStr k) v st = Inr (st(skey k \<mapsto> v))"
  by (simp add: io_put_def)

lemma io_remove_str [simp]: "io_remove (KStr k) st = Inr (st(skey k := None))"
  by (simp add: io_remove_def)

lemma io_put_log: "io_put (KArr [JStr name, JNum i]) v st = Inr (st(logkey name i \<mapsto> v))"
  by (simp add: io_put_def logkey_def)

lemma logkey_neq_skey [simp]: "logkey name i \<noteq> skey k" "skey k \<noteq> logkey name i"
  by (simp_all add: logkey_def skey_def)

lemma logkey_eq_iff [simp]: "logkey name i = logkey name j \<longleftrightarrow> i = j"
  by (simp add: logkey_def)

lemma logkey_wal_priv [simp]:
  "logkey ''__wal__'' i \<noteq> logkey ''__priv_wal__'' j" "logkey ''__priv_wal__'' i \<noteq> logkey ''__wal__'' j"
  by (simp_all add: logkey_def json_quote_def json_escape_char_def)

lemma sget_upd_other [simp]: "s \<noteq> skey k \<Longrightarrow> sget (st(s := v)) k = sget st k"
  by (simp add: sget_def)

lemma sget_upd_same: "sget (st(skey k := v)) k = nullish (opt_jv v) JNull"
  by (simp add: sget_def)

section \<open>The layered store: weavekv.js\<close>

record centry =
  ce_i :: int
  ce_cl :: "(string \<times> jv) list"
  ce_opt :: jv
  ce_state :: jv
  ce_info :: jv

text \<open>The argument of the callback \<open>fn\<close> after a flush.\<close>

record freport =
  fr_from :: "int option"
  fr_to :: int
  fr_count :: nat
  fr_data :: "jv list"
  fr_old :: "(string \<times> jv) list"

record wkv =
  kv_l :: "(string \<times> jv) list"
  kv_s :: "(string \<times> jv) list"
  kv_io :: io
  kv_i :: int
  kv_c :: "centry list"
  kv_on :: bool
  kv_log :: "freport list"

definition kv_new :: "io \<Rightarrow> wkv" where
  "kv_new st =
     (let current = sget st ''__meta__/current''
      in \<lparr>kv_l = [], kv_s = [], kv_io = st,
          kv_i = (if truthy current then (case jget current ''i'' of JNum n \<Rightarrow> n + 1 | _ \<Rightarrow> 0) else 0),
          kv_c = [], kv_on = False, kv_log = []\<rparr>)"

definition kv_get :: "wkv \<Rightarrow> string \<Rightarrow> jv" where
  "kv_get w k =
     nullish (opt_jv (map_of (kv_l w) k))
       (nullish (opt_jv (map_of (kv_s w) k)) (nullish (sget (kv_io w) k) JNull))"

definition kv_put :: "string \<Rightarrow> jv \<Rightarrow> wkv \<Rightarrow> wkv" where
  "kv_put k v w = w\<lparr>kv_l := oput k v (kv_l w)\<rparr>"

definition kv_del :: "string \<Rightarrow> wkv \<Rightarrow> wkv" where
  "kv_del k w = kv_put k JNull w"

definition kv_reset :: "wkv \<Rightarrow> wkv" where
  "kv_reset w = w\<lparr>kv_l := []\<rparr>"

text \<open>
  The method \<open>commit(opt, cb, state, info)\<close> (with no \<open>sync\<close> hook and \<open>cb = null\<close>, as the document
  store uses it): clone \<open>l\<close>, queue it, copy it to \<open>s\<close>, clear \<open>l\<close>, start a flush unless one is on,
  return the slot and the changes.
\<close>

definition kv_commit :: "jv \<Rightarrow> jv \<Rightarrow> jv \<Rightarrow> wkv \<Rightarrow> wkv \<times> int \<times> (string \<times> jv) list" where
  "kv_commit opt state info w =
     (let cl = kv_l w;
          w1 = w\<lparr>kv_c := kv_c w @ [\<lparr>ce_i = kv_i w, ce_cl = cl, ce_opt = opt, ce_state = state,
                                   ce_info = info\<rparr>],
                 kv_s := foldl (\<lambda>s (k, v). oput k v s) (kv_s w) cl\<rparr>;
          w2 = kv_reset w1;
          w3 = w2\<lparr>kv_on := True, kv_i := kv_i w + 1\<rparr>
      in (w3, kv_i w, cl))"

text \<open>The regular expression \<open>/^__.*$/\<close>: the dot matches no line terminator.\<close>

definition is_priv_key :: "string \<Rightarrow> bool" where
  "is_priv_key k \<longleftrightarrow> starts_with ''__'' k \<and> CHR 0x0A \<notin> set (drop 2 k) \<and> CHR 0x0D \<notin> set (drop 2 k)"

definition wal_data :: "centry \<Rightarrow> jv" where
  "wal_data e =
     JObj [(''i'', JNum (ce_i e)), (''opt'', ce_opt e),
           (''cl'', JObj (filter (\<lambda>(k, v). \<not> is_priv_key k) (ce_cl e))),
           (''ts'', jget (ce_info e) ''ts''),
           (''hashpath'', nullish (jget (ce_info e) ''hashpath'') JNull)]"

definition meta_current :: "centry \<Rightarrow> jv" where
  "meta_current e =
     JObj [(''i'', JNum (ce_i e)), (''ts'', jget (ce_info e) ''ts''),
           (''hashpath'', nullish (jget (ce_state e) ''hashpath'') JNull)]"

definition apply_change :: "io \<Rightarrow> string \<times> jv \<Rightarrow> io" where
  "apply_change st kv = (case kv of (k, v) \<Rightarrow> if v = JNull then st(skey k := None) else st(skey k \<mapsto> v))"

text \<open>One turn of the \<open>while (c.length > 0)\<close> loop inside the transaction.\<close>

definition flush_entry :: "io \<times> (string \<times> jv) list \<Rightarrow> centry \<Rightarrow> io \<times> (string \<times> jv) list" where
  "flush_entry so e =
     (case so of (st, old) \<Rightarrow>
        let (st1, old1) =
              foldl (\<lambda>(st, old) kv. (apply_change st kv,
                       if truthy (jget (ce_opt e) ''delta'') then oput (fst kv) (sget st (fst kv)) old
                       else old))
                (st, old) (ce_cl e);
            st2 = st1(logkey ''__wal__'' (ce_i e) \<mapsto> wal_data e);
            st3 = st2(logkey ''__priv_wal__'' (ce_i e) \<mapsto> wal_data e);
            st4 = st3(skey ''__meta__/current'' \<mapsto> meta_current e)
        in (st4, old1))"

text \<open>\<open>if (!from) from = i\<close> over the drained slots: \<open>0\<close> counts as not set.\<close>

definition from_step :: "int option \<Rightarrow> int \<Rightarrow> int option" where
  "from_step from i = (if from = None \<or> from = Some 0 then Some i else from)"

text \<open>
  A flush: the body of the inner \<open>commit()\<close> up to its recursive call. It does nothing but clear
  \<open>on\<close> when the queue is empty.
\<close>

definition kv_flush :: "wkv \<Rightarrow> wkv" where
  "kv_flush w =
     (if kv_c w = [] then w\<lparr>kv_on := False\<rparr>
      else let (st, old) = foldl flush_entry (kv_io w, []) (kv_c w)
           in w\<lparr>kv_io := st, kv_c := [], kv_on := True,
                kv_log := kv_log w @
                  [\<lparr>fr_from = foldl from_step None (map ce_i (kv_c w)),
                    fr_to = ce_i (last (kv_c w)),
                    fr_count = sum_list (map (\<lambda>e. length (ce_cl e)) (kv_c w)),
                    fr_data = map wal_data (kv_c w), fr_old = old\<rparr>]\<rparr>)"

section \<open>The dir/doc view: \<open>_store\<close> of build.js\<close>

definition dkey :: "string \<Rightarrow> string \<Rightarrow> string" where
  "dkey dir doc = dir @ ''/'' @ doc"

definition dget :: "wkv \<Rightarrow> string \<Rightarrow> string \<Rightarrow> jv" where
  "dget w dir doc = kv_get w (dkey dir doc)"

definition dput :: "string \<Rightarrow> string \<Rightarrow> jv \<Rightarrow> wkv \<Rightarrow> wkv" where
  "dput dir doc v w = kv_put (dkey dir doc) v w"

definition ddel :: "string \<Rightarrow> string \<Rightarrow> wkv \<Rightarrow> wkv" where
  "ddel dir doc w = kv_del (dkey dir doc) w"


section \<open>Reads after writes\<close>

text \<open>
  What the devices rely on: a key-value view whose reads see the last non-null write. It is stated
  for any state; the interpretation below discharges it for the layered store.
\<close>

locale kv_view =
  fixes get :: "'w \<Rightarrow> string \<Rightarrow> jv"
    and put :: "string \<Rightarrow> jv \<Rightarrow> 'w \<Rightarrow> 'w"
  assumes get_put_same: "\<not> is_nil v \<Longrightarrow> get (put k v w) k = v"
    and get_put_other: "k \<noteq> k' \<Longrightarrow> get (put k v w) k' = get w k'"
begin

definition puts :: "(string \<times> jv) list \<Rightarrow> 'w \<Rightarrow> 'w" where
  "puts kvs w = foldl (\<lambda>w (k, v). put k v w) w kvs"

lemma get_puts_other: "k \<notin> fst ` set kvs \<Longrightarrow> get (puts kvs w) k = get w k"
  by (induction kvs arbitrary: w) (auto simp: puts_def get_put_other)

lemma get_puts_mem:
  assumes "distinct (okeys kvs)" "(k, v) \<in> set kvs" "\<not> is_nil v"
  shows "get (puts kvs w) k = v"
  using assms
proof (induction kvs arbitrary: w)
  case (Cons kv kvs)
  obtain k' v' where kv: "kv = (k', v')" by force
  have unf: "puts (kv # kvs) w = puts kvs (put k' v' w)" by (simp add: puts_def kv)
  show ?case
  proof (cases "(k, v) \<in> set kvs")
    case True
    with Cons show ?thesis by (simp add: unf)
  next
    case False
    with Cons.prems kv have "k' = k" "v' = v" "k \<notin> fst ` set kvs" by auto
    with Cons.prems(3) show ?thesis by (simp add: unf get_puts_other get_put_same)
  qed
qed simp

end

text \<open>A store with transactions: \<open>reset\<close> forgets every write since the last one.\<close>

locale kv_txn = kv_view get put
  for get :: "'w \<Rightarrow> string \<Rightarrow> jv"
    and put :: "string \<Rightarrow> jv \<Rightarrow> 'w \<Rightarrow> 'w" +
  fixes reset :: "'w \<Rightarrow> 'w"
  assumes reset_put: "reset (put k v w) = reset w"
    and reset_reset: "reset (reset w) = reset w"
begin

lemma reset_puts: "reset (puts kvs w) = reset w"
  by (induction kvs arbitrary: w) (auto simp: puts_def reset_put)

lemma rollback: "w = reset w \<Longrightarrow> get (reset (puts kvs w)) k = get w k"
  by (metis reset_puts)

end

interpretation wkv: kv_txn kv_get kv_put kv_reset
  by unfold_locales (auto simp: kv_get_def kv_put_def kv_reset_def)

lemma kv_get_put_same [kv_simps]: "\<not> is_nil v \<Longrightarrow> kv_get (kv_put k v w) k = v"
  by (rule wkv.get_put_same)

lemma kv_get_put_other [kv_simps]: "k \<noteq> k' \<Longrightarrow> kv_get (kv_put k v w) k' = kv_get w k'"
  by (rule wkv.get_put_other)

lemma kv_get_del_other [kv_simps]: "k \<noteq> k' \<Longrightarrow> kv_get (kv_del k w) k' = kv_get w k'"
  by (simp add: kv_del_def kv_get_put_other)

lemma kv_get_del_same:
  "kv_get (kv_del k w) k = nullish (opt_jv (map_of (kv_s w) k)) (nullish (sget (kv_io w) k) JNull)"
  by (simp add: kv_del_def kv_get_def kv_put_def)

text \<open>Keys \<open>dir/doc\<close> of different documents differ as soon as the document names hold no slash.\<close>

lemma dkey_inj:
  assumes "CHR ''/'' \<notin> set doc" "CHR ''/'' \<notin> set doc'"
  shows "dkey dir doc = dkey dir' doc' \<longleftrightarrow> dir = dir' \<and> doc = doc'"
proof
  assume "dkey dir doc = dkey dir' doc'"
  then have "rev doc @ CHR ''/'' # rev dir = rev doc' @ CHR ''/'' # rev dir'"
    by (metis append_Cons append_Nil append_assoc dkey_def rev.simps(2) rev_append rev_rev_ident)
  then have "split_on (CHR ''/'') (rev doc @ CHR ''/'' # rev dir)
           = split_on (CHR ''/'') (rev doc' @ CHR ''/'' # rev dir')" by simp
  with assms have "rev doc = rev doc'" by (simp add: split_on_append)
  with \<open>rev doc @ _ = _\<close> show "dir = dir' \<and> doc = doc'" by simp
qed (simp add: dkey_def)

lemma dkey_dir_neq:
  "CHR ''/'' \<notin> set dir \<Longrightarrow> CHR ''/'' \<notin> set dir' \<Longrightarrow> dir \<noteq> dir' \<Longrightarrow> dkey dir doc \<noteq> dkey dir' doc'"
  by (metis append_Cons append_Nil dkey_def list.inject split_on_append)

end
