(* ===== verification/Kv_Durability.thy ===== *)
theory Kv_Durability
  imports Weave_Kv
begin

text \<open>
  The layered store as a state machine: any interleaving of writes, deletions, resets, commits
  and flushes. The log is contiguous and complete, what is flushed is what was committed, the
  public log holds no private key, and at rest the layers read as the backend does. The reads of a
  deleted key before its flush are the exception the last section is about.
\<close>

section \<open>One flushed entry\<close>

lemma fst_foldl_changes:
  "fst (foldl (\<lambda>p kv. (f (fst p) kv, g p kv)) so cl) = foldl f (fst so) cl"
  by (induction cl arbitrary: so) auto

lemma fst_flush_entry:
  "fst (flush_entry so e) =
     (foldl apply_change (fst so) (ce_cl e))
       (logkey ''__wal__'' (ce_i e) \<mapsto> wal_data e, logkey ''__priv_wal__'' (ce_i e) \<mapsto> wal_data e,
        skey ''__meta__/current'' \<mapsto> meta_current e)"
  by (simp add: flush_entry_def Let_def split_def fst_foldl_changes [where f = apply_change])

lemma apply_change_logkey [simp]: "apply_change st kv (logkey name i) = st (logkey name i)"
  by (cases kv) (simp add: apply_change_def)

lemma foldl_apply_change_logkey [simp]:
  "foldl apply_change st cl (logkey name i) = st (logkey name i)"
  by (induction cl arbitrary: st) auto

lemma sget_apply_change:
  "sget (apply_change st (k, v)) k' = (if k' = k then (if is_nil v then JNull else v) else sget st k')"
  by (cases v) (simp_all add: apply_change_def sget_def)

lemma flush_entry_log:
  "fst (flush_entry so e) (logkey ''__wal__'' j) =
     (if j = ce_i e then Some (wal_data e) else fst so (logkey ''__wal__'' j))"
  "fst (flush_entry so e) (logkey ''__priv_wal__'' j) =
     (if j = ce_i e then Some (wal_data e) else fst so (logkey ''__priv_wal__'' j))"
  by (simp_all add: fst_flush_entry)

lemma sget_flush_entry:
  "k \<noteq> ''__meta__/current'' \<Longrightarrow>
   sget (fst (flush_entry so e)) k = sget (foldl apply_change (fst so) (ce_cl e)) k"
  by (simp add: fst_flush_entry)

lemma sget_flush_meta: "sget (fst (flush_entry so e)) ''__meta__/current'' = meta_current e"
  by (simp add: fst_flush_entry sget_def meta_current_def)

text \<open>The layer \<open>s\<close> and the backend receive the same change list.\<close>

definition coh :: "(string \<times> jv) list \<Rightarrow> io \<Rightarrow> bool" where
  "coh s st \<longleftrightarrow>
     (\<forall>k v. k \<noteq> ''__meta__/current'' \<longrightarrow> map_of s k = Some v \<longrightarrow> sget st k = nullish v JNull)"

lemma coh_change: "coh s st \<Longrightarrow> coh (oput k v s) (apply_change st (k, v))"
  by (simp add: coh_def sget_apply_change nullish_def)

lemma coh_changes:
  "coh s st \<Longrightarrow> coh (foldl (\<lambda>s (k, v). oput k v s) s cl) (foldl apply_change st cl)"
  by (induction cl arbitrary: s st) (auto intro: coh_change)

lemma coh_flush_entry:
  "coh s (fst so) \<Longrightarrow> coh (foldl (\<lambda>s (k, v). oput k v s) s (ce_cl e)) (fst (flush_entry so e))"
  using coh_changes [of s "fst so" "ce_cl e"] by (auto simp: coh_def sget_flush_entry)

section \<open>The step relation\<close>

inductive kv_step :: "wkv \<Rightarrow> wkv \<Rightarrow> bool" where
  step_put: "kv_step w (kv_put k v w)"
| step_del: "kv_step w (kv_del k w)"
| step_reset: "kv_step w (kv_reset w)"
| step_commit: "kv_step w (fst (kv_commit opt state info w))"
| step_flush: "kv_step w (kv_flush w)"

inductive kv_reach :: "io \<Rightarrow> wkv \<Rightarrow> bool" where
  reach_start: "kv_reach st (kv_new st)"
| reach_step: "kv_reach st w \<Longrightarrow> kv_step w w' \<Longrightarrow> kv_reach st w'"

inductive_cases kv_stepE: "kv_step w w'"

text \<open>The backend as it will be once the queue is drained.\<close>

definition durable :: "wkv \<Rightarrow> io" where
  "durable w = fst (foldl flush_entry (kv_io w, []) (kv_c w))"

lemma fst_foldl_flush: "fst (foldl flush_entry (st, old) c) = fst (foldl flush_entry (st, old') c)"
proof (induction c rule: rev_induct)
  case (snoc e c)
  then show ?case by (simp add: fst_flush_entry)
qed simp

lemma durable_simps [simp]:
  "durable (kv_put k v w) = durable w"
  "durable (kv_reset w) = durable w"
  "durable (kv_flush w) = durable w"
  by (simp_all add: durable_def kv_put_def kv_reset_def kv_flush_def split_def Let_def)

lemma durable_commit:
  "durable (fst (kv_commit opt state info w)) =
     fst (flush_entry (durable w, snd (foldl flush_entry (kv_io w, []) (kv_c w)))
       \<lparr>ce_i = kv_i w, ce_cl = kv_l w, ce_opt = opt, ce_state = state, ce_info = info\<rparr>)"
  by (simp add: durable_def kv_commit_def kv_reset_def Let_def)

lemma kv_flush_io: "kv_io (kv_flush w) = durable w"
  by (simp add: kv_flush_def durable_def split_def Let_def)

lemma kv_flush_c [simp]: "kv_c (kv_flush w) = []"
  by (simp add: kv_flush_def split_def Let_def)

lemma kv_flush_l [simp]: "kv_l (kv_flush w) = kv_l w" "kv_s (kv_flush w) = kv_s w" "kv_i (kv_flush w) = kv_i w"
  by (simp_all add: kv_flush_def split_def Let_def)

lemma durable_quiet: "kv_c w = [] \<Longrightarrow> durable w = kv_io w"
  by (simp add: durable_def)

section \<open>Invariants\<close>

text \<open>
  \<open>i0\<close> is the first slot of this run. Queued slots are the last ones handed out, in order; every
  slot from \<open>i0\<close> on has its record in the log once drained; the restart record names the last slot.
\<close>

definition kv_inv :: "int \<Rightarrow> wkv \<Rightarrow> bool" where
  "kv_inv i0 w \<longleftrightarrow>
     i0 \<le> kv_i w - int (length (kv_c w)) \<and>
     map ce_i (kv_c w) = [kv_i w - int (length (kv_c w)) .. kv_i w - 1] \<and>
     (\<forall>j. i0 \<le> j \<longrightarrow> j < kv_i w \<longrightarrow>
        (\<exists>e. ce_i e = j \<and> durable w (logkey ''__wal__'' j) = Some (wal_data e)
             \<and> durable w (logkey ''__priv_wal__'' j) = Some (wal_data e))) \<and>
     (i0 < kv_i w \<longrightarrow> jget (sget (durable w) ''__meta__/current'') ''i'' = JNum (kv_i w - 1)) \<and>
     coh (kv_s w) (durable w)"

lemma kv_inv_new: "kv_inv (kv_i (kv_new st)) (kv_new st)"
  by (simp add: kv_inv_def kv_new_def Let_def coh_def)

lemma kv_inv_put [inv_intros]: "kv_inv i0 w \<Longrightarrow> kv_inv i0 (kv_put k v w)"
  unfolding kv_inv_def durable_simps by (simp add: kv_put_def)

lemma kv_inv_reset [inv_intros]: "kv_inv i0 w \<Longrightarrow> kv_inv i0 (kv_reset w)"
  unfolding kv_inv_def durable_simps by (simp add: kv_reset_def)

lemma kv_inv_flush [inv_intros]: "kv_inv i0 w \<Longrightarrow> kv_inv i0 (kv_flush w)"
  unfolding kv_inv_def durable_simps by simp

lemma kv_inv_commit [inv_intros]:
  assumes inv: "kv_inv i0 w"
  shows "kv_inv i0 (fst (kv_commit opt state info w))" (is "kv_inv i0 ?w'")
proof -
  let ?e = "\<lparr>ce_i = kv_i w, ce_cl = kv_l w, ce_opt = opt, ce_state = state, ce_info = info\<rparr>"
  have i': "kv_i ?w' = kv_i w + 1" and c': "kv_c ?w' = kv_c w @ [?e]"
    and s': "kv_s ?w' = foldl (\<lambda>s (k, v). oput k v s) (kv_s w) (ce_cl ?e)"
    by (simp_all add: kv_commit_def kv_reset_def Let_def)
  let ?old = "snd (foldl flush_entry (kv_io w, []) (kv_c w))"
  have d': "durable ?w' = fst (flush_entry (durable w, ?old) ?e)"
    by (rule durable_commit)
  have slots: "map ce_i (kv_c ?w') = [kv_i ?w' - int (length (kv_c ?w')) .. kv_i ?w' - 1]"
    using inv by (simp add: kv_inv_def c' i' upto_rec2)
  have wal: "\<exists>e. ce_i e = j \<and> durable ?w' (logkey ''__wal__'' j) = Some (wal_data e)
      \<and> durable ?w' (logkey ''__priv_wal__'' j) = Some (wal_data e)"
    if "i0 \<le> j" "j < kv_i ?w'" for j
  proof (cases "j = kv_i w")
    case True
    then show ?thesis unfolding d' flush_entry_log by (intro exI [of _ ?e]) simp
  next
    case False
    with that i' inv obtain e where "ce_i e = j" "durable w (logkey ''__wal__'' j) = Some (wal_data e)"
      "durable w (logkey ''__priv_wal__'' j) = Some (wal_data e)"
      by (auto simp: kv_inv_def)
    with False show ?thesis unfolding d' flush_entry_log by (intro exI [of _ e]) simp
  qed
  have meta: "jget (sget (durable ?w') ''__meta__/current'') ''i'' = JNum (kv_i ?w' - 1)"
    unfolding d' sget_flush_meta by (simp add: meta_current_def i')
  have "coh (kv_s ?w') (durable ?w')"
    unfolding d' s' using inv by (intro coh_flush_entry) (simp add: kv_inv_def)
  with slots wal meta inv show ?thesis
    by (simp add: kv_inv_def c' i')
qed

lemma kv_inv_step: "kv_step w w' \<Longrightarrow> kv_inv i0 w \<Longrightarrow> kv_inv i0 w'"
  by (erule kv_stepE) (auto simp: kv_del_def intro: inv_intros)

lemma kv_reach_inv: "kv_reach st w \<Longrightarrow> kv_inv (kv_i (kv_new st)) w"
  by (induction rule: kv_reach.induct) (auto intro: kv_inv_new kv_inv_step)


lemma kv_reach_idle: "kv_reach st w \<Longrightarrow> kv_i w = kv_i (kv_new st) \<Longrightarrow> durable w = st"
proof (induction rule: kv_reach.induct)
  case (reach_start st)
  then show ?case by (simp add: durable_def kv_new_def Let_def)
next
  case (reach_step st w w')
  from reach_step.hyps(1) have "kv_inv (kv_i (kv_new st)) w" by (rule kv_reach_inv)
  then have "kv_i (kv_new st) \<le> kv_i w" by (auto simp: kv_inv_def)
  with reach_step show ?case
    by (auto elim!: kv_stepE simp: kv_del_def)
      (auto simp: kv_put_def kv_reset_def kv_commit_def Let_def)
qed

section \<open>Properties\<close>

text \<open>A run used by the witnesses: two writes, a commit and a flush over an empty backend.\<close>

definition demo_kv :: wkv where
  "demo_kv =
     kv_flush (fst (kv_commit JNull JNull JNull
       (kv_put ''__zkp__/x'' (JNum 1) (kv_put ''posts/a'' (JNum 5) (kv_new Map.empty)))))"

lemma demo_kv_reach: "kv_reach Map.empty demo_kv"
  unfolding demo_kv_def
  by (rule reach_step, rule reach_step, rule reach_step, rule reach_step, rule reach_start)
    (rule step_put step_commit step_flush)+

lemma demo_kv_fields:
  "kv_c demo_kv = []" "kv_l demo_kv = []" "kv_i demo_kv = 1" "kv_i (kv_new Map.empty) = 0"
  "sget (kv_io demo_kv) ''posts/a'' = JNum 5"
proof -
  show "kv_c demo_kv = []" by (simp add: demo_kv_def)
  show "kv_l demo_kv = []" by (simp add: demo_kv_def kv_commit_def kv_reset_def Let_def)
  show "kv_i demo_kv = 1" "kv_i (kv_new Map.empty) = 0"
    by (simp_all add: demo_kv_def kv_commit_def kv_reset_def kv_put_def kv_new_def sget_def Let_def)
  show "sget (kv_io demo_kv) ''posts/a'' = JNum 5"
    unfolding demo_kv_def kv_flush_io durable_commit
    by (simp add: sget_flush_entry kv_put_def kv_new_def obj_eval sget_apply_change Let_def)
qed

text \<open>
  C13. The write-ahead log is complete: in every reachable state of the store, whatever the
  interleaving of writes, resets, commits and flushes, once the queue is drained every slot handed
  out since start-up has its record, and the record's change list holds no private (\<open>__\<close>) key.
\<close>

theorem wal_complete:
  assumes "kv_reach st w" "kv_c w = []" "kv_i (kv_new st) \<le> j" "j < kv_i w"
  shows "\<exists>d p. kv_io w (logkey ''__wal__'' j) = Some d \<and> jget d ''i'' = JNum j
    \<and> jget d ''cl'' = JObj p \<and> (\<forall>k v. (k, v) \<in> set p \<longrightarrow> \<not> is_priv_key k)"
proof -
  from kv_reach_inv [OF assms(1)] assms obtain e where
    "ce_i e = j" "kv_io w (logkey ''__wal__'' j) = Some (wal_data e)"
    by (auto simp: kv_inv_def durable_quiet)
  then show ?thesis by (auto simp: wal_data_def)
qed

theorem wal_complete_witness:
  "\<exists>d p. kv_io demo_kv (logkey ''__wal__'' 0) = Some d \<and> jget d ''i'' = JNum 0
    \<and> jget d ''cl'' = JObj p \<and> (\<forall>k v. (k, v) \<in> set p \<longrightarrow> \<not> is_priv_key k)"
  by (rule wal_complete [OF demo_kv_reach]) (simp_all add: demo_kv_fields)

text \<open>
  C14. A restart resumes where the log ends: opening the store again on the backend of a reachable
  state with a drained queue hands out the slot the running store would hand out next.
\<close>

theorem restart_resumes:
  assumes "kv_reach st w" "kv_c w = []"
  shows "kv_i (kv_new (kv_io w)) = kv_i w"
proof (cases "kv_i w = kv_i (kv_new st)")
  case True
  with kv_reach_idle [OF assms(1)] assms(2) show ?thesis by (simp add: durable_quiet)
next
  case False
  from kv_reach_inv [OF assms(1)] have inv: "kv_inv (kv_i (kv_new st)) w" .
  with False assms(2) have "jget (sget (kv_io w) ''__meta__/current'') ''i'' = JNum (kv_i w - 1)"
    by (auto simp: kv_inv_def durable_quiet)
  then show ?thesis
    by (cases "sget (kv_io w) ''__meta__/current''") (auto simp: kv_new_def Let_def split: if_splits)
qed

theorem restart_resumes_witness: "kv_i (kv_new (kv_io demo_kv)) = 1"
  using restart_resumes [OF demo_kv_reach] by (simp add: demo_kv_fields)

text \<open>
  At rest the layers are transparent: with no open transaction and a drained queue, every read
  through the two cache layers returns what the backend holds.
\<close>

theorem quiescent_read:
  assumes "kv_reach st w" "kv_c w = []" "kv_l w = []" "k \<noteq> ''__meta__/current''"
  shows "kv_get w k = sget (kv_io w) k"
proof -
  from kv_reach_inv [OF assms(1)] assms(2) have "coh (kv_s w) (kv_io w)"
    by (simp add: kv_inv_def durable_quiet)
  with assms(3,4) show ?thesis
    by (cases "map_of (kv_s w) k") (auto simp: kv_get_def coh_def nullish_def sget_def)
qed

theorem quiescent_read_witness: "kv_get demo_kv ''posts/a'' = JNum 5"
  using quiescent_read [OF demo_kv_reach, of "''posts/a''"] by (simp add: demo_kv_fields)

text \<open>
  A deletion is not visible to reads until it is flushed: on a resting store, deleting a stored
  key leaves \<open>get\<close> returning the old value inside the transaction and after its commit, since
  \<open>l[k] ?? s[k] ?? io.get(k)\<close> skips the \<open>null\<close> marker; only the flush makes it read as \<open>null\<close>.
\<close>

theorem delete_reads_stale:
  assumes "kv_reach st w" "kv_c w = []" "kv_l w = []" "k \<noteq> ''__meta__/current''"
    and "sget (kv_io w) k = v" "\<not> is_nil v"
  shows "kv_get (kv_del k w) k = v
    \<and> kv_get (fst (kv_commit opt state info (kv_del k w))) k = v
    \<and> kv_get (kv_flush (fst (kv_commit opt state info (kv_del k w)))) k = JNull"
proof -
  define w' where "w' = fst (kv_commit opt state info (kv_del k w))"
  from kv_reach_inv [OF assms(1)] assms(2) have coh: "coh (kv_s w) (kv_io w)"
    by (simp add: kv_inv_def durable_quiet)
  have del: "kv_get (kv_del k w) k = v"
    using coh assms(4-6)
    by (cases "map_of (kv_s w) k") (auto simp: kv_get_del_same coh_def nullish_def)
  have l: "kv_l (kv_del k w) = [(k, JNull)]" and s: "map_of (kv_s w') k = Some JNull"
    and l': "kv_l w' = []"
    by (simp_all add: w'_def kv_del_def kv_put_def assms(3) kv_commit_def kv_reset_def Let_def
        oput_def [of k JNull "[]"])
  have w': "kv_get w' k = v"
    using assms(5,6) by (simp add: kv_get_def s l')
      (simp add: w'_def kv_commit_def kv_reset_def kv_del_def kv_put_def Let_def)
  have "sget (kv_io (kv_flush w')) k = JNull"
    unfolding kv_flush_io w'_def durable_commit
    using assms(4) by (simp add: sget_flush_entry l sget_apply_change)
  with s l' have "kv_get (kv_flush w') k = JNull" by (simp add: kv_get_def)
  with w' del show ?thesis by (simp add: w'_def)
qed

theorem delete_reads_stale_witness:
  "kv_get (kv_del ''posts/a'' demo_kv) ''posts/a'' = JNum 5 \<and>
   kv_get (fst (kv_commit JNull JNull JNull (kv_del ''posts/a'' demo_kv))) ''posts/a'' = JNum 5 \<and>
   kv_get (kv_flush (fst (kv_commit JNull JNull JNull (kv_del ''posts/a'' demo_kv)))) ''posts/a'' = JNull"
  by (rule delete_reads_stale [OF demo_kv_reach]) (simp_all add: demo_kv_fields)

section \<open>Two slips of the flush\<close>

text \<open>The record of the private log is the public record: the private changes are stored nowhere
  in the log.\<close>

lemma private_log_is_public:
  assumes "kv_reach st w" "kv_c w = []" "kv_i (kv_new st) \<le> j" "j < kv_i w"
  shows "kv_io w (logkey ''__priv_wal__'' j) = kv_io w (logkey ''__wal__'' j)"
  using kv_reach_inv [OF assms(1)] assms by (auto simp: kv_inv_def durable_quiet)

text \<open>The first slot reported to the flush callback is wrong when the flush starts at slot \<open>0\<close>.\<close>

lemma flush_from_skips_slot_zero:
  "fr_from (last (kv_log (kv_flush (fst (kv_commit JNull JNull JNull
     (fst (kv_commit JNull JNull JNull (kv_new Map.empty)))))))) = Some 1"
  by (simp add: kv_flush_def kv_commit_def kv_reset_def kv_new_def sget_def Let_def split_def
      from_step_def)

end
