(* ===== verification/Monade.thy ===== *)
theory Monade
  imports Js_Prelude
begin

text \<open>
  The composition library of the database, \<open>monade/src/monade.js\<close> and \<open>monade/src/flow.js\<close>: the
  identity monad \<open>of\<close>, Kleisli arrows \<open>ka\<close> that collect steps, devices, and the flow interpreter
  that runs nested arrays of devices and branches. A throw inside a step is \<open>Inl\<close>. A promise is the
  result it settles with (\<open>pof\<close>, \<open>pka\<close>, \<open>pflow\<close>).
\<close>

section \<open>The monad: \<open>of\<close>\<close>

text \<open>
  A monad object is the value it holds. What a chained function returns is a monad or something
  else; chaining an arrow object directly is refused.
\<close>

datatype 'b mret = MMonad 'b | MOther

datatype ('e, 'a, 'b) callee = CFn "'a \<Rightarrow> 'e + 'b mret" | CArrow

definition mon_map :: "('a \<Rightarrow> 'e + 'b) \<Rightarrow> 'a \<Rightarrow> 'e + 'b" where
  "mon_map f ctx = f ctx"

definition mon_tap :: "('a \<Rightarrow> 'e + 'b) \<Rightarrow> 'a \<Rightarrow> 'e + 'a" where
  "mon_tap f ctx = rbind (f ctx) (\<lambda>_. Inr ctx)"

fun mon_chain :: "(string \<Rightarrow> 'e) \<Rightarrow> ('e, 'a, 'b) callee \<Rightarrow> 'a \<Rightarrow> 'e + 'b" where
  "mon_chain err CArrow ctx = Inl (err ''Cannot chain arrow directly. Use arrow.fn() to convert to function'')"
| "mon_chain err (CFn f) ctx =
     rbind (f ctx) (\<lambda>r. case r of MMonad b \<Rightarrow> Inr b | MOther \<Rightarrow> Inl (err ''fn must return monad''))"

definition mon_to :: "('a \<Rightarrow> 'e + 'b) \<Rightarrow> 'a \<Rightarrow> 'e + 'b" where
  "mon_to f ctx = f ctx"

text \<open>\<open>pof\<close>: the same operations on a promise.\<close>

definition pmon_map :: "('a \<Rightarrow> 'e + 'b) \<Rightarrow> 'e + 'a \<Rightarrow> 'e + 'b" where
  "pmon_map f run = rbind run f"

definition pmon_tap :: "('a \<Rightarrow> 'e + 'b) \<Rightarrow> 'e + 'a \<Rightarrow> 'e + 'a" where
  "pmon_tap f run = rbind run (\<lambda>v. rbind (f v) (\<lambda>_. Inr v))"

definition pmon_chain :: "(string \<Rightarrow> 'e) \<Rightarrow> ('e, 'a, 'b) callee \<Rightarrow> 'e + 'a \<Rightarrow> 'e + 'b" where
  "pmon_chain err f run = rbind run (mon_chain err f)"

section \<open>Arrows: \<open>ka\<close> and \<open>pka\<close>\<close>

type_synonym ('e, 'a) ka = "('a \<Rightarrow> 'e + 'a) list"

definition ka_new :: "('e, 'a) ka" where
  "ka_new = []"

definition ka_map :: "('a \<Rightarrow> 'e + 'a) \<Rightarrow> ('e, 'a) ka \<Rightarrow> ('e, 'a) ka" where
  "ka_map f steps = steps @ [f]"

definition ka_tap :: "('a \<Rightarrow> 'e + 'b) \<Rightarrow> ('e, 'a) ka \<Rightarrow> ('e, 'a) ka" where
  "ka_tap f steps = steps @ [mon_tap f]"

definition ka_chain :: "(string \<Rightarrow> 'e) \<Rightarrow> ('a \<Rightarrow> 'e + 'a mret) \<Rightarrow> ('e, 'a) ka \<Rightarrow> ('e, 'a) ka" where
  "ka_chain err k steps = steps @ [mon_chain err (CFn k)]"

definition ka_k :: "('e, 'a) ka \<Rightarrow> 'a \<Rightarrow> 'e + 'a" where
  "ka_k steps ctx = rfoldl (\<lambda>c v. v c) ctx steps"

text \<open>The arrow's \<open>k\<close> as a function to chain: it always returns a monad.\<close>

definition ka_fn :: "('e, 'a) ka \<Rightarrow> 'a \<Rightarrow> 'e + 'a mret" where
  "ka_fn steps ctx = rbind (ka_k steps ctx) (\<lambda>c. Inr (MMonad c))"

definition pka_k :: "(string \<Rightarrow> 'e) \<Rightarrow> ('e, 'a) ka \<Rightarrow> 'a \<Rightarrow> 'e + 'a" where
  "pka_k err steps ctx =
     foldl (\<lambda>mon f. pmon_chain err (CFn (\<lambda>v. rbind (f v) (\<lambda>c. Inr (MMonad c)))) mon) (Inr ctx) steps"

section \<open>Devices: \<open>dev\<close>\<close>

text \<open>A named method is a function of the context and the arguments, or an arrow.\<close>

datatype ('e, 'a, 'b) dmethod = DFn "'a \<Rightarrow> 'b \<Rightarrow> 'e + 'a" | DArrow "('e, 'a) ka"

definition dev_call ::
    "(string \<Rightarrow> 'e) \<Rightarrow> (string \<times> ('e, 'a, 'b) dmethod) list \<Rightarrow> string \<Rightarrow> 'b \<Rightarrow> ('e, 'a) ka
       \<Rightarrow> 'e + ('e, 'a) ka" where
  "dev_call err maps name args steps =
     (case map_of maps name of
        None \<Rightarrow> Inl (err ''not a function'')
      | Some (DFn f) \<Rightarrow> Inr (ka_map (\<lambda>ctx. f ctx args) steps)
      | Some (DArrow a) \<Rightarrow> Inr (ka_chain err (ka_fn a) steps))"

text \<open>
  \<open>pdev\<close>: the chained function is \<open>async\<close>, so what it returns is a promise, which does not
  carry the mark \<open>__monad__\<close> that \<open>pka\<close>'s \<open>chain\<close> looks for.
\<close>

definition pdev_call ::
    "(string \<Rightarrow> 'e) \<Rightarrow> (string \<times> ('e, 'a, 'b) dmethod) list \<Rightarrow> string \<Rightarrow> 'b \<Rightarrow> ('e, 'a) ka
       \<Rightarrow> 'e + ('e, 'a) ka" where
  "pdev_call err maps name args steps =
     (case map_of maps name of
        None \<Rightarrow> Inl (err ''not a function'')
      | Some (DFn f) \<Rightarrow> Inr (ka_map (\<lambda>ctx. f ctx args) steps)
      | Some (DArrow a) \<Rightarrow> Inr (ka_chain err (\<lambda>ctx. Inr MOther) steps))"

section \<open>\<open>opt\<close> and \<open>popt\<close>\<close>

text \<open>\<open>val()\<close> of an \<open>of\<close> never throws; a rejected promise becomes \<open>null\<close>.\<close>

definition mon_opt :: "'a \<Rightarrow> 'a option" where
  "mon_opt ctx = Some ctx"

definition pmon_opt :: "'e + 'a \<Rightarrow> 'a option" where
  "pmon_opt run = (case run of Inl e \<Rightarrow> None | Inr x \<Rightarrow> Some x)"

section \<open>The flow interpreter: flow.js\<close>

text \<open>
  What can stand in a flow: a function, an arrow, an array, a branch object (its own \<open>$pred\<close>, if
  any, and its entries), or a text, a number or \<open>undefined\<close>, which are skipped (\<open>null\<close>, which throws, stands in no
  route). A predicate picks the entry of the branch object by name, as the predicates of \<open>build.js\<close> do; with
  no predicate, or no such entry, the branch is skipped. \<open>match\<close> is the flow of functions that answer at once, as
  all functions of the synchronous routes do; a function that answers with a promise stands in flows of
  \<open>pmatch\<close> only, which waits for it. Predicates answer at once.
\<close>

datatype ('e, 'a) stage =
    SFn "'a \<Rightarrow> 'e + 'a"
  | SKa "('e, 'a) ka"
  | SSeq "('e, 'a) stage list"
  | SBranch "('a \<Rightarrow> string) option" "(string \<times> ('e, 'a) stage) list"
  | SOther

lemma size_branch_entry [termination_simp]:
  "map_of es n = Some v \<Longrightarrow> size v < Suc (k + size_list (\<lambda>x. Suc (size (snd x))) es)"
  by (induction es) (auto split: if_splits simp: trans_less_add2 less_SucI)

fun match :: "('a \<Rightarrow> string) option \<Rightarrow> ('e, 'a) stage \<Rightarrow> 'a \<Rightarrow> 'e + 'a" where
  "match pred (SSeq vs) ctx = rfoldl (\<lambda>c v. match pred v c) ctx vs"
| "match pred (SFn f) ctx = mon_map f ctx"
| "match pred (SKa a) ctx = ka_k a ctx"
| "match pred (SBranch own es) ctx =
     (case (case own of Some p \<Rightarrow> Some p | None \<Rightarrow> pred) of
        None \<Rightarrow> Inr ctx
      | Some p \<Rightarrow> (case map_of es (p ctx) of None \<Rightarrow> Inr ctx | Some v \<Rightarrow> match pred v ctx))"
| "match pred SOther ctx = Inr ctx"

definition flow :: "('e, 'a) stage \<Rightarrow> ('a \<Rightarrow> string) option \<Rightarrow> 'a \<Rightarrow> 'e + 'a" where
  "flow devs pred ctx = match pred devs ctx"

text \<open>\<open>pmatch\<close>, \<open>piterate\<close>, \<open>pcheckout\<close>: the monad is a promise.\<close>

fun pmatch :: "('a \<Rightarrow> string) option \<Rightarrow> ('e, 'a) stage \<Rightarrow> 'e + 'a \<Rightarrow> 'e + 'a" where
  "pmatch pred (SSeq vs) mon = foldl (\<lambda>m v. pmatch pred v m) mon vs"
| "pmatch pred (SFn f) mon = pmon_map f mon"
| "pmatch pred (SKa a) mon = rbind mon (ka_k a)"
| "pmatch pred (SBranch own es) mon =
     (case (case own of Some p \<Rightarrow> Some p | None \<Rightarrow> pred) of
        None \<Rightarrow> mon
      | Some p \<Rightarrow> rbind mon (\<lambda>ctx. case map_of es (p ctx) of
                                   None \<Rightarrow> mon | Some v \<Rightarrow> pmatch pred v mon))"
| "pmatch pred SOther mon = mon"

definition pflow :: "('e, 'a) stage \<Rightarrow> ('a \<Rightarrow> string) option \<Rightarrow> 'a \<Rightarrow> 'e + 'a" where
  "pflow devs pred ctx = pmatch pred devs (Inr ctx)"

section \<open>Lemmas\<close>

lemma ka_k_Nil [simp]: "ka_k [] ctx = Inr ctx"
  by (simp add: ka_k_def)

lemma ka_k_Cons [simp]: "ka_k (f # steps) ctx = rbind (f ctx) (ka_k steps)"
  by (simp add: ka_k_def cong: rbind_cong)

lemma ka_k_append: "ka_k (xs @ ys) ctx = rbind (ka_k xs ctx) (ka_k ys)"
  by (induction xs arbitrary: ctx) (auto simp: rbind_assoc cong: rbind_cong)

lemma mon_chain_ka_fn: "rbind (rbind m (\<lambda>c. Inr (MMonad c)))
    (\<lambda>r. case r of MMonad b \<Rightarrow> Inr b | MOther \<Rightarrow> Inl e) = m"
  by (cases m) auto

lemma ka_chain_arrow: "ka_k (ka_chain err (ka_fn b) a) ctx = ka_k (a @ b) ctx"
  by (simp add: ka_chain_def ka_k_append ka_fn_def mon_chain_ka_fn cong: rbind_cong)

lemma ka_chain_other: "ka_k (ka_chain err (\<lambda>_. Inr MOther) a) ctx =
    rbind (ka_k a ctx) (\<lambda>_. Inl (err ''fn must return monad''))"
  by (simp add: ka_chain_def ka_k_append cong: rbind_cong)

lemma pka_k_eq: "pka_k err steps ctx = ka_k steps ctx"
proof (induction steps rule: rev_induct)
  case (snoc f steps)
  then have "pka_k err (steps @ [f]) ctx = pmon_chain err (CFn (\<lambda>v. rbind (f v) (\<lambda>c. Inr (MMonad c))))
      (ka_k steps ctx)"
    by (simp add: pka_k_def)
  then show ?case
    by (simp add: pmon_chain_def ka_k_append mon_chain_ka_fn cong: rbind_cong)
qed (simp add: pka_k_def)

lemma match_seq_append:
  "match pred (SSeq (xs @ ys)) ctx = rbind (match pred (SSeq xs) ctx) (match pred (SSeq ys))"
  by (simp add: rfoldl_append cong: rbind_cong)

lemma foldl_pmatch_Inl: "(\<And>v. v \<in> set vs \<Longrightarrow> pmatch pred v (Inl e) = Inl e) \<Longrightarrow>
    foldl (\<lambda>m v. pmatch pred v m) (Inl e) vs = Inl e"
  by (induction vs) auto

text \<open>A rejected promise passes through every stage.\<close>

lemma pmatch_Inl [simp]: "pmatch pred v (Inl e) = Inl e"
proof (induction v)
  case (SSeq vs)
  then show ?case by (simp add: foldl_pmatch_Inl)
qed (auto simp: pmon_map_def split: option.splits)

lemma foldl_pmatch_rfoldl:
  assumes "\<And>v c. v \<in> set vs \<Longrightarrow> pmatch pred v (Inr c) = match pred v c"
  shows "foldl (\<lambda>m v. pmatch pred v m) (Inr c) vs = rfoldl (\<lambda>c v. match pred v c) c vs"
  using assms
proof (induction vs arbitrary: c)
  case (Cons v vs)
  have Inl: "foldl (\<lambda>m v. pmatch pred v m) (Inl e) vs = Inl e" for e :: 'a
    by (simp add: foldl_pmatch_Inl)
  from Cons show ?case by (cases "match pred v c") (simp_all add: Inl)
qed simp

lemma pmatch_Inr: "pmatch pred v (Inr c) = match pred v c"
proof (induction v arbitrary: c)
  case (SSeq vs)
  then show ?case by (simp add: foldl_pmatch_rfoldl)
next
  case (SBranch own es)
  have "pmatch pred v (Inr c) = match pred v c" if "map_of es n = Some v" for n v
    using SBranch [of "(n, v)" v] map_of_SomeD [OF that] by (simp add: snds.simps)
  then show ?case by (auto split: option.splits)
qed (simp_all add: pmon_map_def mon_map_def)

text \<open>The leaves of nested arrays, left to right.\<close>

fun flatten :: "('e, 'a) stage \<Rightarrow> ('e, 'a) stage list" where
  "flatten (SSeq vs) = concat (map flatten vs)"
| "flatten v = [v]"

lemma match_flatten: "match pred (SSeq (flatten v)) ctx = match pred v ctx"
proof (induction v arbitrary: ctx)
  case (SSeq vs)
  then show ?case
  proof (induction vs arbitrary: ctx)
    case (Cons v vs)
    then have "match pred (SSeq (flatten v)) c = match pred v c" for c by simp
    moreover have "match pred (SSeq (concat (map flatten vs))) c = match pred (SSeq vs) c" for c
      using Cons by simp
    moreover have "match pred (SSeq (flatten (SSeq (v # vs)))) ctx =
        rbind (match pred (SSeq (flatten v)) ctx) (match pred (SSeq (concat (map flatten vs))))"
      using match_seq_append [of pred "flatten v" "concat (map flatten vs)" ctx] by simp
    ultimately show ?case by (simp cong: rbind_cong)
  qed simp
qed (simp_all split: option.splits)

section \<open>Properties\<close>

text \<open>nested arrays of devices run as their flattened list, each stage fed the result of the one
  before it, and the first throw stops the run.\<close>

theorem flow_flattens:
  "flow devs pred ctx = rfoldl (\<lambda>c v. flow v pred c) ctx (flatten devs)"
  using match_flatten [of pred devs ctx] by (simp add: flow_def)

text \<open>chaining an arrow runs its steps after those of the receiver, for \<open>dev\<close>; a method of
  \<open>pdev\<close> that is an arrow never runs: every run that reaches it is rejected with
  \<open>fn must return monad\<close>.\<close>

theorem pdev_arrow_rejects:
  assumes "map_of maps name = Some (DArrow b)"
  shows "(\<exists>a'. dev_call err maps name args a = Inr a' \<and> ka_k a' ctx = ka_k (a @ b) ctx) \<and>
    (\<exists>p'. pdev_call err maps name args a = Inr p' \<and>
      pka_k err p' ctx = rbind (ka_k a ctx) (\<lambda>_. Inl (err ''fn must return monad'')))"
  using assms by (simp add: dev_call_def pdev_call_def ka_chain_arrow pka_k_eq ka_chain_other)

theorem pdev_arrow_rejects_witness:
  "(\<exists>a'. dev_call Err [(''inc'', DArrow [\<lambda>n. Inr (n + 1)])] ''inc'' () [] = Inr a' \<and>
      ka_k a' (1 :: int) = Inr 2) \<and>
    (\<exists>p'. pdev_call Err [(''inc'', DArrow [\<lambda>n. Inr (n + 1)])] ''inc'' () [] = Inr p' \<and>
      pka_k Err p' (1 :: int) = Inl (Err ''fn must return monad''))"
  using pdev_arrow_rejects [of "[(''inc'', DArrow [\<lambda>n. Inr (n + 1)])]" "''inc''" "[\<lambda>n. Inr (n + 1)]"
      Err "()" "[]" "1 :: int"] by simp

end
