(* ===== verification/Codec.thy ===== *)
theory Codec
  imports Js_Prelude "HOL-Library.Word"
begin

text \<open>
  The encoders of \<open>core/src/utils.js\<close>: document ids in base 64 (\<open>tob64\<close>), base64url of byte
  strings, addresses (\<open>wdb23\<close>, \<open>toAddr\<close>) and content ids in base 58 (\<open>toCID\<close>). Bytes are 8-bit
  words; \<open>bits\<close> and \<open>combined\<close> are the 32-bit integers on which JavaScript's bitwise operators
  work. SHA-256 is the package \<open>fast-sha256\<close>, a parameter.
\<close>

unbundle bit_operations_syntax

type_synonym bytes = "8 word list"

section \<open>Document ids: \<open>tob64\<close>\<close>

definition BASE64_CHARS :: string where
  "BASE64_CHARS = ''ABCDEFGHIJKLMNOPQRSTUVWXYZabcdefghijklmnopqrstuvwxyz0123456789-_''"

fun tob64_loop :: "nat \<Rightarrow> string \<Rightarrow> string" where
  "tob64_loop n result =
     (if n = 0 then result else tob64_loop (n div 64) ((BASE64_CHARS ! (n mod 64)) # result))"

declare tob64_loop.simps [simp del]

definition tob64 :: "int \<Rightarrow> string res" where
  "tob64 n =
     (if n < 0 then Inl (Err ''Only non-negative integers allowed'')
      else if n = 0 then Inr [BASE64_CHARS ! 0]
      else Inr (tob64_loop (nat n) []))"

section \<open>base64url of bytes\<close>

definition STD_CHARS :: string where
  "STD_CHARS = ''ABCDEFGHIJKLMNOPQRSTUVWXYZabcdefghijklmnopqrstuvwxyz0123456789+/''"

text \<open>\<open>chars.indexOf(c)\<close> as a 32-bit integer: \<open>-1\<close> where \<open>c\<close> does not occur.\<close>

fun find_index :: "'a \<Rightarrow> 'a list \<Rightarrow> nat option" where
  "find_index x [] = None"
| "find_index x (y # ys) = (if x = y then Some 0 else map_option Suc (find_index x ys))"

definition indexOf :: "string \<Rightarrow> char \<Rightarrow> 32 word" where
  "indexOf chars c = (case find_index c chars of None \<Rightarrow> - 1 | Some i \<Rightarrow> of_nat i)"

text \<open>\<open>str.replace(/-/g, "+").replace(/_/g, "/")\<close>\<close>

definition url_char :: "char \<Rightarrow> char" where
  "url_char c = (if c = CHR ''-'' then CHR ''+'' else if c = CHR ''_'' then CHR ''/'' else c)"

definition url_to_std :: "string \<Rightarrow> string" where
  "url_to_std s = map url_char s"

definition pad_url :: "string \<Rightarrow> string" where
  "pad_url s = s @ drop ((length s + 3) mod 4) ''===''"

text \<open>The inner loop over one group: the bits collected and their number.\<close>

definition b64_bits :: "string \<Rightarrow> 32 word \<times> nat" where
  "b64_bits encoded =
     foldl (\<lambda>(bits, validBits) c.
              if c \<noteq> CHR ''='' then (push_bit 6 bits OR indexOf STD_CHARS c, validBits + 6)
              else (bits, validBits))
       (0, 0) encoded"

fun b64_emit :: "32 word \<Rightarrow> nat \<Rightarrow> bytes" where
  "b64_emit bits validBits =
     (if 8 \<le> validBits
      then ucast (signed_drop_bit (validBits - 8) bits AND 0xff) # b64_emit bits (validBits - 8)
      else [])"

declare b64_emit.simps [simp del]

fun b64_groups :: "string \<Rightarrow> bytes" where
  "b64_groups [] = []"
| "b64_groups (c # cs) =
     (let (bits, validBits) = b64_bits (take 4 (c # cs))
      in b64_emit bits validBits @ b64_groups (drop 3 cs))"

definition base64urlToBytes :: "string \<Rightarrow> bytes" where
  "base64urlToBytes str = b64_groups (url_to_std (pad_url str))"

definition combine3 :: "8 word \<Rightarrow> 8 word \<Rightarrow> 8 word \<Rightarrow> 32 word" where
  "combine3 a b c = push_bit 16 (ucast a) OR push_bit 8 (ucast b) OR ucast c"

definition sextet :: "nat \<Rightarrow> 32 word \<Rightarrow> char" where
  "sextet s w = BASE64_CHARS ! unat (drop_bit s w AND 0x3f)"

fun bytesToBase64url :: "bytes \<Rightarrow> string" where
  "bytesToBase64url [] = []"
| "bytesToBase64url [a] = (let w = combine3 a 0 0 in [sextet 18 w, sextet 12 w])"
| "bytesToBase64url [a, b] = (let w = combine3 a b 0 in [sextet 18 w, sextet 12 w, sextet 6 w])"
| "bytesToBase64url (a # b # c # bs) =
     (let w = combine3 a b c
      in [sextet 18 w, sextet 12 w, sextet 6 w, sextet 0 w] @ bytesToBase64url bs)"

section \<open>Addresses\<close>

definition is_b64url_char :: "char \<Rightarrow> bool" where
  "is_b64url_char c \<longleftrightarrow> c \<in> set BASE64_CHARS"

text \<open>
  \<open>wdb23\<close> on a string: trim, check the length and the alphabet, decode, keep the first 20 bytes.
  Throws inside the \<open>try\<close> are rethrown with a prefix.
\<close>

definition str_space :: "char \<Rightarrow> bool" where
  "str_space c \<longleftrightarrow> c = CHR 0x20 \<or> (9 \<le> (of_char c :: nat) \<and> (of_char c :: nat) \<le> 13) \<or> c = CHR 0xA0"

definition str_trim :: "string \<Rightarrow> string" where
  "str_trim s = rev (dropWhile str_space (rev (dropWhile str_space s)))"

definition wdb23 :: "string \<Rightarrow> string res" where
  "wdb23 addr =
     (if addr = [] then Inl (Err ''Invalid Arweave address: must be a non-empty string'')
      else let a = str_trim addr in
      if length a \<noteq> 43 then Inl (Err ''Invalid Arweave address length: expected 43 characters, got '')
      else if \<not> list_all is_b64url_char a
      then Inl (Err ''Invalid Arweave address: contains invalid characters'')
      else let arweaveBytes = base64urlToBytes a in
      if length arweaveBytes \<noteq> 32
      then Inl (Err ''Failed to convert Arweave address: '')
      else Inr (''ar--'' @ bytesToBase64url (take 20 arweaveBytes)))"

text \<open>
  \<open>base64urlDecode\<close> with the host's \<open>atob\<close>, which throws on a character outside the alphabet.
\<close>

definition base64urlDecode :: "string \<Rightarrow> bytes res" where
  "base64urlDecode str =
     (let s = url_to_std str; pad = length s mod 4 in
      if pad = 1 then Inl (Err ''Invalid base64url string'')
      else if \<not> list_all (\<lambda>c. c \<in> set STD_CHARS) s then Inl (Err ''InvalidCharacterError'')
      else Inr (b64_groups (s @ (if pad = 2 then ''=='' else if pad = 3 then ''='' else []))))"

text \<open>The host's \<open>btoa\<close> (also \<open>Buffer.toString("base64")\<close>): the standard alphabet, padded.\<close>

fun btoa :: "bytes \<Rightarrow> string" where
  "btoa [] = []"
| "btoa [a] = (let w = combine3 a 0 0 in map (\<lambda>s. STD_CHARS ! unat (drop_bit s w AND 0x3f)) [18, 12] @ ''=='')"
| "btoa [a, b] =
     (let w = combine3 a b 0 in map (\<lambda>s. STD_CHARS ! unat (drop_bit s w AND 0x3f)) [18, 12, 6] @ ''='')"
| "btoa (a # b # c # bs) =
     (let w = combine3 a b c
      in map (\<lambda>s. STD_CHARS ! unat (drop_bit s w AND 0x3f)) [18, 12, 6, 0] @ btoa bs)"

definition std_to_url :: "string \<Rightarrow> string" where
  "std_to_url s =
     map (\<lambda>c. if c = CHR ''+'' then CHR ''-'' else if c = CHR ''/'' then CHR ''_'' else c)
       (filter (\<lambda>c. c \<noteq> CHR ''='') s)"

definition base64urlEncode :: "bytes \<Rightarrow> string" where
  "base64urlEncode bs = std_to_url (btoa bs)"

definition toAddr :: "(bytes \<Rightarrow> bytes) \<Rightarrow> string \<Rightarrow> string res" where
  "toAddr sha256 n = rbind (base64urlDecode n) (\<lambda>pub. Inr (base64urlEncode (sha256 pub)))"

text \<open>\<open>to64\<close>: the first 20 bytes in base64url without padding.\<close>

definition to64 :: "bytes \<Rightarrow> string" where
  "to64 from = std_to_url (btoa (take 20 from))"

section \<open>Content ids: \<open>toCID\<close>\<close>

definition B58_ALPHABET :: string where
  "B58_ALPHABET = ''123456789ABCDEFGHJKLMNPQRSTUVWXYZabcdefghijkmnopqrstuvwxyz''"

text \<open>
  The length \<open>(n * log 256 / log 58 + 1) >>> 0\<close> of the digit buffer is the number of base-58 digits
  of \<open>256 ^ n\<close>. The buffer is kept least significant digit first.
\<close>

fun ndigits58 :: "nat \<Rightarrow> nat" where
  "ndigits58 n = (if n < 58 then 1 else Suc (ndigits58 (n div 58)))"

declare ndigits58.simps [simp del]

definition b58_size :: "nat \<Rightarrow> nat" where
  "b58_size n = ndigits58 (256 ^ n)"

text \<open>The inner loop: digits written, remaining carry, and the count \<open>i\<close>.\<close>

fun b58_inner :: "nat \<Rightarrow> nat \<Rightarrow> nat \<Rightarrow> nat list \<Rightarrow> nat list \<times> nat \<times> nat" where
  "b58_inner len carry i [] = ([], carry, i)"
| "b58_inner len carry i (d # ds) =
     (if carry \<noteq> 0 \<or> i < len
      then let c = carry + 256 * d;
               (ds', carry', i') = b58_inner len (c div 58) (Suc i) ds
           in ((c mod 58) # ds', carry', i')
      else (d # ds, carry, i))"

definition b58_step :: "nat list \<times> nat \<Rightarrow> 8 word \<Rightarrow> (nat list \<times> nat) res" where
  "b58_step = (\<lambda>(b58, len) byte.
     let (b58', carry, i) = b58_inner len (unat byte) 0 b58
     in if carry \<noteq> 0 then Inl (Err ''Non-zero carry'') else Inr (b58', i))"

definition toCID :: "bytes \<Rightarrow> string res" where
  "toCID source =
     (if source = [] then Inr []
      else let zeroes = length (takeWhile (\<lambda>b. b = 0) source);
               rest = dropWhile (\<lambda>b. b = 0) source
           in rbind (rfoldl b58_step (replicate (b58_size (length rest)) 0, 0) rest)
                (\<lambda>(b58, len).
                   let digits = dropWhile (\<lambda>d. d = 0) (drop (length b58 - len) (rev b58))
                   in Inr (replicate zeroes (B58_ALPHABET ! 0) @ map ((!) B58_ALPHABET) digits)))"

text \<open>\<open>cid(json)\<close> over the JSON text of the value: a multihash of its SHA-256.\<close>

definition cid :: "(bytes \<Rightarrow> bytes) \<Rightarrow> (string \<Rightarrow> bytes) \<Rightarrow> string \<Rightarrow> string res" where
  "cid sha256 utf8 json =
     (let h = sha256 (utf8 json) in toCID (18 # of_nat (length h) # h))"

section \<open>The size check of document ids\<close>

text \<open>
  The bytes \<open>Buffer.from(b64, "base64")\<close> decodes: node skips characters outside the alphabet and
  stops at \<open>=\<close>, so the length is three quarters of the alphabet characters, rounded down.
\<close>

definition buffer_b64_length :: "string \<Rightarrow> nat" where
  "buffer_b64_length s =
     length (filter (\<lambda>c. c \<in> set STD_CHARS) (takeWhile (\<lambda>c. c \<noteq> CHR ''='') s)) * 3 div 4"

definition checkMaxDocID :: "string \<Rightarrow> int \<Rightarrow> bool" where
  "checkMaxDocID docid max_size \<longleftrightarrow>
     int (buffer_b64_length (url_to_std docid @ drop ((2 * length docid) mod 4) ''=='')) \<le> max_size"

section \<open>Lemmas: the alphabets\<close>

lemma upt_0_64: "[0..<64] = map nat [0, 1, 2, 3, 4, 5, 6, 7, 8, 9, 10, 11, 12, 13, 14, 15, 16, 17, 18, 19,
    20, 21, 22, 23, 24, 25, 26, 27, 28, 29, 30, 31, 32, 33, 34, 35, 36, 37, 38, 39, 40, 41, 42, 43, 44, 45,
    46, 47, 48, 49, 50, 51, 52, 53, 54, 55, 56, 57, 58, 59, 60, 61, 62, 63]"
  by code_simp

lemma length_alphabets [simp]: "length BASE64_CHARS = 64" "length STD_CHARS = 64"
  by (simp_all add: BASE64_CHARS_def STD_CHARS_def)

lemma distinct_alphabets: "distinct BASE64_CHARS" "distinct STD_CHARS"
  by code_simp+

lemma url_to_std_alphabet: "url_to_std BASE64_CHARS = STD_CHARS"
  by code_simp

lemma std_to_url_alphabet: "std_to_url STD_CHARS = BASE64_CHARS"
  by code_simp

lemma find_index_nth: "distinct xs \<Longrightarrow> i < length xs \<Longrightarrow> find_index (xs ! i) xs = Some i"
proof (induction xs arbitrary: i)
  case (Cons x xs)
  then show ?case by (cases i) auto
qed simp

lemma indexOf_std [simp]: "i < 64 \<Longrightarrow> indexOf STD_CHARS (STD_CHARS ! i) = of_nat i"
  by (simp add: indexOf_def find_index_nth distinct_alphabets)

lemma url_to_std_nth:
  assumes "i < 64" shows "url_to_std [BASE64_CHARS ! i] = [STD_CHARS ! i]"
proof -
  have "url_to_std [BASE64_CHARS ! i] = [url_to_std BASE64_CHARS ! i]"
    using assms by (simp add: url_to_std_def)
  then show ?thesis by (simp add: url_to_std_alphabet)
qed

lemma url_to_std_append [simp]: "url_to_std (s @ t) = url_to_std s @ url_to_std t"
  by (simp add: url_to_std_def)

section \<open>Lemmas: bits of a group\<close>

lemma bit_sextet: "bit (drop_bit s w AND mask 6 :: 32 word) k \<longleftrightarrow> k < 6 \<and> bit w (s + k)"
  by (auto simp: bit_simps dest: bit_imp_le_length)

lemma combine3_sextets:
  fixes w :: "32 word"
  assumes "take_bit 24 w = w"
  shows "push_bit 6 (push_bit 6 (push_bit 6 (drop_bit 18 w AND mask 6) OR (drop_bit 12 w AND mask 6)) OR
     (drop_bit 6 w AND mask 6)) OR (drop_bit 0 w AND mask 6) = w"
proof (rule bit_word_eqI)
  fix n assume n: "n < LENGTH(32)"
  have w: "\<not> bit w m" if "24 \<le> m" for m using assms that by (metis bit_take_bit_iff not_le)
  consider "n < 6" | "6 \<le> n" "n < 12" | "12 \<le> n" "n < 18" | "18 \<le> n" "n < 24" | "24 \<le> n"
    by linarith
  then show "bit (push_bit 6 (push_bit 6 (push_bit 6 (drop_bit 18 w AND mask 6) OR (drop_bit 12 w AND mask 6)) OR
     (drop_bit 6 w AND mask 6)) OR (drop_bit 0 w AND mask 6)) n = bit w n"
    using n
    by cases (simp_all only: bit_or_iff bit_push_bit_iff bit_sextet, auto simp: w)
qed

lemma bit_byte: "bit (ucast (signed_drop_bit s w AND mask 8) :: 8 word) k \<longleftrightarrow> k < 8 \<and> bit (w::32 word) (min (s + k) 31)"
  by (auto simp: bit_simps)

lemma emit_bytes:
  "ucast (signed_drop_bit 16 (combine3 a b c) AND mask 8) = a"
  "ucast (signed_drop_bit 8 (combine3 a b c) AND mask 8) = b"
  "ucast (signed_drop_bit 0 (combine3 a b c) AND mask 8) = c"
  by (rule bit_word_eqI, (simp only: bit_byte combine3_def bit_or_iff bit_push_bit_iff), auto simp: bit_simps dest: bit_imp_le_length)+

lemma combine3_24: "take_bit 24 (combine3 a b c) = combine3 a b c"
  by (rule bit_word_eqI) (auto simp: combine3_def bit_simps dest: bit_imp_le_length)

lemma mask8: "(0xff :: 32 word) = mask 8" by (simp add: mask_eq_exp_minus_1)

lemma b64_emit_24: "b64_emit (combine3 a b c) 24 = [a, b, c]"
  by (simp add: b64_emit.simps [of _ 24] b64_emit.simps [of _ 16] b64_emit.simps [of _ 8]
      b64_emit.simps [of _ 0] mask8 emit_bytes emit_bytes [simplified])

lemma two_sextets:
  "push_bit 6 (drop_bit 18 w AND mask 6) OR (drop_bit 12 w AND mask 6) = drop_bit 12 (take_bit 24 w :: 32 word)"
proof (rule bit_word_eqI)
  fix n assume n: "n < LENGTH(32)"
  consider "n < 6" | "6 \<le> n" "n < 12" | "12 \<le> n" by linarith
  then show "bit (push_bit 6 (drop_bit 18 w AND mask 6) OR (drop_bit 12 w AND mask 6)) n =
      bit (drop_bit 12 (take_bit 24 w)) n"
    using n by cases (simp_all only: bit_or_iff bit_push_bit_iff bit_sextet, auto simp: bit_simps)
qed

lemma three_sextets:
  "push_bit 6 (push_bit 6 (drop_bit 18 w AND mask 6) OR (drop_bit 12 w AND mask 6)) OR
     (drop_bit 6 w AND mask 6) = drop_bit 6 (take_bit 24 w :: 32 word)"
proof (rule bit_word_eqI)
  fix n assume n: "n < LENGTH(32)"
  consider "n < 6" | "6 \<le> n" "n < 12" | "12 \<le> n" "n < 18" | "18 \<le> n" by linarith
  then show "bit (push_bit 6 (push_bit 6 (drop_bit 18 w AND mask 6) OR (drop_bit 12 w AND mask 6)) OR
      (drop_bit 6 w AND mask 6)) n = bit (drop_bit 6 (take_bit 24 w)) n"
    using n by cases (simp_all only: bit_or_iff bit_push_bit_iff bit_sextet, auto simp: bit_simps)
qed

lemma emit_bytes_12: "ucast (signed_drop_bit 4 (drop_bit 12 (combine3 a b c)) AND mask 8) = a"
  by (rule bit_word_eqI, (simp only: bit_byte combine3_def bit_or_iff bit_push_bit_iff bit_drop_bit_eq o_def),
      auto simp: bit_simps dest: bit_imp_le_length)

lemma emit_bytes_18:
  "ucast (signed_drop_bit 10 (drop_bit 6 (combine3 a b c)) AND mask 8) = a"
  "ucast (signed_drop_bit 2 (drop_bit 6 (combine3 a b c)) AND mask 8) = b"
  by (rule bit_word_eqI, (simp only: bit_byte combine3_def bit_or_iff bit_push_bit_iff bit_drop_bit_eq o_def),
      auto simp: bit_simps dest: bit_imp_le_length)+

lemma b64_emit_12: "b64_emit (drop_bit 12 (combine3 a b c)) 12 = [a]"
  by (simp add: b64_emit.simps [of _ 12] b64_emit.simps [of _ 4] mask8 emit_bytes_12)

lemma b64_emit_18: "b64_emit (drop_bit 6 (combine3 a b c)) 18 = [a, b]"
  by (simp add: b64_emit.simps [of _ 18] b64_emit.simps [of _ 10] b64_emit.simps [of _ 2] mask8 emit_bytes_18)

lemma mask6: "(0x3f :: 32 word) = mask 6" by (simp add: mask_eq_exp_minus_1)
lemma unat_and_63: "unat (w AND 0x3f :: 32 word) < 64"
  unfolding mask6 using and_mask_less' [of 6 w] by (simp add: word_less_nat_alt)

lemma url_to_std_Cons: "url_to_std (c # s) = hd (url_to_std [c]) # url_to_std s"
  by (simp add: url_to_std_def)

lemma url_char_eq [simp]: "url_char CHR ''='' = CHR ''=''"
  by (simp add: url_char_def)

definition std_sextet :: "nat \<Rightarrow> 32 word \<Rightarrow> char" where
  "std_sextet s w = STD_CHARS ! unat (drop_bit s w AND 0x3f)"

lemma url_to_std_sextet [simp]: "url_to_std (sextet s w # cs) = std_sextet s w # url_to_std cs"
  by (subst url_to_std_Cons) (simp add: sextet_def std_sextet_def unat_and_63 url_to_std_nth)

lemma std_sextet_index [simp]:
  "indexOf STD_CHARS (std_sextet s w) = drop_bit s w AND mask 6" "std_sextet s w \<noteq> CHR ''=''"
proof -
  show "indexOf STD_CHARS (std_sextet s w) = drop_bit s w AND mask 6"
    by (simp add: std_sextet_def unat_and_63) (simp add: mask6)
  have "std_sextet s w \<in> set STD_CHARS"
    by (simp add: std_sextet_def unat_and_63)
  moreover have "CHR ''='' \<notin> set STD_CHARS" by (simp add: STD_CHARS_def)
  ultimately show "std_sextet s w \<noteq> CHR ''=''" by metis
qed

lemma b64_bits_groups:
  "b64_bits [std_sextet 18 w, std_sextet 12 w, CHR ''='', CHR ''=''] = (drop_bit 12 (take_bit 24 w), 12)"
  "b64_bits [std_sextet 18 w, std_sextet 12 w, std_sextet 6 w, CHR ''=''] = (drop_bit 6 (take_bit 24 w), 18)"
  "take_bit 24 w = w \<Longrightarrow>
   b64_bits [std_sextet 18 w, std_sextet 12 w, std_sextet 6 w, std_sextet 0 w] = (w, 24)"
  using two_sextets [of w] three_sextets [of w] combine3_sextets [of w]
  by (simp_all add: b64_bits_def)

lemma length_bytesToBase64url:
  "length (bytesToBase64url bs) = (4 * length bs + 2) div 3"
  by (induction bs rule: bytesToBase64url.induct) (auto simp: Let_def)

lemma pad_url_group: "pad_url (w # x # y # z # s) = w # x # y # z # pad_url s"
proof -
  have "(length (w # x # y # z # s) + 3) mod 4 = (length s + 3) mod 4" by simp presburger
  then show ?thesis by (simp add: pad_url_def)
qed

lemma base64url_bytes: "base64urlToBytes (bytesToBase64url bs) = bs"
proof (induction bs rule: bytesToBase64url.induct)
  case 1
  then show ?case by (simp add: base64urlToBytes_def pad_url_def url_to_std_def)
next
  case (2 a)
  then show ?case
    by (simp add: base64urlToBytes_def pad_url_def Let_def b64_bits_groups combine3_24 b64_emit_12)
      (simp add: url_to_std_def b64_bits_groups combine3_24 b64_emit_12)
next
  case (3 a b)
  then show ?case
    by (simp add: base64urlToBytes_def pad_url_def Let_def b64_bits_groups combine3_24 b64_emit_18)
      (simp add: url_to_std_def b64_bits_groups combine3_24 b64_emit_18)
next
  case (4 a b c bs)
  then show ?case
    by (simp add: base64urlToBytes_def pad_url_group Let_def b64_bits_groups combine3_24 b64_emit_24)
qed

section \<open>Lemmas: base 64 numerals\<close>

definition b64_value :: "string \<Rightarrow> nat" where
  "b64_value s = foldl (\<lambda>a c. 64 * a + the (find_index c BASE64_CHARS)) 0 s"

lemma b64_value_Nil: "b64_value [] = 0"
  by (simp add: b64_value_def)

lemma b64_value_shift:
  "foldl (\<lambda>a c. 64 * a + the (find_index c BASE64_CHARS)) m s = m * 64 ^ length s + b64_value s"
proof (induction s arbitrary: m)
  case (Cons c s)
  show ?case
    using Cons [of "64 * m + the (find_index c BASE64_CHARS)"] Cons [of "the (find_index c BASE64_CHARS)"]
    by (simp add: b64_value_def algebra_simps)
qed (simp add: b64_value_def)

lemma b64_value_Cons: "i < 64 \<Longrightarrow> b64_value (BASE64_CHARS ! i # s) = i * 64 ^ length s + b64_value s"
  using b64_value_shift [of i s] by (simp add: b64_value_def find_index_nth distinct_alphabets)

lemma b64_value_loop: "b64_value (tob64_loop n r) = n * 64 ^ length r + b64_value r"
proof (induction n r rule: tob64_loop.induct)
  case (1 n r)
  have "n * 64 ^ length r = (n div 64 * 64 + n mod 64) * 64 ^ length r" by simp
  then have "n * 64 ^ length r = n div 64 * (64 * 64 ^ length r) + n mod 64 * 64 ^ length r"
    by (simp only: algebra_simps)
  with 1 show ?case by (subst tob64_loop.simps) (simp add: b64_value_Cons)
qed

lemma tob64_value: "0 \<le> n \<Longrightarrow> \<exists>s. tob64 n = Inr s \<and> int (b64_value s) = n"
  using b64_value_Cons [of 0 "[]"] b64_value_Nil
  by (cases "n = 0") (simp_all add: tob64_def b64_value_loop)

lemma tob64_loop_alphabet: "set r \<subseteq> set BASE64_CHARS \<Longrightarrow> set (tob64_loop n r) \<subseteq> set BASE64_CHARS"
proof (induction n r rule: tob64_loop.induct)
  case (1 n r)
  then show ?case by (subst tob64_loop.simps) simp
qed

section \<open>Lemmas: lengths\<close>

lemma length_b64_emit [simp]: "length (b64_emit bits n) = n div 8"
proof (induction bits n rule: b64_emit.induct)
  case (1 bits n)
  then show ?case by (subst b64_emit.simps) (auto simp: le_div_geq)
qed

lemma b64_bits_snd:
  "snd (b64_bits s) = 6 * length (filter (\<lambda>c. c \<noteq> CHR ''='') s)"
proof -
  have "snd (foldl (\<lambda>(bits, validBits) c. if c \<noteq> CHR ''='' then (push_bit 6 bits OR indexOf STD_CHARS c, validBits + 6)
      else (bits, validBits)) p s) = snd p + 6 * length (filter (\<lambda>c. c \<noteq> CHR ''='') s)" for p
    by (induction s arbitrary: p) (auto split: prod.splits)
  then show ?thesis by (simp add: b64_bits_def)
qed

lemma length_b64_groups_Cons4:
  "length (b64_groups (a # b # c # d # s)) =
     6 * length (filter (\<lambda>c. c \<noteq> CHR ''='') [a, b, c, d]) div 8 + length (b64_groups s)"
  using b64_bits_snd [of "[a, b, c, d]"] by (simp add: split_def)

text \<open>Only its induction rule is used: groups of four.\<close>

fun by4 :: "'a list \<Rightarrow> 'a list" where
  "by4 (a # b # c # d # s) = by4 s"
| "by4 s = s"

lemma url_char_pad [simp]: "CHR ''='' = url_char c \<longleftrightarrow> CHR ''='' = c"
  by (simp add: url_char_def)

lemma length_groups4:
  "CHR ''='' \<notin> {a, b, c, d} \<Longrightarrow> length (b64_groups (a # b # c # d # s)) = 3 + length (b64_groups s)"
  "CHR ''='' \<notin> {a, b, c} \<Longrightarrow> length (b64_groups [a, b, c, CHR ''='']) = 2"
  "CHR ''='' \<notin> {a, b} \<Longrightarrow> length (b64_groups [a, b, CHR ''='', CHR ''='']) = 1"
  "CHR ''='' \<notin> {a} \<Longrightarrow> length (b64_groups [a, CHR ''='', CHR ''='', CHR ''='']) = 0"
  by (simp_all only: length_b64_groups_Cons4) auto

lemma length_base64urlToBytes:
  "CHR ''='' \<notin> set s \<Longrightarrow> length (base64urlToBytes s) = 3 * length s div 4"
proof (induction s rule: by4.induct)
  case (1 a b c d s)
  then show ?case
    by (simp add: base64urlToBytes_def pad_url_group url_to_std_def length_groups4 del: b64_groups.simps(2))
qed (simp_all add: base64urlToBytes_def pad_url_def url_to_std_def length_groups4
    del: b64_groups.simps(2))

section \<open>Lemmas: base 58\<close>

definition horner :: "nat \<Rightarrow> nat list \<Rightarrow> nat" where
  "horner b ds = foldl (\<lambda>a d. b * a + d) 0 ds"

fun le_val :: "nat list \<Rightarrow> nat" where
  "le_val [] = 0"
| "le_val (d # ds) = d + 58 * le_val ds"

lemma horner_snoc [simp]: "horner b (ds @ [d]) = b * horner b ds + d"
  by (simp add: horner_def)

lemma horner_rev: "horner 58 (rev ds) = le_val ds"
  by (induction ds) (simp_all add: horner_def)

lemma le_val_zeros: "\<forall>d \<in> set ds. d = 0 \<Longrightarrow> le_val ds = 0"
  by (induction ds) auto

lemma b58_inner_val:
  "b58_inner len carry i ds = (ds', carry', i') \<Longrightarrow> \<forall>d \<in> set (drop (len - i) ds). d = 0 \<Longrightarrow>
   le_val ds' + carry' * 58 ^ length ds = 256 * le_val ds + carry \<and> length ds' = length ds \<and>
   i \<le> i' \<and> i' \<le> i + length ds \<and> (\<forall>d \<in> set (drop (i' - i) ds'). d = 0) \<and>
   ((\<forall>d \<in> set ds. d < 58) \<longrightarrow> (\<forall>d \<in> set ds'. d < 58))"
proof (induction len carry i ds arbitrary: ds' carry' i' rule: b58_inner.induct)
  case (1 len carry i)
  then show ?case by simp
next
  case (2 len carry i d ds)
  show ?case
  proof (cases "carry \<noteq> 0 \<or> i < len")
    case True
    define c where "c = carry + 256 * d"
    obtain es where rec: "b58_inner len (c div 58) (Suc i) ds = (es, carry', i')" and ds': "ds' = (c mod 58) # es"
      using 2(2) True by (auto simp: c_def Let_def split: prod.splits)
    have z: "\<forall>d \<in> set (drop (len - Suc i) ds). d = 0"
    proof (cases "len - i")
      case 0
      with 2(3) show ?thesis by (auto dest: in_set_dropD)
    next
      case (Suc n)
      then have "len - Suc i = n" by simp
      with 2(3) Suc show ?thesis by simp
    qed
    have IH: "le_val es + carry' * 58 ^ length ds = 256 * le_val ds + c div 58" "length es = length ds"
      "Suc i \<le> i'" "i' \<le> Suc i + length ds" "\<forall>d \<in> set (drop (i' - Suc i) es). d = 0"
      "(\<forall>d \<in> set ds. d < 58) \<longrightarrow> (\<forall>d \<in> set es. d < 58)"
      using 2(1) [OF True c_def rec z] by simp_all
    have "c mod 58 + 58 * (le_val es + carry' * 58 ^ length ds) = c + 58 * 256 * le_val ds"
      unfolding IH(1) by (simp add: algebra_simps)
    then have "le_val ds' + carry' * 58 ^ length (d # ds) = 256 * le_val (d # ds) + carry"
      by (simp add: ds' c_def algebra_simps)
    moreover have "drop (i' - i) ds' = drop (i' - Suc i) es"
      using IH(3) by (simp add: ds' drop_Cons' Suc_diff_le)
    ultimately show ?thesis using IH by (simp add: ds')
  next
    case False
    with 2(2,3) show ?thesis by (auto simp: le_val_zeros)
  qed
qed

lemma ndigits58_gt: "n < 58 ^ ndigits58 n"
proof (induction n rule: ndigits58.induct)
  case (1 n)
  show ?case
  proof (cases "n < 58")
    case False
    then have "n div 58 < 58 ^ ndigits58 (n div 58)" using 1 by simp
    then have "n < 58 * 58 ^ ndigits58 (n div 58)" by (simp add: div_less_iff_less_mult)
    then show ?thesis by (subst ndigits58.simps) (simp add: False)
  qed (subst ndigits58.simps, simp)
qed

text \<open>The digit buffer after the bytes \<open>bs\<close>.\<close>

definition b58_inv :: "nat \<Rightarrow> 8 word list \<Rightarrow> nat list \<times> nat \<Rightarrow> bool" where
  "b58_inv sz bs p \<longleftrightarrow> length (fst p) = sz \<and> snd p \<le> sz \<and> (\<forall>d \<in> set (drop (snd p) (fst p)). d = 0) \<and>
     (\<forall>d \<in> set (fst p). d < 58) \<and> le_val (fst p) = horner 256 (map unat bs)"

lemma horner_bytes_less: "horner 256 (map unat (bs :: bytes)) < 256 ^ length bs"
proof (induction bs rule: rev_induct)
  case (snoc b bs)
  have "unat b < 256" using unsigned_less [of b, where ?'a = nat] by simp
  with snoc show ?case by simp
qed (simp add: horner_def)

lemma b58_step_inv:
  assumes "b58_inv sz bs p" "256 ^ length (bs @ [b]) \<le> (58::nat) ^ sz"
  shows "\<exists>p'. b58_step p b = Inr p' \<and> b58_inv sz (bs @ [b]) p'"
proof -
  obtain b58 len where p: "p = (b58, len)" by (cases p)
  obtain b58' carry i where inner: "b58_inner len (unat b) 0 b58 = (b58', carry, i)"
    by (metis prod_cases3)
  have r: "le_val b58' + carry * 58 ^ sz = horner 256 (map unat (bs @ [b]))" "length b58' = sz" "i \<le> sz"
    "\<forall>d \<in> set (drop i b58'). d = 0" "\<forall>d \<in> set b58'. d < 58"
    using b58_inner_val [OF inner] assms(1) by (auto simp: b58_inv_def p)
  have "carry = 0"
  proof (rule ccontr)
    assume "carry \<noteq> 0"
    then have "58 ^ sz \<le> carry * 58 ^ sz" by simp
    with r(1) have "58 ^ sz \<le> horner 256 (map unat (bs @ [b]))" by linarith
    with horner_bytes_less [of "bs @ [b]"] assms(2) show False by linarith
  qed
  with r show ?thesis by (simp add: p b58_step_def inner b58_inv_def)
qed

lemma b58_fold_inv:
  "b58_inv sz bs p \<Longrightarrow> 256 ^ length (bs @ cs) \<le> (58::nat) ^ sz \<Longrightarrow>
   \<exists>p'. rfoldl b58_step p cs = Inr p' \<and> b58_inv sz (bs @ cs) p'"
proof (induction cs arbitrary: bs p)
  case (Cons c cs)
  have "(256::nat) ^ length (bs @ [c]) \<le> 256 ^ length (bs @ c # cs)"
    by (rule power_increasing) simp_all
  then have "256 ^ length (bs @ [c]) \<le> (58::nat) ^ sz" using Cons.prems(2) by linarith
  from b58_step_inv [OF Cons.prems(1) this] obtain p' where
    "b58_step p c = Inr p'" "b58_inv sz (bs @ [c]) p'" by blast
  with Cons.IH [of "bs @ [c]" p'] Cons.prems(2) show ?case by simp
qed simp

lemma horner_dropWhile: "horner b (dropWhile (\<lambda>d. d = 0) ds) = horner b ds"
  by (induction ds) (simp_all add: horner_def)

lemma dropWhile_drop_zeros: "\<forall>d \<in> set (take n ds). d = (0::nat) \<Longrightarrow>
    dropWhile (\<lambda>d. d = 0) (drop n ds) = dropWhile (\<lambda>d. d = 0) ds"
  by (metis (mono_tags, lifting) append_take_drop_id dropWhile_append2)

lemma hd_dropWhile_zero: "dropWhile (\<lambda>d. d = 0) ds \<noteq> [] \<Longrightarrow> hd (dropWhile (\<lambda>d. d = 0) ds) \<noteq> (0::nat)"
  by (rule hd_dropWhile [of "\<lambda>d. d = 0"])

section \<open>Properties\<close>

text \<open>C38. Decoding base64url inverts encoding, for every byte string, whatever its length modulo
  three: the two hand-written routines agree on padding, alphabet and bit order.\<close>

theorem base64url_roundtrip: "base64urlToBytes (bytesToBase64url bs) = bs"
  by (rule base64url_bytes)

text \<open>Document ids: every counter value has an id, the id determines the value, and it consists of
  characters the id check accepts.\<close>

theorem tob64_injective:
  assumes "0 \<le> m" "0 \<le> n"
  shows "(tob64 m = tob64 n \<longleftrightarrow> m = n) \<and> (\<exists>s. tob64 n = Inr s \<and> list_all is_b64url_char s)"
proof -
  from tob64_value [OF assms(1)] obtain s where s: "tob64 m = Inr s" "int (b64_value s) = m" by blast
  from tob64_value [OF assms(2)] obtain t where t: "tob64 n = Inr t" "int (b64_value t) = n" by blast
  have "set t \<subseteq> set BASE64_CHARS"
  proof (cases "n = 0")
    case True
    then have "t = [BASE64_CHARS ! 0]" using t(1) by (simp add: tob64_def)
    then show ?thesis using nth_mem [of 0 BASE64_CHARS] by simp
  next
    case False
    then have "t = tob64_loop (nat n) []" using t(1) assms(2) by (simp add: tob64_def)
    then show ?thesis using tob64_loop_alphabet [of "[]" "nat n"] by simp
  qed
  then have "list_all is_b64url_char t" by (auto simp: list_all_iff is_b64url_char_def)
  moreover have "s = t \<longleftrightarrow> m = n" using s t by (metis Inr_inject)
  ultimately show ?thesis using s(1) t(1) by (metis Inr_inject)
qed

theorem tob64_injective_witness:
  "tob64 64 \<noteq> tob64 1 \<and> (\<exists>s. tob64 1 = Inr s \<and> list_all is_b64url_char s)"
proof -
  have "(tob64 64 = tob64 1 \<longleftrightarrow> (64 :: int) = 1) \<and> (\<exists>s. tob64 1 = Inr s \<and> list_all is_b64url_char s)"
    by (rule tob64_injective) simp_all
  then show ?thesis by simp
qed

text \<open>\<open>toCID\<close> never throws, and prints the bytes as the base-58 numeral of the same value without
  leading zero digits, after one \<open>1\<close> for each leading zero byte.\<close>

theorem toCID_base58:
  "\<exists>ds. toCID source = Inr (replicate (length (takeWhile (\<lambda>b. b = 0) source)) (CHR ''1'') @ map ((!) B58_ALPHABET) ds)
    \<and> list_all (\<lambda>d. d < 58) ds \<and> takeWhile (\<lambda>d. d = 0) ds = []
    \<and> horner 58 ds = horner 256 (map unat source)"
proof (cases "source = []")
  case True
  then show ?thesis by (intro exI [of _ "[]"]) (simp add: toCID_def horner_def)
next
  case False
  define rest where "rest = dropWhile (\<lambda>b. b = 0) source"
  define sz where "sz = b58_size (length rest)"
  have "b58_inv sz [] (replicate sz 0, 0)"
    by (simp add: b58_inv_def horner_def le_val_zeros)
  moreover have "256 ^ length ([] @ rest) \<le> (58::nat) ^ sz"
    using ndigits58_gt [of "256 ^ length rest"] by (simp add: sz_def b58_size_def)
  ultimately obtain b58 len where fold: "rfoldl b58_step (replicate sz 0, 0) rest = Inr (b58, len)"
    and inv: "b58_inv sz rest (b58, len)" using b58_fold_inv by (metis append_Nil surj_pair)
  define ds where "ds = dropWhile (\<lambda>d. d = 0) (rev b58)"
  have "set (take (length b58 - len) (rev b58)) = set (drop len b58)"
    using inv by (simp add: b58_inv_def take_rev)
  then have ds: "dropWhile (\<lambda>d. d = 0) (drop (length b58 - len) (rev b58)) = ds"
    unfolding ds_def using inv by (intro dropWhile_drop_zeros) (simp add: b58_inv_def)
  have val: "horner 256 (map unat rest) = horner 256 (map unat source)"
    unfolding rest_def by (induction source) (simp_all add: horner_def)
  have "horner 58 ds = horner 256 (map unat source)"
    using inv by (simp add: ds_def horner_dropWhile horner_rev b58_inv_def val)
  moreover have "list_all (\<lambda>d. d < 58) ds"
    using inv by (auto simp: ds_def list_all_iff b58_inv_def dest: set_dropWhileD)
  moreover have "takeWhile (\<lambda>d. d = 0) ds = []" unfolding ds_def using hd_dropWhile_zero
    by (metis takeWhile_eq_Nil_iff)
  moreover have "toCID source = Inr (replicate (length (takeWhile (\<lambda>b. b = 0) source)) (CHR ''1'') @ map ((!) B58_ALPHABET) ds)"
    using False fold ds by (simp add: toCID_def rest_def sz_def B58_ALPHABET_def)
  ultimately show ?thesis by blast
qed

text \<open>A well-formed Arweave address (43 characters of the base64url alphabet, surrounding blanks
  allowed) always converts: the decoded length check cannot fail, and the result is \<open>ar--\<close> and the 27
  characters that encode the first 20 bytes.\<close>

theorem wdb23_total:
  assumes "length (str_trim addr) = 43" "list_all is_b64url_char (str_trim addr)"
  shows "\<exists>r. wdb23 addr = Inr (''ar--'' @ r) \<and> length r = 27 \<and>
    base64urlToBytes r = take 20 (base64urlToBytes (str_trim addr))"
proof -
  have "addr \<noteq> []" using assms(1) by (auto simp: str_trim_def)
  have "CHR ''='' \<notin> set BASE64_CHARS" by (simp add: BASE64_CHARS_def)
  with assms(2) have "CHR ''='' \<notin> set (str_trim addr)"
    by (auto simp: list_all_iff is_b64url_char_def)
  then have "length (base64urlToBytes (str_trim addr)) = 32"
    using assms(1) by (simp add: length_base64urlToBytes)
  with assms \<open>addr \<noteq> []\<close> show ?thesis
    by (simp add: wdb23_def Let_def length_bytesToBase64url base64url_bytes)
qed

theorem wdb23_total_witness:
  "\<exists>r. wdb23 (replicate 43 (CHR ''A'')) = Inr (''ar--'' @ r) \<and> length r = 27 \<and>
    base64urlToBytes r = take 20 (base64urlToBytes (str_trim (replicate 43 (CHR ''A''))))"
  by (rule wdb23_total) code_simp+

end
