(* ===== verification/Queue.thy ===== *)
theory Queue
  imports Js_Value
begin

text \<open>
  The request queue in front of a database, \<open>core/src/queue.js\<close>. The database is a function
  \<open>run k args w\<close>: the outcome of the awaited call of method \<open>k\<close> and the database after it. A call of
  a queued method pushes its request and runs \<open>exec\<close>; \<open>exec\<close> returns at once when a drain is on.
  Requests may arrive whenever the drain awaits a call, so pushing and settling are separate steps.
\<close>

record ('k, 'a) request =
  rq_id :: nat
  rq_k :: 'k
  rq_args :: 'a

record 'r answer =
  an_success :: bool
  an_err :: jv
  an_res :: "'r option"

text \<open>\<open>q_cur\<close> is the request whose call the drain awaits; \<open>q_next\<close> numbers the promises handed out.\<close>

record ('k, 'a, 'r, 'w) qstate =
  q_qs :: "('k, 'a) request list"
  q_on :: bool
  q_cur :: "('k, 'a) request option"
  q_out :: "(nat \<times> 'r answer) list"
  q_next :: nat
  q_db :: 'w

definition queue_new :: "'w \<Rightarrow> ('k, 'a, 'r, 'w) qstate" where
  "queue_new w = \<lparr>q_qs = [], q_on = False, q_cur = None, q_out = [], q_next = 0, q_db = w\<rparr>"

text \<open>The methods that are queued: the monad's own methods are left out.\<close>

definition is_queued :: "string \<Rightarrow> bool" where
  "is_queued k \<longleftrightarrow> k \<notin> set [''__device__'', ''map'', ''tap'', ''chain'', ''to'', ''val'', ''monad'']"

text \<open>The head of the \<open>while\<close> loop: take the next request, or end the drain.\<close>

definition q_shift :: "('k, 'a, 'r, 'w) qstate \<Rightarrow> ('k, 'a, 'r, 'w) qstate" where
  "q_shift q =
     (case q_qs q of
        [] \<Rightarrow> q\<lparr>q_cur := None, q_on := False\<rparr>
      | r # rs \<Rightarrow> q\<lparr>q_cur := Some r, q_qs := rs\<rparr>)"

definition q_exec :: "('k, 'a, 'r, 'w) qstate \<Rightarrow> ('k, 'a, 'r, 'w) qstate" where
  "q_exec q = (if \<not> q_on q then q_shift (q\<lparr>q_on := True\<rparr>) else q)"

definition q_push :: "'k \<Rightarrow> 'a \<Rightarrow> ('k, 'a, 'r, 'w) qstate \<Rightarrow> ('k, 'a, 'r, 'w) qstate" where
  "q_push k args q =
     q_exec (q\<lparr>q_qs := q_qs q @ [\<lparr>rq_id = q_next q, rq_k = k, rq_args = args\<rparr>], q_next := Suc (q_next q)\<rparr>)"

text \<open>The error reported is \<open>e?.toString?.() ?? true\<close>: \<open>str e\<close> is \<open>undefined\<close> without a \<open>toString\<close>.\<close>

definition q_answer :: "('e \<Rightarrow> jv) \<Rightarrow> 'e + 'r \<Rightarrow> 'r answer" where
  "q_answer str m =
     (case m of
        Inl e \<Rightarrow> \<lparr>an_success = False, an_err = nullish (str e) (JBool True), an_res = None\<rparr>
      | Inr r \<Rightarrow> \<lparr>an_success = True, an_err = JNull, an_res = Some r\<rparr>)"

text \<open>The awaited call settles: its promise is resolved and the loop goes on.\<close>

definition q_settle ::
    "('e \<Rightarrow> jv) \<Rightarrow> ('k \<Rightarrow> 'a \<Rightarrow> 'w \<Rightarrow> ('e + 'r) \<times> 'w) \<Rightarrow> ('k, 'a, 'r, 'w) qstate
       \<Rightarrow> ('k, 'a, 'r, 'w) qstate" where
  "q_settle str run q =
     (case q_cur q of
        None \<Rightarrow> q
      | Some r \<Rightarrow>
          let (m, w) = run (rq_k r) (rq_args r) (q_db q)
          in q_shift (q\<lparr>q_out := q_out q @ [(rq_id r, q_answer str m)], q_db := w\<rparr>))"

section \<open>The step relation\<close>

text \<open>The list of requests made so far, in order, is carried along.\<close>

inductive q_reach ::
    "('e \<Rightarrow> jv) \<Rightarrow> ('k \<Rightarrow> 'a \<Rightarrow> 'w \<Rightarrow> ('e + 'r) \<times> 'w) \<Rightarrow> 'w \<Rightarrow> ('k \<times> 'a) list
       \<Rightarrow> ('k, 'a, 'r, 'w) qstate \<Rightarrow> bool"
  for str :: "'e \<Rightarrow> jv" and run :: "'k \<Rightarrow> 'a \<Rightarrow> 'w \<Rightarrow> ('e + 'r) \<times> 'w" and w0 :: 'w where
  q_start: "q_reach str run w0 [] (queue_new w0)"
| q_pushed: "q_reach str run w0 rs q \<Longrightarrow> q_reach str run w0 (rs @ [(k, args)]) (q_push k args q)"
| q_settled: "q_reach str run w0 rs q \<Longrightarrow> q_on q \<Longrightarrow> q_reach str run w0 rs (q_settle str run q)"

text \<open>The specification: the requests run one after the other.\<close>

fun q_serial ::
    "('e \<Rightarrow> jv) \<Rightarrow> ('k \<Rightarrow> 'a \<Rightarrow> 'w \<Rightarrow> ('e + 'r) \<times> 'w) \<Rightarrow> nat \<Rightarrow> ('k \<times> 'a) list \<Rightarrow> 'w
       \<Rightarrow> (nat \<times> 'r answer) list \<times> 'w" where
  "q_serial str run n [] w = ([], w)"
| "q_serial str run n ((k, a) # rs) w =
     (let (m, w1) = run k a w; (out, w2) = q_serial str run (Suc n) rs w1
      in ((n, q_answer str m) # out, w2))"

lemma q_serial_snoc:
  "q_serial str run n (rs @ [(k, a)]) w =
     (let (out, w1) = q_serial str run n rs w; (m, w2) = run k a w1
      in (out @ [(n + length rs, q_answer str m)], w2))"
proof (induction rs arbitrary: n w)
  case (Cons r rs)
  then show ?case by (cases r) (simp add: split_def Let_def)
qed (simp add: split_def Let_def)

section \<open>The invariant\<close>

text \<open>Pending requests are numbered consecutively after the answered ones.\<close>

definition pending :: "('k, 'a, 'r, 'w) qstate \<Rightarrow> ('k, 'a) request list" where
  "pending q = (case q_cur q of None \<Rightarrow> q_qs q | Some r \<Rightarrow> r # q_qs q)"

definition mk_requests :: "nat \<Rightarrow> ('k \<times> 'a) list \<Rightarrow> ('k, 'a) request list" where
  "mk_requests n rs = map (\<lambda>(i, (k, a)). \<lparr>rq_id = i, rq_k = k, rq_args = a\<rparr>) (enumerate n rs)"

lemma mk_requests_simps [simp]:
  "mk_requests n [] = []"
  "mk_requests n ((k, a) # rs) = \<lparr>rq_id = n, rq_k = k, rq_args = a\<rparr> # mk_requests (Suc n) rs"
  "mk_requests n (rs @ [(k, a)]) = mk_requests n rs @ [\<lparr>rq_id = n + length rs, rq_k = k, rq_args = a\<rparr>]"
  by (simp_all add: mk_requests_def enumerate_append_eq)

definition q_inv ::
    "('e \<Rightarrow> jv) \<Rightarrow> ('k \<Rightarrow> 'a \<Rightarrow> 'w \<Rightarrow> ('e + 'r) \<times> 'w) \<Rightarrow> 'w \<Rightarrow> ('k \<times> 'a) list
       \<Rightarrow> ('k, 'a, 'r, 'w) qstate \<Rightarrow> bool" where
  "q_inv str run w0 rs q \<longleftrightarrow>
     (q_on q \<longleftrightarrow> q_cur q \<noteq> None) \<and> (q_cur q = None \<longrightarrow> q_qs q = []) \<and> q_next q = length rs \<and>
     (\<exists>ds ps. rs = ds @ ps \<and> (q_out q, q_db q) = q_serial str run 0 ds w0 \<and>
        pending q = mk_requests (length ds) ps)"

lemma pending_shift: "pending (q_shift q) = q_qs q"
  by (simp add: q_shift_def pending_def split: list.splits)

lemma q_shift_fields [simp]:
  "q_out (q_shift q) = q_out q" "q_db (q_shift q) = q_db q" "q_next (q_shift q) = q_next q"
  by (simp_all add: q_shift_def split: list.splits)

lemma q_shift_flags: "q_on q \<Longrightarrow> (q_on (q_shift q) \<longleftrightarrow> q_cur (q_shift q) \<noteq> None) \<and>
    (q_cur (q_shift q) = None \<longrightarrow> q_qs (q_shift q) = [])"
  by (simp add: q_shift_def split: list.splits)

lemma q_inv_push:
  assumes "q_inv str run w0 rs q"
  shows "q_inv str run w0 (rs @ [(k, a)]) (q_push k a q)"
proof -
  let ?r = "\<lparr>rq_id = q_next q, rq_k = k, rq_args = a\<rparr>"
  let ?q1 = "q\<lparr>q_qs := q_qs q @ [?r], q_next := Suc (q_next q), q_on := True\<rparr>"
  obtain ds ps where ds: "rs = ds @ ps" "(q_out q, q_db q) = q_serial str run 0 ds w0"
    "pending q = mk_requests (length ds) ps" using assms by (auto simp: q_inv_def)
  have next_q: "q_next q = length ds + length ps" using assms ds(1) by (simp add: q_inv_def)
  have pend: "pending (q_push k a q) = pending q @ [?r]"
    using assms by (cases "q_cur q")
      (simp_all add: q_push_def q_exec_def pending_shift q_inv_def, simp_all add: pending_def)
  have same: "q_out (q_push k a q) = q_out q" "q_db (q_push k a q) = q_db q"
    "q_next (q_push k a q) = Suc (q_next q)"
    by (simp_all add: q_push_def q_exec_def)
  have flags: "(q_on (q_push k a q) \<longleftrightarrow> q_cur (q_push k a q) \<noteq> None) \<and>
      (q_cur (q_push k a q) = None \<longrightarrow> q_qs (q_push k a q) = [])"
    using assms q_shift_flags [of ?q1] by (cases "q_on q") (simp_all add: q_push_def q_exec_def q_inv_def)
  have "rs @ [(k, a)] = ds @ (ps @ [(k, a)])" "pending (q_push k a q) = mk_requests (length ds) (ps @ [(k, a)])"
    using ds by (simp_all add: pend next_q)
  with ds(2) have "\<exists>ds ps'. rs @ [(k, a)] = ds @ ps' \<and> (q_out q, q_db q) = q_serial str run 0 ds w0 \<and>
      pending (q_push k a q) = mk_requests (length ds) ps'" by metis
  with flags show ?thesis
    unfolding q_inv_def same using next_q ds(1) by simp
qed

lemma q_inv_settle:
  assumes "q_inv str run w0 rs q" "q_on q"
  shows "q_inv str run w0 rs (q_settle str run q)"
proof -
  obtain ds ps where ds: "rs = ds @ ps" "(q_out q, q_db q) = q_serial str run 0 ds w0"
    "pending q = mk_requests (length ds) ps" using assms(1) by (auto simp: q_inv_def)
  obtain r where r: "q_cur q = Some r" using assms by (auto simp: q_inv_def)
  then obtain k a ps' where ps: "ps = (k, a) # ps'" using ds(3)
    by (cases ps) (auto simp: pending_def)
  have r_eq: "r = \<lparr>rq_id = length ds, rq_k = k, rq_args = a\<rparr>" and qs: "q_qs q = mk_requests (Suc (length ds)) ps'"
    using ds(3) r ps by (auto simp: pending_def)
  obtain m w where mw: "run k a (q_db q) = (m, w)" by force
  let ?q1 = "q\<lparr>q_out := q_out q @ [(length ds, q_answer str m)], q_db := w\<rparr>"
  have settle: "q_settle str run q = q_shift ?q1"
    by (simp add: q_settle_def r r_eq mw)
  have "q_serial str run 0 (ds @ [(k, a)]) w0 = (q_out ?q1, q_db ?q1)"
    by (simp add: q_serial_snoc ds(2) [symmetric] mw)
  moreover have "rs = (ds @ [(k, a)]) @ ps'" by (simp add: ds(1) ps)
  moreover have "pending (q_shift ?q1) = mk_requests (length (ds @ [(k, a)])) ps'"
    by (simp add: pending_shift qs)
  ultimately have "\<exists>ds ps. rs = ds @ ps \<and> (q_out (q_shift ?q1), q_db (q_shift ?q1)) = q_serial str run 0 ds w0 \<and>
      pending (q_shift ?q1) = mk_requests (length ds) ps"
    by (metis q_shift_fields(1,2))
  moreover have "q_next (q_shift ?q1) = length rs" using assms(1) by (simp add: q_inv_def)
  moreover note q_shift_flags [of ?q1]
  ultimately show ?thesis unfolding q_inv_def settle using assms(2) by simp
qed

lemma q_reach_inv: "q_reach str run w0 rs q \<Longrightarrow> q_inv str run w0 rs q"
proof (induction rule: q_reach.induct)
  case q_start
  then show ?case by (simp add: q_inv_def queue_new_def pending_def)
qed (simp_all add: q_inv_push q_inv_settle)

lemma q_serial_ids: "map fst (fst (q_serial str run n rs w)) = [n..<n + length rs]"
proof (induction rs arbitrary: n w)
  case (Cons r rs)
  show ?case using Cons by (cases r) (simp add: split_def Let_def upt_rec)
qed simp

section \<open>Properties\<close>

text \<open>C37. First in, first out, one at a time: in every reachable state the answers given are those of
  running a prefix of the requests one after the other, in the order they were made, whatever the
  interleaving of new requests with awaited calls; and once no drain is on, every request has been
  answered, exactly once.\<close>

theorem queue_fifo:
  assumes "q_reach str run w0 rs q"
  shows "(\<exists>ds ps. rs = ds @ ps \<and> (q_out q, q_db q) = q_serial str run 0 ds w0 \<and>
            (q_on q \<longleftrightarrow> ps \<noteq> []))
    \<and> (q_on q \<or> map fst (q_out q) = [0..<length rs])"
proof -
  from q_reach_inv [OF assms] obtain ds ps where ds: "rs = ds @ ps"
    "(q_out q, q_db q) = q_serial str run 0 ds w0" "pending q = mk_requests (length ds) ps"
    "q_on q \<longleftrightarrow> q_cur q \<noteq> None" "q_cur q = None \<longrightarrow> q_qs q = []"
    by (auto simp: q_inv_def)
  have on: "q_on q \<longleftrightarrow> ps \<noteq> []"
    using ds(3-5) by (cases ps; cases "q_cur q") (auto simp: pending_def)
  have "map fst (q_out q) = [0..<length ds]"
    using q_serial_ids [of str run 0 ds w0] by (simp add: ds(2) [symmetric])
  with on ds(1,2) show ?thesis by auto
qed

definition demo_run :: "string \<Rightarrow> nat \<Rightarrow> nat \<Rightarrow> (string + nat) \<times> nat" where
  "demo_run k a w = (if k = ''set'' then (Inr w, a) else (Inl ''no such method'', w))"

definition demo_q :: "(string, nat, nat, nat) qstate" where
  "demo_q = q_settle JStr demo_run (q_settle JStr demo_run (q_push ''bad'' 1 (q_push ''set'' 7 (queue_new 0))))"

lemma demo_q_reach: "q_reach JStr demo_run 0 [(''set'', 7), (''bad'', 1)] demo_q"
proof -
  have "q_reach JStr demo_run 0 ([] @ [(''set'', 7)] @ [(''bad'', 1)])
      (q_push ''bad'' 1 (q_push ''set'' 7 (queue_new 0)))"
    unfolding append_assoc [symmetric] by (intro q_pushed q_start)
  then have "q_reach JStr demo_run 0 ([] @ [(''set'', 7)] @ [(''bad'', 1)]) demo_q"
    unfolding demo_q_def
    by (intro q_settled)
      (simp_all add: q_settle_def q_push_def q_exec_def q_shift_def queue_new_def split: prod.splits)
  then show ?thesis by simp
qed

theorem queue_fifo_witness:
  "map fst (q_out demo_q) = [0, 1] \<and> \<not> q_on demo_q"
proof -
  have off: "\<not> q_on demo_q"
    by (simp add: demo_q_def demo_run_def q_settle_def q_push_def q_exec_def q_shift_def queue_new_def)
  with queue_fifo [OF demo_q_reach] have "map fst (q_out demo_q) = [0..<length [(''set'', 7 :: nat), (''bad'', 1)]]" by blast
  with off show ?thesis by (simp add: upt_rec)
qed

end
