(* ===== verification/Bpt.thy ===== *)
theory Bpt
  imports Js_Value
begin

text \<open>
  The B+ tree under every index, \<open>core/src/bpt.js\<close>. A tree lives in a key-value store under its
  prefix: \<open>root\<close>, \<open>count\<close> and one entry per node id. An operation works on an overlay \<open>stats\<close> of
  that store, which \<open>commit\<close> writes back. Here the store is a read-only view (\<open>bview\<close>), the overlay
  an object \<open>stats\<close>, and the entries are typed (\<open>sv\<close>); \<open>Indexer\<close> encodes them as the JSON values the
  code stores.

  Nodes are values: a node that the code mutates and puts into the overlay is the updated record.
  Wherever the code holds two references to one overlay node and a mutation through one is read
  through the other, the model reads the overlay again. The read cache \<open>cache\<close> only repeats reads of an
  unchanged store and is left out. \<open>compArr\<close>, \<open>comp\<close> return \<open>1\<close> when the first argument comes first.
\<close>

section \<open>Data\<close>

record bnode =
  bn_leaf :: bool
  bn_id :: string
  bn_vals :: "jv list"
  bn_children :: "string list"
  bn_parent :: "string option"
  bn_next :: "string option"
  bn_prev :: "string option"

text \<open>What the store and the overlay hold under a key; \<open>SNull\<close> is a root set to \<open>null\<close>.\<close>

datatype sv = SNode bnode | SRoot string | SCount int | SNull | SData jv | SDel

datatype sort_fields = SPlain | SFields "(string \<times> string) list"

record bcfg =
  bc_order :: nat
  bc_sort :: sort_fields

text \<open>\<open>{ key, val }\<close>; an absent key is \<open>undefined\<close>.\<close>

record item =
  it_key :: jv
  it_val :: jv

record bview =
  bv_get :: "string \<Rightarrow> sv option"
  bv_data :: "string \<Rightarrow> jv"

type_synonym stats = "(string \<times> sv) list"

definition max_vals :: "bcfg \<Rightarrow> nat" where
  "max_vals c = bc_order c - 1"

definition min_vals :: "bcfg \<Rightarrow> nat" where
  "min_vals c = (bc_order c + 1) div 2 - 1"

section \<open>The overlay\<close>

definition b_get :: "bview \<Rightarrow> string \<Rightarrow> stats \<Rightarrow> sv option" where
  "b_get V key st =
     (case map_of st key of
        None \<Rightarrow> bv_get V key
      | Some SNull \<Rightarrow> bv_get V key
      | Some s \<Rightarrow> Some s)"

definition b_put :: "string \<Rightarrow> sv \<Rightarrow> stats \<Rightarrow> stats" where
  "b_put key v st = oput key v st"

definition b_del :: "string \<Rightarrow> stats \<Rightarrow> stats" where
  "b_del key st = oput key SDel st"

definition data_key :: "string \<Rightarrow> string" where
  "data_key key = ''data/'' @ key"

definition put_data :: "string \<Rightarrow> jv \<Rightarrow> stats \<Rightarrow> stats" where
  "put_data key val st = oput (data_key key) (SData val) st"

definition del_data :: "string \<Rightarrow> stats \<Rightarrow> stats" where
  "del_data key st = oput (data_key key) SDel st"

definition put_node :: "bnode \<Rightarrow> stats \<Rightarrow> stats" where
  "put_node n st = b_put (bn_id n) (SNode n) st"

text \<open>\<open>data(key)\<close>: the overlay first, then the document store; a deleted entry has no \<open>val\<close>.\<close>

definition b_data :: "bview \<Rightarrow> jv \<Rightarrow> stats \<Rightarrow> item" where
  "b_data V key st =
     \<lparr>it_key = key,
      it_val = nullish (case map_of st (data_key (to_str key)) of
                          None \<Rightarrow> bv_data V (to_str key)
                        | Some (SData v) \<Rightarrow> v
                        | Some s \<Rightarrow> JUndef) JNull\<rparr>"

text \<open>A field of what \<open>get\<close> returned is accessed: \<open>null\<close> and a deletion mark have no node fields.\<close>

definition as_node :: "sv option \<Rightarrow> bnode res" where
  "as_node s = (case s of Some (SNode n) \<Rightarrow> Inr n | _ \<Rightarrow> Inl (TypeErr ''Cannot read properties''))"

definition node_at :: "bview \<Rightarrow> string \<Rightarrow> stats \<Rightarrow> bnode res" where
  "node_at V id' st = as_node (b_get V id' st)"

definition b_root :: "bview \<Rightarrow> stats \<Rightarrow> string option" where
  "b_root V st = (case b_get V ''root'' st of Some (SRoot r) \<Rightarrow> Some r | _ \<Rightarrow> None)"

definition set_root :: "string option \<Rightarrow> stats \<Rightarrow> stats" where
  "set_root r st = b_put ''root'' (case r of None \<Rightarrow> SNull | Some x \<Rightarrow> SRoot x) st"

definition is_over :: "bcfg \<Rightarrow> bnode \<Rightarrow> int \<Rightarrow> bool" where
  "is_over c n extra \<longleftrightarrow> int (length (bn_vals n)) + extra > int (max_vals c)"

definition is_under :: "bcfg \<Rightarrow> bnode \<Rightarrow> int \<Rightarrow> bool" where
  "is_under c n extra \<longleftrightarrow> int (length (bn_vals n)) + extra < int (min_vals c)"

definition new_id :: "bview \<Rightarrow> stats \<Rightarrow> string \<times> stats" where
  "new_id V st =
     (let count = (case b_get V ''count'' st of Some (SCount n) \<Rightarrow> n | _ \<Rightarrow> -1) + 1
      in (int_to_string count, b_put ''count'' (SCount count) st))"

definition b_init :: "bview \<Rightarrow> string \<Rightarrow> stats \<Rightarrow> stats" where
  "b_init V key st =
     (let (i, st1) = new_id V st;
          n = \<lparr>bn_leaf = True, bn_id = i, bn_vals = [JStr key], bn_children = [], bn_parent = None,
               bn_next = None, bn_prev = None\<rparr>
      in set_root (Some i) (put_node n st1))"

section \<open>Order\<close>

definition wrap :: "jv \<Rightarrow> item res" where
  "wrap v =
     rbind (jprop v ''__id__'') (\<lambda>i. Inr \<lparr>it_key = (if is_nil i then JUndef else i), it_val = v\<rparr>)"

text \<open>\<open>wrap\<close> of a bound that is not nullish does not throw.\<close>

definition bound_item :: "jv \<Rightarrow> item" where
  "bound_item v = (let i = jget v ''__id__'' in \<lparr>it_key = (if is_nil i then JUndef else i), it_val = v\<rparr>)"

fun comp_lists :: "jv list \<Rightarrow> jv list \<Rightarrow> int" where
  "comp_lists [] [] = 0"
| "comp_lists [] (y # ys) = (if jequals JUndef y then 0 else if js_lt JUndef y then 1 else -1)"
| "comp_lists (x # xs) [] = (if jequals x JUndef then 0 else if js_lt x JUndef then 1 else -1)"
| "comp_lists (x # xs) (y # ys) =
     (if \<not> jequals x y then (if js_lt x y then 1 else -1)
      else if x = JUndef \<or> y = JUndef then 0
      else comp_lists xs ys)"

definition to_arr :: "jv \<Rightarrow> jv list" where
  "to_arr v = (case v of JArr xs \<Rightarrow> xs | _ \<Rightarrow> [v])"

definition compArr :: "jv \<Rightarrow> jv \<Rightarrow> int" where
  "compArr va vb = comp_lists (to_arr va) (to_arr vb)"

definition field_val :: "string \<Rightarrow> item \<Rightarrow> jv" where
  "field_val f a =
     (if f = ''__id__'' then it_key a else nullish (jpath (split_on (CHR ''.'') f) (it_val a)) JNull)"

definition desc_sign :: "string \<Rightarrow> int" where
  "desc_sign d = (if d = ''desc'' then -1 else 1)"

fun comp_fields :: "(string \<times> string) list \<Rightarrow> item \<Rightarrow> item \<Rightarrow> bool \<Rightarrow> int" where
  "comp_fields [] a b null_last = 0"
| "comp_fields ((f, d) # fs) a b null_last =
     (let va = field_val f a; vb = field_val f b; bare = compArr va vb in
      if bare \<noteq> 0 then
        (if is_nil va then desc_sign d * (if null_last then -1 else 1)
         else if is_nil vb then desc_sign d * (if null_last then 1 else -1)
         else if bare = 1 then 1 else -1) * desc_sign d
      else comp_fields fs a b null_last)"

definition comp :: "bcfg \<Rightarrow> item \<Rightarrow> item \<Rightarrow> bool \<Rightarrow> int" where
  "comp c a b null_last =
     (case bc_sort c of
        SPlain \<Rightarrow> if js_eq (it_val a) (it_val b) then 0 else if js_lt (it_val a) (it_val b) then 1 else -1
      | SFields fs \<Rightarrow> comp_fields fs a b null_last)"

definition pick :: "bcfg \<Rightarrow> item \<Rightarrow> jv res" where
  "pick c obj =
     (case bc_sort c of
        SPlain \<Rightarrow> Inr (it_val obj)
      | SFields fs \<Rightarrow>
          rfoldl (\<lambda>acc (f, d).
              if f = ''__id__'' then Inr (jset acc f (it_key obj))
              else rbind (jprop (it_val obj) f) (\<lambda>x. Inr (jset acc f (nullish x JNull))))
            (JObj []) fs)"

section \<open>Search\<close>

text \<open>\<open>key ?? root ?? "0"\<close>\<close>

definition start_key :: "bview \<Rightarrow> string option \<Rightarrow> stats \<Rightarrow> string" where
  "start_key V key st =
     (case key of Some k \<Rightarrow> k | None \<Rightarrow> (case b_root V st of Some r \<Rightarrow> r | None \<Rightarrow> ''0''))"

definition nth_opt :: "'a list \<Rightarrow> nat \<Rightarrow> 'a option" where
  "nth_opt xs i = (if i < length xs then Some (xs ! i) else None)"

text \<open>The first separator after the searched item; no item goes left.\<close>

fun child_pos :: "bcfg \<Rightarrow> item option \<Rightarrow> bool \<Rightarrow> jv list \<Rightarrow> nat res" where
  "child_pos c val after [] = Inr 0"
| "child_pos c val after (v # vs) =
     (case val of
        None \<Rightarrow> Inr 0
      | Some x \<Rightarrow>
          rbind (wrap v) (\<lambda>w. if comp c x w after = 1 then Inr 0
            else rbind (child_pos c val after vs) (\<lambda>i. Inr (Suc i))))"

fun search :: "nat \<Rightarrow> bview \<Rightarrow> bcfg \<Rightarrow> item option \<Rightarrow> string option \<Rightarrow> stats \<Rightarrow> bool \<Rightarrow> bnode option res" where
  "search 0 V c val key st after = Inl Fuel"
| "search (Suc n) V c val key st after =
     (case b_get V (start_key V key st) st of
        None \<Rightarrow> Inr None
      | Some s \<Rightarrow>
          rbind (as_node (Some s)) (\<lambda>node.
            if bn_leaf node then Inr (Some node)
            else rbind (child_pos c val after (bn_vals node)) (\<lambda>i.
                   search n V c val (nth_opt (bn_children node) i) st after)))"

text \<open>From the right: the number of separators up to and including the last one not after the item.\<close>

fun rchild_pos :: "bcfg \<Rightarrow> item option \<Rightarrow> bool \<Rightarrow> jv list \<Rightarrow> nat res" where
  "rchild_pos c val after [] = Inr 0"
| "rchild_pos c val after (v # vs) =
     (case val of
        None \<Rightarrow> Inr (Suc (length vs))
      | Some x \<Rightarrow>
          rbind (wrap v) (\<lambda>w. if comp c x w (\<not> after) \<le> 0 then Inr (Suc (length vs))
            else rchild_pos c val after vs))"

fun rsearch :: "nat \<Rightarrow> bview \<Rightarrow> bcfg \<Rightarrow> item option \<Rightarrow> string option \<Rightarrow> stats \<Rightarrow> bool \<Rightarrow> bnode option res" where
  "rsearch 0 V c val key st after = Inl Fuel"
| "rsearch (Suc n) V c val key st after =
     (case b_get V (start_key V key st) st of
        None \<Rightarrow> Inr None
      | Some s \<Rightarrow>
          rbind (as_node (Some s)) (\<lambda>node.
            if bn_leaf node then Inr (Some node)
            else rbind (rchild_pos c val after (rev (bn_vals node))) (\<lambda>i.
                   rsearch n V c val (nth_opt (bn_children node) i) st after)))"

section \<open>Positions inside a node\<close>

text \<open>The \<open>while (left <= right)\<close> loop; \<open>right\<close> is kept one higher.\<close>

function bin_loop :: "bview \<Rightarrow> bcfg \<Rightarrow> jv list \<Rightarrow> item \<Rightarrow> bool \<Rightarrow> stats \<Rightarrow> nat \<Rightarrow> nat
    \<Rightarrow> nat option \<times> nat option \<times> nat option" where
  "bin_loop V c vals val nl st left right1 =
     (if left < right1 then
        let mid = (left + right1 - 1) div 2;
            r = comp c (b_data V (vals ! mid) st) val nl
        in if r = 0 then (Some mid, None, None)
           else if r = 1 then bin_loop V c vals val nl st (Suc mid) right1
           else bin_loop V c vals val nl st left mid
      else (None, if 0 < right1 then Some (right1 - 1) else None,
            if left < length vals then Some left else None))"
  by pat_completeness auto
termination by (relation "measure (\<lambda>(V, c, vals, val, nl, st, left, right1). right1 - left)") auto

declare bin_loop.simps [simp del]

definition binarySearch :: "bview \<Rightarrow> bcfg \<Rightarrow> bnode \<Rightarrow> item \<Rightarrow> stats \<Rightarrow> bool
    \<Rightarrow> nat option \<times> nat option \<times> nat option" where
  "binarySearch V c node val st nl = bin_loop V c (bn_vals node) val nl st 0 (length (bn_vals node))"

text \<open>\<open>searchNode\<close>: the two scans of one node; \<open>Inl found\<close> returns, \<open>Inr isPrev\<close> goes on.\<close>

fun scan_down :: "bview \<Rightarrow> bcfg \<Rightarrow> bnode \<Rightarrow> jv \<Rightarrow> item \<Rightarrow> stats \<Rightarrow> nat \<Rightarrow> bool \<Rightarrow> nat option \<times> bool" where
  "scan_down V c node key val st 0 isPrev = (None, isPrev)"
| "scan_down V c node key val st (Suc i) isPrev =
     (let v = bn_vals node ! i in
      if v = key then (Some i, isPrev)
      else if comp c (b_data V v st) val False = 1 then (None, isPrev)
      else scan_down V c node key val st i (if i = 0 then True else isPrev))"

fun scan_up :: "bview \<Rightarrow> bcfg \<Rightarrow> jv list \<Rightarrow> jv \<Rightarrow> item \<Rightarrow> stats \<Rightarrow> nat \<Rightarrow> bool \<Rightarrow> nat option option" where
  "scan_up V c [] key val st i isPrev = None"
| "scan_up V c (v # vs) key val st i isPrev =
     (if v = key then Some (Some i)
      else if comp c val (b_data V v st) False = 1 then (if isPrev then None else Some None)
      else scan_up V c vs key val st (Suc i) isPrev)"

fun searchNode :: "nat \<Rightarrow> bview \<Rightarrow> bcfg \<Rightarrow> bnode \<Rightarrow> jv \<Rightarrow> item \<Rightarrow> bool \<Rightarrow> stats \<Rightarrow> (nat \<times> bnode) option res" where
  "searchNode 0 V c node key val first st = Inl Fuel"
| "searchNode (Suc n) V c node key val first st =
     (let start = (if first then fst (binarySearch V c node val st False) else Some 0) in
      case start of
        None \<Rightarrow> Inr None
      | Some s \<Rightarrow>
          (case scan_down V c node key val st s (s = 0) of
             (Some i, _) \<Rightarrow> Inr (Some (i, node))
           | (None, isPrev) \<Rightarrow>
               (case scan_up V c (bn_vals node) key val st 0 isPrev of
                  Some (Some i) \<Rightarrow> Inr (Some (i, node))
                | Some None \<Rightarrow> Inr None
                | None \<Rightarrow>
                    (case (if isPrev then bn_prev node else None) of
                       None \<Rightarrow> Inr None
                     | Some p \<Rightarrow>
                         rbind (node_at V p st) (\<lambda>prev.
                           searchNode n V c prev key val False st)))))"

definition searchByKey :: "nat \<Rightarrow> bview \<Rightarrow> bcfg \<Rightarrow> string \<Rightarrow> stats
    \<Rightarrow> (item option \<times> (nat \<times> bnode) option) res" where
  "searchByKey n V c key st =
     (let val = b_data V (JStr key) st in
      if is_nil (it_val val) then Inr (None, None)
      else rbind (search n V c (Some val) None st False) (\<lambda>m.
             case m of
               None \<Rightarrow> Inr (Some val, None)
             | Some node \<Rightarrow>
                 rbind (searchNode n V c node (JStr key) val True st) (\<lambda>r. Inr (Some val, r))))"

definition bpt_read :: "nat \<Rightarrow> bview \<Rightarrow> bcfg \<Rightarrow> string \<Rightarrow> item res" where
  "bpt_read n V c key =
     rbind (searchByKey n V c key []) (\<lambda>(doc, _).
       Inr \<lparr>it_key = JStr key, it_val = nullish (case doc of None \<Rightarrow> JUndef | Some d \<Rightarrow> it_val d) JNull\<rparr>)"

section \<open>Ranges\<close>

text \<open>The options of a range; \<open>JUndef\<close> is an option that is not given.\<close>

record ropt =
  ro_limit :: "int option"
  ro_startAt :: jv
  ro_startAfter :: jv
  ro_endAt :: jv
  ro_endBefore :: jv
  ro_reverse :: bool

definition past_end :: "bcfg \<Rightarrow> ropt \<Rightarrow> item \<Rightarrow> bool" where
  "past_end c opt val =
     (if \<not> is_nil (ro_endAt opt) then comp c val (bound_item (ro_endAt opt)) True < 0
      else if \<not> is_nil (ro_endBefore opt) then comp c val (bound_item (ro_endBefore opt)) False \<le> 0
      else False)"

definition past_end_rev :: "bcfg \<Rightarrow> ropt \<Rightarrow> item \<Rightarrow> bool" where
  "past_end_rev c opt val =
     (if \<not> is_nil (ro_endAt opt) then comp c val (bound_item (ro_endAt opt)) False > 0
      else if \<not> is_nil (ro_endBefore opt) then comp c val (bound_item (ro_endBefore opt)) True \<ge> 0
      else False)"

text \<open>One node's loop of \<open>getVals\<close>: the values so far and whether it returned.\<close>

fun take_vals :: "(item \<Rightarrow> bool) \<Rightarrow> int option \<Rightarrow> item list \<Rightarrow> item list \<Rightarrow> item list \<times> bool" where
  "take_vals past lim [] acc = (acc, False)"
| "take_vals past lim (x # xs) acc =
     (if past x then (acc, True)
      else if lim = Some (int (length acc) + 1) then (acc @ [x], True)
      else take_vals past lim xs (acc @ [x]))"

fun getVals :: "nat \<Rightarrow> bview \<Rightarrow> bcfg \<Rightarrow> bnode \<Rightarrow> item list \<Rightarrow> nat \<Rightarrow> ropt \<Rightarrow> stats \<Rightarrow> item list res" where
  "getVals 0 V c node vals index opt st = Inl Fuel"
| "getVals (Suc n) V c node vals index opt st =
     (let xs = map (\<lambda>v. b_data V v st) (drop index (bn_vals node));
          (vals1, stop) = take_vals (past_end c opt) (ro_limit opt) xs vals
      in if stop then Inr vals1
         else (case bn_next node of
                 None \<Rightarrow> Inr vals1
               | Some k \<Rightarrow> rbind (node_at V k st) (\<lambda>next. getVals n V c next vals1 0 opt st)))"

text \<open>\<open>hi\<close> is one above the start index; \<open>0\<close> is the start index \<open>-1\<close>.\<close>

fun getValsReverse :: "nat \<Rightarrow> bview \<Rightarrow> bcfg \<Rightarrow> bnode \<Rightarrow> item list \<Rightarrow> nat \<Rightarrow> ropt \<Rightarrow> stats \<Rightarrow> item list res" where
  "getValsReverse 0 V c node vals hi opt st = Inl Fuel"
| "getValsReverse (Suc n) V c node vals hi opt st =
     (let xs = map (\<lambda>v. b_data V v st) (rev (take hi (bn_vals node)));
          (vals1, stop) = take_vals (past_end_rev c opt) (ro_limit opt) xs vals
      in if stop then Inr vals1
         else (case bn_prev node of
                 None \<Rightarrow> Inr vals1
               | Some k \<Rightarrow>
                   rbind (node_at V k st) (\<lambda>prev.
                     getValsReverse n V c prev vals1 (length (bn_vals prev)) opt st)))"

text \<open>
  \<open>findIndex\<close> and its three relatives return a position, which may be \<open>null\<close>, and its node. The
  loops: \<open>down_while\<close> goes down from an index as long as the entry equals the value, the others look
  for the first entry, upwards or downwards, that satisfies a test.
\<close>

fun down_while :: "(nat \<Rightarrow> bool) \<Rightarrow> nat \<Rightarrow> nat option \<Rightarrow> nat option \<times> bool" where
  "down_while same 0 index = (index, False)"
| "down_while same (Suc i) index =
     (if \<not> same i then (index, False)
      else if i = 0 then (Some 0, True)
      else down_while same i (Some i))"

fun findIndex :: "nat \<Rightarrow> bview \<Rightarrow> bcfg \<Rightarrow> nat option \<Rightarrow> bnode \<Rightarrow> item \<Rightarrow> stats \<Rightarrow> (nat option \<times> bnode) res" where
  "findIndex 0 V c index0 node val st = Inl Fuel"
| "findIndex (Suc n) V c index0 node val st =
     (let from = (case index0 of None \<Rightarrow> length (bn_vals node) | Some i \<Rightarrow> i);
          (index, atFirst) =
            (if index0 = Some 0 then (Some 0, True)
             else down_while (\<lambda>i. comp c (b_data V (bn_vals node ! i) st) val False = 0) from index0);
          back = (if index0 = Some 0 then index0 else Some from)
      in case (if atFirst then bn_prev node else None) of
           None \<Rightarrow> Inr (index, node)
         | Some p \<Rightarrow>
             rbind (node_at V p st) (\<lambda>prev.
             rbind (findIndex n V c None prev val st) (\<lambda>(ni, nn).
               if ni \<noteq> None then Inr (ni, nn) else Inr (back, node))))"

text \<open>The first \<open>i\<close> in \<open>[from, to)\<close> with the test, and whether the loop met the last index untested
  true.\<close>

definition first_up :: "(nat \<Rightarrow> bool) \<Rightarrow> nat \<Rightarrow> nat \<Rightarrow> nat option" where
  "first_up test from to' = List.find test [from..<to']"

definition first_down :: "(nat \<Rightarrow> bool) \<Rightarrow> nat \<Rightarrow> nat option" where
  "first_down test to' = List.find test (rev [0..<to'])"

text \<open>\<open>from\<close> is \<open>_index + 1\<close>: the recursive calls pass the index \<open>-1\<close>. What they return when the next
  leaf has no answer is \<open>_index\<close> itself, \<open>-1\<close> included.\<close>

fun find_forward :: "nat \<Rightarrow> bview \<Rightarrow> bcfg \<Rightarrow> (int \<Rightarrow> bool) \<Rightarrow> nat \<Rightarrow> bnode \<Rightarrow> item \<Rightarrow> stats
    \<Rightarrow> (int option \<times> bnode) res" where
  "find_forward 0 V c test from node val st = Inl Fuel"
| "find_forward (Suc n) V c test from node val st =
     (let len = length (bn_vals node);
          index = (if from \<ge> len then None
                   else first_up (\<lambda>i. test (comp c (b_data V (bn_vals node ! i) st) val False)) from len);
          isNext = (if from \<ge> len then bn_next node \<noteq> None else index = None \<and> bn_next node \<noteq> None)
      in case (if isNext then bn_next node else None) of
           None \<Rightarrow> Inr (map_option int index, node)
         | Some k \<Rightarrow>
             rbind (node_at V k st) (\<lambda>next.
             rbind (find_forward n V c test 0 next val st) (\<lambda>(ni, nn).
               if ni \<noteq> None then Inr (ni, nn) else Inr (Some (int from - 1), node))))"

definition findLastIndex :: "nat \<Rightarrow> bview \<Rightarrow> bcfg \<Rightarrow> nat \<Rightarrow> bnode \<Rightarrow> item \<Rightarrow> stats \<Rightarrow> (int option \<times> bnode) res" where
  "findLastIndex n V c from node val st = find_forward n V c (\<lambda>r. r \<noteq> 0) from node val st"

definition findLastGtIndex :: "nat \<Rightarrow> bview \<Rightarrow> bcfg \<Rightarrow> nat \<Rightarrow> bnode \<Rightarrow> item \<Rightarrow> stats \<Rightarrow> (int option \<times> bnode) res" where
  "findLastGtIndex n V c from node val st = find_forward n V c (\<lambda>r. r = -1) from node val st"

fun findFirstLtIndex :: "nat \<Rightarrow> bview \<Rightarrow> bcfg \<Rightarrow> nat \<Rightarrow> bnode \<Rightarrow> item \<Rightarrow> stats \<Rightarrow> (nat option \<times> bnode) res" where
  "findFirstLtIndex 0 V c index0 node val st = Inl Fuel"
| "findFirstLtIndex (Suc n) V c index0 node val st =
     (let index = first_down (\<lambda>i. comp c (b_data V (bn_vals node ! i) st) val True = 1) index0;
          isPrev = (index = None \<and> bn_prev node \<noteq> None)
      in case (if isPrev then bn_prev node else None) of
           None \<Rightarrow> Inr (index, node)
         | Some p \<Rightarrow>
             rbind (node_at V p st) (\<lambda>prev.
             rbind (findFirstLtIndex n V c (length (bn_vals prev)) prev val st) (\<lambda>(ni, nn).
               if ni \<noteq> None then Inr (ni, nn) else Inr (Some index0, node))))"

text \<open>
  The start of a range: the leaf and the index from which values are taken; \<open>None\<close> for the node is
  an empty tree, \<open>None\<close> for the index is \<open>null\<close>, nothing to return.
\<close>

definition range_start_fwd :: "nat \<Rightarrow> bview \<Rightarrow> bcfg \<Rightarrow> ropt \<Rightarrow> item \<Rightarrow> bnode \<Rightarrow> stats
    \<Rightarrow> (int option \<times> bnode) res" where
  "range_start_fwd n V c opt start first st =
     (let after = is_nil (ro_startAt opt) \<and> \<not> is_nil (ro_startAfter opt);
          (index, smaller, greater) = binarySearch V c first start st after;
          beyond = (if smaller \<noteq> None then bn_next first else None);
          gt = (case beyond of
                  None \<Rightarrow> Inr (None, first)
                | Some k \<Rightarrow>
                    rbind (node_at V k st) (\<lambda>next.
                    rbind (findLastGtIndex n V c 0 next start st) (\<lambda>(ni, nn).
                      if ni \<noteq> None then Inr (ni, nn) else Inr (None, first))))
      in case greater of
           Some g \<Rightarrow> Inr (Some (int g), first)
         | None \<Rightarrow>
             (case index of
                None \<Rightarrow> gt
              | Some i \<Rightarrow>
                  if \<not> is_nil (ro_startAt opt) then
                    rbind (findIndex n V c (Some i) first start st) (\<lambda>(ni, nn).
                      case ni of Some k \<Rightarrow> Inr (Some (int k), nn) | None \<Rightarrow> Inr (Some (int i), first))
                  else
                    rbind (findLastIndex n V c (Suc i) first start st) (\<lambda>(ni, nn).
                      if ni \<noteq> None then Inr (ni, nn) else Inr (None, first))))"

definition range_start_rev :: "nat \<Rightarrow> bview \<Rightarrow> bcfg \<Rightarrow> ropt \<Rightarrow> item \<Rightarrow> bnode \<Rightarrow> stats
    \<Rightarrow> (int option \<times> bnode) res" where
  "range_start_rev n V c opt start first st =
     (let after = is_nil (ro_startAt opt) \<and> \<not> is_nil (ro_startAfter opt);
          (index, smaller, greater) = binarySearch V c first start st (\<not> after)
      in if \<not> is_nil (ro_startAt opt) then
           Inr (map_option int (if smaller \<noteq> None then smaller else index), first)
         else
           (case smaller of
              Some s \<Rightarrow> Inr (Some (int s), first)
            | None \<Rightarrow>
                (case index of
                   None \<Rightarrow> Inr (None, first)
                 | Some i \<Rightarrow>
                     rbind (findFirstLtIndex n V c i first start st) (\<lambda>(ni, nn).
                       if ni \<noteq> None then Inr (map_option int ni, nn) else Inr (None, first)))))"

definition range_limit :: "ropt \<Rightarrow> ropt" where
  "range_limit opt =
     opt\<lparr>ro_limit := Some (case ro_limit opt of None \<Rightarrow> 1000 | Some l \<Rightarrow> if l > 1000 then 1000 else l)\<rparr>"

definition range_start :: "nat \<Rightarrow> bview \<Rightarrow> bcfg \<Rightarrow> ropt \<Rightarrow> (int option \<times> bnode) option res" where
  "range_start n V c opt =
     (let s = nullish (ro_startAt opt) (ro_startAfter opt);
          start = (if is_nil s then None else Some (bound_item s));
          after = is_nil (ro_startAt opt) \<and> \<not> is_nil (ro_startAfter opt)
      in rbind ((if ro_reverse opt then rsearch else search) n V c start None [] after) (\<lambda>m.
           case m of
             None \<Rightarrow> Inr None
           | Some first \<Rightarrow>
               (case start of
                  None \<Rightarrow> Inr (Some (Some (if ro_reverse opt then int (length (bn_vals first)) - 1 else 0), first))
                | Some x \<Rightarrow>
                    rbind ((if ro_reverse opt then range_start_rev else range_start_fwd) n V c opt x first [])
                      (\<lambda>r. Inr (Some r)))))"

text \<open>\<open>range(opt)\<close> without a cursor; an index outside the leaf reads \<open>data(undefined)\<close>, which throws.\<close>

definition bpt_range :: "nat \<Rightarrow> bview \<Rightarrow> bcfg \<Rightarrow> ropt \<Rightarrow> item list res" where
  "bpt_range n V c opt0 =
     (let opt = range_limit opt0 in
      rbind (range_start n V c opt) (\<lambda>m.
        case m of
          None \<Rightarrow> Inr []
        | Some (None, node) \<Rightarrow> Inr []
        | Some (Some i, node) \<Rightarrow>
            if ro_reverse opt then
              (if i \<ge> int (length (bn_vals node)) then Inl (TypeErr ''Cannot read properties'')
               else getValsReverse n V c node [] (nat (i + 1)) opt [])
            else if i < 0 then Inl (TypeErr ''Cannot read properties'')
            else getVals n V c node [] (nat i) opt []))"

text \<open>
  The cursors: a step function over the current node and index. In the reverse cursor the test of
  the limit compares the length of a list that is never filled.
\<close>

record bcur =
  cu_node :: "bnode option"
  cu_i :: nat
  cu_len :: int

fun cur_next :: "nat \<Rightarrow> bview \<Rightarrow> bcfg \<Rightarrow> ropt \<Rightarrow> bcur \<Rightarrow> (item option \<times> bcur) res" where
  "cur_next 0 V c opt cu = Inl Fuel"
| "cur_next (Suc n) V c opt cu =
     (case cu_node cu of
        None \<Rightarrow> Inr (None, cu)
      | Some node \<Rightarrow>
          if cu_i cu < length (bn_vals node) then
            (let val = b_data V (bn_vals node ! cu_i cu) [] in
             if past_end c opt val then Inr (None, cu\<lparr>cu_node := None\<rparr>)
             else let len = cu_len cu + 1 in
                  if ro_limit opt = Some len then Inr (Some val, cu\<lparr>cu_node := None, cu_len := len\<rparr>)
                  else Inr (Some val, cu\<lparr>cu_i := Suc (cu_i cu), cu_len := len\<rparr>))
          else (case bn_next node of
                  None \<Rightarrow> Inr (None, cu\<lparr>cu_node := None\<rparr>)
                | Some k \<Rightarrow>
                    rbind (node_at V k []) (\<lambda>next.
                      cur_next n V c opt (cu\<lparr>cu_node := Some next, cu_i := 0\<rparr>))))"

text \<open>For the reverse cursor \<open>cu_i\<close> is one above the index.\<close>

fun cur_next_rev :: "nat \<Rightarrow> bview \<Rightarrow> bcfg \<Rightarrow> ropt \<Rightarrow> bcur \<Rightarrow> (item option \<times> bcur) res" where
  "cur_next_rev 0 V c opt cu = Inl Fuel"
| "cur_next_rev (Suc n) V c opt cu =
     (case cu_node cu of
        None \<Rightarrow> Inr (None, cu)
      | Some node \<Rightarrow>
          (case cu_i cu of
             Suc i \<Rightarrow>
               (let val = b_data V (bn_vals node ! i) [] in
                if past_end_rev c opt val then Inr (None, cu\<lparr>cu_node := None\<rparr>)
                else if ro_limit opt = Some 0 then Inr (Some val, cu\<lparr>cu_node := None\<rparr>)
                else Inr (Some val, cu\<lparr>cu_i := i\<rparr>))
           | 0 \<Rightarrow>
               (case bn_prev node of
                  None \<Rightarrow> Inr (None, cu\<lparr>cu_node := None\<rparr>)
                | Some k \<Rightarrow>
                    rbind (node_at V k []) (\<lambda>prev.
                      cur_next_rev n V c opt (cu\<lparr>cu_node := Some prev, cu_i := length (bn_vals prev)\<rparr>)))))"

text \<open>
  \<open>range(opt, true)\<close>; \<open>None\<close> is the cursor of an empty tree. A cursor whose start index is not a
  position of its leaf reads \<open>data(undefined)\<close> and throws when it is first called; here it throws when it
  is made.
\<close>

definition range_cursor :: "nat \<Rightarrow> bview \<Rightarrow> bcfg \<Rightarrow> ropt \<Rightarrow> bcur option res" where
  "range_cursor n V c opt0 =
     (let opt = range_limit opt0 in
      rbind (range_start n V c opt) (\<lambda>m.
        case m of
          None \<Rightarrow> Inr None
        | Some (None, node) \<Rightarrow> Inl (TypeErr ''Cannot read properties'')
        | Some (Some i, node) \<Rightarrow>
            if (if ro_reverse opt then i \<ge> int (length (bn_vals node)) else i < 0)
            then Inl (TypeErr ''Cannot read properties'')
            else Inr (Some \<lparr>cu_node = Some node,
                            cu_i = (if ro_reverse opt then nat (i + 1) else nat i), cu_len = 0\<rparr>)))"

section \<open>Changing nodes\<close>

text \<open>
  \<open>touch\<close>: the node object that was mutated is in the overlay, so the mutation is visible there.
  \<open>current\<close> is the state of a node object after an operation that may have put it.
\<close>

definition touch :: "bnode \<Rightarrow> stats \<Rightarrow> stats" where
  "touch n st = (case map_of st (bn_id n) of Some (SNode m) \<Rightarrow> put_node n st | _ \<Rightarrow> st)"

definition current :: "bnode \<Rightarrow> stats \<Rightarrow> bnode" where
  "current n st = (case map_of st (bn_id n) of Some (SNode m) \<Rightarrow> m | _ \<Rightarrow> n)"

definition splice_del :: "nat \<Rightarrow> 'a list \<Rightarrow> 'a list" where
  "splice_del i xs = take i xs @ drop (Suc i) xs"

text \<open>\<open>xs.splice(i, 0, x)\<close>; a negative \<open>i\<close> counts from the end.\<close>

definition splice_ins :: "int \<Rightarrow> 'a \<Rightarrow> 'a list \<Rightarrow> 'a list" where
  "splice_ins i x xs =
     (let k = (if i < 0 then nat (max 0 (int (length xs) + i)) else nat i)
      in take k xs @ x # drop k xs)"

text \<open>\<open>xs[i] = x\<close>, extending the array.\<close>

definition set_at :: "nat \<Rightarrow> jv \<Rightarrow> jv list \<Rightarrow> jv list" where
  "set_at i x xs =
     (if i < length xs then xs[i := x] else xs @ replicate (i - length xs) JUndef @ [x])"

fun index_of :: "string \<Rightarrow> string list \<Rightarrow> int" where
  "index_of x [] = -1"
| "index_of x (y # ys) = (if x = y then 0 else (let i = index_of x ys in if i < 0 then -1 else i + 1))"

definition hd_res :: "'a list \<Rightarrow> 'a res" where
  "hd_res xs = (case xs of [] \<Rightarrow> Inl (TypeErr ''Cannot read properties'') | x # _ \<Rightarrow> Inr x)"

definition last_res :: "'a list \<Rightarrow> 'a res" where
  "last_res xs = (if xs = [] then Inl (TypeErr ''Cannot read properties'') else Inr (last xs))"

text \<open>\<open>child.parent = p; putNode(child)\<close> for each child.\<close>

definition set_parent :: "bview \<Rightarrow> string option \<Rightarrow> stats \<Rightarrow> string \<Rightarrow> stats res" where
  "set_parent V p st ch = rbind (node_at V ch st) (\<lambda>child. Inr (put_node (child\<lparr>bn_parent := p\<rparr>) st))"

section \<open>Removing from a branch: \<open>rmIndex\<close>\<close>

text \<open>
  The four ways to repair a branch node that became too small: borrow the last child of the previous
  sibling, the first of the next one, or merge into either. Each is given the siblings it uses.
\<close>

definition rm_borrow_prev :: "bview \<Rightarrow> bnode \<Rightarrow> bnode \<Rightarrow> bnode \<Rightarrow> nat \<Rightarrow> stats \<Rightarrow> (bnode \<times> stats) res" where
  "rm_borrow_prev V node prev parent index st =
     rbind (last_res (bn_children prev)) (\<lambda>ch.
       let node' = node\<lparr>bn_vals := jidx (bn_vals parent) (index - 1) # bn_vals node,
                        bn_children := ch # bn_children node\<rparr>;
           parent' = parent\<lparr>bn_vals := set_at (index - 1) (if bn_vals prev = [] then JUndef else last (bn_vals prev))
                                        (bn_vals parent)\<rparr>;
           prev' = prev\<lparr>bn_vals := butlast (bn_vals prev), bn_children := butlast (bn_children prev)\<rparr>
       in rbind (set_parent V (Some (bn_id node)) (put_node parent' (put_node prev' (put_node node' st))) ch)
            (\<lambda>st'. Inr (node', st')))"

definition rm_borrow_next :: "bview \<Rightarrow> bnode \<Rightarrow> bnode \<Rightarrow> bnode \<Rightarrow> nat \<Rightarrow> stats \<Rightarrow> (bnode \<times> stats) res" where
  "rm_borrow_next V node next parent index st =
     rbind (hd_res (bn_children next)) (\<lambda>ch.
       let node' = node\<lparr>bn_vals := bn_vals node @ [jidx (bn_vals parent) index],
                        bn_children := bn_children node @ [ch]\<rparr>;
           parent' = parent\<lparr>bn_vals := set_at index (jidx (bn_vals next) 0) (bn_vals parent)\<rparr>;
           next' = next\<lparr>bn_vals := tl (bn_vals next), bn_children := tl (bn_children next)\<rparr>
       in rbind (set_parent V (Some (bn_id node)) (put_node parent' (put_node next' (put_node node' st))) ch)
            (\<lambda>st'. Inr (node', st')))"

definition rm_merge_prev :: "bview \<Rightarrow> bnode \<Rightarrow> bnode \<Rightarrow> bnode \<Rightarrow> nat \<Rightarrow> stats \<Rightarrow> stats res" where
  "rm_merge_prev V node prev parent index st =
     rbind (rfoldl (set_parent V (Some (bn_id prev))) st (bn_children node)) (\<lambda>st1.
     rbind (case bn_next node of
              None \<Rightarrow> Inr st1
            | Some k \<Rightarrow> rbind (node_at V k st1) (\<lambda>nx. Inr (put_node (nx\<lparr>bn_prev := bn_prev node\<rparr>) st1)))
       (\<lambda>st2. Inr (put_node (prev\<lparr>bn_children := bn_children prev @ bn_children node,
                                  bn_vals := bn_vals prev @ [jidx (bn_vals parent) (index - 1)] @ bn_vals node,
                                  bn_next := bn_next node\<rparr>) st2)))"

definition rm_merge_next :: "bview \<Rightarrow> bnode \<Rightarrow> bnode \<Rightarrow> bnode \<Rightarrow> nat \<Rightarrow> stats \<Rightarrow> stats res" where
  "rm_merge_next V node next parent index st =
     rbind (rfoldl (set_parent V (Some (bn_id next))) st (bn_children node)) (\<lambda>st1.
     rbind (case bn_prev node of
              None \<Rightarrow> Inr st1
            | Some k \<Rightarrow> rbind (node_at V k st1) (\<lambda>pv. Inr (put_node (pv\<lparr>bn_next := bn_next node\<rparr>) st1)))
       (\<lambda>st2. Inr (put_node (next\<lparr>bn_children := bn_children node @ bn_children next,
                                  bn_vals := bn_vals node @ jidx (bn_vals parent) index # bn_vals next,
                                  bn_prev := bn_prev node\<rparr>) st2)))"

text \<open>The root ran empty: its last child becomes the root.\<close>

definition rm_collapse :: "bview \<Rightarrow> bnode \<Rightarrow> stats \<Rightarrow> stats res" where
  "rm_collapse V node st =
     rbind (rfoldl (set_parent V None) st (bn_children node)) (\<lambda>st1.
       Inr (if b_root V st1 = Some (bn_id node)
            then b_del (bn_id node)
                   (set_root (if bn_children node = [] then None else Some (last (bn_children node))) st1)
            else st1))"

text \<open>The sibling at an index of the parent's children, read only where the code reads it.\<close>

definition sibling :: "bview \<Rightarrow> bnode \<Rightarrow> bool \<Rightarrow> nat \<Rightarrow> stats \<Rightarrow> bnode option res" where
  "sibling V parent wanted i st =
     (if wanted then rbind (node_at V (bn_children parent ! i) st) (\<lambda>m. Inr (Some m)) else Inr None)"

definition can_lend :: "bcfg \<Rightarrow> bnode option \<Rightarrow> bool" where
  "can_lend c m = (case m of None \<Rightarrow> False | Some s \<Rightarrow> \<not> is_under c s (-1))"

definition can_merge :: "bcfg \<Rightarrow> bnode option \<Rightarrow> nat \<Rightarrow> bool" where
  "can_merge c m k = (case m of None \<Rightarrow> False | Some s \<Rightarrow> \<not> is_over c s (int k))"

fun rmIndex :: "nat \<Rightarrow> bview \<Rightarrow> bcfg \<Rightarrow> nat \<Rightarrow> nat \<Rightarrow> bnode \<Rightarrow> stats \<Rightarrow> (bnode \<times> stats) res" where
  "rmIndex 0 V c vi ci node0 st0 = Inl Fuel"
| "rmIndex (Suc n) V c vi ci node0 st0 =
     (let node = node0\<lparr>bn_vals := splice_del vi (bn_vals node0), bn_children := splice_del ci (bn_children node0)\<rparr>;
          st = touch node st0
      in if bn_vals node = [] \<or> (bn_parent node \<noteq> None \<and> is_under c node 0) then
           (case bn_parent node of
              None \<Rightarrow> rbind (rm_collapse V node st) (\<lambda>st'. Inr (node, st'))
            | Some pid \<Rightarrow>
                rbind (node_at V pid st) (\<lambda>parent.
                  let index = index_of (bn_id node) (bn_children parent);
                      isPrev = index > 0;
                      isNext = index + 1 < int (length (bn_children parent))
                  in rbind (sibling V parent isPrev (nat (index - 1)) st) (\<lambda>prev.
                     if can_lend c prev then rm_borrow_prev V node (the prev) parent (nat index) st
                     else rbind (sibling V parent isNext (nat (index + 1)) st) (\<lambda>next.
                       if can_lend c next then rm_borrow_next V node (the next) parent (nat index) st
                       else if can_merge c prev (Suc (length (bn_vals node))) then
                         rbind (rm_merge_prev V node (the prev) parent (nat index) st) (\<lambda>st1.
                         rbind (rmIndex n V c (nat (index - 1)) (nat index) (current parent st1) st1)
                           (\<lambda>(_, st2). Inr (node, st2)))
                       else if can_merge c next (Suc (length (bn_vals node))) then
                         rbind (rm_merge_next V node (the next) parent (nat index) st) (\<lambda>st1.
                         rbind (rmIndex n V c (nat index) (nat index) (current parent st1) st1)
                           (\<lambda>(_, st2). Inr (node, st2)))
                       else Inr (node, st)))))
         else Inr (node, put_node node st))"

section \<open>Deleting\<close>

text \<open>
  \<open>updateIndexes\<close>: the two assignments to \<open>parent.vals[parent_index - 1]\<close> are one, since \<open>val\<close> is never
  the item object \<open>changed\<close>.
\<close>

fun updateIndexes :: "nat \<Rightarrow> bview \<Rightarrow> bcfg \<Rightarrow> nat \<Rightarrow> bnode \<Rightarrow> jv \<Rightarrow> stats \<Rightarrow> stats res" where
  "updateIndexes 0 V c index node val st = Inl Fuel"
| "updateIndexes (Suc n) V c index node val st =
     (case (if index = 0 then bn_parent node else None) of
        None \<Rightarrow> Inr st
      | Some pid \<Rightarrow>
          (case b_get V pid st of
             None \<Rightarrow> Inr st
           | Some s \<Rightarrow>
               rbind (as_node (Some s)) (\<lambda>parent.
                 let parent_index = index_of (bn_id node) (bn_children parent) in
                 rbind (if \<not> bn_leaf node then Inr (Some val)
                        else if bn_vals node \<noteq> [] then
                          rbind (pick c (b_data V (hd (bn_vals node)) st)) (\<lambda>v. Inr (Some v))
                        else (case bn_next node of
                                None \<Rightarrow> Inr None
                              | Some k \<Rightarrow>
                                  rbind (node_at V k st) (\<lambda>next.
                                  rbind (hd_res (bn_vals next)) (\<lambda>x.
                                  rbind (pick c (b_data V x st)) (\<lambda>v. Inr (Some v))))))
                   (\<lambda>m. case m of
                          None \<Rightarrow> Inr st
                        | Some v \<Rightarrow>
                            if parent_index > 0 then
                              Inr (put_node (parent\<lparr>bn_vals := set_at (nat (parent_index - 1)) v (bn_vals parent)\<rparr>) st)
                            else if parent_index = 0 then updateIndexes n V c 0 parent v st
                            else Inr st))))"

text \<open>What \<open>balance\<close> does to a leaf that is too small and has a parent: the node and index on which
  the separators are updated afterwards, the parent, and the overlay.\<close>

definition balance_leaf :: "nat \<Rightarrow> bview \<Rightarrow> bcfg \<Rightarrow> nat \<Rightarrow> bnode \<Rightarrow> bnode \<Rightarrow> stats
    \<Rightarrow> (bnode \<times> nat \<times> bnode \<times> stats) res" where
  "balance_leaf n V c ci node parent st =
     (let index = index_of (bn_id node) (bn_children parent);
          isPrev = index > 0;
          isNext = index + 1 < int (length (bn_children parent))
      in rbind (sibling V parent isPrev (nat (index - 1)) st) (\<lambda>mprev.
         if can_lend c mprev then
           (let prev = the mprev;
                node' = node\<lparr>bn_vals := last (bn_vals prev) # bn_vals node\<rparr>;
                prev' = prev\<lparr>bn_vals := butlast (bn_vals prev)\<rparr>
            in rbind (pick c (b_data V (hd (bn_vals node')) st)) (\<lambda>v.
                 Inr (node', ci, parent\<lparr>bn_vals := set_at (nat (index - 1)) v (bn_vals parent)\<rparr>,
                      put_node node' (put_node prev' st))))
         else rbind (sibling V parent isNext (nat (index + 1)) st) (\<lambda>mnext.
           if can_lend c mnext then
             (let next = the mnext;
                  node' = node\<lparr>bn_vals := bn_vals node @ [hd (bn_vals next)]\<rparr>;
                  next' = next\<lparr>bn_vals := tl (bn_vals next)\<rparr>
              in rbind (hd_res (bn_vals next')) (\<lambda>x.
                 rbind (pick c (b_data V x st)) (\<lambda>v.
                   Inr (node', ci, parent\<lparr>bn_vals := set_at (nat index) v (bn_vals parent)\<rparr>,
                        put_node node' (put_node next' st)))))
           else if can_merge c mprev (length (bn_vals node)) then
             (let prev = the mprev;
                  prev' = prev\<lparr>bn_vals := bn_vals prev @ bn_vals node, bn_next := bn_next node\<rparr>
              in rbind (case bn_next node of
                          Some k \<Rightarrow> if bn_prev node \<noteq> None
                                     then rbind (node_at V k st) (\<lambda>nx. Inr (put_node (nx\<lparr>bn_prev := bn_prev node\<rparr>) st))
                                     else Inr st
                        | None \<Rightarrow> Inr st)
                   (\<lambda>st1. rbind (rmIndex n V c (nat (index - 1)) (nat index) parent (put_node prev' st1))
                   (\<lambda>(parent', st2). Inr (node, ci, current parent' st2, b_del (bn_id node) st2))))
           else if can_merge c mnext (length (bn_vals node)) then
             (let next = the mnext;
                  next' = next\<lparr>bn_vals := bn_vals node @ bn_vals next, bn_prev := bn_prev node\<rparr>
              in rbind (case bn_prev node of
                          Some k \<Rightarrow> if bn_next node \<noteq> None
                                     then rbind (node_at V k st) (\<lambda>pv. Inr (put_node (pv\<lparr>bn_next := bn_next node\<rparr>) st))
                                     else Inr st
                        | None \<Rightarrow> Inr st)
                   (\<lambda>st1. rbind (rmIndex n V c (nat index) (nat index) parent (put_node next' st1))
                   (\<lambda>(parent', st2). Inr (current next' st2, 0, current parent' st2, b_del (bn_id node) st2))))
           else Inr (node, ci, parent, st))))"

definition balance :: "nat \<Rightarrow> bview \<Rightarrow> bcfg \<Rightarrow> nat \<Rightarrow> bnode \<Rightarrow> stats \<Rightarrow> stats res" where
  "balance n V c ci node st =
     (if is_under c node 0 then
        (case bn_parent node of
           Some pid \<Rightarrow>
             rbind (node_at V pid st) (\<lambda>parent.
             rbind (balance_leaf n V c ci node parent st) (\<lambda>(merge_node, mi, parent', st1).
               updateIndexes n V c mi merge_node JNull (put_node parent' st1)))
         | None \<Rightarrow>
             updateIndexes n V c ci node JNull
               (if bn_vals node = [] then b_del (bn_id node) (set_root None st) else st))
      else updateIndexes n V c ci node JNull st)"

text \<open>\<open>delete\<close>: \<open>None\<close> is the early return, with nothing to commit.\<close>

definition bpt_delete :: "nat \<Rightarrow> bview \<Rightarrow> bcfg \<Rightarrow> string \<Rightarrow> stats option res" where
  "bpt_delete n V c key =
     rbind (searchByKey n V c key []) (\<lambda>(val, found).
       case found of
         None \<Rightarrow> Inr None
       | Some (index, node) \<Rightarrow>
           (let node' = node\<lparr>bn_vals := without [JStr key] (bn_vals node)\<rparr>;
                st = del_data key (put_node node' [])
            in rbind (balance n V c index node' st) (\<lambda>st'. Inr (Some st'))))"

section \<open>Inserting\<close>

fun insert_pos :: "bview \<Rightarrow> bcfg \<Rightarrow> item \<Rightarrow> jv list \<Rightarrow> stats \<Rightarrow> nat" where
  "insert_pos V c val [] st = 0"
| "insert_pos V c val (v # vs) st =
     (if comp c val (b_data V v st) False \<ge> 0 then 0 else Suc (insert_pos V c val vs st))"

definition ins_leaf :: "bview \<Rightarrow> bcfg \<Rightarrow> string \<Rightarrow> item \<Rightarrow> bnode \<Rightarrow> stats \<Rightarrow> bnode" where
  "ins_leaf V c key val node st =
     (let i = insert_pos V c val (bn_vals node) st
      in node\<lparr>bn_vals := take i (bn_vals node) @ JStr key # drop i (bn_vals node)\<rparr>)"

definition splitChildren :: "bview \<Rightarrow> bnode \<Rightarrow> bnode \<Rightarrow> stats \<Rightarrow> (bnode \<times> bnode \<times> stats) res" where
  "splitChildren V node new_node st =
     (if bn_leaf node then Inr (node, new_node, st)
      else let k = length (bn_vals node) + 1;
               rest = drop k (bn_children node)
           in rbind (rfoldl (set_parent V (Some (bn_id new_node))) st rest) (\<lambda>st'.
                Inr (node\<lparr>bn_children := take k (bn_children node)\<rparr>, new_node\<lparr>bn_children := rest\<rparr>, st')))"

text \<open>\<open>_split\<close>: the separator, the shrunk node, the new node and the overlay.\<close>

definition split_node :: "bview \<Rightarrow> bcfg \<Rightarrow> bnode \<Rightarrow> stats \<Rightarrow> (jv \<times> bnode \<times> bnode \<times> stats) res" where
  "split_node V c node st =
     (let k = (length (bn_vals node) + 1) div 2;
          lo = take k (bn_vals node);
          hi = drop k (bn_vals node);
          (i, st1) = new_id V st;
          node1 = node\<lparr>bn_vals := (if bn_leaf node then lo else butlast lo), bn_next := Some i\<rparr>;
          new_node = \<lparr>bn_leaf = bn_leaf node, bn_id = i, bn_vals = hi, bn_children = [],
                      bn_parent = None, bn_next = bn_next node, bn_prev = Some (bn_id node)\<rparr>
      in rbind (case bn_next node of
                  None \<Rightarrow> Inr st1
                | Some nx \<Rightarrow> rbind (node_at V nx st1) (\<lambda>next. Inr (put_node (next\<lparr>bn_prev := Some i\<rparr>) st1)))
           (\<lambda>st2. rbind (splitChildren V node1 new_node st2) (\<lambda>(node2, new2, st3).
              rbind (if bn_leaf node then pick c (b_data V (jidx hi 0) st3) else last_res lo) (\<lambda>sep.
                Inr (sep, node2, new2, st3)))))"

definition getParent :: "bview \<Rightarrow> bnode \<Rightarrow> bnode \<Rightarrow> jv \<Rightarrow> stats \<Rightarrow> (bool \<times> bnode \<times> stats) res" where
  "getParent V node new_node sep st =
     (case bn_parent node of
        None \<Rightarrow>
          (let (i, st1) = new_id V st
           in Inr (True, \<lparr>bn_leaf = False, bn_id = i, bn_vals = [sep],
                          bn_children = [bn_id node, bn_id new_node], bn_parent = None, bn_next = None,
                          bn_prev = None\<rparr>, st1))
      | Some pid \<Rightarrow>
          rbind (node_at V pid st) (\<lambda>parent.
            let ind = index_of (bn_id node) (bn_children parent)
            in Inr (False, parent\<lparr>bn_vals := splice_ins ind sep (bn_vals parent),
                                  bn_children := splice_ins (ind + 1) (bn_id new_node) (bn_children parent)\<rparr>,
                    st)))"

fun split :: "nat \<Rightarrow> bview \<Rightarrow> bcfg \<Rightarrow> bnode \<Rightarrow> stats \<Rightarrow> stats res" where
  "split 0 V c node st = Inl Fuel"
| "split (Suc n) V c node st =
     rbind (split_node V c node st) (\<lambda>(sep, node1, new_node, st1).
     rbind (getParent V node1 new_node sep st1) (\<lambda>(isNewParent, parent, st2).
       let st3 = put_node (node1\<lparr>bn_parent := Some (bn_id parent)\<rparr>)
                   (put_node parent (put_node (new_node\<lparr>bn_parent := Some (bn_id parent)\<rparr>) st2));
           st4 = (if isNewParent then set_root (Some (bn_id parent)) st3 else st3)
       in if is_over c parent 0 then split n V c parent st4 else Inr st4))"

definition bpt_insert :: "nat \<Rightarrow> bview \<Rightarrow> bcfg \<Rightarrow> string \<Rightarrow> jv \<Rightarrow> stats option res" where
  "bpt_insert n V c key val =
     (if val = JNull then Inr None
      else let st = put_data key val [];
               x = \<lparr>it_key = JStr key, it_val = val\<rparr>
           in rbind (search n V c (Some x) None st False) (\<lambda>m.
                case m of
                  None \<Rightarrow> Inr (Some (b_init V key st))
                | Some node \<Rightarrow>
                    (let node' = ins_leaf V c key x node st;
                         st1 = put_node node' st
                     in rbind (if is_over c node' 0 then split n V c node' st1 else Inr st1)
                          (\<lambda>st2. Inr (Some st2)))))"

text \<open>\<open>commit\<close>: what is written to the store under the prefix; document data is not written here.\<close>

definition bpt_commit :: "stats option \<Rightarrow> (string \<times> sv) list" where
  "bpt_commit m = (case m of None \<Rightarrow> [] | Some st \<Rightarrow> filter (\<lambda>(k, s). \<not> starts_with ''data/'' k) st)"

end
