(* ===== verification/Bpt_Order.thy ===== *)
theory Bpt_Order
  imports Bpt
begin

text \<open>
  The order of the B+ tree: \<open>comp\<close> is a total preorder on documents whose sort fields are missing or
  hold values of one type each, with missing values first (last, with \<open>null_last\<close>). On such an order
  the binary search of a node and the insertion into a leaf are correct, which is proved once for
  any comparison (\<open>cmp_order\<close>) and instantiated with \<open>comp\<close>.
\<close>

section \<open>Comparisons\<close>

text \<open>A three-way comparison on a carrier: \<open>1\<close> is before, \<open>0\<close> same place, \<open>-1\<close> after.\<close>

locale cmp_order =
  fixes A :: "'a set"
    and cmp :: "'a \<Rightarrow> 'a \<Rightarrow> int"
  assumes cmp_range: "x \<in> A \<Longrightarrow> y \<in> A \<Longrightarrow> cmp x y \<in> {-1, 0, 1}"
    and cmp_flip: "x \<in> A \<Longrightarrow> y \<in> A \<Longrightarrow> cmp y x = - cmp x y"
    and cmp_trans: "x \<in> A \<Longrightarrow> y \<in> A \<Longrightarrow> z \<in> A \<Longrightarrow> 0 \<le> cmp x y \<Longrightarrow> 0 \<le> cmp y z \<Longrightarrow> 0 \<le> cmp x z"
begin

lemma cmp_refl: "x \<in> A \<Longrightarrow> cmp x x = 0"
  using cmp_flip [of x x] by simp

lemma cmp_total: "x \<in> A \<Longrightarrow> y \<in> A \<Longrightarrow> 0 \<le> cmp x y \<or> 0 \<le> cmp y x"
  using cmp_flip [of x y] by linarith

lemma cmp_trans_lt:
  assumes "x \<in> A" "y \<in> A" "z \<in> A" "cmp x y = 1" "0 \<le> cmp y z"
  shows "cmp x z = 1"
proof -
  have "cmp x z \<ge> 0" using assms cmp_trans [of x y z] by simp
  moreover have "cmp x z \<noteq> 0"
  proof
    assume "cmp x z = 0"
    then have "0 \<le> cmp z x" using assms cmp_flip [of x z] by simp
    with assms have "0 \<le> cmp y x" using cmp_trans [of y z x] by simp
    with assms cmp_flip [of x y] show False by simp
  qed
  ultimately show ?thesis using assms cmp_range [of x z] by auto
qed

definition ordered :: "'a list \<Rightarrow> bool" where
  "ordered xs \<longleftrightarrow> sorted_wrt (\<lambda>x y. 0 \<le> cmp x y) xs"

fun insert_at :: "'a \<Rightarrow> 'a list \<Rightarrow> nat" where
  "insert_at x [] = 0"
| "insert_at x (y # ys) = (if cmp x y \<ge> 0 then 0 else Suc (insert_at x ys))"

lemma insert_at_le: "insert_at x ys \<le> length ys"
  by (induction ys) auto

lemma insert_ordered:
  "x \<in> A \<Longrightarrow> set ys \<subseteq> A \<Longrightarrow> ordered ys \<Longrightarrow>
   ordered (take (insert_at x ys) ys @ x # drop (insert_at x ys) ys)"
proof (induction ys)
  case (Cons y ys)
  show ?case
  proof (cases "cmp x y \<ge> 0")
    case True
    have "0 \<le> cmp x z" if "z \<in> set ys" for z
      using True Cons.prems that cmp_trans [of x y z] by (auto simp: ordered_def)
    with True Cons.prems show ?thesis by (simp add: ordered_def)
  next
    case False
    then have "0 \<le> cmp y x" using Cons.prems cmp_flip [of x y] by simp
    with False Cons show ?thesis
      by (auto simp: ordered_def dest: in_set_takeD in_set_dropD)
  qed
qed (simp add: ordered_def)

end

section \<open>The order on values\<close>

text \<open>Values that sort alike: missing, or of the one given type.\<close>

datatype sort_type = TNum | TStr

fun has_type :: "sort_type \<Rightarrow> jv \<Rightarrow> bool" where
  "has_type TNum (JNum n) = True"
| "has_type TStr (JStr s) = True"
| "has_type t v = False"

definition sortable :: "sort_type \<Rightarrow> jv \<Rightarrow> bool" where
  "sortable t v \<longleftrightarrow> v = JNull \<or> has_type t v"

lemma has_typeE:
  assumes "has_type t v"
  obtains n where "t = TNum" "v = JNum n" | s where "t = TStr" "v = JStr s"
  using assms by (cases "(t, v)" rule: has_type.cases) auto

lemma compArr_typed:
  assumes "sortable t a" "sortable t b"
  shows "compArr a b = 0 \<longleftrightarrow> a = b"
    and "has_type t a \<Longrightarrow> has_type t b \<Longrightarrow> compArr a b = (if a = b then 0 else if js_lt a b then 1 else -1)"
  using assms by (auto simp: compArr_def to_arr_def sortable_def elim!: has_typeE split: if_splits)

text \<open>One field: the sign the loop returns if it is not \<open>0\<close>.\<close>

definition fcmp :: "string \<Rightarrow> bool \<Rightarrow> jv \<Rightarrow> jv \<Rightarrow> int" where
  "fcmp d nl va vb =
     (let bare = compArr va vb in
      if bare = 0 then 0
      else (if is_nil va then desc_sign d * (if nl then -1 else 1)
            else if is_nil vb then desc_sign d * (if nl then 1 else -1)
            else if bare = 1 then 1 else -1) * desc_sign d)"

lemma comp_fields_fcmp:
  "comp_fields ((f, d) # fs) a b nl =
     (let r = fcmp d nl (field_val f a) (field_val f b) in if r \<noteq> 0 then r else comp_fields fs a b nl)"
  by (auto simp: fcmp_def Let_def desc_sign_def)

lemma js_lt_typed:
  assumes "has_type t a" "has_type t b"
  shows "js_lt b a \<longleftrightarrow> a \<noteq> b \<and> \<not> js_lt a b"
  using assms by (auto elim!: has_typeE)

lemma js_lt_typed_trans:
  "has_type t a \<Longrightarrow> has_type t b \<Longrightarrow> has_type t c \<Longrightarrow> js_lt a b \<Longrightarrow> js_lt b c \<Longrightarrow> js_lt a c"
  by (auto elim!: has_typeE dest: order.strict_trans)

lemma desc_sign_square [simp]: "desc_sign d * desc_sign d = 1"
  by (simp add: desc_sign_def)

lemma has_type_not_nil: "has_type t v \<Longrightarrow> \<not> is_nil v \<and> v \<noteq> JNull"
  by (auto elim!: has_typeE)

lemma fcmp_null:
  "fcmp d nl JNull JNull = 0"
  "has_type t b \<Longrightarrow> fcmp d nl JNull b = (if nl then -1 else 1)"
  "has_type t b \<Longrightarrow> fcmp d nl b JNull = (if nl then 1 else -1)"
proof -
  have n: "sortable t JNull" and b: "has_type t b \<Longrightarrow> sortable t b" for b
    by (simp_all add: sortable_def)
  show "fcmp d nl JNull JNull = 0" using compArr_typed(1) [OF n n] by (simp add: fcmp_def)
  show "fcmp d nl JNull b = (if nl then -1 else 1)" if "has_type t b"
    using compArr_typed(1) [OF n b [OF that]] has_type_not_nil [OF that]
    by (auto simp: fcmp_def desc_sign_def)
  show "fcmp d nl b JNull = (if nl then 1 else -1)" if "has_type t b"
    using compArr_typed(1) [OF b [OF that] n] has_type_not_nil [OF that]
    by (auto simp: fcmp_def desc_sign_def)
qed

lemma fcmp_typed:
  assumes "has_type t a" "has_type t b"
  shows "fcmp d nl a b = (if a = b then 0 else if js_lt a b then desc_sign d else - desc_sign d)"
  using assms compArr_typed [of t a b] has_type_not_nil [of t a] has_type_not_nil [of t b]
  by (simp add: fcmp_def sortable_def)

lemma sortableE:
  assumes "sortable t v"
  obtains "v = JNull" | "has_type t v"
  using assms by (auto simp: sortable_def)

lemma desc_sign_range: "desc_sign d = 1 \<or> desc_sign d = -1"
  by (simp add: desc_sign_def)

lemma fcmp_laws:
  assumes "sortable t a" "sortable t b"
  shows "fcmp d nl a b \<in> {-1, 0, 1}" and "fcmp d nl b a = - fcmp d nl a b"
    and "fcmp d nl a b = 0 \<longleftrightarrow> a = b"
  using assms desc_sign_range [of d]
  by (elim sortableE; simp add: fcmp_null fcmp_null(2,3) [of t] fcmp_typed [of t] js_lt_typed [of t a b];
      auto dest: has_type_not_nil)+

lemma fcmp_trans:
  assumes "sortable t a" "sortable t b" "sortable t c" "0 \<le> fcmp d nl a b" "0 \<le> fcmp d nl b c"
  shows "0 \<le> fcmp d nl a c"
proof (cases "a = JNull \<or> b = JNull \<or> c = JNull")
  case True
  with assms show ?thesis
    by (elim sortableE) (auto simp: fcmp_null fcmp_null(2,3) [of t] split: if_splits)
next
  case False
  with assms(1-3) have t: "has_type t a" "has_type t b" "has_type t c" by (auto simp: sortable_def)
  note tr = js_lt_typed_trans [OF t] js_lt_typed_trans [OF t(3,2,1)]
  show ?thesis
    using assms(4,5) tr js_lt_typed [OF t(1,2)] js_lt_typed [OF t(2,3)] js_lt_typed [OF t(1,3)]
      desc_sign_range [of d]
    by (auto simp: fcmp_typed [OF t(1,2)] fcmp_typed [OF t(2,3)] fcmp_typed [OF t(1,3)] split: if_splits)
qed

section \<open>The order on documents\<close>

definition typed_item :: "(string \<Rightarrow> sort_type) \<Rightarrow> (string \<times> string) list \<Rightarrow> item \<Rightarrow> bool" where
  "typed_item ty fs a \<longleftrightarrow> list_all (\<lambda>(f, d). sortable (ty f) (field_val f a)) fs"

lemma comp_fields_order:
  "typed_item ty fs a \<Longrightarrow> typed_item ty fs b \<Longrightarrow>
   comp_fields fs a b nl \<in> {-1, 0, 1} \<and> comp_fields fs b a nl = - comp_fields fs a b nl"
proof (induction fs)
  case (Cons fd fs)
  obtain f d where fd: "fd = (f, d)" by force
  from Cons.prems have "sortable (ty f) (field_val f a)" "sortable (ty f) (field_val f b)"
    and "typed_item ty fs a" "typed_item ty fs b"
    by (simp_all add: typed_item_def fd)
  with Cons.IH fcmp_laws [of "ty f" "field_val f a" "field_val f b" d nl] show ?case
    unfolding fd comp_fields_fcmp by (auto simp: Let_def)
qed simp

lemma comp_fields_trans:
  "typed_item ty fs a \<Longrightarrow> typed_item ty fs b \<Longrightarrow> typed_item ty fs c \<Longrightarrow>
   0 \<le> comp_fields fs a b nl \<Longrightarrow> 0 \<le> comp_fields fs b c nl \<Longrightarrow> 0 \<le> comp_fields fs a c nl"
proof (induction fs)
  case (Cons fd fs)
  obtain f d where fd: "fd = (f, d)" by force
  let ?va = "field_val f a" and ?vb = "field_val f b" and ?vc = "field_val f c"
  have s: "sortable (ty f) ?va" "sortable (ty f) ?vb" "sortable (ty f) ?vc"
    and t: "typed_item ty fs a" "typed_item ty fs b" "typed_item ty fs c"
    using Cons.prems(1-3) by (simp_all add: typed_item_def fd)
  have ab: "0 \<le> fcmp d nl ?va ?vb" and bc: "0 \<le> fcmp d nl ?vb ?vc"
    using Cons.prems(4,5) by (auto simp: fd comp_fields_fcmp Let_def simp del: comp_fields.simps split: if_splits)
  have ac: "0 \<le> fcmp d nl ?va ?vc" by (rule fcmp_trans [OF s ab bc])
  show ?case
  proof (cases "fcmp d nl ?va ?vc = 0")
    case True
    then have "?va = ?vc" using fcmp_laws(3) [OF s(1,3)] by simp
    moreover have "fcmp d nl ?vb ?va = - fcmp d nl ?va ?vb" by (rule fcmp_laws(2) [OF s(1,2)])
    ultimately have "fcmp d nl ?va ?vb = 0" "fcmp d nl ?vb ?vc = 0" using ab bc by simp_all
    with True Cons.prems(4,5) Cons.IH [OF t] show ?thesis
      by (simp add: fd comp_fields_fcmp Let_def del: comp_fields.simps)
  next
    case False
    with ac show ?thesis by (simp add: fd comp_fields_fcmp Let_def del: comp_fields.simps)
  qed
qed simp

interpretation comp_order: cmp_order "{a. typed_item ty fs a}" "\<lambda>a b. comp_fields fs a b nl"
  for ty :: "string \<Rightarrow> sort_type" and fs :: "(string \<times> string) list" and nl :: bool
proof (unfold_locales, unfold mem_Collect_eq)
  show "comp_fields fs x y nl \<in> {-1, 0, 1}" if "typed_item ty fs x" "typed_item ty fs y" for x y
    using comp_fields_order [OF that] by blast
  show "comp_fields fs y x nl = - comp_fields fs x y nl" if "typed_item ty fs x" "typed_item ty fs y" for x y
    using comp_fields_order [OF that] by blast
  show "0 \<le> comp_fields fs x z nl" if "typed_item ty fs x" "typed_item ty fs y" "typed_item ty fs z"
    "0 \<le> comp_fields fs x y nl" "0 \<le> comp_fields fs y z nl" for x y z
    using comp_fields_trans [OF that] .
qed

end
