(* ===== verification/Bpt_Props.thy ===== *)
theory Bpt_Props
  imports Bpt_Order
begin

text \<open>
  What the operations of a B+ tree do: the binary search of a node, the insertion into a leaf, the
  split of a node, the descent to a leaf and the walk along the leaves.
\<close>

section \<open>Binary search\<close>

text \<open>
  The specification: a position that compares equal, or the last position before and the first after.
\<close>

definition bin_spec :: "(nat \<Rightarrow> int) \<Rightarrow> nat \<Rightarrow> nat option \<times> nat option \<times> nat option \<Rightarrow> bool" where
  "bin_spec r n res \<longleftrightarrow>
     (\<exists>m < n. res = (Some m, None, None) \<and> r m = 0) \<or>
     (\<exists>k \<le> n. (\<forall>i < k. r i = 1) \<and> (\<forall>i. k \<le> i \<longrightarrow> i < n \<longrightarrow> r i = -1) \<and>
        res = (None, if k = 0 then None else Some (k - 1), if k < n then Some k else None))"

lemma bin_loop_correct:
  fixes r :: "nat \<Rightarrow> int"
  assumes r: "\<And>i. i < length vals \<Longrightarrow> r i = comp c (b_data V (vals ! i) st) val nl"
    and range: "\<And>i. i < length vals \<Longrightarrow> r i \<in> {-1, 0, 1}"
    and lo: "\<And>i j. i < j \<Longrightarrow> j < length vals \<Longrightarrow> r j = 1 \<Longrightarrow> r i = 1"
    and hi: "\<And>i j. i < j \<Longrightarrow> j < length vals \<Longrightarrow> r i = -1 \<Longrightarrow> r j = -1"
  shows "left \<le> right1 \<Longrightarrow> right1 \<le> length vals \<Longrightarrow> (\<forall>i < left. r i = 1) \<Longrightarrow>
    (\<forall>i. right1 \<le> i \<longrightarrow> i < length vals \<longrightarrow> r i = -1) \<Longrightarrow>
    bin_spec r (length vals) (bin_loop V c vals val nl st left right1)"
proof (induction "right1 - left" arbitrary: left right1 rule: less_induct)
  case less
  note unf = bin_loop.simps [of V c vals val nl st left right1]
  show ?case
  proof (cases "left < right1")
    case False
    with less.prems(1) have eq: "right1 = left" by simp
    have "bin_loop V c vals val nl st left right1 =
        (None, if left = 0 then None else Some (left - 1), if left < length vals then Some left else None)"
      using unf [unfolded eq] unfolding eq by simp
    with less.prems show ?thesis unfolding bin_spec_def eq by metis
  next
    case True
    define mid where "mid = (left + right1 - 1) div 2"
    have mid: "left \<le> mid" "mid < right1" using True by (auto simp: mid_def)
    then have len: "mid < length vals" using less.prems(2) by simp
    have step: "bin_loop V c vals val nl st left right1 =
        (if r mid = 0 then (Some mid, None, None)
         else if r mid = 1 then bin_loop V c vals val nl st (Suc mid) right1
         else bin_loop V c vals val nl st left mid)"
      using True r [OF len] unf by (simp only: mid_def [symmetric] Let_def if_True)
    consider "r mid = 0" | "r mid = 1" | "r mid = -1" using range [OF len] by blast
    then show ?thesis
    proof cases
      case 1
      then have "bin_loop V c vals val nl st left right1 = (Some mid, None, None)" by (simp add: step)
      with 1 len show ?thesis unfolding bin_spec_def by blast
    next
      case 2
      have below: "\<forall>i < Suc mid. r i = 1"
        using 2 lo [OF _ len] by (auto simp: less_Suc_eq)
      have "bin_spec r (length vals) (bin_loop V c vals val nl st (Suc mid) right1)"
        using mid below less.prems(2,4) by (intro less.hyps) auto
      then show ?thesis using 2 by (simp add: step)
    next
      case 3
      have above: "\<forall>i. mid \<le> i \<longrightarrow> i < length vals \<longrightarrow> r i = -1"
        using 3 hi by (metis le_neq_implies_less)
      have "bin_spec r (length vals) (bin_loop V c vals val nl st left mid)"
        using mid above less.prems(2,3) by (intro less.hyps) auto
      then show ?thesis using 3 by (simp add: step)
    qed
  qed
qed

text \<open>The documents of a leaf, and a leaf in order.\<close>

definition leaf_items :: "bview \<Rightarrow> stats \<Rightarrow> jv list \<Rightarrow> item list" where
  "leaf_items V st vals = map (\<lambda>v. b_data V v st) vals"

definition sorted_leaf :: "(string \<Rightarrow> sort_type) \<Rightarrow> (string \<times> string) list \<Rightarrow> bool \<Rightarrow> item list \<Rightarrow> bool" where
  "sorted_leaf ty fs nl xs \<longleftrightarrow>
     list_all (typed_item ty fs) xs \<and> sorted_wrt (\<lambda>x y. 0 \<le> comp_fields fs x y nl) xs"

lemma sorted_leaf_ordered:
  "sorted_leaf ty fs nl xs \<longleftrightarrow> set xs \<subseteq> {a. typed_item ty fs a} \<and> comp_order.ordered fs nl xs"
  by (auto simp: sorted_leaf_def comp_order.ordered_def list_all_iff)

lemma comp_SFields [simp]: "bc_sort c = SFields fs \<Longrightarrow> comp c a b nl = comp_fields fs a b nl"
  by (simp add: comp_def)

lemma binarySearch_sorted:
  assumes fs: "bc_sort c = SFields fs" and ty: "typed_item ty fs val"
    and sorted: "sorted_leaf ty fs nl (leaf_items V st (bn_vals node))"
  shows "bin_spec (\<lambda>i. comp c (b_data V (bn_vals node ! i) st) val nl) (length (bn_vals node))
    (binarySearch V c node val st nl)"
proof -
  let ?vals = "bn_vals node" and ?d = "\<lambda>i. b_data V (bn_vals node ! i) st"
  let ?r = "\<lambda>i. comp c (?d i) val nl"
  have t: "typed_item ty fs (?d i)" if "i < length ?vals" for i
    using sorted that by (simp add: sorted_leaf_def leaf_items_def list_all_iff)
  have le: "0 \<le> comp_fields fs (?d i) (?d j) nl" if "i < j" "j < length ?vals" for i j
    using sorted that by (auto simp: sorted_leaf_def leaf_items_def sorted_wrt_iff_nth_less)
  have range: "?r i \<in> {-1, 0, 1}" if "i < length ?vals" for i
    using comp_order.cmp_range [of "?d i" ty fs val nl] t [OF that] ty fs by simp
  have lo: "?r i = 1" if "i < j" "j < length ?vals" "?r j = 1" for i j
  proof -
    have "typed_item ty fs (?d i)" "typed_item ty fs (?d j)" using t that by auto
    moreover have "0 \<le> ?r i"
      using comp_order.cmp_trans [of "?d i" ty fs "?d j" val nl] le [OF that(1,2)] calculation ty that(3) fs by simp
    moreover have "?r i \<noteq> 0"
    proof
      assume "?r i = 0"
      then have "0 \<le> comp_fields fs val (?d i) nl"
        using comp_order.cmp_flip [of "?d i" ty fs val nl] calculation(1) ty fs by simp
      then have "0 \<le> comp_fields fs val (?d j) nl"
        using comp_order.cmp_trans [of val ty fs "?d i" "?d j" nl] le [OF that(1,2)] calculation ty by simp
      with comp_order.cmp_flip [of "?d j" ty fs val nl] calculation(2) ty that(3) fs show False by simp
    qed
    ultimately show ?thesis using range [of i] that by auto
  qed
  have hi: "?r j = -1" if "i < j" "j < length ?vals" "?r i = -1" for i j
  proof -
    have tt: "typed_item ty fs (?d i)" "typed_item ty fs (?d j)" using t that by auto
    have "comp_fields fs val (?d i) nl = 1"
      using comp_order.cmp_flip [of "?d i" ty fs val nl] tt ty that(3) fs by simp
    then have "comp_fields fs val (?d j) nl = 1"
      using comp_order.cmp_trans_lt [of val ty fs "?d i" "?d j" nl] le [OF that(1,2)] tt ty by simp
    with comp_order.cmp_flip [of val ty fs "?d j" nl] tt ty fs show ?thesis by simp
  qed
  show ?thesis unfolding binarySearch_def
  proof (rule bin_loop_correct [where r = ?r])
    show "?r i \<in> {-1, 0, 1}" if "i < length ?vals" for i by (rule range [OF that])
    show "?r i = 1" if "i < j" "j < length ?vals" "?r j = 1" for i j by (rule lo [OF that])
    show "?r j = -1" if "i < j" "j < length ?vals" "?r i = -1" for i j by (rule hi [OF that])
  qed simp_all
qed

section \<open>Insertion into a leaf\<close>

lemma insert_pos_insert_at:
  "bc_sort c = SFields fs \<Longrightarrow>
   insert_pos V c val vs st = comp_order.insert_at fs False val (leaf_items V st vs)"
  by (induction vs) (simp_all add: leaf_items_def comp_order.insert_at.simps)

lemma ins_leaf_vals:
  "\<exists>i. bn_vals (ins_leaf V c key val node st) = take i (bn_vals node) @ JStr key # drop i (bn_vals node)"
  by (auto simp: ins_leaf_def Let_def)

lemma ins_leaf_sorted:
  assumes fs: "bc_sort c = SFields fs" and ty: "typed_item ty fs val"
    and new: "b_data V (JStr key) st = val"
    and sorted: "sorted_leaf ty fs False (leaf_items V st (bn_vals node))"
  shows "sorted_leaf ty fs False (leaf_items V st (bn_vals (ins_leaf V c key val node st)))"
proof -
  let ?xs = "leaf_items V st (bn_vals node)" and ?i = "insert_pos V c val (bn_vals node) st"
  have items: "leaf_items V st (bn_vals (ins_leaf V c key val node st)) = take ?i ?xs @ val # drop ?i ?xs"
    by (simp add: ins_leaf_def Let_def leaf_items_def take_map drop_map new)
  have "comp_order.ordered fs False (take ?i ?xs @ val # drop ?i ?xs)"
    unfolding insert_pos_insert_at [OF fs] using sorted ty
    by (intro comp_order.insert_ordered [of val ty]) (auto simp: sorted_leaf_ordered)
  moreover have "set (take ?i ?xs @ val # drop ?i ?xs) \<subseteq> {a. typed_item ty fs a}"
    using sorted ty by (auto simp: sorted_leaf_def list_all_iff dest: in_set_takeD in_set_dropD)
  ultimately show ?thesis by (simp only: items sorted_leaf_ordered)
qed

section \<open>Splitting\<close>

lemma split_leaf:
  assumes "bn_leaf node" "split_node V c node st = Inr (sep, n1, n2, st')"
  shows "bn_vals n1 @ bn_vals n2 = bn_vals node" "bn_leaf n1" "bn_leaf n2"
    "bn_next n1 = Some (bn_id n2)" "bn_prev n2 = Some (bn_id node)" "bn_next n2 = bn_next node"
    "length (bn_vals n1) = (length (bn_vals node) + 1) div 2"
  using assms
  by (auto simp: split_node_def Let_def splitChildren_def min_def split: prod.splits elim!: rbind_InrE)

lemma split_branch:
  assumes "\<not> bn_leaf node" "split_node V c node st = Inr (sep, n1, n2, st')"
  shows "bn_vals n1 @ sep # bn_vals n2 = bn_vals node"
    "bn_children n1 @ bn_children n2 = bn_children node"
    "length (bn_children node) = length (bn_vals node) + 1 \<Longrightarrow>
     length (bn_children n1) = length (bn_vals n1) + 1 \<and> length (bn_children n2) = length (bn_vals n2) + 1"
proof -
  let ?k = "(length (bn_vals node) + 1) div 2" and ?lo = "take ((length (bn_vals node) + 1) div 2) (bn_vals node)"
  have lo: "?lo \<noteq> []" and sep: "sep = last ?lo"
    using assms by (auto simp: split_node_def Let_def last_res_def split: prod.splits if_splits elim!: rbind_InrE)
  have n1: "bn_vals n1 = butlast ?lo" and n2: "bn_vals n2 = drop ?k (bn_vals node)"
    using assms by (auto simp: split_node_def Let_def splitChildren_def split: prod.splits elim!: rbind_InrE)
  have ch: "bn_children n1 = take (length (butlast ?lo) + 1) (bn_children node)"
    "bn_children n2 = drop (length (butlast ?lo) + 1) (bn_children node)"
    using assms by (auto simp: split_node_def Let_def splitChildren_def split: prod.splits elim!: rbind_InrE)
  have "butlast ?lo @ [sep] = ?lo" using lo sep by simp
  then show "bn_vals n1 @ sep # bn_vals n2 = bn_vals node"
    unfolding n1 n2 by (metis append.assoc append_Cons append_Nil append_take_drop_id)
  show "bn_children n1 @ bn_children n2 = bn_children node" by (simp add: ch)
  have "length (butlast ?lo) + 1 = ?k" "0 < ?k" using lo by (auto simp: min_def)
  then show "length (bn_children n1) = length (bn_vals n1) + 1 \<and> length (bn_children n2) = length (bn_vals n2) + 1"
    if "length (bn_children node) = length (bn_vals node) + 1"
    using that by (auto simp: ch n1 n2 min_def)
qed

section \<open>Walking the leaves\<close>

lemma take_vals_spec:
  "int (length acc) < l \<Longrightarrow>
   take_vals past (Some l) xs acc =
     (take (nat l) (acc @ takeWhile (\<lambda>x. \<not> past x) xs),
      (\<exists>x \<in> set xs. past x) \<or> nat l \<le> length (acc @ takeWhile (\<lambda>x. \<not> past x) xs))"
proof (induction xs arbitrary: acc)
  case (Cons x xs)
  show ?case
  proof (cases "past x \<or> l = int (length acc) + 1")
    case True
    with Cons.prems show ?thesis by (auto simp: nat_add_distrib)
  next
    case False
    with Cons.prems have "int (length (acc @ [x])) < l" by simp
    from Cons.IH [OF this] False show ?thesis by auto
  qed
qed auto

text \<open>A leaf and the leaves behind it along \<open>next\<close>.\<close>

fun leaf_chain :: "bview \<Rightarrow> stats \<Rightarrow> bnode \<Rightarrow> bnode list \<Rightarrow> bool" where
  "leaf_chain V st n [] \<longleftrightarrow> bn_next n = None"
| "leaf_chain V st n (m # ms) \<longleftrightarrow>
     (case bn_next n of None \<Rightarrow> False | Some k \<Rightarrow> node_at V k st = Inr m) \<and> leaf_chain V st m ms"

lemma takeWhile_append_all: "(\<And>x. x \<in> set xs \<Longrightarrow> P x) \<Longrightarrow> takeWhile P (xs @ ys) = xs @ takeWhile P ys"
  by (induction xs) auto

lemma getVals_Suc:
  "getVals (Suc f) V c n acc i opt st =
     (let r = take_vals (past_end c opt) (ro_limit opt) (map (\<lambda>v. b_data V v st) (drop i (bn_vals n))) acc
      in if snd r then Inr (fst r)
         else (case bn_next n of
                 None \<Rightarrow> Inr (fst r)
               | Some k \<Rightarrow> rbind (node_at V k st) (\<lambda>next. getVals f V c next (fst r) 0 opt st)))"
  unfolding getVals.simps(2) Let_def split_def ..

lemma getVals_chain:
  assumes "ro_limit opt = Some l"
  shows "leaf_chain V st n ms \<Longrightarrow> length ms < fuel \<Longrightarrow> int (length acc) < l \<Longrightarrow>
    getVals fuel V c n acc i opt st =
      Inr (take (nat l) (acc @ takeWhile (\<lambda>x. \<not> past_end c opt x)
        (leaf_items V st (drop i (bn_vals n) @ concat (map bn_vals ms)))))"
proof (induction ms arbitrary: n acc i fuel)
  case Nil
  then obtain f where "fuel = Suc f" by (cases fuel) auto
  with Nil assms show ?case by (simp add: take_vals_spec leaf_items_def Let_def)
next
  case (Cons m ms)
  then obtain f where f: "fuel = Suc f" "length ms < f" by (cases fuel) auto
  obtain k where k: "bn_next n = Some k" "node_at V k st = Inr m" and chain: "leaf_chain V st m ms"
    using Cons.prems(1) by (auto split: option.splits)
  let ?P = "\<lambda>x. \<not> past_end c opt x" and ?xs = "map (\<lambda>v. b_data V v st) (drop i (bn_vals n))"
    and ?ys = "leaf_items V st (concat (map bn_vals (m # ms)))"
  have items: "leaf_items V st (drop i (bn_vals n) @ concat (map bn_vals (m # ms))) = ?xs @ ?ys"
    by (simp add: leaf_items_def)
  have unf: "getVals fuel V c n acc i opt st =
      (let r = take_vals (past_end c opt) (Some l) ?xs acc
       in if snd r then Inr (fst r) else getVals f V c m (fst r) 0 opt st)"
    unfolding f(1) getVals_Suc k(1) assms option.case k(2) rbind_simps ..
  note tv = take_vals_spec [OF Cons.prems(3), of "past_end c opt" ?xs]
  show ?case
  proof (cases "\<exists>x \<in> set ?xs. past_end c opt x")
    case True
    then obtain x where "x \<in> set ?xs" "\<not> ?P x" by blast
    then have "takeWhile ?P (?xs @ ?ys) = takeWhile ?P ?xs" by (rule takeWhile_append1)
    moreover have "snd (take_vals (past_end c opt) (Some l) ?xs acc)" unfolding tv using True by simp
    ultimately show ?thesis unfolding items unf Let_def tv fst_conv by simp
  next
    case False
    have all: "takeWhile ?P ?xs = ?xs" "takeWhile ?P (?xs @ ?ys) = ?xs @ takeWhile ?P ?ys"
      using False by (metis takeWhile_eq_all_conv, metis takeWhile_append_all)
    show ?thesis
    proof (cases "nat l \<le> length (acc @ ?xs)")
      case True
      then have "take (nat l) (acc @ ?xs) = take (nat l) ((acc @ ?xs) @ takeWhile ?P ?ys)"
        by (simp only: take_append take_0 append_Nil2 diff_is_0_eq [THEN iffD2])
      moreover have "snd (take_vals (past_end c opt) (Some l) ?xs acc)"
        unfolding tv all(1) using True by simp
      ultimately show ?thesis unfolding items unf Let_def tv fst_conv all append_assoc by simp
    next
      case less: False
      then have acc: "int (length (acc @ ?xs)) < l" by linarith
      have "\<not> snd (take_vals (past_end c opt) (Some l) ?xs acc)"
        unfolding tv all(1) using False less by simp
      moreover have "fst (take_vals (past_end c opt) (Some l) ?xs acc) = acc @ ?xs"
        unfolding tv all(1) using less by simp
      ultimately have "getVals fuel V c n acc i opt st = getVals f V c m (acc @ ?xs) 0 opt st"
        unfolding unf Let_def by simp
      with Cons.IH [OF chain f(2) acc, of 0] show ?thesis
        unfolding items all(2) by simp
    qed
  qed
qed

section \<open>Descending\<close>

text \<open>A tree of depth \<open>d\<close> under a node id.\<close>

inductive subtree :: "bview \<Rightarrow> stats \<Rightarrow> nat \<Rightarrow> string \<Rightarrow> bool" for V :: bview and st :: stats where
  sub_leaf: "b_get V k st = Some (SNode n) \<Longrightarrow> bn_leaf n \<Longrightarrow> subtree V st 0 k"
| sub_branch: "b_get V k st = Some (SNode n) \<Longrightarrow> \<not> bn_leaf n \<Longrightarrow>
     length (bn_children n) = length (bn_vals n) + 1 \<Longrightarrow> list_all (\<lambda>v. \<not> is_nil v) (bn_vals n) \<Longrightarrow>
     (\<And>ch. ch \<in> set (bn_children n) \<Longrightarrow> subtree V st d ch) \<Longrightarrow> subtree V st (Suc d) k"

lemma wrap_Inr: "\<not> is_nil v \<Longrightarrow> \<exists>w. wrap v = Inr w"
  by (simp add: wrap_def jprop_def)

lemma child_pos_le:
  "list_all (\<lambda>v. \<not> is_nil v) vs \<Longrightarrow> \<exists>i \<le> length vs. child_pos c val after vs = Inr i"
proof (induction vs)
  case (Cons v vs)
  then obtain w i where "wrap v = Inr w" "i \<le> length vs" "child_pos c val after vs = Inr i"
    using wrap_Inr by fastforce
  then show ?case by (cases val) auto
qed simp

lemma rchild_pos_le:
  "list_all (\<lambda>v. \<not> is_nil v) vs \<Longrightarrow> \<exists>i \<le> length vs. rchild_pos c val after vs = Inr i"
proof (induction vs)
  case (Cons v vs)
  then obtain w i where "wrap v = Inr w" "i \<le> length vs" "rchild_pos c val after vs = Inr i"
    using wrap_Inr by fastforce
  then show ?case by (cases val) auto
qed simp

lemma search_subtree:
  "subtree V st d k \<Longrightarrow> d < fuel \<Longrightarrow>
   \<exists>n. search fuel V c val (Some k) st after = Inr (Some n) \<and> bn_leaf n"
proof (induction arbitrary: fuel rule: subtree.induct)
  case (sub_leaf k n)
  then show ?case by (cases fuel) (auto simp: start_key_def as_node_def)
next
  case (sub_branch k n d)
  then obtain f where f: "fuel = Suc f" "d < f" by (cases fuel) auto
  obtain i where i: "i \<le> length (bn_vals n)" "child_pos c val after (bn_vals n) = Inr i"
    using child_pos_le [OF sub_branch(4)] by blast
  then have "nth_opt (bn_children n) i = Some (bn_children n ! i)" "bn_children n ! i \<in> set (bn_children n)"
    using sub_branch(3) by (auto simp: nth_opt_def)
  with sub_branch(6) f(2) i(2) sub_branch(1,2) show ?case
    by (auto simp: f(1) start_key_def as_node_def)
qed

lemma rsearch_subtree:
  "subtree V st d k \<Longrightarrow> d < fuel \<Longrightarrow>
   \<exists>n. rsearch fuel V c val (Some k) st after = Inr (Some n) \<and> bn_leaf n"
proof (induction arbitrary: fuel rule: subtree.induct)
  case (sub_leaf k n)
  then show ?case by (cases fuel) (auto simp: start_key_def as_node_def)
next
  case (sub_branch k n d)
  then obtain f where f: "fuel = Suc f" "d < f" by (cases fuel) auto
  obtain i where i: "i \<le> length (bn_vals n)" "rchild_pos c val after (rev (bn_vals n)) = Inr i"
    using rchild_pos_le [of "rev (bn_vals n)" c val after] sub_branch(4) by auto
  then have "nth_opt (bn_children n) i = Some (bn_children n ! i)" "bn_children n ! i \<in> set (bn_children n)"
    using sub_branch(3) by (auto simp: nth_opt_def)
  with sub_branch(6) f(2) i(2) sub_branch(1,2) show ?case
    by (auto simp: f(1) start_key_def as_node_def)
qed

section \<open>Properties\<close>

text \<open>An index on \<open>age\<close>, with three documents in two leaves under a root; document \<open>c\<close> has no age.\<close>

definition demo_fs :: "(string \<times> string) list" where
  "demo_fs = [(''age'', ''asc''), (''__id__'', ''asc'')]"

definition demo_cfg :: bcfg where
  "demo_cfg = \<lparr>bc_order = 4, bc_sort = SFields demo_fs\<rparr>"

definition demo_ty :: "string \<Rightarrow> sort_type" where
  "demo_ty f = (if f = ''age'' then TNum else TStr)"

definition demo_leaf1 :: bnode where
  "demo_leaf1 = \<lparr>bn_leaf = True, bn_id = ''0'', bn_vals = [JStr ''c'', JStr ''a''], bn_children = [],
                 bn_parent = Some ''2'', bn_next = Some ''1'', bn_prev = None\<rparr>"

definition demo_leaf2 :: bnode where
  "demo_leaf2 = \<lparr>bn_leaf = True, bn_id = ''1'', bn_vals = [JStr ''b''], bn_children = [],
                 bn_parent = Some ''2'', bn_next = None, bn_prev = Some ''0''\<rparr>"

definition demo_root :: bnode where
  "demo_root = \<lparr>bn_leaf = False, bn_id = ''2'', bn_vals = [JObj [(''age'', JNum 30), (''__id__'', JStr ''b'')]],
                bn_children = [''0'', ''1''], bn_parent = None, bn_next = None, bn_prev = None\<rparr>"

definition demo_view :: bview where
  "demo_view = \<lparr>bv_get = map_of [(''root'', SRoot ''2''), (''0'', SNode demo_leaf1), (''1'', SNode demo_leaf2),
                                (''2'', SNode demo_root)],
                bv_data = (\<lambda>k. if k = ''a'' then JObj [(''age'', JNum 20)]
                                 else if k = ''b'' then JObj [(''age'', JNum 30)]
                                 else if k = ''c'' then JObj [] else JNull)\<rparr>"

lemmas demo_defs = demo_fs_def demo_cfg_def demo_ty_def demo_leaf1_def demo_leaf2_def demo_root_def demo_view_def

lemma demo_items:
  "b_data demo_view (JStr ''a'') [] = \<lparr>it_key = JStr ''a'', it_val = JObj [(''age'', JNum 20)]\<rparr>"
  "b_data demo_view (JStr ''b'') [] = \<lparr>it_key = JStr ''b'', it_val = JObj [(''age'', JNum 30)]\<rparr>"
  "b_data demo_view (JStr ''c'') [] = \<lparr>it_key = JStr ''c'', it_val = JObj []\<rparr>"
  by (simp_all add: b_data_def demo_view_def)

lemma demo_typed:
  "typed_item demo_ty demo_fs \<lparr>it_key = JStr k, it_val = JObj [(''age'', JNum n)]\<rparr>"
  "typed_item demo_ty demo_fs \<lparr>it_key = JStr k, it_val = JObj []\<rparr>"
  by (simp_all add: typed_item_def demo_defs field_val_def sortable_def)

lemma demo_sorted: "sorted_leaf demo_ty demo_fs nl (leaf_items demo_view [] (bn_vals demo_leaf1)) \<longleftrightarrow> \<not> nl"
  by (simp add: sorted_leaf_def leaf_items_def demo_leaf1_def demo_items demo_typed)
    (simp add: demo_fs_def field_val_def compArr_def to_arr_def Let_def desc_sign_def js_lt_def)

text \<open>
  C34. The comparison of the index is a total preorder on documents whose sort fields each hold values
  of one type or are missing: three-valued, antisymmetric and transitive, whatever the directions and
  with missing values first or last.
\<close>

theorem comp_total_preorder:
  assumes "bc_sort cfg = SFields fs" "typed_item ty fs a" "typed_item ty fs b" "typed_item ty fs c"
  shows "comp cfg a b nl \<in> {-1, 0, 1} \<and> comp cfg b a nl = - comp cfg a b nl \<and>
    (comp cfg a b nl = 1 \<and> 0 \<le> comp cfg b c nl \<longrightarrow> comp cfg a c nl = 1) \<and>
    (0 \<le> comp cfg a b nl \<and> 0 \<le> comp cfg b c nl \<longrightarrow> 0 \<le> comp cfg a c nl)"
  using assms comp_fields_order [of ty fs a b nl] comp_fields_trans [of ty fs a b c nl]
    comp_order.cmp_trans_lt [of a ty fs b c nl] by simp

theorem comp_total_preorder_witness:
  "0 \<le> comp demo_cfg \<lparr>it_key = JStr ''c'', it_val = JObj []\<rparr>
     \<lparr>it_key = JStr ''b'', it_val = JObj [(''age'', JNum 30)]\<rparr> False"
proof -
  let ?a = "\<lparr>it_key = JStr ''c'', it_val = JObj []\<rparr>" and ?b = "\<lparr>it_key = JStr ''a'', it_val = JObj [(''age'', JNum 20)]\<rparr>"
    and ?c = "\<lparr>it_key = JStr ''b'', it_val = JObj [(''age'', JNum 30)]\<rparr>"
  have "0 \<le> comp demo_cfg ?a ?b False" "0 \<le> comp demo_cfg ?b ?c False"
    by (simp_all add: demo_defs comp_def field_val_def compArr_def to_arr_def Let_def desc_sign_def js_lt_def)
  with comp_total_preorder [of demo_cfg demo_fs demo_ty ?a ?b ?c False] show ?thesis
    by (simp add: demo_typed demo_cfg_def)
qed

text \<open>
  C29. The binary search of a node in order returns a position that compares equal, or, where there is
  none, the last position before and the first position after the searched value.
\<close>

theorem binarySearch_correct:
  assumes "bc_sort c = SFields fs" "typed_item ty fs val"
    and "sorted_leaf ty fs nl (leaf_items V st (bn_vals node))"
  shows "bin_spec (\<lambda>i. comp c (b_data V (bn_vals node ! i) st) val nl) (length (bn_vals node))
    (binarySearch V c node val st nl)"
  using assms by (rule binarySearch_sorted)

theorem binarySearch_correct_witness:
  "bin_spec (\<lambda>i. comp demo_cfg (b_data demo_view (bn_vals demo_leaf1 ! i) [])
       \<lparr>it_key = JStr ''x'', it_val = JObj [(''age'', JNum 10)]\<rparr> False) 2
     (binarySearch demo_view demo_cfg demo_leaf1 \<lparr>it_key = JStr ''x'', it_val = JObj [(''age'', JNum 10)]\<rparr> [] False)"
  using binarySearch_correct [of demo_cfg demo_fs demo_ty "\<lparr>it_key = JStr ''x'', it_val = JObj [(''age'', JNum 10)]\<rparr>"
      False demo_view "[]" demo_leaf1]
  by (simp add: demo_typed demo_sorted) (simp add: demo_cfg_def demo_leaf1_def numeral_2_eq_2)

text \<open>
  C30. Inserting a document into a leaf in order keeps the leaf in order and adds its key once; nothing
  else in the leaf changes place.
\<close>

theorem insert_leaf_sorted:
  assumes "bc_sort c = SFields fs" "typed_item ty fs val" "b_data V (JStr key) st = val"
    and "sorted_leaf ty fs False (leaf_items V st (bn_vals node))"
  shows "sorted_leaf ty fs False (leaf_items V st (bn_vals (ins_leaf V c key val node st))) \<and>
    (\<exists>i. bn_vals (ins_leaf V c key val node st) = take i (bn_vals node) @ JStr key # drop i (bn_vals node))"
  using ins_leaf_sorted [OF assms] ins_leaf_vals by blast

theorem insert_leaf_sorted_witness:
  "sorted_leaf demo_ty demo_fs False (leaf_items demo_view []
     (bn_vals (ins_leaf demo_view demo_cfg ''b'' (b_data demo_view (JStr ''b'') []) demo_leaf1 [])))"
  using insert_leaf_sorted [of demo_cfg demo_fs demo_ty "b_data demo_view (JStr ''b'') []" demo_view "''b''" "[]" demo_leaf1]
  by (simp add: demo_items demo_typed demo_sorted) (simp add: demo_cfg_def)

text \<open>
  C32. Walking the leaves from a start position returns the documents in leaf order, up to the end bound
  and at most \<open>limit\<close> of them, and terminates: fuel for one call per leaf is enough.
\<close>

theorem range_walk:
  assumes "leaf_chain V st n ms" "length ms < fuel" "ro_limit opt = Some l" "0 < l"
  shows "getVals fuel V c n [] i opt st =
    Inr (take (nat l) (takeWhile (\<lambda>x. \<not> past_end c opt x)
      (leaf_items V st (drop i (bn_vals n) @ concat (map bn_vals ms)))))"
  using getVals_chain [OF assms(3,1,2), of "[]"] assms(4) by simp

theorem range_walk_witness:
  "getVals 2 demo_view demo_cfg demo_leaf1 [] 1
     \<lparr>ro_limit = Some 1000, ro_startAt = JUndef, ro_startAfter = JUndef, ro_endAt = JUndef, ro_endBefore = JUndef,
      ro_reverse = False\<rparr> [] =
   Inr (leaf_items demo_view [] [JStr ''a'', JStr ''b''])"
proof -
  have chain: "leaf_chain demo_view [] demo_leaf1 [demo_leaf2]"
    by (simp add: demo_leaf1_def demo_leaf2_def node_at_def b_get_def demo_view_def as_node_def)
  show ?thesis
    using range_walk [OF chain, of 2 "\<lparr>ro_limit = Some 1000, ro_startAt = JUndef, ro_startAfter = JUndef,
        ro_endAt = JUndef, ro_endBefore = JUndef, ro_reverse = False\<rparr>" 1000 demo_cfg 1]
    by (simp add: past_end_def leaf_items_def) (simp add: demo_leaf1_def demo_leaf2_def)
qed

text \<open>
  C33. The descents terminate at a leaf: under a node at depth \<open>d\<close> whose branches have one child more
  than separators, \<open>search\<close> and \<open>rsearch\<close> reach a leaf with fuel \<open>d + 1\<close>, for every searched value.
\<close>

theorem search_reaches_leaf:
  assumes "subtree V st d k" "d < fuel"
  shows "(\<exists>n. search fuel V c val (Some k) st after = Inr (Some n) \<and> bn_leaf n) \<and>
    (\<exists>n. rsearch fuel V c val (Some k) st after = Inr (Some n) \<and> bn_leaf n)"
  using search_subtree [OF assms] rsearch_subtree [OF assms] by blast

lemma demo_subtree: "subtree demo_view [] 1 ''2''"
proof -
  have "subtree demo_view [] 0 ''0''"
    by (rule sub_leaf [of _ _ _ demo_leaf1]) (simp_all add: b_get_def demo_view_def demo_leaf1_def)
  moreover have "subtree demo_view [] 0 ''1''"
    by (rule sub_leaf [of _ _ _ demo_leaf2]) (simp_all add: b_get_def demo_view_def demo_leaf2_def)
  ultimately show ?thesis unfolding One_nat_def
    by (intro sub_branch [of _ _ _ demo_root]) (auto simp: b_get_def demo_view_def demo_root_def)
qed

theorem search_reaches_leaf_witness:
  "(\<exists>n. search 2 demo_view demo_cfg None (Some ''2'') [] False = Inr (Some n) \<and> bn_leaf n) \<and>
   (\<exists>n. rsearch 2 demo_view demo_cfg None (Some ''2'') [] False = Inr (Some n) \<and> bn_leaf n)"
  by (rule search_reaches_leaf [OF demo_subtree]) simp

end
