(* ===== verification/Bpt_Tree.thy ===== *)
theory Bpt_Tree
  imports Bpt_Props "HOL-Library.Multiset"
begin

text \<open>
  The trees that the nodes in the store stand for. A tree is a leaf with its keys or a branch with its
  separators and subtrees, each with the id of its node; what it contains is read off its in-order list of
  keys and separators. A position in a tree is the subtree there and the list of branches above it. Every
  step of an insertion or a deletion changes a tree at one position, and nearly all of them leave the
  in-order list as it is.
\<close>

section \<open>Trees\<close>

datatype bt = Lf string "string list" | Br string "jv list" "bt list"

fun rid :: "bt \<Rightarrow> string" where
  "rid (Lf i ks) = i"
| "rid (Br i ss ts) = i"

fun ids :: "bt \<Rightarrow> string list" where
  "ids (Lf i ks) = [i]"
| "ids (Br i ss ts) = i # concat (map ids ts)"

fun width :: "bt \<Rightarrow> nat" where
  "width (Lf i ks) = length ks"
| "width (Br i ss ts) = length ss"

fun tkeys :: "bt \<Rightarrow> string list" where
  "tkeys (Lf i ks) = ks"
| "tkeys (Br i ss ts) = concat (map tkeys ts)"

text \<open>All leaves at the depth \<open>h\<close>, and one subtree more than separators.\<close>

fun tall :: "nat \<Rightarrow> bt \<Rightarrow> bool" where
  "tall h (Lf i ks) \<longleftrightarrow> h = 0"
| "tall 0 (Br i ss ts) \<longleftrightarrow> False"
| "tall (Suc h) (Br i ss ts) \<longleftrightarrow> length ts = Suc (length ss) \<and> (\<forall>t \<in> set ts. tall h t)"

text \<open>The nodes at the depth \<open>d\<close>, from left to right.\<close>

fun level :: "nat \<Rightarrow> bt \<Rightarrow> string list" where
  "level 0 t = [rid t]"
| "level (Suc d) (Lf i ks) = []"
| "level (Suc d) (Br i ss ts) = concat (map (level d) ts)"

text \<open>Between the bounds \<open>lo\<close> and \<open>hi\<close> in every node.\<close>

fun sized :: "nat \<Rightarrow> nat \<Rightarrow> bt \<Rightarrow> bool" where
  "sized lo hi (Lf i ks) \<longleftrightarrow> lo \<le> length ks \<and> length ks \<le> hi"
| "sized lo hi (Br i ss ts) \<longleftrightarrow> lo \<le> length ss \<and> length ss \<le> hi \<and> (\<forall>t \<in> set ts. sized lo hi t)"

section \<open>The in-order list\<close>

datatype elem = EKey string | ESep jv

definition after_seps :: "jv list \<Rightarrow> elem list list \<Rightarrow> elem list" where
  "after_seps ss xs = concat (map (\<lambda>(s, x). ESep s # x) (zip ss xs))"

definition before_seps :: "elem list list \<Rightarrow> jv list \<Rightarrow> elem list" where
  "before_seps xs ss = concat (map (\<lambda>(x, s). x @ [ESep s]) (zip xs ss))"

fun weave :: "elem list list \<Rightarrow> jv list \<Rightarrow> elem list" where
  "weave [] ss = []"
| "weave (x # xs) ss = x @ after_seps ss xs"

fun flat :: "bt \<Rightarrow> elem list" where
  "flat (Lf i ks) = map EKey ks"
| "flat (Br i ss ts) = weave (map flat ts) ss"

lemma seps_simps [simp]:
  "after_seps [] xs = []" "after_seps ss [] = []" "after_seps (s # ss) (x # xs) = ESep s # x @ after_seps ss xs"
  "before_seps [] ss = []" "before_seps xs [] = []" "before_seps (x # xs) (s # ss) = x @ ESep s # before_seps xs ss"
  by (simp_all add: after_seps_def before_seps_def)

lemma after_seps_append:
  "length ss = length xs \<Longrightarrow> after_seps (ss @ ss') (xs @ xs') = after_seps ss xs @ after_seps ss' xs'"
  by (simp add: after_seps_def)

lemma before_seps_append:
  "length ss = length xs \<Longrightarrow> before_seps (xs @ xs') (ss @ ss') = before_seps xs ss @ before_seps xs' ss'"
  by (simp add: before_seps_def)

lemma weave_mid:
  "length xs = length sl \<Longrightarrow> weave (xs @ y # ys) (sl @ sr) = before_seps xs sl @ y @ after_seps sr ys"
proof (induction xs arbitrary: sl)
  case (Cons x xs)
  then obtain s sl' where sl: "sl = s # sl'" by (cases sl) auto
  with Cons have IH: "weave (xs @ y # ys) (sl' @ sr) = before_seps xs sl' @ y @ after_seps sr ys" by simp
  show ?case using IH unfolding sl by (cases xs) simp_all
qed simp

section \<open>Positions\<close>

text \<open>A branch above the position: its id, what is left of the position and what is right of it.\<close>

type_synonym frame = "string \<times> jv list \<times> bt list \<times> jv list \<times> bt list"

fun plug :: "frame list \<Rightarrow> bt \<Rightarrow> bt" where
  "plug [] t = t"
| "plug ((i, sl, ls, sr, rs) # fs) t = plug fs (Br i (sl @ sr) (ls @ t # rs))"

definition good_frame :: "frame \<Rightarrow> bool" where
  "good_frame f \<longleftrightarrow> (case f of (i, sl, ls, sr, rs) \<Rightarrow> length sl = length ls \<and> length sr = length rs)"

fun cids :: "frame list \<Rightarrow> string list" where
  "cids [] = []"
| "cids ((i, sl, ls, sr, rs) # fs) = i # concat (map ids ls) @ concat (map ids rs) @ cids fs"

fun left_of :: "frame list \<Rightarrow> elem list" where
  "left_of [] = []"
| "left_of ((i, sl, ls, sr, rs) # fs) = left_of fs @ before_seps (map flat ls) sl"

fun right_of :: "frame list \<Rightarrow> elem list" where
  "right_of [] = []"
| "right_of ((i, sl, ls, sr, rs) # fs) = after_seps sr (map flat rs) @ right_of fs"

text \<open>The nodes left and right of the position at its own depth plus \<open>d\<close>.\<close>

fun left_level :: "nat \<Rightarrow> frame list \<Rightarrow> string list" where
  "left_level d [] = []"
| "left_level d ((i, sl, ls, sr, rs) # fs) = left_level (Suc d) fs @ concat (map (level d) ls)"

fun right_level :: "nat \<Rightarrow> frame list \<Rightarrow> string list" where
  "right_level d [] = []"
| "right_level d ((i, sl, ls, sr, rs) # fs) = concat (map (level d) rs) @ right_level (Suc d) fs"

fun tall_frames :: "nat \<Rightarrow> frame list \<Rightarrow> bool" where
  "tall_frames h [] \<longleftrightarrow> True"
| "tall_frames h ((i, sl, ls, sr, rs) # fs) \<longleftrightarrow>
     length sl = length ls \<and> length sr = length rs \<and> (\<forall>t \<in> set ls \<union> set rs. tall h t) \<and> tall_frames (Suc h) fs"

fun up :: "frame list \<Rightarrow> string option" where
  "up [] = None"
| "up ((i, sl, ls, sr, rs) # fs) = Some i"

lemma plug_append: "plug (fs @ gs) t = plug gs (plug fs t)"
  by (induction fs t rule: plug.induct) auto

lemma left_of_append: "left_of (fs @ gs) = left_of gs @ left_of fs"
  by (induction fs rule: left_of.induct) auto

lemma right_of_append: "right_of (fs @ gs) = right_of fs @ right_of gs"
  by (induction fs rule: right_of.induct) auto

lemma cids_append: "mset (cids (fs @ gs)) = mset (cids fs) + mset (cids gs)"
  by (induction fs rule: cids.induct) auto

lemma mset_ids_plug: "mset (ids (plug fs t)) = mset (ids t) + mset (cids fs)"
  by (induction fs t rule: plug.induct) auto

lemma set_ids_plug [simp]: "set (ids (plug fs t)) = set (ids t) \<union> set (cids fs)"
  using arg_cong [OF mset_ids_plug, of set_mset] by simp

lemma distinct_plug: "distinct (ids (plug fs t)) \<longleftrightarrow> distinct (ids t @ cids fs)"
  using mset_ids_plug [of fs t] mset_eq_imp_distinct_iff [of "ids (plug fs t)" "ids t @ cids fs"] by simp

lemma tall_plug: "tall_frames h fs \<Longrightarrow> tall (h + length fs) (plug fs t) \<longleftrightarrow> tall h t"
proof (induction fs t arbitrary: h rule: plug.induct)
  case (2 i sl ls sr rs fs t)
  then have "tall_frames (Suc h) fs" and len: "length sl = length ls" "length sr = length rs" "\<forall>t \<in> set ls \<union> set rs. tall h t"
    by simp_all
  from "2.IH" [OF this(1)] have "tall (Suc h + length fs) (plug fs (Br i (sl @ sr) (ls @ t # rs))) \<longleftrightarrow> tall h t"
    using len by auto
  then show ?case by simp
qed simp

lemma flat_plug: "tall_frames h fs \<Longrightarrow> flat (plug fs t) = left_of fs @ flat t @ right_of fs"
proof (induction fs t arbitrary: h rule: plug.induct)
  case (2 i sl ls sr rs fs t)
  then have "tall_frames (Suc h) fs" and len: "length sl = length ls" by simp_all
  from "2.IH" [OF this(1)] len show ?case by (simp add: weave_mid)
qed simp

lemma level_plug:
  "level (length fs + d) (plug fs t) = left_level d fs @ level d t @ right_level d fs"
proof (induction fs t arbitrary: d rule: plug.induct)
  case (2 i sl ls sr rs fs t)
  from 2 [of "Suc d"] show ?case by simp
qed simp

text \<open>Above the position the levels do not depend on it.\<close>

lemma level_above: "d < length fs \<Longrightarrow> level d (plug fs t) = level d (plug fs t')"
proof (induction fs arbitrary: t t')
  case (Cons f fs)
  obtain i sl ls sr rs where f: "f = (i, sl, ls, sr, rs)" by (cases f)
  show ?case
  proof (cases "d < length fs")
    case True
    then show ?thesis unfolding f plug.simps by (rule Cons.IH)
  next
    case False
    with Cons.prems have "d = length fs + 0" by simp
    then show ?thesis unfolding f plug.simps by (simp only: level_plug level.simps rid.simps)
  qed
qed simp

definition elem_keys :: "elem list \<Rightarrow> string list" where
  "elem_keys es = concat (map (\<lambda>e. case e of EKey k \<Rightarrow> [k] | ESep s \<Rightarrow> []) es)"

lemma elem_keys_simps [simp]:
  "elem_keys [] = []" "elem_keys (EKey k # es) = k # elem_keys es" "elem_keys (ESep s # es) = elem_keys es"
  "elem_keys (es @ es') = elem_keys es @ elem_keys es'" "elem_keys (map EKey ks) = ks"
  by (simp_all add: elem_keys_def) (induction ks; simp)

lemma elem_keys_after: "length ss = length xs \<Longrightarrow> elem_keys (after_seps ss xs) = concat (map elem_keys xs)"
  by (induction ss xs rule: list_induct2) simp_all

lemma elem_keys_before: "length ss = length xs \<Longrightarrow> elem_keys (before_seps xs ss) = concat (map elem_keys xs)"
  by (induction ss xs rule: list_induct2) simp_all

lemma tkeys_flat: "tall h t \<Longrightarrow> tkeys t = elem_keys (flat t)"
proof (induction h t rule: tall.induct)
  case (3 h i ss ts)
  then obtain t ts' where ts: "ts = t # ts'" "length ss = length ts'" by (cases ts) auto
  have m: "tkeys t = elem_keys (flat t)" "map tkeys ts' = map (\<lambda>t. elem_keys (flat t)) ts'" using 3 ts(1) by simp_all
  have "tkeys (Br i ss ts) = elem_keys (flat t) @ concat (map (\<lambda>t. elem_keys (flat t)) ts')"
    unfolding ts(1) tkeys.simps list.map(2) concat.simps(2) m ..
  then show ?case unfolding ts(1) by (simp add: elem_keys_after ts(2) o_def)
qed simp_all

lemma set_elem_keys: "set (elem_keys es) = {k. EKey k \<in> set es}"
  by (induction es) (auto simp: elem_keys_def split: elem.splits)

section \<open>Order\<close>

text \<open>
  An element stands for a document: a key for the one it names, a separator for the fields it holds. Keys
  come strictly before what follows them; a separator may have the fields of the next key.
\<close>

definition e_item :: "(string \<Rightarrow> item) \<Rightarrow> elem \<Rightarrow> item" where
  "e_item D e = (case e of EKey k \<Rightarrow> D k | ESep s \<Rightarrow> bound_item s)"

definition e_lt :: "(string \<times> string) list \<Rightarrow> (string \<Rightarrow> item) \<Rightarrow> elem \<Rightarrow> item \<Rightarrow> bool" where
  "e_lt fl D a x \<longleftrightarrow>
     (case a of EKey k \<Rightarrow> comp_fields fl (D k) x False = 1 | ESep s \<Rightarrow> 0 \<le> comp_fields fl (bound_item s) x False)"

definition e_ok :: "(string \<Rightarrow> sort_type) \<Rightarrow> (string \<times> string) list \<Rightarrow> (string \<Rightarrow> item) \<Rightarrow> elem \<Rightarrow> bool" where
  "e_ok ty fl D e \<longleftrightarrow> typed_item ty fl (e_item D e) \<and>
     (case e of EKey k \<Rightarrow> it_key (D k) = JStr k \<and> \<not> is_nil (it_val (D k)) | ESep s \<Rightarrow> \<not> is_nil s)"

definition in_order :: "(string \<Rightarrow> sort_type) \<Rightarrow> (string \<times> string) list \<Rightarrow> (string \<Rightarrow> item) \<Rightarrow> elem list \<Rightarrow> bool" where
  "in_order ty fl D es \<longleftrightarrow> sorted_wrt (\<lambda>a b. e_lt fl D a (e_item D b)) es \<and> (\<forall>e \<in> set es. e_ok ty fl D e)"

lemma e_simps [simp]:
  "e_item D (EKey k) = D k" "e_item D (ESep s) = bound_item s"
  "e_lt fl D (EKey k) x \<longleftrightarrow> comp_fields fl (D k) x False = 1"
  "e_lt fl D (ESep s) x \<longleftrightarrow> 0 \<le> comp_fields fl (bound_item s) x False"
  by (simp_all add: e_item_def e_lt_def)

lemma e_ok_typed [simp]: "e_ok ty fl D e \<Longrightarrow> typed_item ty fl (e_item D e)"
  by (simp add: e_ok_def)

lemma e_lt_le: "e_lt fl D a x \<Longrightarrow> 0 \<le> comp_fields fl (e_item D a) x False"
  by (cases a) simp_all

lemma e_lt_strict: "comp_fields fl (e_item D a) x False = 1 \<Longrightarrow> e_lt fl D a x"
  by (cases a) simp_all

lemma e_lt_trans:
  assumes "e_ok ty fl D a" "typed_item ty fl y" "typed_item ty fl z" "e_lt fl D a y" "0 \<le> comp_fields fl y z False"
  shows "e_lt fl D a z"
  using assms comp_order.cmp_trans [of "e_item D a" ty fl y z False]
    comp_order.cmp_trans_lt [of "e_item D a" ty fl y z False] e_ok_typed [OF assms(1)]
  by (cases a) auto

lemma in_order_append:
  "in_order ty fl D (xs @ ys) \<longleftrightarrow> in_order ty fl D xs \<and> in_order ty fl D ys \<and>
     (\<forall>a \<in> set xs. \<forall>b \<in> set ys. e_lt fl D a (e_item D b))"
  by (auto simp: in_order_def sorted_wrt_append)

lemma in_order_Cons:
  "in_order ty fl D (a # ys) \<longleftrightarrow> e_ok ty fl D a \<and> in_order ty fl D ys \<and> (\<forall>b \<in> set ys. e_lt fl D a (e_item D b))"
  by (auto simp: in_order_def)

lemma in_order_Nil [simp]: "in_order ty fl D []"
  by (simp add: in_order_def)

lemmas in_order_simps = in_order_append in_order_Cons

lemma in_order_ok: "in_order ty fl D es \<Longrightarrow> e \<in> set es \<Longrightarrow> e_ok ty fl D e"
  by (simp add: in_order_def)

lemma comp_fields_same:
  "(\<And>f d. (f, d) \<in> set fl \<Longrightarrow> field_val f a = field_val f b) \<Longrightarrow>
   comp_fields fl a x nl = comp_fields fl b x nl \<and> comp_fields fl x a nl = comp_fields fl x b nl"
proof (induction fl)
  case (Cons fd fl)
  obtain f d where "fd = (f, d)" by (cases fd)
  with Cons show ?case by (fastforce simp: Let_def)
qed simp

text \<open>A key is replaced by its separator, or a separator is put before it.\<close>

definition sep_for :: "(string \<times> string) list \<Rightarrow> (string \<Rightarrow> item) \<Rightarrow> string \<Rightarrow> jv \<Rightarrow> bool" where
  "sep_for fl D k s \<longleftrightarrow> \<not> is_nil s \<and> (\<forall>(f, d) \<in> set fl. field_val f (bound_item s) = field_val f (D k))"

lemma sep_for_comp:
  assumes "sep_for fl D k s"
  shows "comp_fields fl (bound_item s) x nl = comp_fields fl (D k) x nl"
    and "comp_fields fl x (bound_item s) nl = comp_fields fl x (D k) nl"
  using comp_fields_same [of fl "bound_item s" "D k" x nl] assms by (auto simp: sep_for_def)

lemma sep_for_ok: "sep_for fl D k s \<Longrightarrow> e_ok ty fl D (EKey k) \<Longrightarrow> e_ok ty fl D (ESep s)"
  by (fastforce simp: sep_for_def e_ok_def typed_item_def list_all_iff)

lemma e_lt_sep: "sep_for fl D k s \<Longrightarrow> e_lt fl D a (bound_item s) \<longleftrightarrow> e_lt fl D a (D k)"
  by (cases a) (simp_all add: sep_for_comp)

lemma in_order_add_sep:
  assumes "in_order ty fl D (xs @ EKey k # ys)" "sep_for fl D k s"
  shows "in_order ty fl D (xs @ ESep s # EKey k # ys)"
proof -
  have k: "e_ok ty fl D (EKey k)" using assms(1) by (simp add: in_order_simps)
  then have "comp_fields fl (D k) (D k) False = 0"
    using comp_order.cmp_refl [of "D k" ty fl False] e_ok_typed [OF k] by simp
  with assms k show ?thesis
    by (auto simp: in_order_simps e_lt_sep sep_for_comp sep_for_ok)
qed

lemma in_order_drop: "in_order ty fl D (xs @ e # ys) \<Longrightarrow> in_order ty fl D (xs @ ys)"
  by (simp add: in_order_simps)

lemma in_order_cong:
  assumes "in_order ty fl D es" "\<And>k. EKey k \<in> set es \<Longrightarrow> D' k = D k"
  shows "in_order ty fl D' es"
proof -
  have D: "D' k = D k" if "EKey k \<in> set es" for k using assms(2) [OF that] .
  have i: "e_item D' e = e_item D e" if "e \<in> set es" for e using D that by (cases e) simp_all
  have l: "e_lt fl D' e x = e_lt fl D e x" if "e \<in> set es" for e x using D that by (cases e) simp_all
  have e: "e_ok ty fl D' e = e_ok ty fl D e" if "e \<in> set es" for e
    using D that i [OF that] by (cases e) (simp_all add: e_ok_def)
  have "sorted_wrt (\<lambda>a b. e_lt fl D a (e_item D b)) es" using assms(1) by (simp add: in_order_def)
  moreover have "e_lt fl D' a (e_item D' b)" if "a \<in> set es" "b \<in> set es" "e_lt fl D a (e_item D b)" for a b
    using that by (simp add: i l)
  ultimately have "sorted_wrt (\<lambda>a b. e_lt fl D' a (e_item D' b)) es"
    using sorted_wrt_mono_rel [of es "\<lambda>a b. e_lt fl D a (e_item D b)" "\<lambda>a b. e_lt fl D' a (e_item D' b)"] by blast
  moreover have "\<forall>x \<in> set es. e_ok ty fl D' x" using assms(1) e by (simp add: in_order_def)
  ultimately show ?thesis by (simp only: in_order_def)
qed

section \<open>Separators\<close>

definition plain_fields :: "(string \<times> string) list \<Rightarrow> bool" where
  "plain_fields fl \<longleftrightarrow> (\<forall>(f, d) \<in> set fl. CHR ''.'' \<notin> set f)"

lemma split_on_plain: "c \<notin> set s \<Longrightarrow> split_on c s = [s]"
  by (induction s) auto

lemma pick_fields:
  assumes "\<not> is_nil (it_val a)"
  shows "\<exists>o'. rfoldl (\<lambda>acc (f, d). if f = ''__id__'' then Inr (jset acc f (it_key a))
        else rbind (jprop (it_val a) f) (\<lambda>x. Inr (jset acc f (nullish x JNull)))) (JObj p) fl = (Inr (JObj o') :: jv res) \<and>
     (\<forall>f. map_of o' f = (if f \<in> fst ` set fl
        then Some (if f = ''__id__'' then it_key a else nullish (jget (it_val a) f) JNull) else map_of p f))"
proof (induction fl arbitrary: p)
  case (Cons fd fl)
  obtain f d where fd: "fd = (f, d)" by (cases fd)
  define v where "v = (if f = ''__id__'' then it_key a else nullish (jget (it_val a) f) JNull)"
  have "rfoldl (\<lambda>acc (f, d). if f = ''__id__'' then Inr (jset acc f (it_key a))
        else rbind (jprop (it_val a) f) (\<lambda>x. Inr (jset acc f (nullish x JNull)))) (JObj p) (fd # fl) =
     (rfoldl (\<lambda>acc (f, d). if f = ''__id__'' then Inr (jset acc f (it_key a))
        else rbind (jprop (it_val a) f) (\<lambda>x. Inr (jset acc f (nullish x JNull)))) (JObj (oput f v p)) fl :: jv res)"
    using assms by (simp add: fd v_def jprop_def)
  with Cons.IH [of "oput f v p"] show ?case by (auto simp: fd v_def)
qed simp

lemma pick_sep:
  assumes "bc_sort c = SFields fl" "plain_fields fl" "it_key (D k) = JStr k" "\<not> is_nil (it_val (D k))"
  shows "\<exists>s. pick c (D k) = Inr s \<and> sep_for fl D k s"
proof -
  obtain o' where o': "pick c (D k) = Inr (JObj o')"
    "\<And>f. map_of o' f = (if f \<in> fst ` set fl
        then Some (if f = ''__id__'' then it_key (D k) else nullish (jget (it_val (D k)) f) JNull) else None)"
    using pick_fields [OF assms(4), of "[]" fl] by (auto simp: pick_def assms(1))
  have "field_val f (bound_item (JObj o')) = field_val f (D k)" if "(f, d) \<in> set fl" for f d
  proof -
    have f: "f \<in> fst ` set fl" "split_on CHR ''.'' f = [f]"
      using that assms(2) by (force simp: plain_fields_def intro!: split_on_plain)+
    have m: "jget (JObj o') f = (if f = ''__id__'' then it_key (D k) else nullish (jget (it_val (D k)) f) JNull)"
      using f(1) by (simp add: o'(2))
    show ?thesis
    proof (cases "f = ''__id__''")
      case True
      with m assms(3) show ?thesis by (simp add: field_val_def bound_item_def Let_def)
    next
      case False
      moreover have "it_val (bound_item (JObj o')) = JObj o'" by (simp add: bound_item_def Let_def)
      ultimately show ?thesis using m f(2) assms(4) by (simp add: field_val_def nullish_def)
    qed
  qed
  with o'(1) show ?thesis by (auto simp: sep_for_def)
qed

section \<open>Nodes in the store\<close>

definition reserved :: "string \<Rightarrow> bool" where
  "reserved i \<longleftrightarrow> i = ''root'' \<or> i = ''count'' \<or> starts_with ''data/'' i"

text \<open>The node stored under its id.\<close>

definition nd :: "bview \<Rightarrow> stats \<Rightarrow> string \<Rightarrow> bnode option" where
  "nd V st i =
     (if reserved i \<or> map_of st i = Some SNull then None
      else case b_get V i st of Some (SNode n) \<Rightarrow> if bn_id n = i then Some n else None | _ \<Rightarrow> None)"

lemma b_get_oput: "v \<noteq> SNull \<Longrightarrow> b_get V k (oput k' v st) = (if k = k' then Some v else b_get V k st)"
  by (cases v) (auto simp: b_get_def)

lemma nd_put [simp]: "\<not> reserved (bn_id n) \<Longrightarrow> nd V (put_node n st) = (nd V st)(bn_id n \<mapsto> n)"
  by (rule ext) (auto simp: nd_def put_node_def b_put_def b_get_oput)

lemma nd_oput_reserved: "reserved k \<Longrightarrow> nd V (oput k v st) = nd V st"
  by (rule ext) (auto simp: nd_def b_get_def)

lemma nd_count [simp]: "nd V (b_put ''count'' v st) = nd V st"
  by (simp add: b_put_def nd_oput_reserved reserved_def)

lemma nd_root [simp]: "nd V (set_root r st) = nd V st"
  by (simp add: set_root_def b_put_def nd_oput_reserved reserved_def)

lemma nd_data [simp]: "nd V (put_data k v st) = nd V st" "nd V (del_data k st) = nd V st"
  by (simp_all add: put_data_def del_data_def data_key_def nd_oput_reserved reserved_def starts_with_def)

lemma nd_del [simp]: "\<not> reserved i \<Longrightarrow> nd V (b_del i st) = (nd V st)(i := None)"
  by (rule ext) (auto simp: nd_def b_del_def b_get_oput)

lemma nd_id: "nd V st i = Some n \<Longrightarrow> bn_id n = i \<and> \<not> reserved i \<and> b_get V i st = Some (SNode n)"
  by (auto simp: nd_def split: if_splits option.splits sv.splits)

lemma node_at_nd: "nd V st i = Some n \<Longrightarrow> node_at V i st = Inr n"
  using nd_id [of V st i n] by (simp add: node_at_def as_node_def)

text \<open>The part of a node that the tree fixes, and its neighbours at its depth.\<close>

definition shp :: "(string \<Rightarrow> bnode option) \<Rightarrow> string \<Rightarrow> (bool \<times> jv list \<times> string list \<times> string option) option" where
  "shp f i = map_option (\<lambda>n. (bn_leaf n, bn_vals n, bn_children n, bn_parent n)) (f i)"

definition lnk :: "(string \<Rightarrow> bnode option) \<Rightarrow> string \<Rightarrow> (string option \<times> string option) option" where
  "lnk f i = map_option (\<lambda>n. (bn_prev n, bn_next n)) (f i)"

lemma shp_upd [simp]:
  "shp (f(i \<mapsto> n)) = (shp f)(i \<mapsto> (bn_leaf n, bn_vals n, bn_children n, bn_parent n))"
  "shp (f(i := None)) = (shp f)(i := None)"
  by (auto simp: shp_def)

lemma lnk_upd [simp]: "lnk (f(i \<mapsto> n)) = (lnk f)(i \<mapsto> (bn_prev n, bn_next n))" "lnk (f(i := None)) = (lnk f)(i := None)"
  by (auto simp: lnk_def)

fun rep :: "(string \<Rightarrow> (bool \<times> jv list \<times> string list \<times> string option) option) \<Rightarrow> string option \<Rightarrow> bt \<Rightarrow> bool" where
  "rep C p (Lf i ks) \<longleftrightarrow> C i = Some (True, map JStr ks, [], p)"
| "rep C p (Br i ss ts) \<longleftrightarrow> C i = Some (False, ss, map rid ts, p) \<and> (\<forall>t \<in> set ts. rep C (Some i) t)"

fun rep_above :: "(string \<Rightarrow> (bool \<times> jv list \<times> string list \<times> string option) option) \<Rightarrow> frame list \<Rightarrow> string \<Rightarrow> bool" where
  "rep_above C [] r \<longleftrightarrow> True"
| "rep_above C ((i, sl, ls, sr, rs) # fs) r \<longleftrightarrow>
     C i = Some (False, sl @ sr, map rid ls @ r # map rid rs, up fs) \<and>
     (\<forall>t \<in> set ls \<union> set rs. rep C (Some i) t) \<and> rep_above C fs i"

lemma rep_plug: "rep C None (plug fs t) \<longleftrightarrow> rep C (up fs) t \<and> rep_above C fs (rid t)"
  by (induction fs t rule: plug.induct) auto

lemma rid_in_ids [simp]: "rid t \<in> set (ids t)"
  by (cases t) simp_all

lemma rep_cong: "(\<And>i. i \<in> set (ids t) \<Longrightarrow> C' i = C i) \<Longrightarrow> rep C' p t = rep C p t"
  by (induction t arbitrary: p) auto

lemma rep_above_cong:
  "(\<And>i. i \<in> set (cids fs) \<Longrightarrow> C' i = C i) \<Longrightarrow> rep_above C' fs r = rep_above C fs r"
proof (induction fs arbitrary: r)
  case (Cons f fs)
  obtain i sl ls sr rs where f: "f = (i, sl, ls, sr, rs)" by (cases f)
  have "rep C' p t = rep C p t" if "t \<in> set ls \<union> set rs" for p t
    using that Cons.prems by (intro rep_cong) (auto simp: f)
  moreover have "rep_above C' fs i = rep_above C fs i" using Cons by (simp add: f)
  moreover have "C' i = C i" using Cons.prems by (simp add: f)
  ultimately show ?case by (simp add: f)
qed simp

text \<open>A subtree is moved under another parent.\<close>

definition with_parent :: "string option \<Rightarrow> (bool \<times> jv list \<times> string list \<times> string option) option \<Rightarrow>
    (bool \<times> jv list \<times> string list \<times> string option) option" where
  "with_parent p s = map_option (\<lambda>(l, vs, cs, q). (l, vs, cs, p)) s"

lemma rep_move:
  assumes "rep C p t" "C' (rid t) = with_parent q (C (rid t))" "\<And>i. i \<in> set (ids t) \<Longrightarrow> i \<noteq> rid t \<Longrightarrow> C' i = C i"
    "distinct (ids t)"
  shows "rep C' q t"
proof (cases t)
  case (Br i ss ts)
  have "rep C' (Some i) u" if "u \<in> set ts" for u
    using that assms rep_cong [of u C' C "Some i"] by (fastforce simp: Br)
  with assms(1,2) show ?thesis by (simp add: Br with_parent_def)
qed (use assms in \<open>simp add: with_parent_def\<close>)

section \<open>Neighbours\<close>

fun linked :: "(string \<Rightarrow> (string option \<times> string option) option) \<Rightarrow> string option \<Rightarrow> string list \<Rightarrow> bool" where
  "linked N p [] \<longleftrightarrow> True"
| "linked N p (i # xs) \<longleftrightarrow> N i = Some (p, case xs of [] \<Rightarrow> None | j # _ \<Rightarrow> Some j) \<and> linked N (Some i) xs"

lemma linked_cong: "(\<And>i. i \<in> set xs \<Longrightarrow> N' i = N i) \<Longrightarrow> linked N' p xs = linked N p xs"
  by (induction xs arbitrary: p) auto

definition last_of :: "string option \<Rightarrow> string list \<Rightarrow> string option" where
  "last_of p xs = (if xs = [] then p else Some (last xs))"

definition first_of :: "string list \<Rightarrow> string option" where
  "first_of xs = (case xs of [] \<Rightarrow> None | x # _ \<Rightarrow> Some x)"

lemma last_of_Cons: "last_of p (x # xs) = last_of (Some x) xs"
  by (simp add: last_of_def)

lemma linked_Cons: "linked N p (i # xs) \<longleftrightarrow> N i = Some (p, first_of xs) \<and> linked N (Some i) xs"
  by (simp add: first_of_def)

lemma linked_at: "linked N p (xs @ i # ys) \<Longrightarrow> N i = Some (last_of p xs, first_of ys)"
proof (induction xs arbitrary: p)
  case Nil
  then show ?case by (simp only: append_Nil linked_Cons) (simp add: last_of_def)
next
  case (Cons x xs)
  then show ?case by (simp only: append_Cons linked_Cons last_of_Cons)
qed

lemma linked_drop: "linked N p (xs @ ys) \<Longrightarrow> linked N (last_of p xs) ys"
proof (induction xs arbitrary: p)
  case (Cons x xs)
  then show ?case by (simp only: append_Cons linked_Cons last_of_Cons)
qed (simp add: last_of_def)

lemma linked_insert:
  assumes "linked N p (xs @ i # ys)" "distinct (xs @ i # ys)"
    and "N' i = map_option (\<lambda>(a, b). (a, Some j)) (N i)" "N' j = map_option (\<lambda>(a, b). (Some i, b)) (N i)"
    and "\<And>k. first_of ys = Some k \<Longrightarrow> N' k = map_option (\<lambda>(a, b). (Some j, b)) (N k)"
    and "\<And>k. k \<in> set (xs @ ys) \<Longrightarrow> first_of ys \<noteq> Some k \<Longrightarrow> N' k = N k"
  shows "linked N' p (xs @ i # j # ys)"
  using assms
proof (induction xs arbitrary: p)
  case Nil
  have ys: "linked N' (Some j) ys"
  proof (cases ys)
    case (Cons y zs)
    have "N' y = map_option (\<lambda>(a, b). (Some j, b)) (N y)" using Nil.prems(5) [of y] by (simp add: Cons first_of_def)
    moreover have "N' k = N k" if "k \<in> set zs" for k
      using that Nil.prems(2) Nil.prems(6) [of k] by (auto simp: Cons first_of_def)
    then have "linked N' (Some y) zs = linked N (Some y) zs" by (rule linked_cong)
    ultimately show ?thesis using Nil.prems(1) by (simp add: Cons)
  qed simp
  have "N i = Some (p, first_of ys)" using Nil.prems(1) by (simp add: first_of_def)
  with Nil.prems(3,4) ys show ?case by (simp add: first_of_def)
next
  case (Cons x xs)
  have "linked N' (Some x) (xs @ i # j # ys)"
  proof (rule Cons.IH)
    show "linked N (Some x) (xs @ i # ys)" "distinct (xs @ i # ys)" using Cons.prems(1,2) by simp_all
    show "N' k = N k" if "k \<in> set (xs @ ys)" "first_of ys \<noteq> Some k" for k
      using Cons.prems(6) [of k] that by simp
  qed (use Cons.prems(3-5) in blast)+
  moreover have "first_of ys \<noteq> Some x" using Cons.prems(2) by (auto simp: first_of_def split: list.splits)
  then have "N' x = N x" using Cons.prems(6) [of x] by simp
  ultimately show ?case using Cons.prems(1) by (cases xs) simp_all
qed

lemma linked_remove:
  assumes "linked N p (xs @ i # ys)" "distinct (xs @ i # ys)"
    and "\<And>k. first_of ys = Some k \<Longrightarrow> N' k = map_option (\<lambda>(a, b). (last_of p xs, b)) (N k)"
    and "xs \<noteq> [] \<Longrightarrow> N' (last xs) = map_option (\<lambda>(a, b). (a, first_of ys)) (N (last xs))"
    and "\<And>k. k \<in> set (xs @ ys) \<Longrightarrow> first_of ys \<noteq> Some k \<Longrightarrow> (xs = [] \<or> last xs \<noteq> k) \<Longrightarrow> N' k = N k"
  shows "linked N' p (xs @ ys)"
  using assms
proof (induction xs arbitrary: p)
  case Nil
  show ?case
  proof (cases ys)
    case (Cons y zs)
    with Nil have "linked N' (Some y) zs = linked N (Some y) zs" by (intro linked_cong) (auto simp: first_of_def)
    with Nil Cons show ?thesis by (simp add: first_of_def last_of_def)
  qed simp
next
  case (Cons x xs)
  have "linked N' (Some x) (xs @ ys)"
  proof (rule Cons.IH)
    show "linked N (Some x) (xs @ i # ys)" "distinct (xs @ i # ys)" using Cons.prems(1,2) by simp_all
    have "last_of p (x # xs) = last_of (Some x) xs" by (simp add: last_of_def)
    then show "N' k = map_option (\<lambda>(a, b). (last_of (Some x) xs, b)) (N k)" if "first_of ys = Some k" for k
      using Cons.prems(3) [OF that] by simp
    show "N' (last xs) = map_option (\<lambda>(a, b). (a, first_of ys)) (N (last xs))" if "xs \<noteq> []"
      using Cons.prems(4) that by simp
    show "N' k = N k" if "k \<in> set (xs @ ys)" "first_of ys \<noteq> Some k" "xs = [] \<or> last xs \<noteq> k" for k
    proof -
      have "k \<noteq> x" using that(1) Cons.prems(2) by auto
      then have "last (x # xs) \<noteq> k" using that(3) by (cases "xs = []") auto
      then show ?thesis using Cons.prems(5) [of k] that(1,2) by simp
    qed
  qed
  moreover have "N' x = Some (p, first_of (xs @ ys))"
  proof (cases xs)
    case Nil
    with Cons.prems(1,4) show ?thesis by simp
  next
    case (Cons z zs)
    then have "last (x # xs) \<noteq> x" using Cons.prems(2) by auto
    with Cons.prems(2,5) Cons have "N' x = N x" by (cases ys) (auto simp: first_of_def)
    with Cons.prems(1) Cons show ?thesis by (simp add: first_of_def)
  qed
  ultimately show ?case by (simp add: first_of_def)
qed

section \<open>What an update leaves alone\<close>

text \<open>Two overlays with the same root, counter and documents.\<close>

definition keeps :: "stats \<Rightarrow> stats \<Rightarrow> bool" where
  "keeps st st' \<longleftrightarrow> (\<forall>k. reserved k \<longrightarrow> map_of st' k = map_of st k)"

lemma keeps_refl [simp]: "keeps st st"
  by (simp add: keeps_def)

lemma keeps_trans: "keeps st st' \<Longrightarrow> keeps st' st'' \<Longrightarrow> keeps st st''"
  by (simp add: keeps_def)

lemma keeps_put [simp]: "\<not> reserved (bn_id n) \<Longrightarrow> keeps st (put_node n st') \<longleftrightarrow> keeps st st'"
  by (auto simp: keeps_def put_node_def b_put_def) metis

lemma keeps_del [simp]: "\<not> reserved i \<Longrightarrow> keeps st (b_del i st') \<longleftrightarrow> keeps st st'"
  by (auto simp: keeps_def b_del_def)

lemma reserved_simps [simp]: "reserved ''root''" "reserved ''count''" "reserved (data_key k)"
  by (simp_all add: reserved_def data_key_def starts_with_def)

lemma keeps_get: "keeps st st' \<Longrightarrow> reserved k \<Longrightarrow> b_get V k st' = b_get V k st"
  by (simp add: keeps_def b_get_def)

lemma keeps_data: "keeps st st' \<Longrightarrow> b_data V v st' = b_data V v st"
  by (simp add: keeps_def b_data_def)

lemma keeps_root: "keeps st st' \<Longrightarrow> b_root V st' = b_root V st"
  by (simp add: b_root_def keeps_get)

lemma data_key_not [simp]: "data_key k \<noteq> ''root''" "data_key k \<noteq> ''count''"
  by (simp_all add: data_key_def)

lemma data_other [simp]:
  "b_data V v (set_root r st) = b_data V v st" "b_data V v (b_put ''count'' s st) = b_data V v st"
  by (simp_all add: b_data_def set_root_def b_put_def)

lemma count_other [simp]: "b_get V ''count'' (set_root r st) = b_get V ''count'' st"
  by (simp add: b_get_def set_root_def b_put_def)

lemma root_other [simp]:
  "b_root V (b_put ''count'' s st) = b_root V st" "b_root V (set_root (Some r) st) = Some r"
  by (simp_all add: b_root_def b_get_def set_root_def b_put_def)

definition under :: "string option \<Rightarrow> bnode option \<Rightarrow> bnode option" where
  "under q n = map_option (\<lambda>n. n\<lparr>bn_parent := q\<rparr>) n"

lemma set_parents:
  "(\<And>ch. ch \<in> set chs \<Longrightarrow> nd V st ch \<noteq> None) \<Longrightarrow>
   \<exists>st'. rfoldl (set_parent V q) st chs = Inr st' \<and> keeps st st' \<and>
     (\<forall>i. nd V st' i = (if i \<in> set chs then under q (nd V st i) else nd V st i))"
proof (induction chs arbitrary: st)
  case (Cons ch chs)
  then obtain n where n: "nd V st ch = Some n" by fastforce
  note [simp] = nd_id [OF n]
  let ?st = "put_node (n\<lparr>bn_parent := q\<rparr>) st"
  have "nd V ?st c \<noteq> None" if "c \<in> set chs" for c using Cons.prems [of c] that by simp
  from Cons.IH [OF this] obtain st' where st': "rfoldl (set_parent V q) ?st chs = Inr st'" "keeps ?st st'"
    "\<forall>i. nd V st' i = (if i \<in> set chs then under q (nd V ?st i) else nd V ?st i)" by blast
  have "keeps st st'" by (rule keeps_trans [OF _ st'(2)]) simp
  moreover have "set_parent V q st ch = Inr ?st" by (simp add: set_parent_def node_at_nd [OF n])
  moreover have "nd V st' i = (if i \<in> set (ch # chs) then under q (nd V st i) else nd V st i)" for i
    using st'(3) n by (auto simp: under_def)
  ultimately show ?case using st'(1) by auto
qed simp

lemma shp_under: "shp (\<lambda>i. if i \<in> S then under q (f i) else f i) = (\<lambda>i. if i \<in> S then with_parent q (shp f i) else shp f i)"
  by (rule ext) (auto simp: shp_def under_def with_parent_def option.map_comp o_def intro!: option.map_cong)

lemma lnk_under: "lnk (\<lambda>i. if i \<in> S then under q (f i) else f i) = lnk f"
  by (rule ext) (auto simp: lnk_def under_def option.map_comp o_def intro!: option.map_cong)

section \<open>The store stands for a tree\<close>

text \<open>The ids of the nodes are numbers the counter has passed.\<close>

definition numbered :: "bview \<Rightarrow> stats \<Rightarrow> string set \<Rightarrow> bool" where
  "numbered V st S \<longleftrightarrow>
     map_of st ''count'' \<noteq> Some SNull \<and>
     (\<exists>m \<ge> 0. b_get V ''count'' st = Some (SCount m) \<and> (\<forall>i \<in> S. \<exists>k. 0 \<le> k \<and> k \<le> m \<and> i = int_to_string k))"

definition root_is :: "bview \<Rightarrow> stats \<Rightarrow> string \<Rightarrow> bool" where
  "root_is V st r \<longleftrightarrow> map_of st ''root'' \<noteq> Some SNull \<and> b_root V st = Some r"

lemma root_is_simps [simp]:
  "root_is V (set_root (Some r) st) r' \<longleftrightarrow> r' = r" "root_is V (b_put ''count'' s st) r \<longleftrightarrow> root_is V st r"
  by (auto simp: root_is_def set_root_def b_put_def b_root_def b_get_def)

lemma numbered_set_root [simp]: "numbered V (set_root r st) S = numbered V st S"
  by (simp add: numbered_def set_root_def b_put_def b_get_def)

lemma keeps_root_is: "keeps st st' \<Longrightarrow> root_is V st' r = root_is V st r"
  using keeps_root [of st st' V] by (simp add: root_is_def keeps_def)

lemma keeps_numbered: "keeps st st' \<Longrightarrow> numbered V st' S = numbered V st S"
  using keeps_get [of st st' "''count''" V] by (simp add: numbered_def keeps_def)

definition stands :: "bview \<Rightarrow> stats \<Rightarrow> nat \<Rightarrow> bt \<Rightarrow> bool" where
  "stands V st h t \<longleftrightarrow>
     tall h t \<and> distinct (ids t) \<and> numbered V st (set (ids t)) \<and> root_is V st (rid t) \<and>
     rep (shp (nd V st)) None t \<and> (\<forall>d \<le> h. linked (lnk (nd V st)) None (level d t))"

lemma number_not_reserved [simp]: "0 \<le> k \<Longrightarrow> \<not> reserved (int_to_string k)"
proof
  assume k: "0 \<le> k" "reserved (int_to_string k)"
  then have "CHR ''r'' \<in> set (int_to_string k) \<or> CHR ''c'' \<in> set (int_to_string k) \<or> CHR ''d'' \<in> set (int_to_string k)"
    by (auto simp: reserved_def starts_with_iff)
  moreover have "\<not> is_digit CHR ''r''" "\<not> is_digit CHR ''c''" "\<not> is_digit CHR ''d''" by (simp_all add: is_digit_def)
  ultimately show False using nat_to_string_no_char [of _ "nat k"] k(1) by (auto simp: int_to_string_def)
qed

lemma new_id_fresh:
  assumes "numbered V st S"
  shows "\<exists>j st1 m. new_id V st = (j, st1) \<and> st1 = b_put ''count'' (SCount m) st \<and> j \<notin> S \<and> \<not> reserved j \<and>
     (\<forall>st2. keeps st1 st2 \<longrightarrow> numbered V st2 (insert j S))"
proof -
  obtain m where m: "0 \<le> m" "b_get V ''count'' st = Some (SCount m)" "\<forall>i \<in> S. \<exists>k. 0 \<le> k \<and> k \<le> m \<and> i = int_to_string k"
    using assms by (auto simp: numbered_def)
  let ?st = "b_put ''count'' (SCount (m + 1)) st"
  have new: "new_id V st = (int_to_string (m + 1), ?st)" using m(2) by (simp add: new_id_def Let_def)
  have "int_to_string (m + 1) \<notin> S" using m(3) by force
  moreover have "numbered V st2 (insert (int_to_string (m + 1)) S)" if "keeps ?st st2" for st2
  proof -
    have "b_get V ''count'' st2 = Some (SCount (m + 1))"
      using keeps_get [OF that, of "''count''"] by (simp add: b_put_def b_get_oput)
    moreover have "\<exists>k. 0 \<le> k \<and> k \<le> m + 1 \<and> i = int_to_string k" if "i \<in> insert (int_to_string (m + 1)) S" for i
      using that m(1,3) by (cases "i = int_to_string (m + 1)") (force intro: exI [of _ "m + 1"])+
    moreover have "map_of st2 ''count'' \<noteq> Some SNull" using that by (simp add: keeps_def b_put_def)
    ultimately show ?thesis using m(1) unfolding numbered_def by (intro conjI exI [of _ "m + 1"]) simp_all
  qed
  ultimately show ?thesis using new m(1) by (intro exI) auto
qed

lemma stands_root: "stands V st h t \<Longrightarrow> start_key V None st = rid t"
  by (simp add: stands_def start_key_def root_is_def)

lemma rep_ids: "rep (shp f) p t \<Longrightarrow> i \<in> set (ids t) \<Longrightarrow> f i \<noteq> None"
proof (induction t arbitrary: p)
  case (Br j ss ts)
  show ?case
  proof (cases "i = j")
    case False
    with Br.prems obtain t where "t \<in> set ts" "i \<in> set (ids t)" by auto
    with Br.IH [of t] Br.prems(1) show ?thesis by auto
  qed (use Br.prems in \<open>auto simp: shp_def\<close>)
qed (auto simp: shp_def)

lemma stands_node: "stands V st h t \<Longrightarrow> i \<in> set (ids t) \<Longrightarrow> \<exists>n. nd V st i = Some n"
  using rep_ids [of "nd V st" None t i] by (auto simp: stands_def)

lemma level_ids: "set (level d t) \<subseteq> set (ids t)"
  by (induction d t rule: level.induct) auto

lemma distinct_concat_sub:
  assumes "distinct (concat (map g ts))" "\<And>t. t \<in> set ts \<Longrightarrow> set (f t) \<subseteq> set (g t)"
    "\<And>t. t \<in> set ts \<Longrightarrow> distinct (f t)"
  shows "distinct (concat (map f ts))"
  using assms
proof (induction ts)
  case (Cons t ts)
  have "distinct (concat (map f ts))" using Cons by simp
  moreover have "set (f t) \<subseteq> set (g t)" "set (concat (map f ts)) \<subseteq> set (concat (map g ts))"
    using Cons.prems(2) by (simp, fastforce)
  moreover have "set (g t) \<inter> set (concat (map g ts)) = {}" using Cons.prems(1) by simp
  ultimately show ?case using Cons.prems(3) [of t] unfolding list.map(2) concat.simps(2) distinct_append by auto
qed simp

lemma distinct_concat_each: "distinct (concat (map g ts)) \<Longrightarrow> t \<in> set ts \<Longrightarrow> distinct (g t)"
  by (induction ts) auto

lemma distinct_level: "distinct (ids t) \<Longrightarrow> distinct (level d t)"
proof (induction d t rule: level.induct)
  case (3 d i ss ts)
  have D: "distinct (concat (map ids ts))" using "3.prems" by simp
  have "distinct (level d t)" if "t \<in> set ts" for t
    using "3.IH" [OF that distinct_concat_each [OF D that]] .
  then have "distinct (concat (map (level d) ts))" by (rule distinct_concat_sub [OF D level_ids])
  then show ?case by simp
qed simp_all

lemma level_deep: "tall h t \<Longrightarrow> h < d \<Longrightarrow> level d t = []"
proof (induction d t arbitrary: h rule: level.induct)
  case (3 d i ss ts)
  then obtain h' where h: "h = Suc h'" by (cases h) auto
  have "level d t = []" if "t \<in> set ts" for t using "3.IH" [OF that, of h'] "3.prems" that by (simp add: h)
  then show ?case by simp
qed auto

lemma concat_disjoint:
  assumes "distinct (concat (map g ts))" "\<And>t. t \<in> set ts \<Longrightarrow> set (e t) \<union> set (f t) \<subseteq> set (g t)"
    "\<And>t. t \<in> set ts \<Longrightarrow> set (e t) \<inter> set (f t) = {}"
  shows "set (concat (map e ts)) \<inter> set (concat (map f ts)) = {}"
  using assms
proof (induction ts)
  case (Cons t ts)
  have IH: "set (concat (map e ts)) \<inter> set (concat (map f ts)) = {}" using Cons by simp
  have "set (concat (map e ts)) \<subseteq> set (concat (map g ts))" "set (concat (map f ts)) \<subseteq> set (concat (map g ts))"
    using Cons.prems(2) by fastforce+
  moreover have "set (e t) \<subseteq> set (g t)" "set (f t) \<subseteq> set (g t)" using Cons.prems(2) [of t] by simp_all
  moreover have "set (g t) \<inter> set (concat (map g ts)) = {}" using Cons.prems(1) by simp
  moreover have "set (e t) \<inter> set (f t) = {}" using Cons.prems(3) by simp
  ultimately show ?case using IH unfolding list.map(2) concat.simps(2) set_append by blast
qed simp

lemma level_disjoint: "distinct (ids t) \<Longrightarrow> d \<noteq> e \<Longrightarrow> set (level d t) \<inter> set (level e t) = {}"
proof (induction t arbitrary: d e)
  case (Lf i ks)
  then show ?case by (cases d; cases e) auto
next
  case (Br i ss ts)
  have D: "distinct (concat (map ids ts))" and i: "i \<notin> set (concat (map ids ts))" using Br.prems by simp_all
  have sub: "set (concat (map (level d) ts)) \<subseteq> set (concat (map ids ts))" for d using level_ids by fastforce
  show ?case
  proof (cases d)
    case 0
    with Br.prems(2) obtain e' where "e = Suc e'" by (cases e) auto
    with 0 sub [of e'] i show ?thesis by auto
  next
    case d: (Suc d')
    show ?thesis
    proof (cases e)
      case 0
      with d sub [of d'] i show ?thesis by auto
    next
      case (Suc e')
      with Br.prems(2) d have "d' \<noteq> e'" by simp
      then have "set (level d' t) \<inter> set (level e' t) = {}" if "t \<in> set ts" for t
        using Br.IH [OF that distinct_concat_each [OF D that]] by blast
      then have "set (concat (map (level d') ts)) \<inter> set (concat (map (level e') ts)) = {}"
        by (intro concat_disjoint [OF D]) (use level_ids in auto)
      then show ?thesis by (simp add: d Suc)
    qed
  qed
qed

text \<open>The node at a position.\<close>

fun tshape :: "string option \<Rightarrow> bt \<Rightarrow> bool \<times> jv list \<times> string list \<times> string option" where
  "tshape p (Lf i ks) = (True, map JStr ks, [], p)"
| "tshape p (Br i ss ts) = (False, ss, map rid ts, p)"

lemma rep_root: "rep C p t \<Longrightarrow> C (rid t) = Some (tshape p t)"
  by (cases t) simp_all

lemma stands_at:
  assumes "stands V st h (plug fs t)"
  shows "shp (nd V st) (rid t) = Some (tshape (up fs) t)"
    and "length fs \<le> h \<Longrightarrow> lnk (nd V st) (rid t) = Some (last_of None (left_level 0 fs), first_of (right_level 0 fs))"
proof -
  show "shp (nd V st) (rid t) = Some (tshape (up fs) t)"
    using assms rep_root by (auto simp: stands_def rep_plug)
  assume "length fs \<le> h"
  then have "linked (lnk (nd V st)) None (level (length fs + 0) (plug fs t))" using assms by (simp add: stands_def)
  then show "lnk (nd V st) (rid t) = Some (last_of None (left_level 0 fs), first_of (right_level 0 fs))"
    unfolding level_plug by (simp add: linked_at)
qed

lemma tall_frames_plug: "tall h (plug fs t) \<Longrightarrow> list_all good_frame fs \<Longrightarrow> length fs \<le> h \<and> tall (h - length fs) t \<and> tall_frames (h - length fs) fs"
proof (induction fs t arbitrary: h rule: plug.induct)
  case (2 i sl ls sr rs fs t)
  from "2.IH" [of h] "2.prems" have *: "length fs \<le> h" "tall (h - length fs) (Br i (sl @ sr) (ls @ t # rs))" "tall_frames (h - length fs) fs"
    and len: "length sl = length ls" "length sr = length rs" using "2.prems"
    by (simp_all add: good_frame_def)
  then obtain h' where h: "h - length fs = Suc h'" by (cases "h - length fs") auto
  then have "h - length ((i, sl, ls, sr, rs) # fs) = h'" "length ((i, sl, ls, sr, rs) # fs) \<le> h" by auto
  with * h len show ?case by auto
qed simp

lemma tall_good: "tall_frames h fs \<Longrightarrow> list_all good_frame fs"
  by (induction h fs rule: tall_frames.induct) (auto simp: good_frame_def)

section \<open>Search\<close>

lemma bound_wrap: "\<not> is_nil s \<Longrightarrow> wrap s = Inr (bound_item s)"
  by (simp add: wrap_def bound_item_def jprop_def Let_def)

lemma child_pos_spec:
  assumes "bc_sort c = SFields fl" "typed_item ty fl x"
  shows "(\<forall>s \<in> set ss. e_ok ty fl D (ESep s)) \<Longrightarrow>
    \<exists>sl sr. ss = sl @ sr \<and> child_pos c (Some x) False ss = Inr (length sl) \<and>
      (\<forall>s \<in> set sl. e_lt fl D (ESep s) x) \<and> (sr \<noteq> [] \<longrightarrow> comp_fields fl x (bound_item (hd sr)) False = 1)"
proof (induction ss)
  case (Cons s ss)
  have s: "\<not> is_nil s" "typed_item ty fl (bound_item s)" using Cons.prems by (simp_all add: e_ok_def)
  show ?case
  proof (cases "comp_fields fl x (bound_item s) False = 1")
    case True
    then show ?thesis using s assms by (intro exI [of _ "[]"] exI [of _ "s # ss"]) (simp add: bound_wrap)
  next
    case False
    then have "0 \<le> comp_fields fl (bound_item s) x False"
      using comp_order.cmp_flip [of x ty fl "bound_item s" False] comp_order.cmp_range [of x ty fl "bound_item s" False]
        assms(2) s(2) by auto
    moreover obtain sl sr where "ss = sl @ sr" "child_pos c (Some x) False ss = Inr (length sl)"
      "\<forall>s \<in> set sl. e_lt fl D (ESep s) x" "sr \<noteq> [] \<longrightarrow> comp_fields fl x (bound_item (hd sr)) False = 1"
      using Cons by auto
    ultimately show ?thesis using False s assms
      by (intro exI [of _ "s # sl"] exI [of _ sr]) (simp add: bound_wrap)
  qed
qed simp

text \<open>Everything before a separator that is not after \<open>x\<close> comes before \<open>x\<close>; dually on the right.\<close>

lemma before_seps_last: "length xs = length sl \<Longrightarrow> sl \<noteq> [] \<Longrightarrow> \<exists>es. before_seps xs sl = es @ [ESep (last sl)]"
proof (induction xs sl rule: list_induct2)
  case (Cons x xs s sl)
  then show ?case by (cases "sl = []") auto
qed simp

lemma in_order_left:
  assumes "in_order ty fl D (es @ [ESep s])" "e_lt fl D (ESep s) x" "typed_item ty fl x"
  shows "\<forall>e \<in> set (es @ [ESep s]). e_lt fl D e x"
proof
  fix e assume e: "e \<in> set (es @ [ESep s])"
  show "e_lt fl D e x"
  proof (cases "e = ESep s")
    case False
    then have "e \<in> set es" using e by auto
    then have "e_ok ty fl D e" "e_lt fl D e (bound_item s)" "typed_item ty fl (bound_item s)"
      using assms(1) in_order_ok [OF assms(1), of "ESep s"] in_order_ok [OF assms(1), of e]
      by (auto simp: in_order_simps dest: e_ok_typed)
    then show ?thesis using e_lt_trans [of ty fl D e "bound_item s" x] assms(2,3) by simp
  qed (use assms(2) in simp)
qed

lemma in_order_right:
  assumes "in_order ty fl D (ESep s # es)" "comp_fields fl x (bound_item s) False = 1" "typed_item ty fl x"
  shows "\<forall>e \<in> set (ESep s # es). comp_fields fl x (e_item D e) False = 1"
proof
  fix e assume e: "e \<in> set (ESep s # es)"
  have s: "typed_item ty fl (bound_item s)" using in_order_ok [OF assms(1), of "ESep s"] by (auto dest: e_ok_typed)
  show "comp_fields fl x (e_item D e) False = 1"
  proof (cases "e = ESep s")
    case False
    then have "e \<in> set es" using e by auto
    then have "typed_item ty fl (e_item D e)" "0 \<le> comp_fields fl (bound_item s) (e_item D e) False"
      using assms(1) by (auto simp: in_order_simps dest: in_order_ok)
    then show ?thesis using comp_order.cmp_trans_lt [of x ty fl "bound_item s" "e_item D e" False] assms(2,3) s by simp
  qed (use assms(2) in simp)
qed

lemma seps_in: "length ts = Suc (length ss) \<Longrightarrow> s \<in> set ss \<Longrightarrow> ESep s \<in> set (weave ts ss)"
proof -
  assume l: "length ts = Suc (length ss)" and "s \<in> set ss"
  then obtain sl sr where ss: "ss = sl @ s # sr" by (auto simp: in_set_conv_decomp)
  define n where "n = length sl"
  have n: "Suc n < length ts" using l by (simp add: ss n_def)
  then have ts: "ts = take n ts @ ts ! n # ts ! Suc n # drop (Suc (Suc n)) ts"
    by (metis Cons_nth_drop_Suc Suc_lessD append_take_drop_id)
  have "length (take n ts) = length sl" using n by (simp add: n_def)
  from weave_mid [OF this, of "ts ! n" "ts ! Suc n # drop (Suc (Suc n)) ts" "s # sr"]
  show ?thesis unfolding ts [symmetric] by (simp add: ss)
qed

text \<open>The search ends at a leaf between everything before \<open>x\<close> and everything after it.\<close>

lemma search_leaf:
  assumes "bc_sort c = SFields fl" "typed_item ty fl x"
  shows "rep (shp (nd V st)) p t \<Longrightarrow> tall h t \<Longrightarrow> in_order ty fl D (flat t) \<Longrightarrow> h < n \<Longrightarrow>
    \<exists>fs i ks node. t = plug fs (Lf i ks) \<and> tall_frames 0 fs \<and> length fs = h \<and>
      search n V c (Some x) (Some (rid t)) st False = Inr (Some node) \<and> nd V st i = Some node \<and>
      (\<forall>e \<in> set (left_of fs). e_lt fl D e x) \<and> (\<forall>e \<in> set (right_of fs). comp_fields fl x (e_item D e) False = 1)"
proof (induction h arbitrary: t n p)
  case 0
  then obtain i ks where t: "t = Lf i ks" by (cases t) auto
  obtain n' where n: "n = Suc n'" using 0 by (cases n) auto
  obtain node where node: "nd V st i = Some node" "bn_leaf node" using 0(1) by (auto simp: t shp_def)
  then have "search n V c (Some x) (Some (rid t)) st False = Inr (Some node)"
    using nd_id [OF node(1)] by (simp add: n t start_key_def as_node_def)
  then show ?case using node(1) t by (intro exI [of _ "[]"] exI [of _ i] exI [of _ ks] exI [of _ node]) simp
next
  case (Suc h)
  then obtain i ss ts where t: "t = Br i ss ts" by (cases t) auto
  obtain n' where n: "n = Suc n'" "h < n'" using Suc.prems(4) by (cases n) auto
  have len: "length ts = Suc (length ss)" "\<forall>u \<in> set ts. tall h u" using Suc.prems(2) by (simp_all add: t)
  obtain node where node: "nd V st i = Some node" "\<not> bn_leaf node" "bn_vals node = ss" "bn_children node = map rid ts"
    using Suc.prems(1) by (auto simp: t shp_def)
  have "\<forall>s \<in> set ss. e_ok ty fl D (ESep s)"
    using in_order_ok [OF Suc.prems(3)] seps_in [of "map flat ts" ss] len(1) by (simp add: t)
  from child_pos_spec [OF assms this] obtain sl sr where ss: "ss = sl @ sr" "child_pos c (Some x) False ss = Inr (length sl)"
    "\<forall>s \<in> set sl. e_lt fl D (ESep s) x" "sr \<noteq> [] \<longrightarrow> comp_fields fl x (bound_item (hd sr)) False = 1" by blast
  let ?m = "length sl"
  define ls u rs where "ls = take ?m ts" and "u = ts ! ?m" and "rs = drop (Suc ?m) ts"
  have ts: "ts = ls @ u # rs" "length ls = length sl" "length rs = length sr"
    using len(1) by (simp_all add: ls_def u_def rs_def ss(1) id_take_nth_drop)
  have F: "flat t = before_seps (map flat ls) sl @ flat u @ after_seps sr (map flat rs)"
    using ts(2) by (simp add: t ts(1) ss(1) weave_mid)
  have ord: "in_order ty fl D (before_seps (map flat ls) sl)" "in_order ty fl D (flat u)" "in_order ty fl D (after_seps sr (map flat rs))"
    using Suc.prems(3) unfolding F by (simp_all add: in_order_simps)
  have "rep (shp (nd V st)) (Some i) u" "tall h u" using Suc.prems(1) len(2) by (simp_all add: t ts(1))
  from Suc.IH [OF this ord(2) n(2)] obtain fs j ks leaf where IH: "u = plug fs (Lf j ks)" "tall_frames 0 fs" "length fs = h"
      "search n' V c (Some x) (Some (rid u)) st False = Inr (Some leaf)" "nd V st j = Some leaf"
      "\<forall>e \<in> set (left_of fs). e_lt fl D e x" "\<forall>e \<in> set (right_of fs). comp_fields fl x (e_item D e) False = 1"
    by (elim exE conjE) (rule that)
  let ?f = "(i, sl, ls, sr, rs)"
  have left: "\<forall>e \<in> set (before_seps (map flat ls) sl). e_lt fl D e x"
  proof (cases "sl = []")
    case False
    then obtain es where es: "before_seps (map flat ls) sl = es @ [ESep (last sl)]"
      using before_seps_last [of "map flat ls" sl] ts(2) by auto
    have "e_lt fl D (ESep (last sl)) x" using ss(3) False by simp
    from in_order_left [OF ord(1) [unfolded es] this assms(2)] show ?thesis by (simp only: es)
  qed simp
  have right: "\<forall>e \<in> set (after_seps sr (map flat rs)). comp_fields fl x (e_item D e) False = 1"
  proof (cases sr)
    case (Cons s sr')
    then obtain r rs' where "rs = r # rs'" using ts(3) by (cases rs) auto
    then have es: "after_seps sr (map flat rs) = ESep s # flat r @ after_seps sr' (map flat rs')" by (simp add: Cons)
    have "comp_fields fl x (bound_item s) False = 1" using ss(4) by (simp add: Cons)
    from in_order_right [OF ord(3) [unfolded es] this assms(2)] show ?thesis by (simp only: es)
  qed simp
  have "t = plug (fs @ [?f]) (Lf j ks)" using IH(1) ts(1) ss(1) by (simp add: plug_append t)
  moreover have "tall_frames 0 (fs @ [?f])"
  proof -
    have "tall_frames k gs \<Longrightarrow> tall_frames (k + length gs) [f] \<Longrightarrow> tall_frames k (gs @ [f])" for k gs f
      by (induction k gs rule: tall_frames.induct) auto
    then show ?thesis using IH(2,3) ts len(2) by simp
  qed
  moreover have "search n V c (Some x) (Some (rid t)) st False = Inr (Some leaf)"
  proof -
    have "nth_opt (map rid ts) ?m = Some (rid u)" using ts by (simp add: nth_opt_def nth_append)
    then show ?thesis using nd_id [OF node(1)] node IH(4) ss(2) by (simp add: n t start_key_def as_node_def)
  qed
  moreover have "length (fs @ [?f]) = Suc h" using IH(3) by simp
  ultimately show ?case using IH(5-7) left right
    by (intro exI [of _ "fs @ [?f]"] exI [of _ j] exI [of _ ks] exI [of _ leaf]) (auto simp: left_of_append right_of_append)
qed

lemma search_root: "b_root V st = Some r \<Longrightarrow> search n V c x None st a = search n V c x (Some r) st a"
  by (cases n) (simp_all add: start_key_def)

section \<open>Changing the entries of a node\<close>

fun entries :: "bt \<Rightarrow> jv list" where
  "entries (Lf i ks) = map JStr ks"
| "entries (Br i ss ts) = ss"

fun same_kids :: "bt \<Rightarrow> bt \<Rightarrow> bool" where
  "same_kids (Lf i ks) (Lf i' ks') \<longleftrightarrow> i = i'"
| "same_kids (Br i ss ts) (Br i' ss' ts') \<longleftrightarrow> i = i' \<and> ts = ts' \<and> length ss = length ss'"
| "same_kids t t' \<longleftrightarrow> False"

lemma same_kids_same:
  assumes "same_kids t t'"
  shows "rid t' = rid t" "ids t' = ids t" "level d t' = level d t" "tall h t' = tall h t"
proof -
  show "rid t' = rid t" "ids t' = ids t" using assms by (cases t; cases t'; simp)+
  show "level d t' = level d t" using assms by (cases t; cases t'; cases d) auto
  show "tall h t' = tall h t" using assms by (cases t; cases t'; cases h) auto
qed

lemma stands_vals:
  assumes "stands V st h (plug fs t)" "list_all good_frame fs" "nd V st (rid t) = Some node" "same_kids t t'"
  shows "stands V (put_node (node\<lparr>bn_vals := entries t'\<rparr>) st) h (plug fs t')"
proof -
  note sk = same_kids_same [OF assms(4)] and id = nd_id [OF assms(3)]
  let ?n = "node\<lparr>bn_vals := entries t'\<rparr>"
  let ?f' = "(nd V st)(rid t \<mapsto> ?n)"
  have f': "nd V (put_node ?n st) = ?f'" using id by simp
  have s: "tall h (plug fs t)" "distinct (ids (plug fs t))" "numbered V st (set (ids (plug fs t)))" "root_is V st (rid (plug fs t))"
    "rep (shp (nd V st)) (up fs) t" "rep_above (shp (nd V st)) fs (rid t)" "\<And>d. d \<le> h \<Longrightarrow> linked (lnk (nd V st)) None (level d (plug fs t))"
    using assms(1) by (simp_all add: stands_def rep_plug)
  have D: "distinct (ids t)" "set (ids t) \<inter> set (cids fs) = {}" using s(2) unfolding distinct_plug by simp_all
  have "lnk ?f' = lnk (nd V st)" using assms(3) by (auto simp: lnk_def)
  have lv: "level d (plug fs t') = level d (plug fs t)" for d
  proof (cases "d < length fs")
    case False
    then have "d = length fs + (d - length fs)" by simp
    then show ?thesis using level_plug [of fs "d - length fs"] sk(3) by metis
  qed (rule level_above)
  have tall: "tall h (plug fs t')"
    using tall_frames_plug [OF s(1) assms(2)] tall_plug [of "h - length fs" fs t'] sk(4) by simp
  have ms: "mset (ids (plug fs t')) = mset (ids (plug fs t))" by (simp add: mset_ids_plug sk(2))
  have root: "rid (plug fs t') = rid (plug fs t)" using lv [of 0] by simp
  have shp: "shp ?f' x = (if x = rid t then Some (tshape (up fs) t') else shp (nd V st) x)" for x
  proof -
    have "shp (nd V st) (rid t) = Some (tshape (up fs) t)" by (rule rep_root [OF s(5)])
    then show ?thesis using assms(3,4) by (cases t; cases t') (auto simp: shp_def)
  qed
  have "rep (shp ?f') (up fs) t'"
  proof (cases t')
    case (Lf i ks)
    then show ?thesis using shp [of i] sk(1) by simp
  next
    case (Br i ss' ts)
    then obtain ss where t: "t = Br i ss ts" using assms(4) by (cases t) auto
    have "rep (shp ?f') (Some i) u" if u: "u \<in> set ts" for u
    proof -
      have "shp ?f' x = shp (nd V st) x" if "x \<in> set (ids u)" for x using D(1) u that shp [of x] by (auto simp: t)
      then have "rep (shp ?f') (Some i) u = rep (shp (nd V st)) (Some i) u" by (rule rep_cong)
      then show ?thesis using s(5) u by (simp add: t)
    qed
    then show ?thesis using shp [of i] sk(1) by (simp add: Br)
  qed
  moreover have "rep_above (shp ?f') fs (rid t) = rep_above (shp (nd V st)) fs (rid t)"
  proof (rule rep_above_cong)
    fix x assume "x \<in> set (cids fs)"
    then have "x \<noteq> rid t" using D(2) rid_in_ids [of t] by blast
    then show "shp ?f' x = shp (nd V st) x" using shp [of x] by simp
  qed
  moreover have "numbered V (put_node ?n st) (set (ids (plug fs t)))" "root_is V (put_node ?n st) (rid (plug fs t))"
    using s(3,4) id keeps_numbered [of st "put_node ?n st" V] keeps_root_is [of st "put_node ?n st" V] by simp_all
  ultimately show ?thesis
    using s tall root ms lv \<open>lnk ?f' = lnk (nd V st)\<close> mset_eq_imp_distinct_iff [OF ms] mset_eq_setD [OF ms]
    unfolding stands_def rep_plug f' by (simp add: sk(1))
qed

section \<open>Sizes\<close>

text \<open>Below the root every node is between the bounds of the order; the root has at least one entry.\<close>

fun kids :: "bt \<Rightarrow> bt list" where
  "kids (Lf i ks) = []"
| "kids (Br i ss ts) = ts"

definition fits :: "nat \<Rightarrow> nat \<Rightarrow> bt \<Rightarrow> bool" where
  "fits lo hi t \<longleftrightarrow> 1 \<le> width t \<and> width t \<le> hi \<and> (\<forall>u \<in> set (kids t). sized lo hi u)"

fun frames_fit :: "nat \<Rightarrow> nat \<Rightarrow> frame list \<Rightarrow> bool" where
  "frames_fit lo hi [] \<longleftrightarrow> True"
| "frames_fit lo hi ((i, sl, ls, sr, rs) # fs) \<longleftrightarrow>
     (if fs = [] then 1 else lo) \<le> length (sl @ sr) \<and> length (sl @ sr) \<le> hi \<and>
     (\<forall>t \<in> set ls \<union> set rs. sized lo hi t) \<and> frames_fit lo hi fs"

lemma sized_kids: "sized lo hi t \<longleftrightarrow> lo \<le> width t \<and> width t \<le> hi \<and> (\<forall>u \<in> set (kids t). sized lo hi u)"
  by (cases t) simp_all

definition fits_at :: "nat \<Rightarrow> nat \<Rightarrow> frame list \<Rightarrow> bt \<Rightarrow> bool" where
  "fits_at lo hi fs t \<longleftrightarrow> frames_fit lo hi fs \<and> (if fs = [] then fits lo hi t else sized lo hi t)"

lemma fits_plug: "fits lo hi (plug fs t) \<longleftrightarrow> fits_at lo hi fs t"
proof (induction fs t rule: plug.induct)
  case (2 i sl ls sr rs fs t)
  then show ?case by (auto simp: fits_at_def fits_def)
qed (simp add: fits_at_def)

lemma sized_mono: "sized lo hi t \<Longrightarrow> lo' \<le> lo \<Longrightarrow> sized lo' hi t"
  by (induction t) auto

section \<open>What a stored tree contains\<close>

text \<open>The store after \<open>commit\<close>. The documents are not the tree's.\<close>

definition commit_view :: "bview \<Rightarrow> stats \<Rightarrow> bview" where
  "commit_view V st = V\<lparr>bv_get := \<lambda>k. case map_of (bpt_commit (Some st)) k of
     None \<Rightarrow> bv_get V k | Some SNull \<Rightarrow> None | Some SDel \<Rightarrow> None | Some s \<Rightarrow> Some s\<rparr>"

lemma commit_get [simp]: "map_of (bpt_commit (Some st)) k = (if starts_with ''data/'' k then None else map_of st k)"
  by (simp add: bpt_commit_def) (induction st; auto)

definition doc :: "bview \<Rightarrow> string \<Rightarrow> item" where
  "doc V k = b_data V (JStr k) []"

definition tree_ok :: "bview \<Rightarrow> stats \<Rightarrow> bcfg \<Rightarrow> (string \<Rightarrow> sort_type) \<Rightarrow> (string \<times> string) list \<Rightarrow> nat \<Rightarrow> bt \<Rightarrow> bool" where
  "tree_ok V st c ty fl h T \<longleftrightarrow> stands V st h T \<and> fits (min_vals c) (max_vals c) T \<and> in_order ty fl (doc V) (flat T)"

definition empty_tree :: "bview \<Rightarrow> bool" where
  "empty_tree V \<longleftrightarrow> bv_get V ''root'' = None \<and> bv_get V ''0'' = None \<and> (bv_get V ''count'' = None \<or> numbered V [] {})"

text \<open>A tree without keys has no node; otherwise the nodes form a tree of the right shape with the keys in order.\<close>

definition contents :: "bview \<Rightarrow> bcfg \<Rightarrow> (string \<Rightarrow> sort_type) \<Rightarrow> (string \<times> string) list \<Rightarrow> string list \<Rightarrow> bool" where
  "contents V c ty fl ks \<longleftrightarrow> ks = [] \<and> empty_tree V \<or> (\<exists>h T. tree_ok V [] c ty fl h T \<and> tkeys T = ks)"

lemma nd_commit: "nd (commit_view V st) [] = nd V st"
  by (rule ext) (auto simp: nd_def commit_view_def b_get_def reserved_def starts_with_def split: option.splits sv.splits)

lemma doc_commit [simp]: "doc (commit_view V st) = doc V"
  by (rule ext) (simp add: doc_def b_data_def commit_view_def)

lemma numbered_commit: "numbered V st S \<Longrightarrow> numbered (commit_view V st) [] S"
  by (auto simp: numbered_def commit_view_def b_get_def reserved_def starts_with_def split: option.splits sv.splits)

lemma root_is_commit: "root_is V st r \<Longrightarrow> root_is (commit_view V st) [] r"
  by (auto simp: root_is_def b_root_def commit_view_def b_get_def reserved_def starts_with_def split: option.splits sv.splits)

lemma stands_commit: "stands V st h T \<Longrightarrow> stands (commit_view V st) [] h T"
  by (simp add: stands_def nd_commit numbered_commit root_is_commit)

lemma tree_ok_commit: "tree_ok V st c ty fl h T \<Longrightarrow> tree_ok (commit_view V st) [] c ty fl h T"
  by (simp add: tree_ok_def stands_commit)

lemma stands_data [simp]:
  "stands V (put_data k v st) h T = stands V st h T" "stands V (del_data k st) h T = stands V st h T"
  by (simp_all add: stands_def root_is_def numbered_def b_root_def b_get_def put_data_def del_data_def data_key_def nd_oput_reserved
      reserved_def starts_with_def)

text \<open>The height is below the number of keys, so that this number is enough fuel.\<close>

lemma sized_height: "tall h t \<Longrightarrow> sized lo hi t \<Longrightarrow> 1 \<le> lo \<Longrightarrow> h < length (tkeys t)"
proof (induction h t rule: tall.induct)
  case (3 h i ss ts)
  then obtain t u ts' where ts: "ts = t # u # ts'" by (cases ts; cases "tl ts") auto
  have "h < length (tkeys t)" "h < length (tkeys u)" using 3 by (simp_all add: ts)
  then show ?case by (simp add: ts)
qed auto

lemma fits_height:
  assumes "tall h t" "fits lo hi t" "1 \<le> lo"
  shows "h < length (tkeys t)"
proof (cases t)
  case (Br i ss ts)
  then have "sized 1 hi t" using assms by (auto simp: fits_def intro: sized_mono)
  then show ?thesis using sized_height assms(1) by blast
qed (use assms in \<open>auto simp: fits_def Suc_le_eq\<close>)

section \<open>Leaves\<close>

fun leaves :: "bt \<Rightarrow> (string \<times> string list) list" where
  "leaves (Lf i ks) = [(i, ks)]"
| "leaves (Br i ss ts) = concat (map leaves ts)"

lemma tkeys_leaves: "tkeys t = concat (map snd (leaves t))"
proof (induction t)
  case (Br i ss ts)
  have "(\<And>t. t \<in> set ts \<Longrightarrow> tkeys t = concat (map snd (leaves t))) \<Longrightarrow>
      concat (map tkeys ts) = concat (map snd (concat (map leaves ts)))" for ts
    by (induction ts) auto
  with Br show ?case by simp
qed simp

lemma leaves_plug: "leaves t = leaves u \<Longrightarrow> leaves (plug fs t) = leaves (plug fs u)"
proof (induction fs arbitrary: t u)
  case (Cons f fs)
  obtain i sl ls sr rs where f: "f = (i, sl, ls, sr, rs)" by (cases f)
  show ?case unfolding f plug.simps by (rule Cons.IH) (simp add: Cons.prems)
qed simp

lemma leaves_level: "tall h t \<Longrightarrow> level h t = map fst (leaves t)"
proof (induction h t rule: tall.induct)
  case (3 h i ss ts)
  have "(\<And>t. t \<in> set ts \<Longrightarrow> level h t = map fst (leaves t)) \<Longrightarrow>
      concat (map (level h) ts) = map fst (concat (map leaves ts))" for ts
    by (induction ts) auto
  with 3 show ?case by simp
qed simp_all

lemma rep_leaves: "rep C p t \<Longrightarrow> (i, ks) \<in> set (leaves t) \<Longrightarrow> \<exists>q. C i = Some (True, map JStr ks, [], q)"
proof (induction t arbitrary: p)
  case (Br j ss ts)
  then show ?case by fastforce
qed auto

end
