(* ===== verification/Bpt_Insert.thy ===== *)
theory Bpt_Insert
  imports Bpt_Tree
begin

text \<open>
  Insertion refines the insertion into a sorted list: \<open>search\<close> finds the leaf, the key goes to its place
  there, and each \<open>split\<close> turns the store of one tree into that of another with the same in-order list and
  one separator more.
\<close>

section \<open>Splitting a node\<close>

definition relink :: "(string option \<times> string option \<Rightarrow> string option \<times> string option) \<Rightarrow> string option \<Rightarrow>
    (string \<Rightarrow> (string option \<times> string option) option) \<Rightarrow> string \<Rightarrow> (string option \<times> string option) option" where
  "relink g x N = (case x of None \<Rightarrow> N | Some k \<Rightarrow> N(k := map_option g (N k)))"

lemma split_node_nd:
  assumes n: "nd V st i = Some node" and num: "numbered V st S"
    and nx: "\<forall>x. bn_next node = Some x \<longrightarrow> x \<noteq> i \<and> nd V st x \<noteq> None"
    and ch: "\<forall>x \<in> set (bn_children node). nd V st x \<noteq> None"
      "if bn_leaf node then bn_children node = [] else length (bn_children node) = length (bn_vals node) + 1"
    and w: "2 \<le> length (bn_vals node)" and k: "k = (length (bn_vals node) + 1) div 2"
    and s: "if bn_leaf node then pick c (b_data V (bn_vals node ! k) st) = Inr s else s = bn_vals node ! (k - 1)"
  shows "\<exists>j st'. split_node V c node st =
      Inr (s, node\<lparr>bn_vals := (if bn_leaf node then take k (bn_vals node) else butlast (take k (bn_vals node))),
                   bn_next := Some j, bn_children := take k (bn_children node)\<rparr>,
           \<lparr>bn_leaf = bn_leaf node, bn_id = j, bn_vals = drop k (bn_vals node), bn_children = drop k (bn_children node),
            bn_parent = None, bn_next = bn_next node, bn_prev = Some i\<rparr>, st') \<and>
     j \<notin> S \<and> \<not> reserved j \<and> (\<forall>st2. keeps st' st2 \<longrightarrow> numbered V st2 (insert j S)) \<and>
     (\<forall>r. root_is V st' r = root_is V st r) \<and> (\<forall>v. b_data V v st' = b_data V v st) \<and>
     shp (nd V st') = (\<lambda>x. if x \<in> set (drop k (bn_children node)) then with_parent (Some j) (shp (nd V st) x) else shp (nd V st) x) \<and>
     lnk (nd V st') = relink (\<lambda>(a, b). (Some j, b)) (bn_next node) (lnk (nd V st))"
proof -
  obtain j st1 m where j: "new_id V st = (j, st1)" "st1 = b_put ''count'' (SCount m) st" "j \<notin> S" "\<not> reserved j"
    "\<forall>st2. keeps st1 st2 \<longrightarrow> numbered V st2 (insert j S)"
    using new_id_fresh [OF num] by blast
  have nd1: "nd V st1 = nd V st" by (simp add: j(2))
  obtain st2 where st2: "(case bn_next node of None \<Rightarrow> Inr st1
        | Some x \<Rightarrow> rbind (node_at V x st1) (\<lambda>next. Inr (put_node (next\<lparr>bn_prev := Some j\<rparr>) st1))) = (Inr st2 :: stats res)"
    "keeps st1 st2" "shp (nd V st2) = shp (nd V st)"
    "lnk (nd V st2) = relink (\<lambda>(a, b). (Some j, b)) (bn_next node) (lnk (nd V st))"
  proof (cases "bn_next node")
    case None
    then show thesis using that [of st1] by (simp add: nd1 relink_def)
  next
    case (Some x)
    then obtain nxt where nxt: "nd V st x = Some nxt" using nx Some by auto
    note id = nd_id [OF nxt]
    show thesis
    proof (rule that [of "put_node (nxt\<lparr>bn_prev := Some j\<rparr>) st1"])
      show "shp (nd V (put_node (nxt\<lparr>bn_prev := Some j\<rparr>) st1)) = shp (nd V st)"
        using id nxt by (simp add: nd1 fun_eq_iff shp_def)
      show "lnk (nd V (put_node (nxt\<lparr>bn_prev := Some j\<rparr>) st1)) = relink (\<lambda>(a, b). (Some j, b)) (bn_next node) (lnk (nd V st))"
        using id nxt by (simp add: nd1 fun_eq_iff lnk_def relink_def Some)
    qed (use id node_at_nd [of V st1 x nxt] nxt in \<open>simp_all add: Some nd1\<close>)
  qed
  let ?rest = "drop k (bn_children node)"
  have "nd V st2 x \<noteq> None" if "x \<in> set ?rest" for x
  proof -
    have "nd V st x \<noteq> None" using that in_set_dropD ch(1) by fastforce
    then have "shp (nd V st2) x \<noteq> None" unfolding st2(3) by (simp add: shp_def)
    then show ?thesis by (auto simp: shp_def)
  qed
  from set_parents [of ?rest V st2 "Some j", OF this] obtain st3 where st3:
    "rfoldl (set_parent V (Some j)) st2 ?rest = Inr st3" "keeps st2 st3"
    "nd V st3 = (\<lambda>x. if x \<in> set ?rest then under (Some j) (nd V st2 x) else nd V st2 x)"
    by (auto simp: fun_eq_iff)
  have keep: "keeps st1 st3" using st2(2) st3(2) by (rule keeps_trans)
  have len: "length (take k (bn_vals node)) = k" "0 < k" "k < length (bn_vals node)" using w by (auto simp: k min_def)
  have data: "b_data V v st3 = b_data V v st" for v
    using keeps_data [OF keep, of V v] by (simp add: j(2))
  let ?n1 = "node\<lparr>bn_vals := (if bn_leaf node then take k (bn_vals node) else butlast (take k (bn_vals node))),
                   bn_next := Some j, bn_children := take k (bn_children node)\<rparr>"
  let ?n2 = "\<lparr>bn_leaf = bn_leaf node, bn_id = j, bn_vals = drop k (bn_vals node), bn_children = ?rest,
            bn_parent = None, bn_next = bn_next node, bn_prev = Some i\<rparr>"
  have i: "bn_id node = i" using nd_id [OF n] by simp
  have split: "splitChildren V (?n1\<lparr>bn_children := bn_children node\<rparr>) (?n2\<lparr>bn_children := []\<rparr>) st2 = Inr (?n1, ?n2, st3) \<or> bn_leaf node \<and>
      splitChildren V (?n1\<lparr>bn_children := bn_children node\<rparr>) (?n2\<lparr>bn_children := []\<rparr>) st2 = Inr (?n1, ?n2, st2) \<and> st3 = st2"
  proof (cases "bn_leaf node")
    case True
    with ch(2) st3(1) show ?thesis by (simp add: splitChildren_def)
  next
    case False
    have "length (butlast (take k (bn_vals node))) + 1 = k" using len by simp
    with False st3(1) show ?thesis by (simp add: splitChildren_def)
  qed
  have sep: "(if bn_leaf node then pick c (b_data V (jidx (drop k (bn_vals node)) 0) st3) else last_res (take k (bn_vals node))) = Inr s"
    using s len by (auto simp: data jidx_def last_res_def last_conv_nth)
  have "split_node V c node st = Inr (s, ?n1, ?n2, st3)"
    using split sep st2(1) unfolding split_node_def Let_def j(1) prod.case k [symmetric]
    by (cases "bn_leaf node") (auto simp: i)
  moreover have "shp (nd V st3) = (\<lambda>x. if x \<in> set ?rest then with_parent (Some j) (shp (nd V st) x) else shp (nd V st) x)"
    unfolding st3(3) shp_under st2(3) ..
  moreover have "lnk (nd V st3) = relink (\<lambda>(a, b). (Some j, b)) (bn_next node) (lnk (nd V st))"
    unfolding st3(3) lnk_under st2(4) ..
  moreover have "\<forall>r. root_is V st3 r = root_is V st r" using keeps_root_is [OF keep, of V] by (simp add: j(2))
  moreover have "\<forall>s2. keeps st3 s2 \<longrightarrow> numbered V s2 (insert j S)" using j(5) keeps_trans [OF keep] by blast
  ultimately show ?thesis using j(3,4) data by blast
qed

section \<open>The two halves\<close>

definition mid :: "bt \<Rightarrow> nat" where
  "mid t = (width t + 1) div 2"

fun half1 :: "bt \<Rightarrow> bt" where
  "half1 (Lf i ks) = Lf i (take (mid (Lf i ks)) ks)"
| "half1 (Br i ss ts) = Br i (butlast (take (mid (Br i ss ts)) ss)) (take (mid (Br i ss ts)) ts)"

fun half2 :: "string \<Rightarrow> bt \<Rightarrow> bt" where
  "half2 j (Lf i ks) = Lf j (drop (mid (Lf i ks)) ks)"
| "half2 j (Br i ss ts) = Br j (drop (mid (Br i ss ts)) ss) (drop (mid (Br i ss ts)) ts)"

fun moved :: "bt \<Rightarrow> string list" where
  "moved (Lf i ks) = []"
| "moved (Br i ss ts) = map rid (drop (mid (Br i ss ts)) ts)"

text \<open>The position of the parent after the split: above the root a new one is made.\<close>

fun raise :: "string \<Rightarrow> frame list \<Rightarrow> bt \<Rightarrow> jv \<Rightarrow> bt \<Rightarrow> frame list \<times> bt" where
  "raise pid [] a s b = ([], Br pid [s] [a, b])"
| "raise pid ((i, sl, ls, sr, rs) # fs) a s b = (fs, Br i (sl @ s # sr) (ls @ a # b # rs))"

lemma rid_half [simp]: "rid (half1 t) = rid t" "rid (half2 j t) = j"
  by (cases t; simp)+

lemma mid_bounds: "2 \<le> width t \<Longrightarrow> 0 < mid t \<and> mid t < width t"
  by (simp add: mid_def)

lemma mset_ids_halves: "mset (ids (half1 t)) + mset (ids (half2 j t)) = add_mset j (mset (ids t))"
proof (cases t)
  case (Br i ss ts)
  have "mset (concat (map ids (take n ts))) + mset (concat (map ids (drop n ts))) = mset (concat (map ids ts))" for n
    by (metis append_take_drop_id concat_append map_append mset_append)
  then show ?thesis by (simp add: Br)
qed simp

lemma tall_halves: "tall h t \<Longrightarrow> 2 \<le> width t \<Longrightarrow> tall h (half1 t) \<and> tall h (half2 j t)"
proof (cases t)
  case (Br i ss ts)
  assume "tall h t" "2 \<le> width t"
  then obtain h' where h: "h = Suc h'" "length ts = Suc (length ss)" "\<forall>t \<in> set ts. tall h' t" by (cases h) (auto simp: Br)
  with mid_bounds [OF \<open>2 \<le> width t\<close>] show ?thesis by (auto simp: Br dest: in_set_takeD in_set_dropD)
qed simp

lemma level_halves: "level (Suc d) (half1 t) @ level (Suc d) (half2 j t) = level (Suc d) t"
  by (cases t) (simp_all flip: concat_append map_append)

lemma weave_halves:
  assumes "length ts = Suc (length ss)" "0 < k" "k \<le> length ss"
  shows "weave ts ss = weave (take k ts) (butlast (take k ss)) @ ESep (ss ! (k - 1)) # weave (drop k ts) (drop k ss)"
proof -
  obtain k' where k: "k = Suc k'" "k' < length ss" using assms by (cases k) auto
  have ts: "ts = take k' ts @ ts ! k' # drop k ts" using k assms by (simp add: id_take_nth_drop)
  have ss: "ss = take k' ss @ ss ! k' # drop k ss" using k assms by (simp add: id_take_nth_drop)
  have b: "butlast (take k ss) = take k' ss" using k by (simp add: butlast_take)
  have t: "take k ts = take k' ts @ [ts ! k']" using k assms by (simp add: take_Suc_conv_app_nth)
  obtain u us where u: "drop k ts = u # us" using assms by (cases "drop k ts") auto
  have "weave ts ss = before_seps (take k' ts) (take k' ss) @ ts ! k' @ after_seps (ss ! k' # drop k ss) (drop k ts)"
    by (subst ts, subst ss, rule weave_mid) (use k assms in simp)
  moreover have "weave (take k ts) (take k' ss) = before_seps (take k' ts) (take k' ss) @ ts ! k'"
    using weave_mid [of "take k' ts" "take k' ss" "ts ! k'" "[]" "[]"] k assms unfolding t by simp
  ultimately show ?thesis unfolding b by (simp add: u [unfolded k(1)] k)
qed

lemma flat_halves:
  assumes "tall h t" "2 \<le> width t"
  shows "flat (half1 t) @ (case t of Lf i ks \<Rightarrow> [] | Br i ss ts \<Rightarrow> [ESep (ss ! (mid t - 1))]) @ flat (half2 j t) = flat t"
proof (cases t)
  case (Lf i ks)
  then show ?thesis by (simp flip: map_append)
next
  case (Br i ss ts)
  then have len: "length (map flat ts) = Suc (length ss)" using assms(1) by (cases h) auto
  show ?thesis using weave_halves [OF len, of "mid t"] mid_bounds [OF assms(2)] unfolding Br by (simp add: take_map drop_map)
qed

lemma rid_not_in: "distinct (concat (map ids ts)) \<Longrightarrow> t \<in> set ts \<Longrightarrow> u \<in> set ts \<Longrightarrow> rid u \<in> set (ids t) \<Longrightarrow> rid u = rid t"
proof (induction ts)
  case (Cons v ts)
  have sub: "rid w \<in> set (concat (map ids ts))" "set (ids w) \<subseteq> set (concat (map ids ts))" if "w \<in> set ts" for w
    using that by (auto intro: bexI [of _ w])
  have dis: "set (ids v) \<inter> set (concat (map ids ts)) = {}" and D: "distinct (concat (map ids ts))"
    using Cons.prems(1) by simp_all
  consider "t = v" "u = v" | "t = v" "u \<in> set ts" | "t \<in> set ts" "u = v" | "t \<in> set ts" "u \<in> set ts"
    using Cons.prems(2,3) by auto
  then show ?case
  proof cases
    case 2
    then show ?thesis using sub(1) [OF 2(2)] dis Cons.prems(4) by blast
  next
    case 3
    then show ?thesis using sub(2) [OF 3(1)] dis Cons.prems(4) rid_in_ids [of v] by blast
  qed (use Cons.IH [OF D] Cons.prems(4) in simp_all)
qed simp

lemma rep_half1:
  assumes "rep C p t" "distinct (ids t)" "C' (rid t) = Some (tshape q (half1 t))"
    and "\<And>x. x \<in> set (ids t) \<Longrightarrow> x \<noteq> rid t \<Longrightarrow> x \<notin> set (moved t) \<Longrightarrow> C' x = C x"
  shows "rep C' q (half1 t)"
proof (cases t)
  case (Br i ss ts)
  have D: "distinct (concat (map ids (take (mid t) ts @ drop (mid t) ts)))" and i: "i \<notin> set (concat (map ids ts))"
    using assms(2) unfolding append_take_drop_id by (simp_all add: Br)
  have "rep C' (Some i) u" if u: "u \<in> set (take (mid t) ts)" for u
  proof -
    have u': "u \<in> set ts" using u by (rule in_set_takeD)
    have "C' x = C x" if x: "x \<in> set (ids u)" for x
    proof (rule assms(4))
      show "x \<in> set (ids t)" "x \<noteq> rid t" using x u' i by (auto simp: Br)
      have "x \<in> set (concat (map ids (take (mid t) ts)))" using x u by auto
      moreover have "set (moved t) \<subseteq> set (concat (map ids (drop (mid t) ts)))" by (auto simp: Br intro!: bexI)
      ultimately show "x \<notin> set (moved t)" using D unfolding map_append concat_append distinct_append by blast
    qed
    then have "rep C' (Some i) u = rep C (Some i) u" by (rule rep_cong)
    then show ?thesis using assms(1) u' by (simp add: Br)
  qed
  with assms(3) show ?thesis by (simp add: Br)
qed (use assms(3) in simp)

lemma rep_half2:
  assumes "rep C p t" "distinct (ids t)" "C' j = Some (tshape q (half2 j t))"
    and "\<And>x. x \<in> set (ids t) \<Longrightarrow> x \<noteq> rid t \<Longrightarrow> C' x = (if x \<in> set (moved t) then with_parent (Some j) (C x) else C x)"
  shows "rep C' q (half2 j t)"
proof (cases t)
  case (Br i ss ts)
  have D: "distinct (concat (map ids ts))" and i: "i \<notin> set (concat (map ids ts))"
    using assms(2) by (simp_all add: Br)
  have "rep C' (Some j) u" if u: "u \<in> set (drop (mid t) ts)" for u
  proof -
    have u': "u \<in> set ts" using u by (rule in_set_dropD)
    have x: "x \<in> set (ids t)" "x \<noteq> rid t" if "x \<in> set (ids u)" for x using that u' i by (auto simp: Br)
    show ?thesis
    proof (rule rep_move)
      show "rep C (Some i) u" using assms(1) u' by (simp add: Br)
      show "C' (rid u) = with_parent (Some j) (C (rid u))"
        using assms(4) [OF x [OF rid_in_ids]] u by (auto simp: Br)
      show "C' y = C y" if y: "y \<in> set (ids u)" "y \<noteq> rid u" for y
      proof -
        have "y \<notin> set (moved t)"
          using rid_not_in [OF D u'] y in_set_dropD [of _ "mid t" ts] by (auto simp: Br)
        then show ?thesis using assms(4) [OF x [OF y(1)]] by simp
      qed
      show "distinct (ids u)" using distinct_concat_each [OF D u'] .
    qed
  qed
  with assms(3) show ?thesis by (simp add: Br)
qed (use assms(3) in simp)

section \<open>One split\<close>

text \<open>What the two halves, their parent and the neighbours look like afterwards.\<close>

definition after_split :: "(string \<Rightarrow> bnode option) \<Rightarrow> (string \<Rightarrow> bnode option) \<Rightarrow> frame list \<Rightarrow> bt \<Rightarrow> string \<Rightarrow> string \<Rightarrow> jv \<Rightarrow> bool" where
  "after_split f f' fs t j pid s \<longleftrightarrow>
     shp f' (rid t) = Some (tshape (Some pid) (half1 t)) \<and> shp f' j = Some (tshape (Some pid) (half2 j t)) \<and>
     (case raise pid fs (half1 t) s (half2 j t) of (fs', p) \<Rightarrow> shp f' pid = Some (tshape (up fs') p)) \<and>
     (\<forall>x. x \<noteq> rid t \<longrightarrow> x \<noteq> j \<longrightarrow> x \<noteq> pid \<longrightarrow>
        shp f' x = (if x \<in> set (moved t) then with_parent (Some j) (shp f x) else shp f x)) \<and>
     lnk f' (rid t) = map_option (\<lambda>(a, b). (a, Some j)) (lnk f (rid t)) \<and>
     lnk f' j = map_option (\<lambda>(a, b). (Some (rid t), b)) (lnk f (rid t)) \<and>
     (fs = [] \<longrightarrow> lnk f' pid = Some (None, None)) \<and>
     (\<forall>x. x \<noteq> rid t \<longrightarrow> x \<noteq> j \<longrightarrow> (fs = [] \<longrightarrow> x \<noteq> pid) \<longrightarrow>
        lnk f' x = (if first_of (right_level 0 fs) = Some x then map_option (\<lambda>(a, b). (Some j, b)) (lnk f x) else lnk f x))"

lemma raise_stands_rep:
  assumes rep: "rep (shp f) None (plug fs t)" and d: "distinct (ids (plug fs t))"
    and new: "j \<notin> set (ids (plug fs t))" "if fs = [] then pid \<noteq> j \<and> pid \<notin> set (ids (plug fs t)) else up fs = Some pid"
    and a: "after_split f f' fs t j pid s" and r: "raise pid fs (half1 t) s (half2 j t) = (fs', p)"
  shows "rep (shp f') None (plug fs' p)"
proof -
  have t: "rep (shp f) (up fs) t" and ab: "rep_above (shp f) fs (rid t)" using rep by (simp_all add: rep_plug)
  have D: "distinct (ids t @ cids fs)" using d by (simp only: distinct_plug)
  have sub: "set (moved t) \<subseteq> set (ids t)" by (cases t) (use in_set_dropD in \<open>fastforce intro: bexI\<close>)+
  have a1: "shp f' (rid t) = Some (tshape (Some pid) (half1 t))" "shp f' j = Some (tshape (Some pid) (half2 j t))"
    and ap: "shp f' pid = Some (tshape (up fs') p)"
    using a r by (simp_all add: after_split_def)
  have a2: "shp f' x = (if x \<in> set (moved t) then with_parent (Some j) (shp f x) else shp f x)"
      if "x \<noteq> rid t" "x \<noteq> j" "x \<noteq> pid" for x
    using a that r by (simp_all add: after_split_def)
  have dis: "set (ids t) \<inter> set (cids fs) = {}" using D by simp
  have same: "shp f' x = shp f x" if x: "x \<in> set (cids fs)" "x \<noteq> pid" for x
  proof -
    have "x \<notin> set (ids t)" using x(1) dis by blast
    then have "x \<noteq> rid t" "x \<notin> set (moved t)" using sub rid_in_ids [of t] by blast+
    moreover have "x \<noteq> j" using x(1) new(1) by auto
    ultimately show ?thesis using a2 [of x] x(2) by simp
  qed
  have pid: "pid \<notin> set (ids t)" using new(2) D by (cases fs) auto
  have jt: "j \<notin> set (ids t)" using new(1) by simp
  have h1: "rep (shp f') (Some pid) (half1 t)"
  proof (rule rep_half1 [OF t])
    show "shp f' x = shp f x" if "x \<in> set (ids t)" "x \<noteq> rid t" "x \<notin> set (moved t)" for x
      using a2 [of x] that pid jt by fastforce
  qed (use a1 D in simp_all)
  have h2: "rep (shp f') (Some pid) (half2 j t)"
  proof (rule rep_half2 [OF t])
    show "shp f' x = (if x \<in> set (moved t) then with_parent (Some j) (shp f x) else shp f x)"
      if "x \<in> set (ids t)" "x \<noteq> rid t" for x
      using a2 [of x] that pid jt by fastforce
  qed (use a1 D in simp_all)
  show ?thesis
  proof (cases fs)
    case Nil
    with r ap h1 h2 show ?thesis by auto
  next
    case (Cons fr gs)
    obtain sl ls sr rs where fr: "fr = (pid, sl, ls, sr, rs)" using new(2) Cons by (cases fr) auto
    have p: "fs' = gs" "p = Br pid (sl @ s # sr) (ls @ half1 t # half2 j t # rs)" using r by (simp_all add: Cons fr)
    have "rep (shp f') (Some pid) u" if u: "u \<in> set ls \<union> set rs" for u
    proof -
      have "pid \<notin> set (ids u)" "set (ids u) \<subseteq> set (cids fs)" using D u by (auto simp: Cons fr)
      then have "shp f' x = shp f x" if "x \<in> set (ids u)" for x using same that by blast
      moreover have "rep (shp f) (Some pid) u" using ab u by (auto simp: Cons fr)
      ultimately show ?thesis using rep_cong [of u "shp f'" "shp f" "Some pid"] by simp
    qed
    moreover have "shp f' x = shp f x" if "x \<in> set (cids gs)" for x
      using same [of x] that D by (auto simp: Cons fr)
    then have "rep_above (shp f') gs pid = rep_above (shp f) gs pid" by (rule rep_above_cong)
    moreover have "shp f' pid = Some (tshape (up gs) p)" using ap p(1) by simp
    ultimately show ?thesis using ab h1 h2 unfolding p rep_plug by (auto simp: Cons fr)
  qed
qed

lemma level_raise:
  assumes "raise pid fs (half1 t) s (half2 j t) = (fs', p)" "if fs = [] then True else up fs = Some pid"
  shows "level d (plug fs' p) =
     (if fs = [] then (case d of 0 \<Rightarrow> [pid] | Suc 0 \<Rightarrow> [rid t, j] | Suc d' \<Rightarrow> level d' t)
      else if d = length fs then left_level 0 fs @ rid t # j # right_level 0 fs else level d (plug fs t))"
proof (cases fs)
  case Nil
  with assms(1) have p: "fs' = []" "p = Br pid [s] [half1 t, half2 j t]" by simp_all
  show ?thesis
  proof (cases d)
    case (Suc d')
    then show ?thesis using level_halves [of _ t j] by (cases d') (simp_all add: p Nil)
  qed (simp add: p Nil)
next
  case (Cons fr gs)
  obtain sl ls sr rs where fr: "fr = (pid, sl, ls, sr, rs)" using assms(2) Cons by (cases fr) auto
  have p: "fs' = gs" "p = Br pid (sl @ s # sr) (ls @ half1 t # half2 j t # rs)" using assms(1) by (simp_all add: Cons fr)
  consider "d < length gs" | "d = length gs" | e where "d = length gs + Suc e"
    using less_iff_Suc_add [of "length gs" d] by (cases d "length gs" rule: linorder_cases) auto
  then show ?thesis
  proof cases
    case 1
    then show ?thesis using level_above [OF 1] by (simp add: p Cons fr)
  next
    case 2
    then have "d = length gs + 0" by simp
    then show ?thesis by (simp only: p Cons fr plug.simps level_plug) simp
  next
    case (3 e)
    have t: "level d (plug fs t) = left_level e fs @ level e t @ right_level e fs"
      using level_plug [of fs e t] 3 by (simp add: Cons)
    have "level d (plug fs' p) = left_level e fs @ level e (half1 t) @ level e (half2 j t) @ right_level e fs"
      by (simp only: p 3 level_plug) (simp add: Cons fr)
    then show ?thesis using t level_halves [of _ t j] by (cases e) (simp_all add: 3 Cons)
  qed
qed

lemma raise_stands_linked:
  assumes N: "\<And>d. d \<le> h \<Longrightarrow> linked (lnk f) None (level d (plug fs t))" and d: "distinct (ids (plug fs t))"
    and len: "length fs \<le> h"
    and new: "j \<notin> set (ids (plug fs t))" "if fs = [] then pid \<noteq> j \<and> pid \<notin> set (ids (plug fs t)) else up fs = Some pid"
    and a: "after_split f f' fs t j pid s" and r: "raise pid fs (half1 t) s (half2 j t) = (fs', p)"
    and e: "e \<le> (if fs = [] then Suc h else h)"
  shows "linked (lnk f') None (level e (plug fs' p))"
proof -
  let ?T = "plug fs t" and ?D = "length fs"
  have lt: "level ?D ?T = left_level 0 fs @ rid t # right_level 0 fs" using level_plug [of fs 0 t] by simp
  have lD: "linked (lnk f) None (left_level 0 fs @ rid t # right_level 0 fs)" using N [OF len] by (simp only: lt)
  have dD: "distinct (left_level 0 fs @ rid t # right_level 0 fs)" using distinct_level [OF d, of ?D] by (simp only: lt)
  have a1: "lnk f' (rid t) = map_option (\<lambda>(a, b). (a, Some j)) (lnk f (rid t))"
    "lnk f' j = map_option (\<lambda>(a, b). (Some (rid t), b)) (lnk f (rid t))" "fs = [] \<longrightarrow> lnk f' pid = Some (None, None)"
    using a by (simp_all add: after_split_def)
  have a2: "lnk f' x = (if first_of (right_level 0 fs) = Some x then map_option (\<lambda>(a, b). (Some j, b)) (lnk f x) else lnk f x)"
    if "x \<noteq> rid t" "x \<noteq> j" "fs = [] \<Longrightarrow> x \<noteq> pid" for x
    using a that by (simp add: after_split_def)
  have inT: "x \<noteq> j \<and> (fs = [] \<longrightarrow> x \<noteq> pid)" if "x \<in> set (ids ?T)" for x using that new by (auto split: if_splits)
  have split: "linked (lnk f') None (left_level 0 fs @ rid t # j # right_level 0 fs)"
  proof (rule linked_insert [OF lD dD, where N' = "lnk f'"])
    show "lnk f' (rid t) = map_option (\<lambda>(a, b). (a, Some j)) (lnk f (rid t))" by (rule a1(1))
    show "lnk f' j = map_option (\<lambda>(a, b). (Some (rid t), b)) (lnk f (rid t))" by (rule a1(2))
    have x: "x \<in> set (level ?D ?T)" "x \<noteq> rid t" if "x \<in> set (left_level 0 fs @ right_level 0 fs)" for x
      using that dD unfolding lt by auto
    have x': "x \<noteq> rid t" "x \<noteq> j" "fs = [] \<Longrightarrow> x \<noteq> pid" if "x \<in> set (left_level 0 fs @ right_level 0 fs)" for x
      using x [OF that] level_ids [of ?D ?T] inT by blast+
    have x'': "lnk f' x = (if first_of (right_level 0 fs) = Some x then map_option (\<lambda>(a, b). (Some j, b)) (lnk f x) else lnk f x)"
      if x: "x \<in> set (left_level 0 fs @ right_level 0 fs)" for x
      using a2 [OF x'(1) [OF x] x'(2) [OF x] x'(3) [OF x]] by simp
    show "lnk f' k = map_option (\<lambda>(a, b). (Some j, b)) (lnk f k)" if k: "first_of (right_level 0 fs) = Some k" for k
    proof -
      have "k \<in> set (left_level 0 fs @ right_level 0 fs)" using k by (auto simp: first_of_def split: list.splits)
      from x'' [OF this] k show ?thesis by simp
    qed
    show "lnk f' k = lnk f k" if "k \<in> set (left_level 0 fs @ right_level 0 fs)" "first_of (right_level 0 fs) \<noteq> Some k" for k
      using x'' [OF that(1)] that(2) by simp
  qed
  have other: "linked (lnk f') None (level d ?T)" if "d \<le> h" "d \<noteq> ?D" for d
  proof -
    have "lnk f' x = lnk f x" if x: "x \<in> set (level d ?T)" for x
    proof -
      have n: "x \<notin> set (level ?D ?T)" using level_disjoint [OF d \<open>d \<noteq> ?D\<close>] x by blast
      then have "x \<noteq> rid t" by (simp add: lt)
      moreover have "first_of (right_level 0 fs) \<noteq> Some x" using n by (auto simp: lt first_of_def split: list.splits)
      moreover have "x \<noteq> j \<and> (fs = [] \<longrightarrow> x \<noteq> pid)" using x level_ids [of d ?T] inT by blast
      ultimately show ?thesis using a2 [of x] by simp
    qed
    then show ?thesis using linked_cong [of "level d ?T" "lnk f'" "lnk f"] N [OF that(1)] by simp
  qed
  have up: "if fs = [] then True else up fs = Some pid" using new(2) by (simp split: if_splits)
  show ?thesis
  proof (cases "fs = []")
    case True
    show ?thesis
    proof (cases e)
      case 0
      then show ?thesis using a1(3) True by (simp add: level_raise [OF r up])
    next
      case (Suc e')
      show ?thesis
      proof (cases e')
        case 0
        then show ?thesis using split True by (simp add: level_raise [OF r up] Suc del: linked.simps)
      next
        case (Suc e'')
        then show ?thesis using other [of e'] e True \<open>e = Suc e'\<close> by (simp add: level_raise [OF r up])
      qed
    qed
  next
    case False
    then show ?thesis using split other [of e] e by (simp add: level_raise [OF r up])
  qed
qed

lemma index_of_mid: "x \<notin> set xs \<Longrightarrow> index_of x (xs @ x # ys) = int (length xs)"
  by (induction xs) (auto simp: Let_def)

lemma splice_ins_mid:
  "splice_ins (int (length xs)) x (xs @ ys) = xs @ x # ys"
  "splice_ins (int (length xs) + 1) x (xs @ y # ys) = xs @ y # x # ys"
  by (simp_all add: splice_ins_def Let_def nat_add_distrib)

lemma mset_ids_raise:
  assumes "raise pid fs (half1 t) s (half2 j t) = (fs', p)" "if fs = [] then True else up fs = Some pid"
  shows "mset (ids (plug fs' p)) = mset (ids (plug fs t)) + {#j#} + (if fs = [] then {#pid#} else {#})"
proof (cases fs)
  case Nil
  with assms show ?thesis using mset_ids_halves [of t j] by auto
next
  case (Cons fr gs)
  obtain sl ls sr rs where fr: "fr = (pid, sl, ls, sr, rs)" using assms(2) Cons by (cases fr) auto
  with assms(1) Cons have "fs' = gs" "p = Br pid (sl @ s # sr) (ls @ half1 t # half2 j t # rs)" by simp_all
  then show ?thesis using mset_ids_halves [of t j] by (simp add: mset_ids_plug Cons fr)
qed

lemma tall_raise:
  assumes "raise pid fs (half1 t) s (half2 j t) = (fs', p)" "tall h (plug fs t)" "list_all good_frame fs" "2 \<le> width t"
  shows "tall (if fs = [] then Suc h else h) (plug fs' p) \<and> list_all good_frame fs'"
proof (cases fs)
  case Nil
  with assms show ?thesis using tall_halves [of h t j] by auto
next
  case (Cons fr gs)
  obtain i sl ls sr rs where fr: "fr = (i, sl, ls, sr, rs)" by (cases fr) auto
  from tall_frames_plug [OF assms(2,3)] have T: "length fs \<le> h" "tall (h - length fs) t" "tall_frames (h - length fs) fs" by simp_all
  have p: "fs' = gs" "p = Br i (sl @ s # sr) (ls @ half1 t # half2 j t # rs)" using assms(1) by (simp_all add: Cons fr)
  have g: "tall_frames (Suc (h - length fs)) gs" using T(3) by (simp add: Cons fr)
  have "tall (Suc (h - length fs)) p" using T(2,3) tall_halves [OF T(2) assms(4), of j] by (auto simp: p Cons fr)
  then have "tall (Suc (h - length fs) + length gs) (plug gs p)" by (simp only: tall_plug [OF g])
  moreover have "Suc (h - length fs) + length gs = h" using T(1) by (simp add: Cons)
  ultimately show ?thesis using assms(3) by (simp add: p Cons)
qed

lemma raise_stands:
  assumes "stands V st h (plug fs t)" "list_all good_frame fs" "2 \<le> width t"
    and "j \<notin> set (ids (plug fs t))" "if fs = [] then pid \<noteq> j \<and> pid \<notin> set (ids (plug fs t)) else up fs = Some pid"
    and "after_split (nd V st) (nd V st') fs t j pid s" "raise pid fs (half1 t) s (half2 j t) = (fs', p)"
    and "numbered V st' (set (ids (plug fs' p)))" "root_is V st' (rid (plug fs' p))"
  shows "stands V st' (if fs = [] then Suc h else h) (plug fs' p)"
proof -
  have s: "tall h (plug fs t)" "distinct (ids (plug fs t))" "rep (shp (nd V st)) None (plug fs t)"
    "\<And>d. d \<le> h \<Longrightarrow> linked (lnk (nd V st)) None (level d (plug fs t))"
    using assms(1) by (simp_all add: stands_def)
  have up: "if fs = [] then True else up fs = Some pid" using assms(5) by (simp split: if_splits)
  have "distinct (ids (plug fs t) @ j # (if fs = [] then [pid] else []))"
    using s(2) assms(4,5) by (cases "fs = []") auto
  then have "distinct (ids (plug fs' p))"
    using mset_ids_raise [OF assms(7) up]
    by (subst mset_eq_imp_distinct_iff [of _ "ids (plug fs t) @ j # (if fs = [] then [pid] else [])"]) auto
  moreover have "length fs \<le> h" using tall_frames_plug [OF s(1) assms(2)] by simp
  ultimately show ?thesis
    using tall_raise [OF assms(7) s(1) assms(2,3)] assms(8,9) raise_stands_rep [OF s(3,2) assms(4-7)]
      raise_stands_linked [OF s(4,2) _ assms(4-7)]
    unfolding stands_def by blast
qed

lemma tshape_node:
  assumes "shp f i = Some (tshape p t)" "f i = Some node"
  shows "bn_leaf node \<longleftrightarrow> (case t of Lf _ _ \<Rightarrow> True | Br _ _ _ \<Rightarrow> False)" "length (bn_vals node) = width t"
    "bn_parent node = p" "bn_children node = (case t of Lf _ _ \<Rightarrow> [] | Br _ _ ts \<Rightarrow> map rid ts)"
    "bn_vals node = (case t of Lf _ ks \<Rightarrow> map JStr ks | Br _ ss _ \<Rightarrow> ss)"
  using assms by (cases t; force simp: shp_def)+

lemma halves_node:
  assumes "shp f i = Some (tshape p t)" "f i = Some node"
  shows "(bn_leaf node, if bn_leaf node then take (mid t) (bn_vals node) else butlast (take (mid t) (bn_vals node)),
      take (mid t) (bn_children node), q) = tshape q (half1 t)"
    and "(bn_leaf node, drop (mid t) (bn_vals node), drop (mid t) (bn_children node), q) = tshape q (half2 j t)"
    and "drop (mid t) (bn_children node) = moved t"
  using tshape_node [OF assms] by (cases t; simp add: take_map drop_map)+

text \<open>The parent of a node that was split, and the overlay it is found in.\<close>

lemma getParent_nd:
  assumes "bn_id n1 = rid t" "bn_parent n1 = up fs" "bn_id n2 = j"
    and num: "numbered V st3 (insert j S)" and S: "set (ids (plug fs t)) \<subseteq> S" and d: "distinct (ids (plug fs t))"
    and rep: "\<forall>i sl ls sr rs gs. fs = (i, sl, ls, sr, rs) # gs \<longrightarrow>
       shp (nd V st3) i = Some (False, sl @ sr, map rid ls @ rid t # map rid rs, up gs)"
    and good: "list_all good_frame fs"
  shows "\<exists>pid parent st4. getParent V n1 n2 s st3 = Inr (fs = [], parent, st4) \<and> bn_id parent = pid \<and> \<not> reserved pid \<and>
     (if fs = [] then pid \<notin> insert j S else up fs = Some pid) \<and>
     nd V st4 = nd V st3 \<and> (\<forall>r. root_is V st4 r = root_is V st3 r) \<and> (\<forall>v. b_data V v st4 = b_data V v st3) \<and>
     (\<forall>st5. keeps st4 st5 \<longrightarrow> numbered V st5 (if fs = [] then insert pid (insert j S) else insert j S)) \<and>
     (case raise pid fs (half1 t) s (half2 j t) of (fs', p) \<Rightarrow>
        (bn_leaf parent, bn_vals parent, bn_children parent, bn_parent parent) = tshape (up fs') p) \<and>
     (if fs = [] then bn_prev parent = None \<and> bn_next parent = None
      else lnk (nd V st3) pid = Some (bn_prev parent, bn_next parent))"
proof (cases fs)
  case Nil
  obtain pid st4 m where p: "new_id V st3 = (pid, st4)" "st4 = b_put ''count'' (SCount m) st3" "pid \<notin> insert j S" "\<not> reserved pid"
    "\<forall>st5. keeps st4 st5 \<longrightarrow> numbered V st5 (insert pid (insert j S))"
    using new_id_fresh [OF num] by blast
  have "bn_parent n1 = None" using assms(2) Nil by simp
  then show ?thesis using p assms(1,3) by (intro exI [of _ pid] exI [of _ st4] exI) (auto simp: getParent_def Nil)
next
  case (Cons fr gs)
  obtain i sl ls sr rs where fr: "fr = (i, sl, ls, sr, rs)" by (cases fr) auto
  obtain par where par: "nd V st3 i = Some par" "bn_leaf par = False" "bn_vals par = sl @ sr"
    "bn_children par = map rid ls @ rid t # map rid rs" "bn_parent par = up gs"
    using rep by (auto simp: Cons fr shp_def)
  note pid = nd_id [OF par(1)]
  have "rid t \<notin> set (map rid ls)"
  proof
    assume "rid t \<in> set (map rid ls)"
    then obtain u where "u \<in> set ls" "rid u = rid t" by auto
    then have "rid t \<in> set (cids fs)" using rid_in_ids [of u] by (auto simp: Cons fr)
    moreover have "set (ids t) \<inter> set (cids fs) = {}" using d unfolding distinct_plug by simp
    ultimately show False using rid_in_ids [of t] by blast
  qed
  then have ind: "index_of (rid t) (map rid ls @ rid t # map rid rs) = int (length sl)"
    using good by (simp add: index_of_mid Cons fr good_frame_def)
  let ?par = "par\<lparr>bn_vals := sl @ s # sr, bn_children := map rid ls @ rid t # j # map rid rs\<rparr>"
  have len: "length sl = length (map rid ls)" using good by (simp add: Cons fr good_frame_def)
  have "getParent V n1 n2 s st3 = Inr (False, ?par, st3)"
    using assms(1-3) node_at_nd [OF par(1)] splice_ins_mid(1) [of sl s sr] splice_ins_mid(2) [of "map rid ls" j "rid t" "map rid rs"] len
    by (simp add: getParent_def Cons fr par ind)
  moreover have "lnk (nd V st3) i = Some (bn_prev ?par, bn_next ?par)" using par(1) by (simp add: lnk_def)
  moreover have "\<forall>st5. keeps st3 st5 \<longrightarrow> numbered V st5 (insert j S)"
    using num keeps_numbered by blast
  ultimately show ?thesis using pid par by (intro exI [of _ i] exI [of _ ?par] exI [of _ st3]) (simp add: Cons fr)
qed

lemma split_once:
  assumes st: "stands V st h (plug fs t)" and good: "list_all good_frame fs" and w: "2 \<le> width t"
    and n: "nd V st (rid t) = Some node"
    and s: "if bn_leaf node then pick c (b_data V (bn_vals node ! mid t) st) = Inr s else s = bn_vals node ! (mid t - 1)"
  shows "\<exists>j pid st' parent fs' p. raise pid fs (half1 t) s (half2 j t) = (fs', p) \<and>
     split (Suc k) V c node st = (if is_over c parent 0 then split k V c parent st' else Inr st') \<and>
     nd V st' pid = Some parent \<and> rid p = pid \<and> stands V st' (if fs = [] then Suc h else h) (plug fs' p) \<and>
     (\<forall>v. b_data V v st' = b_data V v st)"
proof -
  let ?T = "plug fs t" and ?S = "set (ids (plug fs t))"
  have T: "tall h ?T" "distinct (ids ?T)" "numbered V st ?S" "root_is V st (rid ?T)" "rep (shp (nd V st)) None ?T"
    using st by (simp_all add: stands_def)
  have len: "length fs \<le> h" "tall (h - length fs) t" using tall_frames_plug [OF T(1) good] by simp_all
  have shp: "shp (nd V st) (rid t) = Some (tshape (up fs) t)"
    and lnk: "lnk (nd V st) (rid t) = Some (last_of None (left_level 0 fs), first_of (right_level 0 fs))"
    using stands_at [OF st] len(1) by simp_all
  have nxt: "bn_next node = first_of (right_level 0 fs)" using lnk n by (simp add: lnk_def)
  note nf = tshape_node [OF shp n]
  have lt: "level (length fs) ?T = left_level 0 fs @ rid t # right_level 0 fs" using level_plug [of fs 0 t] by simp
  have nx: "x \<noteq> rid t \<and> nd V st x \<noteq> None" if "bn_next node = Some x" for x
  proof -
    have "x \<in> set (right_level 0 fs)" using that nxt by (auto simp: first_of_def split: list.splits)
    then have "x \<in> set (level (length fs) ?T)" "x \<noteq> rid t" using distinct_level [OF T(2), of "length fs"] unfolding lt by auto
    then show ?thesis using level_ids [of "length fs" ?T] stands_node [OF st] by blast
  qed
  have ch: "nd V st x \<noteq> None" if "x \<in> set (bn_children node)" for x
  proof -
    have "x \<in> set (ids t)"
    proof (cases t)
      case (Br i ss ts)
      with that obtain u where "u \<in> set ts" "x = rid u" by (auto simp: nf(4))
      then have "x \<in> set (concat (map ids ts))" by (auto intro: bexI [of _ u])
      then show ?thesis by (simp add: Br)
    qed (use that in \<open>simp add: nf(4)\<close>)
    then show ?thesis using stands_node [OF st, of x] by simp
  qed
  have chl: "if bn_leaf node then bn_children node = [] else length (bn_children node) = length (bn_vals node) + 1"
    using len(2) by (cases t; cases "h - length fs") (simp_all add: nf)
  have nx': "\<forall>x. bn_next node = Some x \<longrightarrow> x \<noteq> rid t \<and> nd V st x \<noteq> None" and ch': "\<forall>x \<in> set (bn_children node). nd V st x \<noteq> None"
    using nx ch by blast+
  have wn: "2 \<le> length (bn_vals node)" "mid t = (length (bn_vals node) + 1) div 2" using w by (simp_all add: nf(2) mid_def)
  obtain j st3 where j: "split_node V c node st =
      Inr (s, node\<lparr>bn_vals := (if bn_leaf node then take (mid t) (bn_vals node) else butlast (take (mid t) (bn_vals node))),
                   bn_next := Some j, bn_children := take (mid t) (bn_children node)\<rparr>,
           \<lparr>bn_leaf = bn_leaf node, bn_id = j, bn_vals = drop (mid t) (bn_vals node), bn_children = drop (mid t) (bn_children node),
            bn_parent = None, bn_next = bn_next node, bn_prev = Some (rid t)\<rparr>, st3)"
    and jn: "j \<notin> ?S" "\<not> reserved j" "\<forall>st2. keeps st3 st2 \<longrightarrow> numbered V st2 (insert j ?S)"
    and r3: "\<forall>r. root_is V st3 r = root_is V st r" "\<forall>v. b_data V v st3 = b_data V v st"
    and s3': "shp (nd V st3) = (\<lambda>x. if x \<in> set (drop (mid t) (bn_children node)) then with_parent (Some j) (shp (nd V st) x) else shp (nd V st) x)"
    and l3: "lnk (nd V st3) = relink (\<lambda>(a, b). (Some j, b)) (bn_next node) (lnk (nd V st))"
    using split_node_nd [OF n T(3) nx' ch' chl wn s] by (elim exE conjE) (rule that)
  note s3 = s3' [unfolded halves_node(3) [OF shp n]]
  let ?n1 = "node\<lparr>bn_vals := (if bn_leaf node then take (mid t) (bn_vals node) else butlast (take (mid t) (bn_vals node))),
                   bn_next := Some j, bn_children := take (mid t) (bn_children node)\<rparr>"
  let ?n2 = "\<lparr>bn_leaf = bn_leaf node, bn_id = j, bn_vals = drop (mid t) (bn_vals node), bn_children = drop (mid t) (bn_children node),
            bn_parent = None, bn_next = bn_next node, bn_prev = Some (rid t)\<rparr>"
  have sub: "set (moved t) \<subseteq> set (ids t)" by (cases t) (use in_set_dropD in \<open>fastforce intro: bexI\<close>)+
  have i: "bn_id node = rid t" "\<not> reserved (rid t)" using nd_id [OF n] by simp_all
  have g: "bn_id ?n1 = rid t" "bn_parent ?n1 = up fs" "bn_id ?n2 = j" "numbered V st3 (insert j ?S)"
    using i(1) nf(3) jn(3) by simp_all
  have "shp (nd V st3) i = Some (False, sl @ sr, map rid ls @ rid t # map rid rs, up gs)"
    if "fs = (i, sl, ls, sr, rs) # gs" for i sl ls sr rs gs
  proof -
    have "i \<notin> set (moved t)" using T(2) sub unfolding that distinct_plug by auto
    moreover have "rep_above (shp (nd V st)) fs (rid t)" using T(5) by (simp add: rep_plug)
    ultimately show ?thesis by (simp add: s3 that)
  qed
  then have par3: "\<forall>i sl ls sr rs gs. fs = (i, sl, ls, sr, rs) # gs \<longrightarrow>
      shp (nd V st3) i = Some (False, sl @ sr, map rid ls @ rid t # map rid rs, up gs)" by blast
  obtain pid parent st4 where P: "getParent V ?n1 ?n2 s st3 = Inr (fs = [], parent, st4)" "bn_id parent = pid" "\<not> reserved pid"
    "if fs = [] then pid \<notin> insert j ?S else up fs = Some pid"
    "nd V st4 = nd V st3" "\<forall>r. root_is V st4 r = root_is V st3 r" "\<forall>v. b_data V v st4 = b_data V v st3"
    "\<forall>st5. keeps st4 st5 \<longrightarrow> numbered V st5 (if fs = [] then insert pid (insert j ?S) else insert j ?S)"
    "case raise pid fs (half1 t) s (half2 j t) of (fs', p) \<Rightarrow>
        (bn_leaf parent, bn_vals parent, bn_children parent, bn_parent parent) = tshape (up fs') p"
    "if fs = [] then bn_prev parent = None \<and> bn_next parent = None
      else lnk (nd V st3) pid = Some (bn_prev parent, bn_next parent)"
    using getParent_nd [of ?n1 t fs ?n2 j V st3 ?S s, OF g(1-4) subset_refl T(2) par3 good]
    by (elim exE conjE) (rule that)
  obtain fs' p where r: "raise pid fs (half1 t) s (half2 j t) = (fs', p)" by fastforce
  have up: "if fs = [] then True else up fs = Some pid" using P(4) by (simp split: if_splits)
  let ?st5 = "put_node (?n1\<lparr>bn_parent := Some pid\<rparr>) (put_node parent (put_node (?n2\<lparr>bn_parent := Some pid\<rparr>) st4))"
  let ?st' = "if fs = [] then set_root (Some pid) ?st5 else ?st5"
  have nd5: "nd V ?st' = (nd V st3)(j \<mapsto> ?n2\<lparr>bn_parent := Some pid\<rparr>, pid \<mapsto> parent, rid t \<mapsto> ?n1\<lparr>bn_parent := Some pid\<rparr>)"
    using P(2,3,5) i jn(2) by simp
  have "rid t \<in> ?S" by simp
  moreover have "if fs = [] then pid \<notin> insert j ?S else pid \<in> set (cids fs)"
    using P(4) by (cases fs rule: up.cases) auto
  moreover have "set (ids t) \<inter> set (cids fs) = {}" using T(2) unfolding distinct_plug by simp
  moreover have "set (cids fs) \<subseteq> ?S" by simp
  ultimately have pt: "pid \<noteq> rid t" "pid \<noteq> j" "j \<noteq> rid t"
    using jn(1) rid_in_ids [of t] by (metis disjoint_iff insertCI subsetD)+
  have A: "after_split (nd V st) (nd V ?st') fs t j pid s"
    unfolding after_split_def nd5 r
  proof (intro conjI allI impI)
    show "lnk ((nd V st3)(j \<mapsto> ?n2\<lparr>bn_parent := Some pid\<rparr>, pid \<mapsto> parent, rid t \<mapsto> ?n1\<lparr>bn_parent := Some pid\<rparr>)) x =
        (if first_of (right_level 0 fs) = Some x then map_option (\<lambda>(a, b). (Some j, b)) (lnk (nd V st) x) else lnk (nd V st) x)"
      if "x \<noteq> rid t" "x \<noteq> j" "fs = [] \<longrightarrow> x \<noteq> pid" for x
    proof -
      have "lnk ((nd V st3)(j \<mapsto> ?n2\<lparr>bn_parent := Some pid\<rparr>, pid \<mapsto> parent, rid t \<mapsto> ?n1\<lparr>bn_parent := Some pid\<rparr>)) x = lnk (nd V st3) x"
        using that P(10) by (auto split: if_splits)
      then show ?thesis unfolding l3 nxt by (auto simp: relink_def split: option.splits)
    qed
    show "shp ((nd V st3)(j \<mapsto> ?n2\<lparr>bn_parent := Some pid\<rparr>, pid \<mapsto> parent, rid t \<mapsto> ?n1\<lparr>bn_parent := Some pid\<rparr>)) (rid t) =
        Some (tshape (Some pid) (half1 t))"
      using halves_node(1) [OF shp n, of "Some pid"] by simp
    show "shp ((nd V st3)(j \<mapsto> ?n2\<lparr>bn_parent := Some pid\<rparr>, pid \<mapsto> parent, rid t \<mapsto> ?n1\<lparr>bn_parent := Some pid\<rparr>)) j =
        Some (tshape (Some pid) (half2 j t))"
      using halves_node(2) [OF shp n, of "Some pid" j] pt by simp
    show "case (fs', p) of (fs', p) \<Rightarrow>
        shp ((nd V st3)(j \<mapsto> ?n2\<lparr>bn_parent := Some pid\<rparr>, pid \<mapsto> parent, rid t \<mapsto> ?n1\<lparr>bn_parent := Some pid\<rparr>)) pid =
        Some (tshape (up fs') p)"
      using P(9) r pt by simp
    show "shp ((nd V st3)(j \<mapsto> ?n2\<lparr>bn_parent := Some pid\<rparr>, pid \<mapsto> parent, rid t \<mapsto> ?n1\<lparr>bn_parent := Some pid\<rparr>)) x =
        (if x \<in> set (moved t) then with_parent (Some j) (shp (nd V st) x) else shp (nd V st) x)"
      if "x \<noteq> rid t" "x \<noteq> j" "x \<noteq> pid" for x
      using that by (simp add: s3)
    show "lnk ((nd V st3)(j \<mapsto> ?n2\<lparr>bn_parent := Some pid\<rparr>, pid \<mapsto> parent, rid t \<mapsto> ?n1\<lparr>bn_parent := Some pid\<rparr>)) (rid t) =
        map_option (\<lambda>(a, b). (a, Some j)) (lnk (nd V st) (rid t))"
      using n by (simp add: lnk_def)
    show "lnk ((nd V st3)(j \<mapsto> ?n2\<lparr>bn_parent := Some pid\<rparr>, pid \<mapsto> parent, rid t \<mapsto> ?n1\<lparr>bn_parent := Some pid\<rparr>)) j =
        map_option (\<lambda>(a, b). (Some (rid t), b)) (lnk (nd V st) (rid t))"
      using n pt by (simp add: lnk_def)
    show "lnk ((nd V st3)(j \<mapsto> ?n2\<lparr>bn_parent := Some pid\<rparr>, pid \<mapsto> parent, rid t \<mapsto> ?n1\<lparr>bn_parent := Some pid\<rparr>)) pid =
        Some (None, None)" if "fs = []"
      using that P(10) pt by simp
  qed
  have keep: "keeps st4 ?st5" using P(2,3) i jn(2) by simp
  have num: "numbered V ?st' (set (ids (plug fs' p)))"
  proof -
    have "set (ids (plug fs' p)) = (if fs = [] then insert pid (insert j ?S) else insert j ?S)"
      using arg_cong [OF mset_ids_raise [OF r up], of set_mset] by auto
    then have "numbered V ?st5 (set (ids (plug fs' p)))" using P(8) keep by simp
    then show ?thesis by (simp add: numbered_set_root)
  qed
  have root: "root_is V ?st' (rid (plug fs' p))"
  proof (cases fs)
    case Nil
    with r show ?thesis by auto
  next
    case (Cons fr gs)
    obtain sl ls sr rs where "fr = (pid, sl, ls, sr, rs)" using up Cons by (cases fr) auto
    with r Cons have p: "fs' = gs" "rid p = pid" "plug fs t = plug gs (Br pid (sl @ sr) (ls @ t # rs))" by auto
    have "rid (plug gs u) = rid (plug gs u')" if "rid u = rid u'" for u u'
      using that level_above [of 0 gs u u'] level_plug [of gs 0 u] level_plug [of gs 0 u'] by (cases gs) auto
    then have "rid (plug fs t) = rid (plug fs' p)" using p by (metis rid.simps(2))
    moreover have "root_is V ?st' r = root_is V st r" for r using Cons keeps_root_is [OF keep, of V] P(6) r3(1) by simp
    ultimately show ?thesis using T(4) by simp
  qed
  have "stands V ?st' (if fs = [] then Suc h else h) (plug fs' p)"
    using raise_stands [OF st good w jn(1) _ A r num root] P(4) by (auto split: if_splits)
  moreover have "nd V ?st' pid = Some parent" unfolding nd5 using pt by simp
  moreover have "split (Suc k) V c node st = (if is_over c parent 0 then split k V c parent ?st' else Inr ?st')"
    using j P(1,2) by simp
  moreover have "rid p = pid" using r up by (cases fs) (auto split: prod.splits)
  moreover have "\<forall>v. b_data V v ?st' = b_data V v st"
    using keeps_data [OF keep, of V] P(7) r3(2) by (auto split: if_splits)
  ultimately show ?thesis using r by blast
qed

section \<open>Sizes of the halves\<close>

lemma width_halves:
  assumes "tall h t" "width t = Suc hi" "2 \<le> hi" "lo = (Suc hi + 1) div 2 - 1"
  shows "lo \<le> width (half1 t)" "width (half1 t) \<le> hi" "lo \<le> width (half2 j t)" "width (half2 j t) \<le> hi"
    "set (kids (half1 t)) \<subseteq> set (kids t)" "set (kids (half2 j t)) \<subseteq> set (kids t)"
  using assms by (cases t; auto simp: mid_def min_def dest: in_set_takeD in_set_dropD)+

lemma fits_raise:
  assumes "raise pid fs (half1 t) s (half2 j t) = (fs', p)" "tall h t" "width t = Suc hi" "2 \<le> hi"
    "lo = (Suc hi + 1) div 2 - 1" "frames_fit lo hi fs" "\<forall>u \<in> set (kids t). sized lo hi u"
  shows "frames_fit lo hi fs' \<and> (\<forall>u \<in> set (kids p). sized lo hi u) \<and> width p \<le> Suc hi \<and>
     (if fs' = [] then 1 else lo) \<le> width p \<and> (fs = [] \<longrightarrow> width p = 1)"
proof -
  have halves: "sized lo hi (half1 t)" "sized lo hi (half2 j t)"
    using width_halves(1,2,5) [OF assms(2-5)] width_halves(3,4,6) [OF assms(2-5), of j] assms(7) unfolding sized_kids [of lo hi "half1 t"] sized_kids [of lo hi "half2 j t"]
    by auto
  show ?thesis
  proof (cases fs)
    case Nil
    then show ?thesis using assms(1) halves by auto
  next
    case (Cons fr gs)
    obtain i sl ls sr rs where fr: "fr = (i, sl, ls, sr, rs)" by (cases fr)
    then show ?thesis using assms(1,6) halves by (auto simp: Cons fr)
  qed
qed

section \<open>Splitting up to the root\<close>

lemma flat_raise:
  assumes "raise pid fs (half1 t) s (half2 j t) = (fs', p)" "tall_frames h fs"
  shows "flat (plug fs' p) = left_of fs @ flat (half1 t) @ ESep s # flat (half2 j t) @ right_of fs"
proof (cases fs)
  case Nil
  then show ?thesis using assms(1) by auto
next
  case (Cons fr gs)
  obtain i sl ls sr rs where fr: "fr = (i, sl, ls, sr, rs)" by (cases fr)
  have p: "fs' = gs" "p = Br i (sl @ s # sr) (ls @ half1 t # half2 j t # rs)" using assms(1) by (simp_all add: Cons fr)
  have "flat p = before_seps (map flat ls) sl @ flat (half1 t) @ ESep s # flat (half2 j t) @ after_seps sr (map flat rs)"
    using assms(2) weave_mid [of "map flat ls" sl "flat (half1 t)" "flat (half2 j t) # map flat rs" "s # sr"] by (simp add: p Cons fr)
  moreover have "tall_frames (Suc h) gs" using assms(2) by (simp add: Cons fr)
  ultimately show ?thesis using flat_plug [of "Suc h" gs p] by (simp add: p(1) Cons fr)
qed

lemma split_all:
  assumes "bc_sort c = SFields fl" "plain_fields fl" "hi = max_vals c" "lo = min_vals c" "2 \<le> hi"
  shows "stands V st h (plug fs t) \<Longrightarrow> list_all good_frame fs \<Longrightarrow> nd V st (rid t) = Some node \<Longrightarrow> width t = Suc hi \<Longrightarrow>
    frames_fit lo hi fs \<Longrightarrow> (\<forall>u \<in> set (kids t). sized lo hi u) \<Longrightarrow> in_order ty fl (\<lambda>k. b_data V (JStr k) st) (flat (plug fs t)) \<Longrightarrow>
    length fs < k \<Longrightarrow>
    \<exists>st' h' T'. split k V c node st = Inr st' \<and> stands V st' h' T' \<and> fits lo hi T' \<and> h \<le> h' \<and> h' \<le> Suc h \<and>
      tkeys T' = tkeys (plug fs t) \<and> (\<forall>v. b_data V v st' = b_data V v st) \<and> in_order ty fl (\<lambda>k. b_data V (JStr k) st) (flat T')"
proof (induction "length fs" arbitrary: fs t st node k h rule: less_induct)
  case less
  let ?D = "\<lambda>k. b_data V (JStr k) st"
  obtain k' where k: "k = Suc k'" "length fs \<le> k'" using less.prems(8) by (cases k) auto
  have T: "tall h (plug fs t)" using less.prems(1) by (simp add: stands_def)
  note tf = tall_frames_plug [OF T less.prems(2)]
  have fl: "flat (plug fs t) = left_of fs @ flat t @ right_of fs" using flat_plug tf by blast
  have w: "2 \<le> width t" using less.prems(4) assms(5) by simp
  note nf = tshape_node [OF stands_at(1) [OF less.prems(1)] less.prems(3)]
  obtain s where s: "if bn_leaf node then pick c (b_data V (bn_vals node ! mid t) st) = Inr s else s = bn_vals node ! (mid t - 1)"
    and fs: "in_order ty fl ?D (left_of fs @ flat (half1 t) @ ESep s # flat (half2 j t) @ right_of fs)" for j
  proof (cases t)
    case (Lf i ks)
    have m: "mid t < length ks" using mid_bounds [OF w] by (simp add: Lf)
    have ks: "ks = take (mid t) ks @ ks ! mid t # drop (Suc (mid t)) ks" using m by (simp add: id_take_nth_drop)
    have d: "drop (mid t) ks = ks ! mid t # drop (Suc (mid t)) ks" using m by (simp add: Cons_nth_drop_Suc)
    have ord: "in_order ty fl ?D ((left_of fs @ map EKey (take (mid t) ks)) @ EKey (ks ! mid t) # (map EKey (drop (Suc (mid t)) ks) @ right_of fs))"
      using less.prems(7) arg_cong [OF ks, of "map EKey"] unfolding fl by (simp add: Lf)
    then have "e_ok ty fl ?D (EKey (ks ! mid t))" by (simp add: in_order_simps)
    then obtain s where "pick c (?D (ks ! mid t)) = Inr s" "sep_for fl ?D (ks ! mid t) s"
      using pick_sep [OF assms(1,2), of ?D "ks ! mid t"] by (auto simp: e_ok_def)
    then show thesis using that [of s] in_order_add_sep [OF ord] m d by (simp add: nf Lf)
  next
    case (Br i ss ts)
    have "flat (half1 t) @ ESep (ss ! (mid t - 1)) # flat (half2 j t) = flat t" for j
      using flat_halves [of "h - length fs" t j] tf w by (simp add: Br)
    then have "left_of fs @ flat (half1 t) @ ESep (ss ! (mid t - 1)) # flat (half2 j t) @ right_of fs = flat (plug fs t)" for j
      unfolding fl by (metis append_Cons append_assoc)
    with less.prems(7) have "in_order ty fl ?D (left_of fs @ flat (half1 t) @ ESep (ss ! (mid t - 1)) # flat (half2 j t) @ right_of fs)" for j
      by (simp only:)
    moreover have "\<not> bn_leaf node" "bn_vals node = ss" using nf by (simp_all add: Br)
    ultimately show thesis using that [of "ss ! (mid t - 1)"] by simp
  qed
  obtain j pid st' parent fs' p where o: "raise pid fs (half1 t) s (half2 j t) = (fs', p)"
    "split (Suc k') V c node st = (if is_over c parent 0 then split k' V c parent st' else Inr st')"
    "nd V st' pid = Some parent" "rid p = pid" "stands V st' (if fs = [] then Suc h else h) (plug fs' p)"
    "\<forall>v. b_data V v st' = b_data V v st"
    using split_once [OF less.prems(1,2) w less.prems(3) s, where k = k'] by (elim exE conjE) (rule that)
  have T': "tall (if fs = [] then Suc h else h) (plug fs' p)" using o(5) by (simp add: stands_def)
  have fl': "flat (plug fs' p) = left_of fs @ flat (half1 t) @ ESep s # flat (half2 j t) @ right_of fs"
    using flat_raise [OF o(1)] tf by blast
  have keys: "tkeys (plug fs' p) = tkeys (plug fs t)"
  proof -
    have "elem_keys (flat t) = elem_keys (flat (half1 t)) @ elem_keys (flat (half2 j t))"
      using arg_cong [OF flat_halves [of "h - length fs" t j], of elem_keys] tf w by (cases t) auto
    then show ?thesis by (simp add: tkeys_flat [OF T] tkeys_flat [OF T'] fl fl')
  qed
  have lo: "lo = (Suc hi + 1) div 2 - 1" using assms(3-5) by (simp add: max_vals_def min_vals_def)
  note fr = fits_raise [OF o(1) _ less.prems(4) assms(5) lo less.prems(5,6), of "h - length fs"]
  have pw: "length (bn_vals parent) = width p" using tshape_node(2) [OF stands_at(1) [OF o(5)]] o(3,4) by simp
  have over: "is_over c parent 0 \<longleftrightarrow> width p = Suc hi" using fr tf by (auto simp: is_over_def pw assms(3))
  show ?case
  proof (cases "width p = Suc hi")
    case False
    then have "fits_at lo hi fs' p"
      using fr tf unfolding fits_at_def fits_def sized_kids [of lo hi p] by (auto split: if_splits)
    then have "fits lo hi (plug fs' p)" by (simp only: fits_plug)
    then show ?thesis using o False over keys fs [of j] fl'
      by (intro exI [of _ st'] exI [of _ "if fs = [] then Suc h else h"] exI [of _ "plug fs' p"]) (simp add: k)
  next
    case True
    then have ne: "fs \<noteq> []" using fr tf assms(5) by auto
    then have len: "length fs' < length fs" using o(1) by (cases fs rule: up.cases) auto
    have "list_all good_frame fs'" using tall_raise [OF o(1) T less.prems(2) w] by simp
    from less.hyps [OF len o(5) this _ True, of parent k'] o(3,4,6) fr tf fs [of j] fl' len k(2) keys ne
    show ?thesis using o(2) over True by (simp add: k(1))
  qed
qed

section \<open>Insertion\<close>

text \<open>The specification: a key in its place in a sorted list.\<close>

fun place :: "(string \<times> string) list \<Rightarrow> (string \<Rightarrow> item) \<Rightarrow> string \<Rightarrow> string list \<Rightarrow> string list" where
  "place fl D key [] = [key]"
| "place fl D key (k # ks) = (if 0 \<le> comp_fields fl (D key) (D k) False then key # k # ks else k # place fl D key ks)"

lemma place_mid:
  assumes "\<And>k. k \<in> set as \<Longrightarrow> comp_fields fl (D key) (D k) False < 0"
    and "\<And>k. k \<in> set bs \<Longrightarrow> 0 \<le> comp_fields fl (D key) (D k) False"
  shows "place fl D key (as @ bs) = as @ key # bs"
  using assms
proof (induction as)
  case Nil
  then show ?case by (cases bs) auto
next
  case (Cons a as)
  have "comp_fields fl (D key) (D a) False < 0" using Cons.prems(1) [of a] by simp
  moreover have "place fl D key (as @ bs) = as @ key # bs" using Cons by simp
  ultimately show ?case by simp
qed

lemma insert_pos_split:
  assumes "bc_sort c = SFields fl"
  shows "\<exists>as bs. ks = as @ bs \<and> insert_pos V c x (map JStr ks) st = length as \<and>
     (\<forall>k \<in> set as. comp_fields fl x (b_data V (JStr k) st) False < 0) \<and>
     (bs \<noteq> [] \<longrightarrow> 0 \<le> comp_fields fl x (b_data V (JStr (hd bs)) st) False)"
proof (induction ks)
  case (Cons k ks)
  show ?case
  proof (cases "0 \<le> comp_fields fl x (b_data V (JStr k) st) False")
    case True
    then show ?thesis using assms by (intro exI [of _ "[]"] exI [of _ "k # ks"]) simp
  next
    case False
    obtain as bs where "ks = as @ bs" "insert_pos V c x (map JStr ks) st = length as"
      "\<forall>k \<in> set as. comp_fields fl x (b_data V (JStr k) st) False < 0"
      "bs \<noteq> [] \<longrightarrow> 0 \<le> comp_fields fl x (b_data V (JStr (hd bs)) st) False" using Cons by blast
    then show ?thesis using assms False by (intro exI [of _ "k # as"] exI [of _ bs]) simp
  qed
qed simp

text \<open>Two documents with different ids are never in the same place.\<close>

lemma comp_id_strict:
  assumes "''__id__'' \<in> fst ` set fl" "typed_item ty fl a" "typed_item ty fl b" "comp_fields fl a b False = 0"
  shows "it_key a = it_key b"
  using assms
proof (induction fl)
  case (Cons fd fl)
  obtain f d where fd: "fd = (f, d)" by (cases fd)
  have s: "sortable (ty f) (field_val f a)" "sortable (ty f) (field_val f b)" and t: "typed_item ty fl a" "typed_item ty fl b"
    using Cons.prems(2,3) by (simp_all add: fd typed_item_def)
  have z: "fcmp d False (field_val f a) (field_val f b) = 0" "comp_fields fl a b False = 0"
    using Cons.prems(4) unfolding fd comp_fields_fcmp Let_def by (auto split: if_splits)
  then have "field_val f a = field_val f b" using fcmp_laws(3) [OF s] by simp
  then show ?case using Cons.IH [OF _ t z(2)] Cons.prems(1) by (cases "f = ''__id__''") (auto simp: fd field_val_def)
qed simp

lemma in_order_insert:
  assumes "in_order ty fl D (ls @ rs)" "e_ok ty fl D (EKey key)"
    and "\<And>e. e \<in> set ls \<Longrightarrow> e_lt fl D e (D key)" "\<And>e. e \<in> set rs \<Longrightarrow> comp_fields fl (D key) (e_item D e) False = 1"
  shows "in_order ty fl D (ls @ EKey key # rs)"
  using assms by (simp add: in_order_simps)

lemma contents_order:
  assumes "contents V c ty fl ks"
  shows "in_order ty fl (doc V) (map EKey ks)"
proof -
  have "in_order ty fl D es \<Longrightarrow> in_order ty fl D (map EKey (elem_keys es))" for D es
  proof (induction es)
    case (Cons e es)
    then have "in_order ty fl D (map EKey (elem_keys es))" by (simp add: in_order_Cons)
    moreover have "\<forall>k \<in> set (elem_keys es). e_lt fl D e (e_item D (EKey k))"
      using Cons.prems by (auto simp: set_elem_keys in_order_Cons simp del: e_simps)
    ultimately show ?case using Cons.prems by (cases e) (auto simp: in_order_Cons)
  qed simp
  then show ?thesis using assms tkeys_flat by (fastforce simp: contents_def tree_ok_def stands_def)
qed

lemma insert_leaf_ok:
  assumes T: "tree_ok V [] c ty fl h T" and c: "bc_sort c = SFields fl" and id: "''__id__'' \<in> fst ` set fl"
    and new: "key \<notin> set (tkeys T)" and val: "doc V key = x" "e_ok ty fl (doc V) (EKey key)"
    and st: "st = put_data key (it_val x) []" and data: "\<And>k. b_data V (JStr k) st = doc V k"
    and at: "T = plug fs (Lf i ks)" "tall_frames 0 fs" "nd V st i = Some node"
      "\<forall>e \<in> set (left_of fs). e_lt fl (doc V) e x" "\<forall>e \<in> set (right_of fs). comp_fields fl x (e_item (doc V) e) False = 1"
  shows "\<exists>ks'. let T' = plug fs (Lf i ks') in ins_leaf V c key x node st = node\<lparr>bn_vals := map JStr ks'\<rparr> \<and> length ks' = Suc (length ks) \<and>
     stands V (put_node (node\<lparr>bn_vals := map JStr ks'\<rparr>) st) h T' \<and> in_order ty fl (doc V) (flat T') \<and>
     tkeys T' = place fl (doc V) key (tkeys T)"
proof -
  have s: "stands V st h T" "in_order ty fl (doc V) (flat T)" using T by (simp_all add: tree_ok_def st)
  then have tall: "tall h T" by (simp add: stands_def)
  have F: "flat (plug fs (Lf i ks')) = left_of fs @ map EKey ks' @ right_of fs" for ks' using flat_plug [OF at(2)] by simp
  have K: "tkeys (plug fs (Lf i ks')) = elem_keys (left_of fs) @ ks' @ elem_keys (right_of fs)" for ks'
    using tkeys_flat [of "length fs" "plug fs (Lf i ks')"] tall_plug [OF at(2), of "Lf i ks'"] F by simp
  have vals: "bn_vals node = map JStr ks"
    using tshape_node(5) [OF stands_at(1) [OF s(1) [unfolded at(1)]]] at(3) by simp
  obtain as bs where ab: "ks = as @ bs" "insert_pos V c x (map JStr ks) st = length as"
    "\<forall>k \<in> set as. comp_fields fl x (doc V k) False < 0" "bs \<noteq> [] \<longrightarrow> 0 \<le> comp_fields fl x (doc V (hd bs)) False"
    using insert_pos_split [OF c, of ks V x st] unfolding data by blast
  have xt: "typed_item ty fl x" using val by (simp add: e_ok_def)
  have ok: "typed_item ty fl (doc V k)" "it_key (doc V k) = JStr k" if "k \<in> set ks" for k
  proof -
    have "EKey k \<in> set (flat T)" using that by (simp add: at(1) F)
    then have "e_ok ty fl (doc V) (EKey k)" using in_order_ok [OF s(2)] by blast
    then show "typed_item ty fl (doc V k)" "it_key (doc V k) = JStr k" by (simp_all add: e_ok_def)
  qed
  have sign: "comp_fields fl x (doc V k) False \<in> {-1, 0, 1}" "comp_fields fl (doc V k) x False = - comp_fields fl x (doc V k) False"
    "comp_fields fl x (doc V k) False \<noteq> 0" if "k \<in> set ks" for k
  proof -
    show "comp_fields fl x (doc V k) False \<in> {-1, 0, 1}" "comp_fields fl (doc V k) x False = - comp_fields fl x (doc V k) False"
      using comp_order.cmp_range [of x ty fl "doc V k" False] comp_order.cmp_flip [of x ty fl "doc V k" False] xt ok [OF that] by simp_all
    have "it_key x \<noteq> it_key (doc V k)" using val ok(2) [OF that] new that by (auto simp: e_ok_def at(1) K)
    then show "comp_fields fl x (doc V k) False \<noteq> 0" using comp_id_strict [OF id xt ok(1) [OF that]] by blast
  qed
  have as: "comp_fields fl (doc V k) x False = 1" if "k \<in> set as" for k using sign [of k] ab(1,3) that by fastforce
  have bs: "comp_fields fl x (doc V k) False = 1" if k: "k \<in> set bs" for k
  proof -
    have "comp_fields fl x (doc V (hd bs)) False = 1" using sign [of "hd bs"] ab(1,4) k by (cases bs) auto
    moreover have "k = hd bs \<or> 0 \<le> comp_fields fl (doc V (hd bs)) (doc V k) False"
    proof (cases "k = hd bs")
      case False
      then obtain b bs' where bs: "bs = b # bs'" "k \<in> set bs'" using k by (cases bs) auto
      have "in_order ty fl (doc V) (map EKey bs)" using s(2) unfolding at(1) F ab(1) by (simp add: in_order_append)
      then have "\<forall>e \<in> set (map EKey bs'). e_lt fl (doc V) (EKey b) (e_item (doc V) e)" by (simp add: bs(1) in_order_Cons)
      then show ?thesis using bs by simp
    qed simp
    ultimately show ?thesis
      using comp_order.cmp_trans_lt [of x ty fl "doc V (hd bs)" "doc V k" False] xt ok ab(1) k by (cases bs) auto
  qed
  let ?ks = "as @ key # bs"
  have ins: "ins_leaf V c key x node st = node\<lparr>bn_vals := map JStr ?ks\<rparr>"
    by (simp add: ins_leaf_def vals ab(2) Let_def) (simp add: ab(1))
  have stands: "stands V (put_node (node\<lparr>bn_vals := map JStr ?ks\<rparr>) st) h (plug fs (Lf i ?ks))"
    using stands_vals [OF s(1) [unfolded at(1)] tall_good [OF at(2)], of node "Lf i ?ks"] at(3) by simp
  have order: "in_order ty fl (doc V) (flat (plug fs (Lf i ?ks)))"
  proof -
    have "in_order ty fl (doc V) ((left_of fs @ map EKey as) @ EKey key # (map EKey bs @ right_of fs))"
      by (rule in_order_insert) (use s(2) at(4,5) val as bs in \<open>auto simp: at(1) F ab(1)\<close>)
    then show ?thesis by (simp add: F)
  qed
  have "tkeys (plug fs (Lf i ?ks)) = place fl (doc V) key (tkeys T)"
  proof -
    have l: "comp_fields fl x (doc V k) False < 0" if "k \<in> set (elem_keys (left_of fs))" for k
    proof -
      have "EKey k \<in> set (left_of fs)" using that by (simp add: set_elem_keys)
      then have "comp_fields fl (doc V k) x False = 1" "typed_item ty fl (doc V k)"
        using at(4) in_order_ok [OF s(2), of "EKey k"] by (auto simp: at(1) F dest: e_ok_typed)
      then show ?thesis using comp_order.cmp_flip [of x ty fl "doc V k" False] xt by simp
    qed
    have r: "0 \<le> comp_fields fl x (doc V k) False" if "k \<in> set (elem_keys (right_of fs))" for k
      using that at(5) by (fastforce simp: set_elem_keys)
    have "place fl (doc V) key ((elem_keys (left_of fs) @ as) @ (bs @ elem_keys (right_of fs))) =
        (elem_keys (left_of fs) @ as) @ key # (bs @ elem_keys (right_of fs))"
      by (rule place_mid) (use l r ab(3) bs val(1) in auto)
    then show ?thesis by (simp add: K at(1) ab(1))
  qed
  then show ?thesis using ins stands order by (intro exI [of _ ?ks]) (simp add: ab(1) Let_def)
qed

lemma b_init_ok:
  assumes "empty_tree V" "1 \<le> max_vals c" "in_order ty fl (doc V) [EKey key]"
  shows "\<exists>i. tree_ok V (b_init V key (put_data key v [])) c ty fl 0 (Lf i [key])"
proof -
  define st where "st = put_data key v []"
  obtain m where m: "0 \<le> m" "new_id V st = (int_to_string m, b_put ''count'' (SCount m) st)"
  proof -
    have g: "b_get V ''count'' st = bv_get V ''count''" by (simp add: st_def b_get_def put_data_def data_key_def oput_def)
    consider "bv_get V ''count'' = None" | m where "0 \<le> m" "bv_get V ''count'' = Some (SCount m)"
      using assms(1) by (auto simp: empty_tree_def numbered_def b_get_def)
    then show thesis
    proof cases
      case 1
      then show ?thesis using that [of 0] g by (simp add: new_id_def)
    next
      case (2 m)
      then show ?thesis using that [of "m + 1"] g by (simp add: new_id_def Let_def)
    qed
  qed
  let ?i = "int_to_string m"
  let ?n = "\<lparr>bn_leaf = True, bn_id = ?i, bn_vals = [JStr key], bn_children = [], bn_parent = None, bn_next = None, bn_prev = None\<rparr>"
  let ?st = "set_root (Some ?i) (put_node ?n (b_put ''count'' (SCount m) st))"
  have b: "b_init V key st = ?st" by (simp add: b_init_def m(2))
  have nd: "nd V ?st = (nd V st)(?i \<mapsto> ?n)" using m(1) by simp
  have "numbered V (b_put ''count'' (SCount m) st) {?i}" using m(1) by (auto simp: numbered_def b_put_def b_get_oput)
  moreover have "keeps (b_put ''count'' (SCount m) st) (put_node ?n (b_put ''count'' (SCount m) st))" using m(1) by simp
  ultimately have "numbered V ?st {?i}" by (simp add: keeps_numbered)
  moreover have "shp (nd V ?st) ?i = Some (True, [JStr key], [], None)" "lnk (nd V ?st) ?i = Some (None, None)"
    unfolding nd by simp_all
  ultimately have "stands V ?st 0 (Lf ?i [key])" by (simp add: stands_def del: nd_root)
  then show ?thesis using assms(2,3) unfolding st_def [symmetric] b tree_ok_def by (intro exI [of _ ?i]) (simp add: fits_def)
qed

lemma insert_contents:
  assumes C: "contents V c ty fl ks" and c: "bc_sort c = SFields fl" "plain_fields fl" "''__id__'' \<in> fst ` set fl" "3 \<le> bc_order c"
    and new: "key \<notin> set ks" and val: "bv_data V key = val" "\<not> is_nil val" "typed_item ty fl \<lparr>it_key = JStr key, it_val = val\<rparr>"
    and n: "length ks < n"
  shows "\<exists>st. bpt_insert n V c key val = Inr (Some st) \<and> contents (commit_view V st) c ty fl (place fl (doc V) key ks)"
proof -
  let ?x = "\<lparr>it_key = JStr key, it_val = val\<rparr>" and ?st = "put_data key val []"
  have x: "doc V key = ?x" using val by (simp add: doc_def b_data_def)
  have data: "b_data V (JStr k) ?st = doc V k" for k
    using val by (simp add: doc_def b_data_def put_data_def data_key_def)
  have ok: "e_ok ty fl (doc V) (EKey key)" using val by (simp add: e_ok_def x)
  have hi: "2 \<le> max_vals c" "1 \<le> min_vals c" using c(4) by (simp_all add: max_vals_def min_vals_def)
  have ins: "bpt_insert n V c key val = rbind (search n V c (Some ?x) None ?st False) (\<lambda>m.
      case m of None \<Rightarrow> Inr (Some (b_init V key ?st))
      | Some node \<Rightarrow> (let node' = ins_leaf V c key ?x node ?st; st1 = put_node node' ?st
          in rbind (if is_over c node' 0 then split n V c node' st1 else Inr st1) (\<lambda>st2. Inr (Some st2))))"
  proof -
    have "(val = JNull) = False" using val(2) by auto
    then show ?thesis unfolding bpt_insert_def Let_def by (simp only: if_False)
  qed
  consider (empty) "ks = []" "empty_tree V" | (tree) h T where "tree_ok V [] c ty fl h T" "tkeys T = ks"
    using C by (auto simp: contents_def)
  then show ?thesis
  proof cases
    case empty
    obtain n' where "n = Suc n'" using n by (cases n) auto
    then have "search n V c (Some ?x) None ?st False = Inr None"
      using empty(2) by (simp add: empty_tree_def start_key_def b_root_def b_get_def put_data_def data_key_def oput_def)
    moreover obtain i where "tree_ok V (b_init V key ?st) c ty fl 0 (Lf i [key])"
      using b_init_ok [OF empty(2), of c ty fl key val] hi ok by (auto simp: in_order_Cons)
    then have "contents (commit_view V (b_init V key ?st)) c ty fl [key]"
      using tree_ok_commit by (fastforce simp: contents_def)
    ultimately show ?thesis using empty(1) by (simp add: ins)
  next
    case tree
    have st: "stands V ?st h T" "fits (min_vals c) (max_vals c) T" "in_order ty fl (doc V) (flat T)"
      using tree(1) by (simp_all add: tree_ok_def)
    have tall: "tall h T" and rep: "rep (shp (nd V ?st)) None T" and root: "b_root V ?st = Some (rid T)"
      using st(1) by (simp_all add: stands_def root_is_def)
    have h: "h < n" using fits_height [OF tall st(2) hi(2)] n tree(2) by simp
    obtain fs i lks node where s: "T = plug fs (Lf i lks)" "tall_frames 0 fs" "length fs = h"
      "search n V c (Some ?x) (Some (rid T)) ?st False = Inr (Some node)" "nd V ?st i = Some node"
      "\<forall>e \<in> set (left_of fs). e_lt fl (doc V) e ?x" "\<forall>e \<in> set (right_of fs). comp_fields fl ?x (e_item (doc V) e) False = 1"
      using search_leaf [OF c(1) val(3) rep tall st(3) h] by (elim exE conjE) (rule that)
    obtain ks' where k: "ins_leaf V c key ?x node ?st = node\<lparr>bn_vals := map JStr ks'\<rparr>" "length ks' = Suc (length lks)"
      "stands V (put_node (node\<lparr>bn_vals := map JStr ks'\<rparr>) ?st) h (plug fs (Lf i ks'))"
      "in_order ty fl (doc V) (flat (plug fs (Lf i ks')))" "tkeys (plug fs (Lf i ks')) = place fl (doc V) key ks"
      using insert_leaf_ok [OF tree(1) c(1,3) _ x ok _ data s(1,2) _ s(6,7)] new tree(2) s(5) by (auto simp: Let_def)
    let ?node = "node\<lparr>bn_vals := map JStr ks'\<rparr>"
    have id: "bn_id node = i" "\<not> reserved i" using nd_id [OF s(5)] by simp_all
    have d: "b_data V v (put_node ?node ?st) = b_data V v ?st" for v
      using keeps_data [of ?st "put_node ?node ?st"] id by simp
    have found: "search n V c (Some ?x) None ?st False = Inr (Some node)" using s(4) search_root [OF root] by simp
    have fr: "frames_fit (min_vals c) (max_vals c) fs" "length lks \<le> max_vals c" "if fs = [] then 1 \<le> length lks else min_vals c \<le> length lks"
      using st(2) unfolding s(1) fits_plug fits_at_def by (auto simp: fits_def split: if_splits)
    show ?thesis
    proof (cases "is_over c ?node 0")
      case False
      then have "fits_at (min_vals c) (max_vals c) fs (Lf i ks')" using fr k(2) by (auto simp: fits_at_def fits_def is_over_def)
      then have "tree_ok V (put_node ?node ?st) c ty fl h (plug fs (Lf i ks'))" using k by (simp add: tree_ok_def fits_plug)
      then have "contents (commit_view V (put_node ?node ?st)) c ty fl (place fl (doc V) key ks)"
        unfolding contents_def using tree_ok_commit k(5) by blast
      then show ?thesis using False by (simp add: ins found k(1))
    next
      case True
      then have w: "width (Lf i ks') = Suc (max_vals c)" using fr(2) k(2) by (simp add: is_over_def)
      have D: "(\<lambda>k. b_data V (JStr k) (put_node ?node ?st)) = doc V" by (rule ext) (simp only: d data)
      have nd: "nd V (put_node ?node ?st) (rid (Lf i ks')) = Some ?node" using id by simp
      obtain st' h' T' where r: "split n V c ?node (put_node ?node ?st) = Inr st'" "stands V st' h' T'"
        "fits (min_vals c) (max_vals c) T'" "tkeys T' = place fl (doc V) key ks" "in_order ty fl (doc V) (flat T')"
        using split_all [OF c(1,2) refl refl hi(1) k(3) tall_good [OF s(2)] nd w fr(1), of ty n] k(4,5) s(3) h unfolding D by auto
      then have "tree_ok V st' c ty fl h' T'" by (simp add: tree_ok_def)
      then have "contents (commit_view V st') c ty fl (place fl (doc V) key ks)"
        unfolding contents_def using tree_ok_commit r(4) by blast
      then show ?thesis using True r(1) by (simp add: ins found k(1))
    qed
  qed
qed

end
