(* ===== verification/Bpt_Contents.thy ===== *)
theory Bpt_Contents
  imports Bpt_Insert
begin

text \<open>
  Reading what a stored tree contains: without a start bound \<open>range\<close> finds the first leaf and lists the
  documents in the order of the tree.
\<close>

section \<open>The leaves of a stored tree\<close>

lemma search_first:
  "rep (shp (nd V st)) p t \<Longrightarrow> tall h t \<Longrightarrow> h < n \<Longrightarrow>
   \<exists>node. search n V c None (Some (rid t)) st False = Inr (Some node) \<and> nd V st (fst (hd (leaves t))) = Some node \<and> leaves t \<noteq> []"
proof (induction h arbitrary: t n p)
  case 0
  then obtain i ks where t: "t = Lf i ks" by (cases t) auto
  obtain n' where n: "n = Suc n'" using 0 by (cases n) auto
  obtain node where node: "nd V st i = Some node" "bn_leaf node" using 0(1) by (auto simp: t shp_def)
  then show ?case using nd_id [OF node(1)] by (simp add: t n start_key_def as_node_def)
next
  case (Suc h)
  then obtain i ss ts where t: "t = Br i ss ts" by (cases t) auto
  obtain n' where n: "n = Suc n'" "h < n'" using Suc.prems(3) by (cases n) auto
  obtain u us where ts: "ts = u # us" using Suc.prems(2) by (cases ts) (auto simp: t)
  obtain node where node: "nd V st i = Some node" "\<not> bn_leaf node" "bn_children node = rid u # map rid us"
    using Suc.prems(1) by (auto simp: t ts shp_def)
  have "rep (shp (nd V st)) (Some i) u" "tall h u" using Suc.prems by (simp_all add: t ts)
  from Suc.IH [OF this n(2)] obtain leaf where l: "search n' V c None (Some (rid u)) st False = Inr (Some leaf)"
    "nd V st (fst (hd (leaves u))) = Some leaf" "leaves u \<noteq> []" by blast
  have "child_pos c None False (bn_vals node) = Inr 0" by (cases "bn_vals node") simp_all
  then show ?case using l node nd_id [OF node(1)] by (simp add: t ts n start_key_def as_node_def nth_opt_def)
qed

lemma leaves_chain:
  assumes "linked (lnk (nd V st)) p (map fst ls)" "ls = (i, ks) # ls'" "nd V st i = Some node"
    and "\<And>i ks. (i, ks) \<in> set ls \<Longrightarrow> \<exists>q. shp (nd V st) i = Some (True, map JStr ks, [], q)"
  shows "\<exists>ms. leaf_chain V st node ms \<and> length ms = length ls' \<and> bn_vals node = map JStr ks \<and>
    concat (map bn_vals ms) = map JStr (concat (map snd ls'))"
  using assms
proof (induction ls' arbitrary: ls i ks node p)
  case Nil
  then show ?case by (intro exI [of _ "[]"]) (auto simp: lnk_def shp_def)
next
  case (Cons l ls')
  obtain j js where l: "l = (j, js)" by (cases l)
  have vals: "bn_vals node = map JStr ks" using Cons.prems(3) Cons.prems(4) [of i ks] by (auto simp: Cons.prems(2) shp_def)
  have link: "bn_next node = Some j" "linked (lnk (nd V st)) (Some i) (map fst ((j, js) # ls'))"
    using Cons.prems(1,3) unfolding Cons.prems(2) l by (simp_all add: lnk_def [of _ i])
  obtain m where m: "nd V st j = Some m" using Cons.prems(4) [of j js] by (auto simp: Cons.prems(2) l shp_def)
  have "\<And>i ks. (i, ks) \<in> set ((j, js) # ls') \<Longrightarrow> \<exists>q. shp (nd V st) i = Some (True, map JStr ks, [], q)"
    using Cons.prems(4) by (simp add: Cons.prems(2) l)
  from Cons.IH [OF link(2) refl m this] obtain ms where "leaf_chain V st m ms" "length ms = length ls'" "bn_vals m = map JStr js"
    "concat (map bn_vals ms) = map JStr (concat (map snd ls'))" by blast
  then show ?case using vals link(1) node_at_nd [OF m] by (intro exI [of _ "m # ms"]) (simp add: l)
qed

lemma leaves_bound: "tall h t \<Longrightarrow> sized lo hi t \<Longrightarrow> 1 \<le> lo \<Longrightarrow> length (leaves t) \<le> length (tkeys t)"
proof (induction h t rule: tall.induct)
  case (3 h i ss ts)
  have "(\<And>t. t \<in> set ts \<Longrightarrow> length (leaves t) \<le> length (tkeys t)) \<Longrightarrow>
      length (concat (map leaves ts)) \<le> length (concat (map tkeys ts))" for ts
    by (induction ts) (auto intro: add_mono)
  with 3 show ?case by simp
qed auto

lemma fits_leaves:
  assumes "tall h t" "fits lo hi t" "1 \<le> lo"
  shows "length (leaves t) \<le> length (tkeys t)"
proof (cases t)
  case (Br i ss ts)
  then have "sized 1 hi t" using assms by (auto simp: fits_def intro: sized_mono)
  then show ?thesis using leaves_bound assms(1) by blast
qed (use assms in \<open>auto simp: fits_def Suc_le_eq\<close>)

lemma range_contents:
  assumes "contents V c ty fl ks" "3 \<le> bc_order c" "length ks < n"
    and "is_nil (ro_startAt opt)" "is_nil (ro_startAfter opt)" "\<not> ro_reverse opt" "ro_limit opt = Some l" "0 < l" "l \<le> 1000"
  shows "bpt_range n V c opt = Inr (take (nat l) (takeWhile (\<lambda>x. \<not> past_end c opt x) (map (doc V) ks)))"
proof -
  have opt: "range_limit opt = opt" using assms(7,9) by (simp add: range_limit_def)
  have nil: "is_nil (nullish (ro_startAt opt) (ro_startAfter opt))" using assms(4,5) by (simp add: nullish_def)
  have start: "range_start n V c opt = rbind (search n V c None None [] False) (\<lambda>m. case m of None \<Rightarrow> Inr None
      | Some first \<Rightarrow> Inr (Some (Some 0, first)))"
    using assms(4-6) nil by (simp add: range_start_def Let_def cong: option.case_cong)
  consider (empty) "ks = []" "empty_tree V" | (tree) h T where "tree_ok V [] c ty fl h T" "tkeys T = ks"
    using assms(1) by (auto simp: contents_def)
  then show ?thesis
  proof cases
    case empty
    obtain n' where "n = Suc n'" using assms(3) by (cases n) auto
    then have "search n V c None None [] False = Inr None"
      using empty(2) by (simp add: empty_tree_def start_key_def b_root_def b_get_def)
    then show ?thesis by (simp add: bpt_range_def opt start empty(1))
  next
    case tree
    have st: "stands V [] h T" "fits (min_vals c) (max_vals c) T" using tree(1) by (simp_all add: tree_ok_def)
    have T: "tall h T" "rep (shp (nd V [])) None T" "b_root V [] = Some (rid T)" "linked (lnk (nd V [])) None (level h T)"
      using st(1) by (simp_all add: stands_def root_is_def)
    have lo: "1 \<le> min_vals c" using assms(2) by (simp add: min_vals_def)
    have h: "h < n" using fits_height [OF T(1) st(2) lo] tree(2) assms(3) by simp
    obtain node where s: "search n V c None (Some (rid T)) [] False = Inr (Some node)" "nd V [] (fst (hd (leaves T))) = Some node"
      "leaves T \<noteq> []" using search_first [OF T(2,1) h] by blast
    obtain i ks1 ls where ls: "leaves T = (i, ks1) # ls" using s(3) by (cases "leaves T") auto
    obtain ms where ms: "leaf_chain V [] node ms" "length ms = length ls" "bn_vals node = map JStr ks1"
      "concat (map bn_vals ms) = map JStr (concat (map snd ls))"
      using leaves_chain [OF T(4) [unfolded leaves_level [OF T(1)]] ls] s(2) rep_leaves [OF T(2)] ls by auto
    have keys: "bn_vals node @ concat (map bn_vals ms) = map JStr ks"
      using tkeys_leaves [of T] tree(2) by (simp add: ms ls)
    have "length ms < n" using fits_leaves [OF T(1) st(2) lo] tree(2) assms(3) by (simp add: ms(2) ls)
    then have "getVals n V c node [] 0 opt [] = Inr (take (nat l) (takeWhile (\<lambda>x. \<not> past_end c opt x) (leaf_items V [] (map JStr ks))))"
      using getVals_chain [OF assms(7) ms(1), of n "[]" c 0] assms(8) keys by simp
    moreover have "leaf_items V [] (map JStr ks) = map (doc V) ks" by (simp add: leaf_items_def doc_def)
    ultimately show ?thesis using s(1) search_root [OF T(3)] assms(6) by (simp add: bpt_range_def opt start)
  qed
qed

section \<open>A concrete tree\<close>

text \<open>The tree of three documents \<open>c\<close> (no age), \<open>a\<close> (20), \<open>b\<close> (30), and a document \<open>d\<close> (25) that is not in it yet.\<close>

definition demo_store :: bview where
  "demo_store = demo_view\<lparr>bv_get := (bv_get demo_view)(''count'' \<mapsto> SCount 2),
     bv_data := (bv_data demo_view)(''d'' := JObj [(''age'', JNum 25)])\<rparr>"

definition demo_tree :: bt where
  "demo_tree = Br ''2'' [JObj [(''age'', JNum 30), (''__id__'', JStr ''b'')]] [Lf ''0'' [''c'', ''a''], Lf ''1'' [''b'']]"

lemma demo_nd:
  "nd demo_store [] ''0'' = Some demo_leaf1" "nd demo_store [] ''1'' = Some demo_leaf2" "nd demo_store [] ''2'' = Some demo_root"
  by (simp_all add: nd_def reserved_def starts_with_def b_get_def demo_store_def demo_view_def demo_leaf1_def demo_leaf2_def demo_root_def)

lemma demo_digits: "int_to_string 0 = ''0''" "int_to_string 1 = ''1''" "int_to_string 2 = ''2''"
  by code_simp+

lemma demo_docs:
  "doc demo_store ''a'' = \<lparr>it_key = JStr ''a'', it_val = JObj [(''age'', JNum 20)]\<rparr>"
  "doc demo_store ''b'' = \<lparr>it_key = JStr ''b'', it_val = JObj [(''age'', JNum 30)]\<rparr>"
  "doc demo_store ''c'' = \<lparr>it_key = JStr ''c'', it_val = JObj []\<rparr>"
  "doc demo_store ''d'' = \<lparr>it_key = JStr ''d'', it_val = JObj [(''age'', JNum 25)]\<rparr>"
  by (simp_all add: doc_def b_data_def demo_store_def demo_view_def)

lemma demo_stands: "stands demo_store [] 1 demo_tree"
proof -
  have "numbered demo_store [] {''2'', ''0'', ''1''}"
    unfolding numbered_def using demo_digits
    by (auto simp: b_get_def demo_store_def intro: exI [of _ 0] exI [of _ 1] exI [of _ 2])
  moreover have "root_is demo_store [] ''2''" by (simp add: root_is_def b_root_def b_get_def demo_store_def demo_view_def)
  moreover have "rep (shp (nd demo_store [])) None demo_tree"
    by (simp add: demo_tree_def shp_def demo_nd) (simp add: demo_leaf1_def demo_leaf2_def demo_root_def)
  moreover have "linked (lnk (nd demo_store [])) None (level d demo_tree)" if "d \<le> 1" for d
  proof -
    have "level 0 demo_tree = [''2'']" "level 1 demo_tree = [''0'', ''1'']" by (simp_all add: demo_tree_def)
    then show ?thesis using that
      by (cases "d = 0") (simp_all add: le_Suc_eq lnk_def demo_nd, simp_all add: demo_leaf1_def demo_leaf2_def demo_root_def)
  qed
  ultimately show ?thesis by (simp add: stands_def demo_tree_def)
qed

lemma demo_contents: "contents demo_store demo_cfg demo_ty demo_fs [''c'', ''a'', ''b'']"
proof -
  let ?b = "JObj [(''age'', JNum 30), (''__id__'', JStr ''b'')]"
  have flat: "flat demo_tree = [EKey ''c'', EKey ''a'', ESep ?b, EKey ''b'']" by (simp add: demo_tree_def)
  have ok: "e_ok demo_ty demo_fs (doc demo_store) (EKey ''c'')" "e_ok demo_ty demo_fs (doc demo_store) (EKey ''a'')"
    "e_ok demo_ty demo_fs (doc demo_store) (EKey ''b'')" "e_ok demo_ty demo_fs (doc demo_store) (ESep ?b)"
    by (simp_all add: e_ok_def demo_docs demo_typed) (simp add: bound_item_def Let_def typed_item_def demo_defs field_val_def sortable_def)
  have "in_order demo_ty demo_fs (doc demo_store) (flat demo_tree)"
    unfolding flat by (simp add: in_order_Cons ok)
      (simp add: demo_docs demo_fs_def bound_item_def field_val_def compArr_def to_arr_def Let_def desc_sign_def js_lt_def)
  moreover have "fits (min_vals demo_cfg) (max_vals demo_cfg) demo_tree"
    by (simp add: fits_def demo_tree_def demo_cfg_def min_vals_def max_vals_def)
  moreover have "tkeys demo_tree = [''c'', ''a'', ''b'']" by (simp add: demo_tree_def)
  ultimately show ?thesis using demo_stands unfolding contents_def tree_ok_def by blast
qed

lemma demo_place: "place demo_fs (doc demo_store) ''d'' [''c'', ''a'', ''b''] = [''c'', ''a'', ''d'', ''b'']"
  by (simp add: demo_docs demo_fs_def field_val_def compArr_def to_arr_def Let_def desc_sign_def js_lt_def)

section \<open>Properties\<close>

text \<open>
  C20. Insertion refines the insertion into a sorted list. Whatever tree the nodes in the store form, inserting
  a new document leaves nodes that form a tree again (the parent and neighbour links, the sizes and the depth
  of every node right) and that hold the sorted list of keys with the new one in its place; it returns
  within as many calls as there are keys, and one.
\<close>

theorem insert_refines:
  assumes "contents V c ty fl ks" "bc_sort c = SFields fl" "plain_fields fl" "''__id__'' \<in> fst ` set fl" "3 \<le> bc_order c"
    and "key \<notin> set ks" "bv_data V key = val" "\<not> is_nil val" "typed_item ty fl \<lparr>it_key = JStr key, it_val = val\<rparr>"
  shows "\<exists>st. bpt_insert (Suc (length ks)) V c key val = Inr (Some st) \<and>
    contents (commit_view V st) c ty fl (place fl (doc V) key ks)"
  by (rule insert_contents [OF assms]) simp

theorem insert_refines_witness:
  "\<exists>st. bpt_insert 4 demo_store demo_cfg ''d'' (JObj [(''age'', JNum 25)]) = Inr (Some st) \<and>
     contents (commit_view demo_store st) demo_cfg demo_ty demo_fs [''c'', ''a'', ''d'', ''b'']"
proof -
  have "bc_sort demo_cfg = SFields demo_fs" "plain_fields demo_fs" "''__id__'' \<in> fst ` set demo_fs" "3 \<le> bc_order demo_cfg"
    by (simp_all add: demo_cfg_def demo_fs_def plain_fields_def)
  from insert_refines [OF demo_contents this, of "''d''" "JObj [(''age'', JNum 25)]"] show ?thesis
    unfolding demo_place by (simp add: demo_typed) (simp add: demo_store_def numeral_eq_Suc)
qed

text \<open>
  C31. \<open>range\<close> without a start bound lists the documents of a stored tree in the order of the tree, up to the end
  bound and the limit.
\<close>

theorem range_lists:
  assumes "contents V c ty fl ks" "3 \<le> bc_order c" "is_nil (ro_startAt opt)" "is_nil (ro_startAfter opt)" "\<not> ro_reverse opt"
    and "ro_limit opt = Some l" "0 < l" "l \<le> 1000"
  shows "bpt_range (Suc (length ks)) V c opt = Inr (take (nat l) (takeWhile (\<lambda>x. \<not> past_end c opt x) (map (doc V) ks)))"
  by (rule range_contents [OF assms(1,2) _ assms(3-8)]) simp

theorem range_lists_witness:
  "bpt_range 4 demo_store demo_cfg \<lparr>ro_limit = Some 2, ro_startAt = JUndef, ro_startAfter = JUndef, ro_endAt = JUndef,
     ro_endBefore = JUndef, ro_reverse = False\<rparr> = Inr [doc demo_store ''c'', doc demo_store ''a'']"
  using range_lists [OF demo_contents, of "\<lparr>ro_limit = Some 2, ro_startAt = JUndef, ro_startAfter = JUndef, ro_endAt = JUndef,
     ro_endBefore = JUndef, ro_reverse = False\<rparr>" 2]
  by (simp add: demo_cfg_def past_end_def numeral_eq_Suc)

end
