(* ===== verification/Md5.thy ===== *)
theory Md5
  imports Js_Value "HOL-Library.Word"
begin

text \<open>
  The digest that names array elements in index keys, \<open>core/src/md5.js\<close>. JavaScript's bitwise
  operators work on 32-bit integers; the helpers keep the code's one-letter names with a suffix.
\<close>

unbundle bit_operations_syntax

section \<open>Words\<close>

text \<open>Addition without overflow of a double: the two top bits are added by hand.\<close>

definition h_add :: "32 word \<Rightarrow> 32 word \<Rightarrow> 32 word" where
  "h_add a b =
     (let e = a AND 2147483648;
          f = b AND 2147483648;
          c = a AND 1073741824;
          d = b AND 1073741824;
          g = (a AND 1073741823) + (b AND 1073741823)
      in if c AND d \<noteq> 0 then g XOR 2147483648 XOR e XOR f
         else if c OR d \<noteq> 0 then
           (if g AND 1073741824 \<noteq> 0 then g XOR 3221225472 XOR e XOR f
            else g XOR 1073741824 XOR e XOR f)
         else g XOR e XOR f)"

definition rotl_js :: "32 word \<Rightarrow> nat \<Rightarrow> 32 word" where
  "rotl_js a f = push_bit f a OR drop_bit (32 - f) a"

datatype md5_round = Rd_k | Rd_l | Rd_m | Rd_n

text \<open>\<open>k\<close>, \<open>l\<close>, \<open>m\<close>, \<open>n\<close>: one step, on the registers in the order of the call.\<close>

fun md5_mix :: "md5_round \<Rightarrow> 32 word \<Rightarrow> 32 word \<Rightarrow> 32 word \<Rightarrow> 32 word" where
  "md5_mix Rd_k b c d = (b AND c) OR (NOT b AND d)"
| "md5_mix Rd_l b c d = (b AND d) OR (c AND NOT d)"
| "md5_mix Rd_m b c d = b XOR c XOR d"
| "md5_mix Rd_n b c d = c XOR (b OR NOT d)"

definition md5_step :: "md5_round \<Rightarrow> 32 word \<Rightarrow> 32 word \<Rightarrow> 32 word \<Rightarrow> 32 word \<Rightarrow> 32 word \<Rightarrow> nat \<Rightarrow> 32 word
    \<Rightarrow> 32 word" where
  "md5_step r a b c d e f g =
     h_add (rotl_js (h_add a (h_add (h_add (md5_mix r b c d) e) g)) f) b"

section \<open>Text\<close>

text \<open>\<open>p(a)\<close>: eight hexadecimal digits, least significant byte first.\<close>

definition hex_byte :: "nat \<Rightarrow> string" where
  "hex_byte d = [hex_digit (d div 16), hex_digit (d mod 16)]"

definition md5_hex :: "32 word \<Rightarrow> string" where
  "md5_hex a = concat (map (\<lambda>c. hex_byte (unat (drop_bit (8 * c) a AND 255))) [0, 1, 2, 3])"

text \<open>The line ends are unified and the code units encoded in UTF-8.\<close>

fun md5_crlf :: "string \<Rightarrow> string" where
  "md5_crlf (a # b # s) =
     (if a = CHR 0x0D \<and> b = CHR 0x0A then CHR 0x0A # md5_crlf s else a # md5_crlf (b # s))"
| "md5_crlf s = s"

definition md5_utf8 :: "string \<Rightarrow> nat list" where
  "md5_utf8 s =
     concat (map (\<lambda>ch. let c = of_char ch in
        if c < 128 then [c] else [(c div 64) + 192, (c mod 64) + 128]) (md5_crlf s))"

text \<open>The words of the padded message: the byte \<open>0x80\<close>, zeros, the length in bits.\<close>

definition le_word :: "nat list \<Rightarrow> 32 word" where
  "le_word bs = foldr (\<lambda>b w. of_nat b OR push_bit 8 w) bs 0"

definition md5_words :: "nat list \<Rightarrow> 32 word list" where
  "md5_words bs =
     (let c = length bs;
          a = c + 8;
          d = 16 * (a div 64 + 1);
          padded = bs @ [128];
          body = map (\<lambda>i. le_word (take 4 (drop (4 * i) padded))) [0..<d - 2]
      in body @ [push_bit 3 (of_nat c), drop_bit 29 (of_nat c)])"

section \<open>The rounds\<close>

text \<open>The 64 calls: round, index of the word, shift, constant.\<close>

definition md5_table :: "(md5_round \<times> nat \<times> nat \<times> 32 word) list" where
  "md5_table =
    [(Rd_k, 0, 7, 3614090360), (Rd_k, 1, 12, 3905402710), (Rd_k, 2, 17, 606105819), (Rd_k, 3, 22, 3250441966),
     (Rd_k, 4, 7, 4118548399), (Rd_k, 5, 12, 1200080426), (Rd_k, 6, 17, 2821735955), (Rd_k, 7, 22, 4249261313),
     (Rd_k, 8, 7, 1770035416), (Rd_k, 9, 12, 2336552879), (Rd_k, 10, 17, 4294925233), (Rd_k, 11, 22, 2304563134),
     (Rd_k, 12, 7, 1804603682), (Rd_k, 13, 12, 4254626195), (Rd_k, 14, 17, 2792965006), (Rd_k, 15, 22, 1236535329),
     (Rd_l, 1, 5, 4129170786), (Rd_l, 6, 9, 3225465664), (Rd_l, 11, 14, 643717713), (Rd_l, 0, 20, 3921069994),
     (Rd_l, 5, 5, 3593408605), (Rd_l, 10, 9, 38016083), (Rd_l, 15, 14, 3634488961), (Rd_l, 4, 20, 3889429448),
     (Rd_l, 9, 5, 568446438), (Rd_l, 14, 9, 3275163606), (Rd_l, 3, 14, 4107603335), (Rd_l, 8, 20, 1163531501),
     (Rd_l, 13, 5, 2850285829), (Rd_l, 2, 9, 4243563512), (Rd_l, 7, 14, 1735328473), (Rd_l, 12, 20, 2368359562),
     (Rd_m, 5, 4, 4294588738), (Rd_m, 8, 11, 2272392833), (Rd_m, 11, 16, 1839030562), (Rd_m, 14, 23, 4259657740),
     (Rd_m, 1, 4, 2763975236), (Rd_m, 4, 11, 1272893353), (Rd_m, 7, 16, 4139469664), (Rd_m, 10, 23, 3200236656),
     (Rd_m, 13, 4, 681279174), (Rd_m, 0, 11, 3936430074), (Rd_m, 3, 16, 3572445317), (Rd_m, 6, 23, 76029189),
     (Rd_m, 9, 4, 3654602809), (Rd_m, 12, 11, 3873151461), (Rd_m, 15, 16, 530742520), (Rd_m, 2, 23, 3299628645),
     (Rd_n, 0, 6, 4096336452), (Rd_n, 7, 10, 1126891415), (Rd_n, 14, 15, 2878612391), (Rd_n, 5, 21, 4237533241),
     (Rd_n, 12, 6, 1700485571), (Rd_n, 3, 10, 2399980690), (Rd_n, 10, 15, 4293915773), (Rd_n, 1, 21, 2240044497),
     (Rd_n, 8, 6, 1873313359), (Rd_n, 15, 10, 4264355552), (Rd_n, 6, 15, 2734768916), (Rd_n, 13, 21, 1309151649),
     (Rd_n, 4, 6, 4149444226), (Rd_n, 11, 10, 3174756917), (Rd_n, 2, 15, 718787259), (Rd_n, 9, 21, 3951481745)]"

text \<open>After a call the registers rotate: the next call is for the last register.\<close>

definition md5_block :: "32 word list \<Rightarrow> 32 word \<times> 32 word \<times> 32 word \<times> 32 word
    \<Rightarrow> 32 word \<times> 32 word \<times> 32 word \<times> 32 word" where
  "md5_block ws = (\<lambda>(q, r, s, t).
     let (a, b, c, d) =
           foldl (\<lambda>(a, b, c, d) (rd, i, f, g). (d, md5_step rd a b c d (ws ! i) f g, b, c))
             (q, r, s, t) md5_table
     in (h_add a q, h_add b r, h_add c s, h_add d t))"

fun md5_loop :: "32 word list \<Rightarrow> 32 word \<times> 32 word \<times> 32 word \<times> 32 word
    \<Rightarrow> 32 word \<times> 32 word \<times> 32 word \<times> 32 word" where
  "md5_loop [] st = st"
| "md5_loop (w # ws) st = md5_loop (drop 15 ws) (md5_block (take 16 (w # ws)) st)"

definition md5 :: "string \<Rightarrow> string" where
  "md5 e =
     (let (a, b, c, d) =
        md5_loop (md5_words (md5_utf8 e)) (1732584193, 4023233417, 2562383102, 271733878)
      in md5_hex a @ md5_hex b @ md5_hex c @ md5_hex d)"

section \<open>Lemmas\<close>

lemma xor_exp_set:
  fixes x :: "32 word"
  assumes "bit x n" shows "x XOR push_bit n 1 = x - push_bit n 1"
proof -
  have "NOT x AND push_bit n 1 = 0"
    using assms by (intro bit_word_eqI) (auto simp: bit_simps simp del: push_bit_of_1)
  then show ?thesis
    by (simp only: disjunctive_and_not_eq_xor [symmetric] disjunctive_diff_eq_and_not)
qed

lemma xor_exp_unset:
  fixes x :: "32 word"
  assumes "\<not> bit x n" shows "x XOR push_bit n 1 = x + push_bit n 1"
proof -
  have "x AND push_bit n 1 = 0"
    using assms by (intro bit_word_eqI) (auto simp: bit_simps simp del: push_bit_of_1)
  then show ?thesis by (simp only: disjunctive_add_eq_xor)
qed

lemma xor_sign: "x XOR 2147483648 = x + (2147483648 :: 32 word)"
proof -
  have "push_bit 31 1 = (2147483648 :: 32 word)" by simp
  then show ?thesis using xor_exp_set [of x 31] xor_exp_unset [of x 31] by (cases "bit x 31") simp_all
qed

lemma and_exp_iff: "x AND push_bit n 1 = (if bit x n then push_bit n 1 else (0 :: 32 word))"
  by (intro bit_word_eqI) (auto simp: bit_simps simp del: push_bit_of_1)

lemma and_bits: 
  "x AND 1073741824 = (if bit x 30 then 1073741824 else (0 :: 32 word))"
  "x AND 2147483648 = (if bit x 31 then 2147483648 else (0 :: 32 word))"
  using and_exp_iff [of x 30] and_exp_iff [of x 31] by simp_all

lemma xor_carry: "bit x 30 \<Longrightarrow> x XOR 3221225472 = x + (1073741824 :: 32 word)"
  "\<not> bit x 30 \<Longrightarrow> x XOR 1073741824 = x + (1073741824 :: 32 word)"
proof -
  have e: "push_bit 30 1 = (1073741824 :: 32 word)" by simp
  have "x XOR 3221225472 = (x XOR 1073741824) XOR (2147483648 :: 32 word)"
    by (simp only: xor.assoc) simp
  then show "x XOR 3221225472 = x + 1073741824" if "bit x 30"
    using xor_exp_set [OF that] unfolding e by (simp add: xor_sign)
  show "x XOR 1073741824 = x + 1073741824" if "\<not> bit x 30"
    using xor_exp_unset [OF that] unfolding e .
qed

lemma word_split_30:
  "x = (x AND 1073741823) + (x AND 1073741824) + (x AND (2147483648 :: 32 word))"
proof -
  have m: "(1073741823 :: 32 word) = mask 30" "(1073741824 :: 32 word) = push_bit 30 1"
    "(2147483648 :: 32 word) = push_bit 31 1" by (simp_all add: mask_eq_exp_minus_1)
  have no30: "\<not> bit (mask 30 :: 32 word) 30" "\<not> bit (push_bit 30 1 :: 32 word) n" if "n < 30" for n
    using that by (auto simp: bit_simps simp del: push_bit_of_1)
  have "(x AND mask 30) + (x AND push_bit 30 1) = (x AND mask 30) OR (x AND push_bit 30 1)"
    by (rule disjunctive_add_eq_or) (intro bit_word_eqI, auto simp: bit_simps simp del: push_bit_of_1)
  moreover have "((x AND mask 30) OR (x AND push_bit 30 1)) + (x AND push_bit 31 1) =
      ((x AND mask 30) OR (x AND push_bit 30 1)) OR (x AND push_bit 31 1)"
    by (rule disjunctive_add_eq_or) (intro bit_word_eqI, auto simp: bit_simps simp del: push_bit_of_1)
  moreover have "((x AND mask 30) OR (x AND push_bit 30 1)) OR (x AND push_bit 31 1) = x"
  proof (rule bit_word_eqI)
    fix n assume "n < LENGTH(32)"
    then consider "n < 30" | "n = 30" | "n = 31" by fastforce
    then show "bit (((x AND mask 30) OR (x AND push_bit 30 1)) OR (x AND push_bit 31 1)) n = bit x n"
      by cases (auto simp: bit_simps simp del: push_bit_of_1)
  qed
  ultimately show ?thesis unfolding m by simp
qed

lemma xor_signs:
  fixes x :: "32 word"
  shows "x XOR (if p then 2147483648 else 0) XOR (if q then 2147483648 else 0) =
      x + (if p then 2147483648 else 0) + (if q then 2147483648 else 0)"
    and "x XOR c XOR (if p then 2147483648 else 0) XOR (if q then 2147483648 else 0) =
      (x XOR c) + (if p then 2147483648 else 0) + (if q then 2147483648 else 0)"
proof -
  show *: "x XOR (if p then 2147483648 else 0) XOR (if q then 2147483648 else 0) =
      x + (if p then 2147483648 else 0) + (if q then 2147483648 else 0)" for x :: "32 word"
    unfolding xor.assoc [symmetric] by (cases p; cases q) (simp_all only: if_True if_False xor_sign xor.right_neutral add_0_right)
  show "x XOR c XOR (if p then 2147483648 else 0) XOR (if q then 2147483648 else 0) =
      (x XOR c) + (if p then 2147483648 else 0) + (if q then 2147483648 else 0)"
    using * [of "x XOR c"] by (simp only: xor.assoc)
qed

lemma carry_tests:
  "(x AND 1073741824) AND (y AND 1073741824) \<noteq> (0 :: 32 word) \<longleftrightarrow> bit x 30 \<and> bit y 30"
  "(x AND 1073741824) OR (y AND 1073741824) \<noteq> (0 :: 32 word) \<longleftrightarrow> bit x 30 \<or> bit y 30"
  "x AND 1073741824 \<noteq> (0 :: 32 word) \<longleftrightarrow> bit x 30"
  unfolding and_bits by (cases "bit x 30"; cases "bit y 30"; simp)+

lemma h_add_plus: "h_add a b = a + b"
proof -
  define g where "g = (a AND 1073741823) + (b AND 1073741823)"
  define E where "E = (if bit a 31 then 2147483648 else (0 :: 32 word))"
  define F where "F = (if bit b 31 then 2147483648 else (0 :: 32 word))"
  let ?ca = "if bit a 30 then 1073741824 else (0 :: 32 word)" and ?cb = "if bit b 30 then 1073741824 else (0 :: 32 word)"
  have "a + b = ((a AND 1073741823) + ?ca + E) + ((b AND 1073741823) + ?cb + F)"
    by (rule arg_cong2 [where f = "(+)"], unfold E_def F_def)
      (rule word_split_30 [of a, unfolded and_bits], rule word_split_30 [of b, unfolded and_bits])
  then have sum: "a + b = g + ?ca + ?cb + E + F"
    by (simp only: g_def ac_simps)
  have "h_add a b =
      (if bit a 30 \<and> bit b 30 then (g XOR 2147483648) + E + F
       else if bit a 30 \<or> bit b 30 then
         (if bit g 30 then (g XOR 3221225472) + E + F else (g XOR 1073741824) + E + F)
       else g + E + F)"
    unfolding h_add_def Let_def carry_tests g_def [symmetric] unfolding and_bits xor_signs(2)
    unfolding xor_signs(1) E_def F_def ..
  also have "\<dots> = g + (if bit a 30 then 1073741824 else 0) + (if bit b 30 then 1073741824 else 0) + E + F"
    by (cases "bit a 30"; cases "bit b 30"; cases "bit g 30") (simp_all add: xor_carry xor_sign)
  finally show ?thesis by (simp only: sum)
qed

lemma length_md5_hex [simp]: "length (md5_hex a) = 8"
  by (simp add: md5_hex_def hex_byte_def)

text \<open>The message fills whole blocks of sixteen words.\<close>

lemma md5_words_blocks: "length (md5_words bs) = 16 * ((length bs + 8) div 64 + 1)"
  by (simp add: md5_words_def Let_def)

definition hex_chars :: string where
  "hex_chars = ''0123456789abcdef''"

lemma hex_digits: "map hex_digit [0..<16] = hex_chars"
  by code_simp

lemma hex_digit_chars: "d < 16 \<Longrightarrow> hex_digit d \<in> set hex_chars"
  unfolding hex_digits [symmetric] by simp

lemma md5_hex_chars: "set (md5_hex a) \<subseteq> set hex_chars"
proof -
  have "unat (x AND 255) < 256" for x :: "32 word"
  proof -
    have "(255 :: 32 word) = mask 8" by (simp add: mask_eq_exp_minus_1)
    then show ?thesis using and_mask_less' [of 8 x] by (simp add: word_less_nat_alt)
  qed
  then have "set (hex_byte (unat (x AND 255))) \<subseteq> set hex_chars" for x :: "32 word"
    by (simp add: hex_byte_def hex_digit_chars less_mult_imp_div_less)
  then show ?thesis unfolding md5_hex_def by (auto simp del: and_mask_bintr)
qed

section \<open>Properties\<close>

text \<open>The hand-written addition, which splits off the two top bits to stay inside 31-bit sums, is
  addition modulo \<open>2 ^ 32\<close> for all arguments.\<close>

theorem h_add_is_plus: "h_add a b = a + b"
  by (rule h_add_plus)

text \<open>The digest of every text is 32 lower-case hexadecimal digits, so it holds neither the \<open>/\<close> nor
  the \<open>:\<close> by which index keys are split.\<close>

theorem md5_digest_chars: "length (md5 e) = 32 \<and> set (md5 e) \<subseteq> set hex_chars"
  unfolding md5_def Let_def split_def by (simp add: md5_hex_chars)

end
