(* ===== verification/Indexer.thy ===== *)
theory Indexer
  imports Bpt Md5 Weave_Kv
begin

text \<open>
  The indexer, \<open>core/src/indexer.js\<close>: the B+ trees of a directory that follow each document. The trees
  of directory \<open>dir\<close> are stored under \<open>__indexes__/dir/<prefix>/\<close>, the object of existing indexes under
  \<open>__indexes__/dir/indexes\<close>, the documents under \<open>dir/<id>\<close>: the view \<open>kv_dir\<close> that \<open>dev_parse.js\<close> builds.

  Operations map a store to a store or to an error with the store at the throw. \<open>n\<close> bounds the recursion
  of the tree operations. Documents are objects; a key of an index is split at \<open>/\<close> into pairs.
\<close>

type_synonym 'a sres = "(js_error \<times> wkv) + 'a"

section \<open>kv_dir\<close>

definition ikey :: "string \<Rightarrow> string \<Rightarrow> string" where
  "ikey dir k = dkey ''__indexes__'' (dir @ ''/'' @ k)"

definition ix_get :: "string \<Rightarrow> string \<Rightarrow> wkv \<Rightarrow> jv" where
  "ix_get dir k w = kv_get w (ikey dir k)"

definition ix_put :: "string \<Rightarrow> string \<Rightarrow> jv \<Rightarrow> wkv \<Rightarrow> wkv" where
  "ix_put dir k v w = kv_put (ikey dir k) v w"

definition ix_del :: "string \<Rightarrow> string \<Rightarrow> wkv \<Rightarrow> wkv" where
  "ix_del dir k w = kv_del (ikey dir k) w"

section \<open>Stored nodes\<close>

text \<open>A node as the object the code stores; a field that is absent in some nodes is stored as \<open>null\<close>,
  and a leaf has no \<open>children\<close>.\<close>

definition id_jv :: "string option \<Rightarrow> jv" where
  "id_jv m = (case m of None \<Rightarrow> JNull | Some s \<Rightarrow> JStr s)"

definition jv_id :: "jv \<Rightarrow> string option" where
  "jv_id v = (case v of JStr s \<Rightarrow> Some s | _ \<Rightarrow> None)"

definition node_jv :: "bnode \<Rightarrow> jv" where
  "node_jv n =
     JObj ([(''leaf'', JBool (bn_leaf n)), (''id'', JStr (bn_id n)), (''vals'', JArr (bn_vals n))] @
           (if bn_leaf n then [] else [(''children'', JArr (map JStr (bn_children n)))]) @
           [(''parent'', id_jv (bn_parent n)), (''next'', id_jv (bn_next n)), (''prev'', id_jv (bn_prev n))])"

definition jv_node :: "jv \<Rightarrow> bnode option" where
  "jv_node v =
     (case (jget v ''leaf'', jget v ''id'', jget v ''vals'') of
        (JBool l, JStr i, JArr vs) \<Rightarrow>
          Some \<lparr>bn_leaf = l, bn_id = i, bn_vals = vs,
                bn_children = List.map_filter jv_id (jelems (jget v ''children'')),
                bn_parent = jv_id (jget v ''parent''), bn_next = jv_id (jget v ''next''),
                bn_prev = jv_id (jget v ''prev'')\<rparr>
      | _ \<Rightarrow> None)"

fun sv_jv :: "sv \<Rightarrow> jv" where
  "sv_jv (SNode n) = node_jv n"
| "sv_jv (SRoot r) = JStr r"
| "sv_jv (SCount k) = JNum k"
| "sv_jv (SData v) = v"
| "sv_jv SNull = JNull"
| "sv_jv SDel = JNull"

definition jv_sv :: "string \<Rightarrow> jv \<Rightarrow> sv option" where
  "jv_sv k v =
     (if is_nil v then None
      else case v of
        JStr r \<Rightarrow> Some (SRoot r)
      | JNum c \<Rightarrow> Some (SCount c)
      | _ \<Rightarrow> (case jv_node v of Some n \<Rightarrow> Some (SNode n) | None \<Rightarrow> Some SDel))"

lemma map_filter_jv_id [simp]: "List.map_filter jv_id (map JStr xs) = xs"
  by (induction xs) (simp_all add: jv_id_def)

lemma jv_id_jv [simp]: "jv_id (id_jv m) = m"
  by (cases m) (simp_all add: jv_id_def id_jv_def)

lemma jv_node_jv: "bn_leaf n \<longrightarrow> bn_children n = [] \<Longrightarrow> jv_node (node_jv n) = Some n"
  by (cases "bn_leaf n") (simp_all add: jv_node_def node_jv_def)

lemma jv_sv_jv:
  "(case s of SNode n \<Rightarrow> bn_leaf n \<longrightarrow> bn_children n = [] | SRoot r \<Rightarrow> True | SCount c \<Rightarrow> True | _ \<Rightarrow> False) \<Longrightarrow>
   jv_sv k (sv_jv s) = Some s"
  using jv_node_jv by (cases s) (auto simp: jv_sv_def node_jv_def)

section \<open>Trees in the store\<close>

type_synonym sorts = "string list list"

definition idsorter :: "string list" where
  "idsorter = [''__id__'', ''asc'']"

definition index_order :: nat where
  "index_order = 100"

definition sort_pair :: "string list \<Rightarrow> string \<times> string" where
  "sort_pair v = (case v of x # y # _ \<Rightarrow> (x, y) | [x] \<Rightarrow> (x, []) | [] \<Rightarrow> ([], []))"

definition tree_cfg :: "sorts \<Rightarrow> bcfg" where
  "tree_cfg sf = \<lparr>bc_order = index_order, bc_sort = SFields (map sort_pair sf)\<rparr>"

definition tree_view :: "string \<Rightarrow> string \<Rightarrow> wkv \<Rightarrow> bview" where
  "tree_view dir prefix w =
     \<lparr>bv_get = (\<lambda>k. jv_sv k (ix_get dir (prefix @ ''/'' @ k) w)), bv_data = dget w dir\<rparr>"

definition tree_write :: "string \<Rightarrow> string \<Rightarrow> wkv \<Rightarrow> string \<times> sv \<Rightarrow> wkv" where
  "tree_write dir prefix w ks =
     (case ks of
        (k, SDel) \<Rightarrow> ix_del dir (prefix @ ''/'' @ k) w
      | (k, s) \<Rightarrow> ix_put dir (prefix @ ''/'' @ k) (sv_jv s) w)"

definition tree_insert :: "nat \<Rightarrow> string \<Rightarrow> string \<Rightarrow> sorts \<Rightarrow> string \<Rightarrow> jv \<Rightarrow> wkv \<Rightarrow> wkv sres" where
  "tree_insert n dir prefix sf key val w =
     rbind (at_store w (bpt_insert n (tree_view dir prefix w) (tree_cfg sf) key val))
       (\<lambda>m. Inr (foldl (tree_write dir prefix) w (bpt_commit m)))"

definition tree_delete :: "nat \<Rightarrow> string \<Rightarrow> string \<Rightarrow> sorts \<Rightarrow> string \<Rightarrow> wkv \<Rightarrow> wkv sres" where
  "tree_delete n dir prefix sf key w =
     rbind (at_store w (bpt_delete n (tree_view dir prefix w) (tree_cfg sf) key))
       (\<lambda>m. Inr (foldl (tree_write dir prefix) w (bpt_commit m)))"

text \<open>\<open>idtree.range()\<close>: no bounds, and the limit \<open>range\<close> puts in.\<close>

definition no_opt :: ropt where
  "no_opt = \<lparr>ro_limit = None, ro_startAt = JUndef, ro_startAfter = JUndef, ro_endAt = JUndef,
             ro_endBefore = JUndef, ro_reverse = False\<rparr>"

definition tree_docs :: "nat \<Rightarrow> string \<Rightarrow> string \<Rightarrow> sorts \<Rightarrow> wkv \<Rightarrow> item list sres" where
  "tree_docs n dir prefix sf w = at_store w (bpt_range n (tree_view dir prefix w) (tree_cfg sf) no_opt)"

section \<open>Fields and keys\<close>

definition join_sorts :: "sorts \<Rightarrow> string" where
  "join_sorts sf = join_with ''/'' (concat sf)"

fun split_every2 :: "'a list \<Rightarrow> 'a list list" where
  "split_every2 (x # y # xs) = [x, y] # split_every2 xs"
| "split_every2 [x] = [[x]]"
| "split_every2 [] = []"

definition key_sorts :: "string \<Rightarrow> sorts" where
  "key_sorts k = split_every2 (split_on (CHR ''/'') k)"

definition snd_of :: "string list \<Rightarrow> string" where
  "snd_of v = snd (sort_pair v)"

definition index_fields :: "sorts \<Rightarrow> string list" where
  "index_fields sf = without [''__id__''] (map hd sf)"

definition validateSortFields :: "sorts \<Rightarrow> bool" where
  "validateSortFields sf \<longleftrightarrow>
     list_all (\<lambda>(i, v). if snd_of v = ''array'' then i = 0 else snd_of v \<in> set [''asc'', ''desc'']) (enumerate 0 sf) \<and>
     \<not> (sf = [] \<or> (length sf = 1 \<and> length (split_on (CHR ''.'') (hd (hd sf))) < 2))"

fun nested_fields :: "string list \<Rightarrow> jv \<Rightarrow> string list" where
  "nested_fields path (JObj p) =
     concat (map (\<lambda>(k, v). join_with ''.'' (path @ [k]) # (if is_obj v then nested_fields (path @ [k]) v else [])) p)"
| "nested_fields path v = []"

text \<open>\<open>fields = keys(data); addFields(data, fields, [], true)\<close>\<close>

definition doc_fields :: "jv \<Rightarrow> string list" where
  "doc_fields data =
     jkeys data @
     concat (map (\<lambda>k. let v = jget data k in if is_obj v then nested_fields [k] v else []) (jkeys data))"

definition md5_of :: "jv \<Rightarrow> string" where
  "md5_of v = md5 (stringify v)"

definition array_key :: "string \<Rightarrow> jv \<Rightarrow> string" where
  "array_key k v = k @ ''/array:'' @ md5_of v"

definition index_entry :: "string \<Rightarrow> jv" where
  "index_entry key = JObj [(''order'', JNum (int index_order)), (''key'', JStr key)]"

definition or_empty :: "jv \<Rightarrow> jv" where
  "or_empty v = (if truthy v then v else JObj [])"

definition get_indexes :: "string \<Rightarrow> wkv \<Rightarrow> jv" where
  "get_indexes dir w = or_empty (ix_get dir ''indexes'' w)"

text \<open>\<open>if (isNil(_indexes[key].items[item])) _indexes[key].items[item] = v\<close>\<close>

definition add_item :: "string \<Rightarrow> string \<Rightarrow> jv \<Rightarrow> jv \<Rightarrow> jv res" where
  "add_item key item v ixs =
     rbind (jprop (jget ixs key) ''items'') (\<lambda>items.
     rbind (jprop items item) (\<lambda>old.
       Inr (if is_nil old then jset ixs key (jset (jget ixs key) ''items'' (jset items item v)) else ixs)))"

definition ensure_array_index :: "string \<Rightarrow> jv \<Rightarrow> jv" where
  "ensure_array_index key ixs =
     (if is_nil (jget ixs key) then jset ixs key (JObj [(''key'', JStr key), (''items'', JObj [])]) else ixs)"

section \<open>Changed fields: \<open>mod\<close>\<close>

record mods =
  md_dels :: "string list"
  md_changes :: "string list"
  md_news :: "string list"

definition mod_field :: "jv \<Rightarrow> jv \<Rightarrow> mods \<Rightarrow> string \<Rightarrow> mods" where
  "mod_field prev next m k =
     (let p = jget prev k; q = jget next k in
      if jequals p q then m
      else if is_nil p then
        m\<lparr>md_news := md_news m @ [k] @ (if is_arr q then map (array_key k) (jelems q) else [])\<rparr>
      else if is_nil q then
        m\<lparr>md_dels := md_dels m @ [k] @ (if is_arr p then map (array_key k) (jelems p) else [])\<rparr>
      else
        let m1 = m\<lparr>md_changes := md_changes m @ [k]\<rparr> in
        if is_arr p \<and> is_arr q then
          m1\<lparr>md_news := md_news m1 @ map (array_key k) (jdifference (jelems q) (jelems p)),
             md_dels := md_dels m1 @ map (array_key k) (jdifference (jelems p) (jelems q))\<rparr>
        else if is_arr p then m1\<lparr>md_dels := md_dels m1 @ map (array_key k) (juniq (jelems p))\<rparr>
        else if is_arr q then m1\<lparr>md_news := md_news m1 @ map (array_key k) (juniq (jelems q))\<rparr>
        else m1)"

definition mod_doc :: "jv \<Rightarrow> jv \<Rightarrow> mods" where
  "mod_doc prev0 next0 =
     (let prev = nullish prev0 (JObj []); next = nullish next0 (JObj []) in
      foldl (mod_field prev next) \<lparr>md_dels = [], md_changes = [], md_news = []\<rparr>
        (uniq (jkeys prev @ jkeys next)))"

section \<open>Removing a document: \<open>del\<close>\<close>

text \<open>The entry of one array element; elements the index does not know are skipped.\<close>

definition del_array_item :: "nat \<Rightarrow> string \<Rightarrow> string \<Rightarrow> jv \<Rightarrow> string \<Rightarrow> sorts \<Rightarrow> wkv \<Rightarrow> jv \<Rightarrow> wkv sres" where
  "del_array_item n dir docid indexes k sf w v =
     rbind (at_store w (rbind (jprop (jget indexes k) ''items'') (\<lambda>items. jprop items (md5_of v)))) (\<lambda>item.
       if is_nil item then Inr w
       else let prefix = hd (hd sf) @ ''/array:'' @ md5_of v @ (if length sf > 1 then ''/'' @ join_sorts (tl sf) else []);
                sf' = (if length sf = 1 then [idsorter] else tl sf)
            in tree_delete n dir prefix (sf' @ [idsorter]) docid w)"

definition del_index :: "nat \<Rightarrow> string \<Rightarrow> string \<Rightarrow> jv \<Rightarrow> jv \<Rightarrow> wkv \<Rightarrow> string \<Rightarrow> wkv sres" where
  "del_index n dir docid doc indexes w k =
     (let sf = key_sorts k; i_fields = index_fields sf in
      if i_fields \<noteq> [] \<and> difference i_fields (jkeys doc) = [] then
        (if snd_of (hd sf) = ''array'' then
           (if is_arr (jget doc (hd (hd sf)))
            then rfoldl (del_array_item n dir docid indexes k sf) w (jelems (jget doc (hd (hd sf))))
            else Inr w)
         else tree_delete n dir (join_sorts sf) (sf @ [idsorter]) docid w)
      else Inr w)"

definition del_doc :: "nat \<Rightarrow> string \<Rightarrow> string \<Rightarrow> wkv \<Rightarrow> wkv sres" where
  "del_doc n dir docid w =
     (let doc = nullish (dget w dir docid) JNull; indexes = get_indexes dir w in
      rbind (rfoldl (del_index n dir docid doc indexes) w (jkeys indexes)) (\<lambda>w1.
      rbind (tree_delete n dir (join_sorts [idsorter]) [idsorter, idsorter] docid w1) (\<lambda>w2.
        Inr (ddel dir docid w2))))"

section \<open>Changing a document: \<open>_update\<close>\<close>

definition is_array_key :: "string \<Rightarrow> bool" where
  "is_array_key k =
     (case split_on (CHR ''/'') k of
        _ # t # _ \<Rightarrow> hd (split_on (CHR '':'') t) = ''array''
      | _ \<Rightarrow> False)"

definition new_key :: "string \<Rightarrow> string" where
  "new_key k = (if is_array_key k then k else k @ ''/asc'')"

definition single_prefix :: "string \<Rightarrow> string" where
  "single_prefix k =
     (if is_array_key k then join_with ''/'' (take 2 (split_on (CHR ''/'') k)) else k @ ''/asc'')"

definition upd_del :: "nat \<Rightarrow> string \<Rightarrow> string \<Rightarrow> wkv \<Rightarrow> string \<Rightarrow> wkv sres" where
  "upd_del n dir docid w k =
     tree_delete n dir (single_prefix k)
       (if is_array_key k then [idsorter] else [[k, ''asc''], idsorter]) docid w"

definition upd_new :: "nat \<Rightarrow> string \<Rightarrow> string \<Rightarrow> jv \<Rightarrow> jv \<times> wkv \<Rightarrow> string \<Rightarrow> (jv \<times> wkv) sres" where
  "upd_new n dir docid data = (\<lambda>(ixs, w) k.
     if is_array_key k then
       (let sp = split_on (CHR ''/'') k;
            akey = hd sp @ ''/array'';
            item = (case split_on (CHR '':'') (sp ! 1) of _ # m # _ \<Rightarrow> Some m | _ \<Rightarrow> None);
            ixs1 = ensure_array_index akey ixs;
            entry = JObj [(''key'', JStr k), (''order'', JNum (int index_order))];
            sf = key_sorts k;
            prefix = single_prefix k @ (if length sf > 1 then ''/'' @ join_sorts (tl sf) else [])
        in rbind (at_store w (case item of None \<Rightarrow> Inr ixs1 | Some m \<Rightarrow> add_item akey m entry ixs1)) (\<lambda>ixs2.
           rbind (tree_insert n dir prefix sf docid data w) (\<lambda>w'. Inr (ixs2, w'))))
     else
       (let key = k @ ''/asc'';
            ixs1 = (if is_nil (jget ixs key) then jset ixs key (index_entry key) else ixs)
        in rbind (tree_insert n dir key [[k, ''asc''], idsorter] docid data w) (\<lambda>w'. Inr (ixs1, w'))))"

text \<open>How the tree of an index must follow: by the kinds of change of its fields.\<close>

definition change_flags :: "string list \<Rightarrow> mods \<Rightarrow> bool \<times> bool" where
  "change_flags fs m =
     (let isDel = intersection fs (md_changes m) \<noteq> [];
          isAdd = intersection fs (md_news m) \<noteq> [] \<or> isDel
      in if intersection fs (md_dels m) \<noteq> [] then (False, True) else (isAdd, isDel))"

text \<open>The multi-field index of an array field: one tree per element.\<close>

definition upd_array_index :: "nat \<Rightarrow> string \<Rightarrow> string \<Rightarrow> jv \<Rightarrow> jv \<Rightarrow> mods \<Rightarrow> sorts \<Rightarrow> string
    \<Rightarrow> jv \<times> wkv \<Rightarrow> (jv \<times> wkv) sres" where
  "upd_array_index n dir docid data old m sf k = (\<lambda>(ixs, w).
     let arr = hd (hd sf);
         hashes = (\<lambda>d. if is_arr (jget d arr) then uniq (map md5_of (jelems (jget d arr))) else []);
         new_vals = hashes data;
         old_vals = hashes old;
         i_fields = without [arr] (index_fields sf);
         fields = without [arr] (doc_fields data);
         old_fields = without [arr] (doc_fields old)
     in if difference i_fields fields = [] \<or> difference i_fields old_fields = [] then
          (let (isAdd, isDel) = change_flags i_fields m;
               same = intersection old_vals new_vals;
               adds = difference new_vals old_vals @ (if isAdd \<and> \<not> isDel then same else []);
               dels = difference old_vals new_vals @ (if isDel \<and> \<not> isAdd then same else []);
               chgs = (if isAdd \<and> isDel then same else []);
               tail_key = join_with ''/'' (map (join_with ''/'') (tl sf));
               prefix = (\<lambda>v. arr @ ''/array:'' @ v @ ''/'' @ join_sorts (tl sf));
               ins = (\<lambda>v w. tree_insert n dir (prefix v) (tl sf @ [idsorter]) docid data w);
               del = (\<lambda>v w. tree_delete n dir (prefix v) (tl sf @ [idsorter]) docid w)
           in rbind (rfoldl (\<lambda>(ixs, w) v. rbind (ins v w) (\<lambda>w1.
                       rbind (at_store w1 (add_item k v (JObj [(''key'', JStr (arr @ ''/array:'' @ v @ ''/'' @ tail_key)),
                                                              (''order'', JNum (int index_order))]) ixs))
                         (\<lambda>ixs1. Inr (ixs1, w1)))) (ixs, w) adds) (\<lambda>(ixs1, w1).
              rbind (rfoldl (\<lambda>w v. del v w) w1 dels) (\<lambda>w2.
              rbind (rfoldl (\<lambda>w v. rbind (del v w) (ins v)) w2 chgs) (\<lambda>w3. Inr (ixs1, w3)))))
        else Inr (ixs, w))"

text \<open>The first nested field whose value changed decides on top of the flags.\<close>

fun nested_flags :: "jv \<Rightarrow> jv \<Rightarrow> string list \<Rightarrow> bool \<times> bool \<Rightarrow> bool \<times> bool" where
  "nested_flags data old [] fl = fl"
| "nested_flags data old (v # vs) fl =
     (let sp = split_on (CHR ''.'') v; nd = jpath sp data; od = jpath sp old in
      if length sp > 1 \<and> \<not> jequals nd od
      then (fst fl \<or> \<not> is_nil nd, snd fl \<or> \<not> is_nil od)
      else nested_flags data old vs fl)"

definition upd_index :: "nat \<Rightarrow> string \<Rightarrow> string \<Rightarrow> jv \<Rightarrow> jv \<Rightarrow> mods \<Rightarrow> string list
    \<Rightarrow> jv \<times> wkv \<Rightarrow> string \<Rightarrow> (jv \<times> wkv) sres" where
  "upd_index n dir docid data old m newkeys st k =
     (let sf = key_sorts k; i_fields = index_fields sf in
      if k \<in> set newkeys \<or> i_fields = [] then Inr st
      else rbind (if snd_of (hd sf) = ''array'' then upd_array_index n dir docid data old m sf k st else Inr st)
        (\<lambda>(ixs, w).
          if difference i_fields (doc_fields data) = [] \<or> difference i_fields (doc_fields old) = [] then
            (let (isAdd, isDel) = nested_flags data old i_fields (change_flags i_fields m) in
             rbind (if isDel then tree_delete n dir (join_sorts sf) (sf @ [idsorter]) docid w else Inr w) (\<lambda>w1.
             rbind (if isAdd then tree_insert n dir (join_sorts sf) (sf @ [idsorter]) docid data w1 else Inr w1)
               (\<lambda>w2. Inr (ixs, w2))))
          else Inr (ixs, w)))"

text \<open>
  \<open>_indexes\<close> is put before the last loop adds items to it: the stored object is the same one, so it is
  put again when the loop is done.
\<close>

definition update_doc :: "nat \<Rightarrow> string \<Rightarrow> string \<Rightarrow> jv \<Rightarrow> jv \<Rightarrow> wkv \<Rightarrow> wkv sres" where
  "update_doc n dir docid data old w =
     (let m = mod_doc old data;
          newkeys = map new_key (md_dels m @ md_news m);
          indexes = get_indexes dir w
      in rbind (rfoldl (upd_del n dir docid) w (md_dels m)) (\<lambda>w1.
         rbind (rfoldl (upd_new n dir docid data) (indexes, w1) (md_news m)) (\<lambda>(ixs2, w2).
         rbind (rfoldl (upd_index n dir docid data old m newkeys) (ixs2, ix_put dir ''indexes'' ixs2 w2) (jkeys ixs2))
           (\<lambda>(ixs3, w3). Inr (dput dir docid data (ix_put dir ''indexes'' ixs3 w3))))))"

section \<open>Storing a document: \<open>put\<close>\<close>

text \<open>One field of a new document: its tree, and a tree for each element of an array.\<close>

definition put_element :: "nat \<Rightarrow> string \<Rightarrow> string \<Rightarrow> jv \<Rightarrow> string \<Rightarrow> jv \<times> wkv \<Rightarrow> jv \<Rightarrow> (jv \<times> wkv) sres" where
  "put_element n dir docid data k = (\<lambda>(ixs, w) v.
     let akey = k @ ''/array''; m = md5_of v; key = akey @ '':'' @ m in
     rbind (at_store w (add_item akey m (index_entry key) (ensure_array_index akey ixs))) (\<lambda>ixs1.
     rbind (tree_insert n dir (array_key k v) [idsorter] docid data w) (\<lambda>w1. Inr (ixs1, w1))))"

definition put_field :: "nat \<Rightarrow> string \<Rightarrow> string \<Rightarrow> jv \<Rightarrow> jv \<Rightarrow> jv \<times> wkv \<Rightarrow> string \<Rightarrow> (jv \<times> wkv) sres" where
  "put_field n dir docid data indexes = (\<lambda>(ixs, w) k.
     let key = k @ ''/asc'';
         ixs1 = (if is_nil (jget indexes key) then jset ixs key (index_entry key) else ixs);
         v = jget data k
     in rbind (tree_insert n dir key [[k, ''asc''], idsorter] docid data w) (\<lambda>w1.
          if is_arr v then rfoldl (put_element n dir docid data k) (ixs1, w1) (juniq (jelems v))
          else Inr (ixs1, w1)))"

text \<open>A composite index, or one on a nested field, all of whose fields the document has.\<close>

definition put_index_item :: "nat \<Rightarrow> string \<Rightarrow> string \<Rightarrow> jv \<Rightarrow> string \<Rightarrow> sorts \<Rightarrow> jv \<times> wkv \<Rightarrow> jv \<Rightarrow> (jv \<times> wkv) sres" where
  "put_index_item n dir docid data k sf = (\<lambda>(ixs, w) v.
     let pre = array_key (hd (hd sf)) v;
         key = pre @ ''/'' @ join_sorts (tl sf);
         akey = pre @ ''/'' @ join_with ''/'' (map (join_with ''/'') (tl sf))
     in rbind (at_store w (add_item k (md5_of v) (index_entry akey) ixs)) (\<lambda>ixs1.
        rbind (tree_insert n dir key (tl sf @ [idsorter]) docid data w) (\<lambda>w1. Inr (ixs1, w1))))"

definition put_index :: "nat \<Rightarrow> string \<Rightarrow> string \<Rightarrow> jv \<Rightarrow> jv \<times> wkv \<Rightarrow> string \<Rightarrow> (jv \<times> wkv) sres" where
  "put_index n dir docid data = (\<lambda>(ixs, w) k.
     let sf = key_sorts k;
         i_fields = index_fields sf;
         isValid = (length i_fields > 1 \<or> (length i_fields = 1 \<and> length (split_on (CHR ''.'') (hd i_fields)) > 1))
     in if isValid \<and> difference i_fields (doc_fields data) = [] then
          (if snd_of (hd sf) = ''array'' then
             (if is_arr (jget data (hd (hd sf)))
              then rfoldl (put_index_item n dir docid data k sf) (ixs, w) (jelems (jget data (hd (hd sf))))
              else Inr (ixs, w))
           else rbind (tree_insert n dir (join_sorts sf) (sf @ [idsorter]) docid data w) (\<lambda>w1. Inr (ixs, w1)))
        else Inr (ixs, w))"

definition create_doc :: "nat \<Rightarrow> string \<Rightarrow> string \<Rightarrow> jv \<Rightarrow> wkv \<Rightarrow> wkv sres" where
  "create_doc n dir docid data w =
     rbind (tree_insert n dir (join_sorts [idsorter]) [idsorter] docid data (dput dir docid data w)) (\<lambda>w1.
       let indexes = get_indexes dir w1;
           idkey = ''__id__/asc'';
           ixs = (if is_nil (jget indexes idkey) then jset indexes idkey (index_entry idkey) else indexes)
       in rbind (rfoldl (put_field n dir docid data indexes) (ixs, w1) (jkeys data)) (\<lambda>st2.
          rbind (rfoldl (put_index n dir docid data) st2 (jkeys indexes)) (\<lambda>(ixs3, w3).
            Inr (ix_put dir ''indexes'' ixs3 w3))))"

definition put_doc :: "nat \<Rightarrow> string \<Rightarrow> string \<Rightarrow> jv \<Rightarrow> bool \<Rightarrow> wkv \<Rightarrow> wkv sres" where
  "put_doc n dir docid data create w =
     (let old = nullish (dget w dir docid) JNull in
      if is_nil old then create_doc n dir docid data w
      else if create then rbind (del_doc n dir docid w) (create_doc n dir docid data)
      else update_doc n dir docid data old w)"

section \<open>Adding and removing an index\<close>

definition norm_sorts :: "sorts \<Rightarrow> sorts" where
  "norm_sorts sf = map (\<lambda>v. if length v > 1 then v else v @ [''asc'']) sf"

definition new_index_key :: "sorts \<Rightarrow> string" where
  "new_index_key sf = join_with ''/'' (map (join_with ''/'') sf)"

text \<open>The trees of one existing document, for an array index: an element may occur several times.\<close>

definition each_array_tree :: "(string \<Rightarrow> string \<Rightarrow> jv \<Rightarrow> 's \<Rightarrow> 's sres) \<Rightarrow> sorts \<Rightarrow> 's \<Rightarrow> item \<Rightarrow> 's sres" where
  "each_array_tree f sf s doc =
     (let i_fields = index_fields sf; arr = hd (hd sf) in
      if i_fields \<noteq> [] \<and> difference i_fields (jkeys (it_val doc)) = [] \<and> is_arr (jget (it_val doc) (hd i_fields))
      then rfoldl (\<lambda>s v. f (array_key arr v @ ''/'' @ join_sorts (tl sf)) (md5_of v) v s) s
             (jelems (jget (it_val doc) (hd i_fields)))
      else Inr s)"

definition addIndex :: "nat \<Rightarrow> string \<Rightarrow> sorts \<Rightarrow> wkv \<Rightarrow> wkv sres" where
  "addIndex n dir sf0 w =
     (let sf = norm_sorts sf0; newIndex = new_index_key sf; indexes = get_indexes dir w in
      if \<not> validateSortFields sf \<or> \<not> is_nil (jget indexes newIndex) then Inr w
      else rbind (tree_docs n dir (join_sorts [idsorter]) [idsorter] w) (\<lambda>docs.
        if snd_of (hd sf) = ''array'' then
          rbind (rfoldl (\<lambda>s doc. each_array_tree (\<lambda>key m v (items, w).
                   rbind (tree_insert n dir key (tl sf @ [idsorter]) (to_str (it_key doc)) (it_val doc) w) (\<lambda>w1.
                     Inr (jset items m (index_entry (array_key (hd (hd sf)) v @ ''/'' @
                            join_with ''/'' (map (join_with ''/'') (tl sf)))), w1))) sf s doc)
                  (JObj [], w) docs) (\<lambda>(items, w1).
            Inr (ix_put dir ''indexes''
                  (jset indexes newIndex (JObj [(''key'', JStr newIndex), (''items'', items)])) w1))
        else
          rbind (rfoldl (\<lambda>w doc.
                   if index_fields sf \<noteq> [] \<and> difference (index_fields sf) (doc_fields (it_val doc)) = []
                   then tree_insert n dir (join_sorts sf) (sf @ [idsorter]) (to_str (it_key doc)) (it_val doc) w
                   else Inr w) w docs) (\<lambda>w1.
            Inr (ix_put dir ''indexes'' (jset indexes newIndex (index_entry newIndex)) w1))))"

definition removeIndex :: "nat \<Rightarrow> string \<Rightarrow> sorts \<Rightarrow> wkv \<Rightarrow> wkv sres" where
  "removeIndex n dir sf0 w =
     (let sf = norm_sorts sf0; newIndex = new_index_key sf; indexes = get_indexes dir w in
      if \<not> validateSortFields sf \<or> is_nil (jget indexes newIndex) then Inr w
      else rbind (tree_docs n dir (join_sorts [idsorter]) [idsorter] w) (\<lambda>docs.
        rbind (if snd_of (hd sf) = ''array'' then
                 rfoldl (\<lambda>w doc. each_array_tree (\<lambda>key m v w.
                     tree_delete n dir key (tl sf @ [idsorter]) (to_str (it_key doc)) w) sf w doc) w docs
               else
                 rfoldl (\<lambda>w doc.
                   if index_fields sf \<noteq> [] \<and> difference (index_fields sf) (doc_fields (it_val doc)) = []
                   then tree_delete n dir (join_sorts sf) (sf @ [idsorter]) (to_str (it_key doc)) w
                   else Inr w) w docs)
          (\<lambda>w1. Inr (ix_put dir ''indexes'' (jdel indexes newIndex) w1))))"

text \<open>\<open>normalizeIndex\<close> checks the user's array and completes it in place.\<close>

definition normalizeIndex :: "jv list \<Rightarrow> jv list res" where
  "normalizeIndex index =
     rmap (\<lambda>i. case i of
         JArr xs \<Rightarrow> if length xs > 2 \<or> length xs < 1 then Inl (Err ''the wrong index'')
                     else Inr (JArr (if length xs = 1 then xs @ [JStr ''asc''] else xs))
       | _ \<Rightarrow> Inl (Err ''index must be Array'')) index"

end
