(* ===== verification/Indexer_Props.thy ===== *)
theory Indexer_Props
  imports Indexer
begin

text \<open>
  The indexer's footprint: each operation of a directory writes only the trees of that directory and the
  one document it is about, and a throw leaves such a partial write behind, which \<open>reset\<close> undoes. Then
  what \<open>put\<close> and \<open>del\<close> do to the document itself, and the names of indexes.
\<close>

section \<open>Writes confined to a set of keys\<close>

definition writes_to :: "(string \<Rightarrow> bool) \<Rightarrow> wkv \<Rightarrow> wkv \<Rightarrow> bool" where
  "writes_to P w w' \<longleftrightarrow> (\<exists>kvs. list_all P (okeys kvs) \<and> w' = wkv.puts kvs w)"

text \<open>The store in a result, at the throw or at the end, is reached by such writes; \<open>p\<close> finds it.\<close>

definition ok_res :: "(string \<Rightarrow> bool) \<Rightarrow> ('a \<Rightarrow> wkv) \<Rightarrow> wkv \<Rightarrow> 'a sres \<Rightarrow> bool" where
  "ok_res P p w r \<longleftrightarrow> (case r of Inl (e, w') \<Rightarrow> writes_to P w w' | Inr x \<Rightarrow> writes_to P w (p x))"

lemma writes_to_refl [simp, inv_intros]: "writes_to P w w"
  by (auto simp: writes_to_def wkv.puts_def intro: exI [of _ "[]"])

lemma puts_append: "wkv.puts (xs @ ys) w = wkv.puts ys (wkv.puts xs w)"
  by (simp add: wkv.puts_def)

lemma writes_to_trans [trans]: "writes_to P w w1 \<Longrightarrow> writes_to P w1 w2 \<Longrightarrow> writes_to P w w2"
  unfolding writes_to_def by (metis list_all_append map_append puts_append)

lemma writes_to_put [inv_intros]: "P k \<Longrightarrow> writes_to P w w1 \<Longrightarrow> writes_to P w (kv_put k v w1)"
  by (rule writes_to_trans) (auto simp: writes_to_def wkv.puts_def intro: exI [of _ "[(k, v)]"])

lemma writes_to_get: "writes_to P w w' \<Longrightarrow> \<not> P k \<Longrightarrow> kv_get w' k = kv_get w k"
  by (auto simp: writes_to_def list_all_iff intro!: wkv.get_puts_other)

lemma writes_to_reset: "writes_to P w w' \<Longrightarrow> kv_reset w' = kv_reset w"
  by (auto simp: writes_to_def wkv.reset_puts)

lemma writes_to_mono: "(\<And>k. P k \<Longrightarrow> Q k) \<Longrightarrow> writes_to P w w' \<Longrightarrow> writes_to Q w w'"
  by (auto simp: writes_to_def list_all_iff)

lemma ok_Inr [inv_intros]: "writes_to P w (p x) \<Longrightarrow> ok_res P p w (Inr x)"
  by (simp add: ok_res_def)

lemma ok_Inl: "ok_res P p w (Inl (e, w')) \<longleftrightarrow> writes_to P w w'"
  by (simp add: ok_res_def)

lemma ok_at_store [inv_intros]: "ok_res P (\<lambda>_. w) w (at_store w m)"
  by (cases m) (simp_all add: ok_res_def)

lemma ok_bind:
  "ok_res P p w m \<Longrightarrow> (\<And>x. m = Inr x \<Longrightarrow> ok_res P q (p x) (f x)) \<Longrightarrow> ok_res P q w (rbind m f)"
  by (cases m) (auto simp: ok_res_def split: sum.splits intro: writes_to_trans)

text \<open>The three shapes of a bind: a computation on the side, one on the store, one on a pair.\<close>

lemma ok_bind_at [inv_intros]:
  "(\<And>x. m = Inr x \<Longrightarrow> ok_res P q w (f x)) \<Longrightarrow> ok_res P q w (rbind (at_store w m) f)"
  by (rule ok_bind [OF ok_at_store]) simp

lemma ok_bind_w [inv_intros]:
  "ok_res P (\<lambda>w. w) w m \<Longrightarrow> (\<And>w'. ok_res P q w' (f w')) \<Longrightarrow> ok_res P q w (rbind m f)"
  by (rule ok_bind)

lemma ok_bind_snd [inv_intros]:
  "ok_res P snd w m \<Longrightarrow> (\<And>y w'. ok_res P q w' (f (y, w'))) \<Longrightarrow> ok_res P q w (rbind m f)"
  by (rule ok_bind) auto

lemma ok_rfoldl:
  "(\<And>s x. x \<in> set xs \<Longrightarrow> ok_res P p (p s) (f s x)) \<Longrightarrow> ok_res P p (p s) (rfoldl f s xs)"
  by (induction xs arbitrary: s) (auto intro: ok_bind ok_Inr)

lemma ok_rfoldl_wkv:
  "(\<And>s x. x \<in> set xs \<Longrightarrow> ok_res P (\<lambda>w. w) s (f s x)) \<Longrightarrow> ok_res P (\<lambda>w. w) w (rfoldl f w xs)"
  using ok_rfoldl [of xs P "\<lambda>w. w" f w] by simp

lemma ok_rfoldl_snd:
  "(\<And>s x. x \<in> set xs \<Longrightarrow> ok_res P snd (snd s) (f s x)) \<Longrightarrow> ok_res P snd w (rfoldl f (y, w) xs)"
  using ok_rfoldl [of xs P snd f "(y, w)"] by simp

lemma ok_if [inv_intros]: "(b \<Longrightarrow> ok_res P p w x) \<Longrightarrow> (\<not> b \<Longrightarrow> ok_res P p w y) \<Longrightarrow> ok_res P p w (if b then x else y)"
  by simp

lemma writes_to_foldl:
  "(\<And>s x. writes_to P s (f s x)) \<Longrightarrow> writes_to P w (foldl f w xs)"
  by (induction xs arbitrary: w) (auto intro: writes_to_trans)

lemma ok_after_write:
  "writes_to P w w' \<Longrightarrow> ok_res P p w' r \<Longrightarrow> ok_res P p w r"
  using ok_bind [of P "\<lambda>w. w" w "Inr w'" p "\<lambda>_. r"] by (simp add: ok_Inr)

section \<open>The footprint of the indexer\<close>

text \<open>What the indexer relies on: a set of keys that holds every key of the directory's trees, and, where
  documents are written, the key of the document.\<close>

locale confined =
  fixes P :: "string \<Rightarrow> bool"
    and dir :: string
  assumes own_tree: "P (ikey dir k)"
begin

lemma ix_put_ok [inv_intros]: "writes_to P w w1 \<Longrightarrow> writes_to P w (ix_put dir k v w1)"
  by (simp add: ix_put_def writes_to_put own_tree)

lemma tree_write_ok: "writes_to P w (tree_write dir prefix w ks)"
proof -
  obtain k s where ks: "ks = (k, s)" by force
  have "writes_to P w (ix_put dir q v w)" for q v
    by (intro inv_intros)
  moreover have "writes_to P w (ix_del dir q w)" for q
    by (simp add: ix_del_def kv_del_def writes_to_put own_tree)
  ultimately show ?thesis by (cases s) (simp_all add: ks tree_write_def)
qed

lemma tree_insert_ok [inv_intros]:
  "ok_res P (\<lambda>w. w) w (tree_insert n dir prefix sf key data w)"
  unfolding tree_insert_def by (intro inv_intros writes_to_foldl tree_write_ok)

lemma tree_delete_ok [inv_intros]:
  "ok_res P (\<lambda>w. w) w (tree_delete n dir prefix sf key w)"
  unfolding tree_delete_def by (intro inv_intros writes_to_foldl tree_write_ok)

lemma del_array_item_ok [inv_intros]:
  "ok_res P (\<lambda>w. w) w (del_array_item n dir key indexes k sf w v)"
  unfolding del_array_item_def Let_def by (intro inv_intros)

lemma del_index_ok [inv_intros]:
  "ok_res P (\<lambda>w. w) w (del_index n dir key doc indexes w k)"
  unfolding del_index_def Let_def by (intro inv_intros ok_rfoldl_wkv)

lemma upd_del_ok [inv_intros]: "ok_res P (\<lambda>w. w) w (upd_del n dir key w k)"
  unfolding upd_del_def by (intro inv_intros)

lemma upd_new_ok: "ok_res P snd (snd s) (upd_new n dir key data s k)"
  by (cases s) (auto simp: upd_new_def Let_def intro!: inv_intros)

lemma upd_array_index_ok: "ok_res P snd (snd s) (upd_array_index n dir key data old m sf k s)"
  by (cases s) (auto simp: upd_array_index_def Let_def split_def intro!: inv_intros ok_rfoldl_snd ok_rfoldl_wkv)

lemma upd_index_ok: "ok_res P snd (snd s) (upd_index n dir key data old m newkeys s k)"
  unfolding upd_index_def Let_def split_def
  by (intro inv_intros upd_array_index_ok; simp; intro inv_intros)

lemma put_element_ok: "ok_res P snd (snd s) (put_element n dir key data k s v)"
  by (cases s) (auto simp: put_element_def Let_def intro!: inv_intros)

lemma put_field_ok: "ok_res P snd (snd s) (put_field n dir key data indexes s k)"
  by (cases s) (auto simp: put_field_def Let_def intro!: inv_intros ok_rfoldl_snd put_element_ok)

lemma put_index_item_ok: "ok_res P snd (snd s) (put_index_item n dir key data k sf s v)"
  by (cases s) (auto simp: put_index_item_def Let_def intro!: inv_intros)

lemma put_index_ok: "ok_res P snd (snd s) (put_index n dir key data s k)"
  by (cases s) (auto simp: put_index_def Let_def intro!: inv_intros ok_rfoldl_snd put_index_item_ok)

text \<open>Adding and removing an index, over every document of the directory.\<close>

lemma each_array_tree_ok:
  assumes "\<And>key m v s. ok_res P p (p s) (f key m v s)"
  shows "ok_res P p (p s) (each_array_tree f sf s doc)"
  unfolding each_array_tree_def Let_def by (intro ok_if ok_rfoldl assms ok_Inr writes_to_refl)

lemma addIndex_ok: "ok_res P (\<lambda>w. w) w (addIndex n dir sf w)"
proof -
  have arr: "ok_res P snd w (rfoldl (\<lambda>s doc. each_array_tree (\<lambda>key m v (items, w).
       rbind (tree_insert n dir key sf1 (g doc) (h doc) w) (\<lambda>w1. Inr (e items m v, w1))) sf s doc) (y, w) docs)"
    for sf1 :: sorts and g h and e :: "jv \<Rightarrow> string \<Rightarrow> jv \<Rightarrow> jv" and sf :: sorts and y docs
    by (rule ok_rfoldl_snd, rule each_array_tree_ok) (auto intro!: inv_intros)
  show ?thesis unfolding addIndex_def tree_docs_def Let_def
    by (intro ok_if ok_bind_at ok_Inr writes_to_refl; (rule ok_bind_snd [OF arr])?;
        (simp only: prod.case)?; intro inv_intros ok_rfoldl_wkv)
qed

lemma removeIndex_ok: "ok_res P (\<lambda>w. w) w (removeIndex n dir sf w)"
proof -
  have arr: "ok_res P (\<lambda>w. w) w (rfoldl (\<lambda>w doc. each_array_tree (\<lambda>key m v w.
       tree_delete n dir key sf1 (g doc) w) sf w doc) w docs)" for sf1 :: sorts and g and sf :: sorts and docs
    by (rule ok_rfoldl_wkv, rule each_array_tree_ok [where p = "\<lambda>w. w"]) (rule tree_delete_ok)
  show ?thesis unfolding removeIndex_def tree_docs_def Let_def
    by (intro ok_if ok_bind_at inv_intros arr ok_rfoldl_wkv)
qed

end

locale confined_doc = confined P dir
  for P :: "string \<Rightarrow> bool"
    and dir :: string +
  fixes docid :: string
  assumes own_doc: "P (dkey dir docid)"
begin

lemma dput_ok [inv_intros]: "writes_to P w w1 \<Longrightarrow> writes_to P w (dput dir docid v w1)"
  by (simp add: dput_def writes_to_put own_doc)

lemma ddel_ok [inv_intros]: "writes_to P w w1 \<Longrightarrow> writes_to P w (ddel dir docid w1)"
  by (simp add: ddel_def kv_del_def writes_to_put own_doc)

lemma del_doc_ok [inv_intros]: "ok_res P (\<lambda>w. w) w (del_doc n dir docid w)"
  unfolding del_doc_def Let_def by (intro inv_intros ok_rfoldl_wkv)

lemma update_doc_ok [inv_intros]: "ok_res P (\<lambda>w. w) w (update_doc n dir docid data old w)"
  unfolding update_doc_def Let_def split_def
proof (rule ok_bind_w)
  show "ok_res P (\<lambda>w. w) w (rfoldl (upd_del n dir docid) w (md_dels (mod_doc old data)))"
    by (intro ok_rfoldl_wkv inv_intros)
  fix w1
  show "ok_res P (\<lambda>w. w) w1
      (rbind (rfoldl (upd_new n dir docid data) (get_indexes dir w, w1) (md_news (mod_doc old data)))
        (\<lambda>x. rbind (rfoldl (upd_index n dir docid data old (mod_doc old data)
                 (map new_key (md_dels (mod_doc old data) @ md_news (mod_doc old data))))
               (fst x, ix_put dir ''indexes'' (fst x) (snd x)) (jkeys (fst x)))
             (\<lambda>x. Inr (dput dir docid data (ix_put dir ''indexes'' (fst x) (snd x))))))"
  proof (rule ok_bind_snd)
    show "ok_res P snd w1
        (rfoldl (upd_new n dir docid data) (get_indexes dir w, w1) (md_news (mod_doc old data)))"
      by (intro ok_rfoldl_snd upd_new_ok)
    fix y w2
    have "writes_to P w2 (ix_put dir ''indexes'' y w2)" by (intro inv_intros)
    then show "ok_res P (\<lambda>w. w) w2
        (rbind (rfoldl (upd_index n dir docid data old (mod_doc old data)
                 (map new_key (md_dels (mod_doc old data) @ md_news (mod_doc old data))))
               (fst (y, w2), ix_put dir ''indexes'' (fst (y, w2)) (snd (y, w2))) (jkeys (fst (y, w2))))
             (\<lambda>x. Inr (dput dir docid data (ix_put dir ''indexes'' (fst x) (snd x)))))"
      unfolding fst_conv snd_conv
      by (rule ok_after_write) (rule ok_bind_snd, intro ok_rfoldl_snd upd_index_ok, simp, intro inv_intros)
  qed
qed

lemma create_doc_ok [inv_intros]: "ok_res P (\<lambda>w. w) w (create_doc n dir docid data w)"
proof (rule ok_after_write)
  show "writes_to P w (dput dir docid data w)" by (intro inv_intros)
  show "ok_res P (\<lambda>w. w) (dput dir docid data w) (create_doc n dir docid data w)"
    unfolding create_doc_def Let_def split_def
    by (rule ok_bind_w, intro inv_intros, rule ok_bind_snd, intro ok_rfoldl_snd put_field_ok,
        rule ok_bind_snd, rule ok_rfoldl_snd, rule put_index_ok, simp, intro inv_intros)
qed

lemma put_doc_ok: "ok_res P (\<lambda>w. w) w (put_doc n dir docid data create w)"
  unfolding put_doc_def Let_def by (intro inv_intros)

end

definition tree_key :: "string \<Rightarrow> string \<Rightarrow> bool" where
  "tree_key dir k \<longleftrightarrow> starts_with (ikey dir []) k"

definition own_key :: "string \<Rightarrow> string \<Rightarrow> string \<Rightarrow> bool" where
  "own_key dir docid k \<longleftrightarrow> tree_key dir k \<or> k = dkey dir docid"

lemma tree_key_ikey [simp]: "tree_key dir (ikey dir k)"
  unfolding tree_key_def ikey_def dkey_def by (simp add: starts_with_iff)

interpretation trees: confined "tree_key dir" dir
  for dir :: string
  by unfold_locales simp

interpretation own: confined_doc "own_key dir docid" dir docid
  for dir :: string and docid :: string
  by unfold_locales (simp_all add: own_key_def)

section \<open>Where keys fall\<close>

definition outcome :: "wkv sres \<Rightarrow> wkv" where
  "outcome r = (case r of Inl (e, w) \<Rightarrow> w | Inr w \<Rightarrow> w)"

lemma outcome_simps [simp]: "outcome (Inl (e, w)) = w" "outcome (Inr w) = w"
  by (simp_all add: outcome_def)

lemma ok_outcome: "ok_res P (\<lambda>w. w) w r \<Longrightarrow> writes_to P w (outcome r)"
  by (auto simp: ok_res_def outcome_def split: sum.splits prod.splits)

definition plain :: "string \<Rightarrow> bool" where
  "plain d \<longleftrightarrow> CHR ''/'' \<notin> set d"

lemma slash_split: "plain d \<Longrightarrow> plain d' \<Longrightarrow> d @ CHR ''/'' # k = d' @ CHR ''/'' # k' \<longleftrightarrow> d = d' \<and> k = k'"
proof (induction d arbitrary: d')
  case Nil
  then show ?case by (cases d') (auto simp: plain_def)
next
  case (Cons c d)
  then show ?case by (cases d') (auto simp: plain_def)
qed

lemma dkey_eq_iff: "plain d \<Longrightarrow> plain d' \<Longrightarrow> dkey d k = dkey d' k' \<longleftrightarrow> d = d' \<and> k = k'"
  by (simp add: dkey_def slash_split)

lemma plain_indexes [simp]: "plain ''__indexes__''"
  by (simp add: plain_def)

lemma tree_key_dkey:
  assumes "plain d'" shows "tree_key dir (dkey d' k) \<longleftrightarrow> d' = ''__indexes__'' \<and> starts_with (dir @ ''/'') k"
  unfolding tree_key_def ikey_def starts_with_iff
  using assms dkey_eq_iff [of "''__indexes__''" d' "dir @ ''/'' @ t" k for t]
  by (force simp: dkey_def slash_split)

lemma own_key_dkey:
  "plain dir \<Longrightarrow> plain d' \<Longrightarrow> d' \<noteq> ''__indexes__'' \<Longrightarrow> own_key dir docid (dkey d' k) \<longleftrightarrow> d' = dir \<and> k = docid"
  by (auto simp: own_key_def tree_key_dkey dkey_eq_iff)

lemma own_key_ikey:
  "plain dir \<Longrightarrow> plain d' \<Longrightarrow> dir \<noteq> ''__indexes__'' \<Longrightarrow> own_key dir docid (ikey d' k) \<longleftrightarrow> d' = dir"
proof -
  assume p: "plain dir" "plain d'" "dir \<noteq> ''__indexes__''"
  have "starts_with (dir @ ''/'') (d' @ ''/'' @ k) \<longleftrightarrow> d' = dir"
    unfolding starts_with_iff using p slash_split [of d' dir] by auto
  then show ?thesis using p by (auto simp: own_key_def tree_key_dkey ikey_def dkey_eq_iff)
qed

section \<open>Properties\<close>

text \<open>
  C7. Storing and removing documents is isolated: whatever the outcome, a throw halfway included, every
  other document keeps its value, the trees of every other directory keep theirs, and \<open>reset\<close> gives back
  the store before the operation. Directory names hold no \<open>/\<close>.
\<close>

theorem indexer_isolated:
  assumes "plain dir" and "plain dir'" and "dir \<noteq> ''__indexes__''" and "dir' \<noteq> ''__indexes__''"
    and "r = put_doc n dir docid data create w \<or> r = del_doc n dir docid w"
  shows "(dir' \<noteq> dir \<or> k \<noteq> docid \<longrightarrow> dget (outcome r) dir' k = dget w dir' k) \<and>
     (dir' \<noteq> dir \<longrightarrow> ix_get dir' k (outcome r) = ix_get dir' k w) \<and>
     kv_reset (outcome r) = kv_reset w"
proof -
  have ok: "writes_to (own_key dir docid) w (outcome r)"
    using assms(5) by (auto intro: ok_outcome own.put_doc_ok own.del_doc_ok)
  have "dget (outcome r) dir' k = dget w dir' k" if "dir' \<noteq> dir \<or> k \<noteq> docid"
    using assms that writes_to_get [OF ok, of "dkey dir' k"] by (auto simp: dget_def own_key_dkey)
  moreover have "ix_get dir' k (outcome r) = ix_get dir' k w" if "dir' \<noteq> dir"
    using assms that writes_to_get [OF ok, of "ikey dir' k"] by (simp add: ix_get_def own_key_ikey)
  ultimately show ?thesis using writes_to_reset [OF ok] by blast
qed

theorem indexer_isolated_witness:
  "dget (outcome (put_doc 9 ''a'' ''1'' (JObj [(''x'', JNum 1)]) False (kv_new Map.empty))) ''b'' ''1'' =
     dget (kv_new Map.empty) ''b'' ''1''"
  using indexer_isolated [of "''a''" "''b''" _ 9 "''1''" "JObj [(''x'', JNum 1)]" False "kv_new Map.empty" "''1''"]
  by (simp add: plain_def)

lemma create_doc_after:
  "ok_res (tree_key dir) (\<lambda>w. w) (dput dir docid data w) (create_doc n dir docid data w)"
  unfolding create_doc_def Let_def split_def
  by (rule ok_bind_w, rule trees.tree_insert_ok, rule ok_bind_snd, intro ok_rfoldl_snd trees.put_field_ok,
      rule ok_bind_snd, rule ok_rfoldl_snd, rule trees.put_index_ok, simp,
      intro ok_Inr trees.ix_put_ok writes_to_refl)

lemma create_doc_reads:
  assumes "plain dir" and "dir \<noteq> ''__indexes__''" and "\<not> is_nil data"
    and "create_doc n dir docid data w = Inr w'"
  shows "dget w' dir docid = data"
proof -
  have "writes_to (tree_key dir) (dput dir docid data w) w'"
    using create_doc_after [of dir docid data w n] assms(4) by (simp add: ok_res_def)
  then have "kv_get w' (dkey dir docid) = kv_get (dput dir docid data w) (dkey dir docid)"
    by (rule writes_to_get) (simp add: tree_key_dkey assms)
  then show ?thesis by (simp add: dget_def dput_def wkv.get_put_same assms)
qed

lemma update_doc_reads:
  assumes "\<not> is_nil data" and "update_doc n dir docid data old w = Inr w'"
  shows "dget w' dir docid = data"
  using assms unfolding update_doc_def
  by (auto simp: Let_def rbind_Inr_iff split_def dget_def dput_def wkv.get_put_same)

text \<open>
  C9. A document that is stored without an error is read back as it was given, whether it is new, replaced
  or updated, with all the index writes in between.
\<close>

theorem put_doc_reads_back:
  assumes "plain dir" and "dir \<noteq> ''__indexes__''" and "\<not> is_nil data"
    and "put_doc n dir docid data create w = Inr w'"
  shows "dget w' dir docid = data"
  using assms(4) create_doc_reads [OF assms(1,2,3)] update_doc_reads [OF assms(3)]
  unfolding put_doc_def by (auto simp: Let_def rbind_Inr_iff split: if_splits)

text \<open>An operation on one tree writes only that tree.\<close>

lemma tree_write_own: "writes_to (starts_with (ikey dir (prefix @ ''/''))) w (tree_write dir prefix w ks)"
proof -
  obtain k s where ks: "ks = (k, s)" by force
  have p: "starts_with (ikey dir (prefix @ ''/'')) (ikey dir (prefix @ ''/'' @ k))"
    by (simp add: ikey_def dkey_def starts_with_iff)
  show ?thesis
    using p by (cases s) (auto simp: ks tree_write_def ix_put_def ix_del_def kv_del_def intro!: writes_to_put)
qed

lemma tree_insert_own:
  "ok_res (starts_with (ikey dir (prefix @ ''/''))) (\<lambda>w. w) w (tree_insert n dir prefix sf key v w)"
  unfolding tree_insert_def by (intro ok_bind_at ok_at_store ok_Inr writes_to_foldl tree_write_own)

section \<open>A first document\<close>

lemma kv_get_new [simp]: "kv_get (kv_new Map.empty) k = JNull"
  by (simp add: kv_new_def kv_get_def sget_def)

lemma bpt_insert_fresh:
  assumes "bv_get V ''root'' = None" and "bv_get V ''0'' = None" and "v \<noteq> JNull"
  shows "bpt_insert (Suc n) V c key v = Inr (Some (b_init V key (put_data key v [])))"
  using assms by (simp add: bpt_insert_def b_root_def start_key_def b_get_def put_data_def oput_def data_key_def)

lemma tree_insert_fresh:
  assumes "ix_get dir (prefix @ ''/root'') w = JNull" and "ix_get dir (prefix @ ''/0'') w = JNull" and "v \<noteq> JNull"
  shows "\<exists>w'. tree_insert (Suc n) dir prefix sf key v w = Inr w'"
  using assms by (simp add: tree_insert_def bpt_insert_fresh tree_view_def jv_sv_def)

lemma first_doc_in:
  assumes "\<And>k. ix_get ''a'' k w = JNull" and "dget w ''a'' ''1'' = JNull"
  shows "\<exists>w'. put_doc (Suc n) ''a'' ''1'' (JObj []) create w = Inr w'"
proof -
  let ?w = "dput ''a'' ''1'' (JObj []) w"
  have e: "ix_get ''a'' k ?w = JNull" for k
    using assms(1) [of k] by (simp add: ix_get_def dput_def wkv.get_put_other ikey_def dkey_def)
  obtain w' where w': "tree_insert (Suc n) ''a'' (join_sorts [idsorter]) [idsorter] ''1'' (JObj []) ?w = Inr w'"
    using tree_insert_fresh [OF e e] by blast
  have "writes_to (starts_with (ikey ''a'' (join_sorts [idsorter] @ ''/''))) ?w w'"
    using tree_insert_own [of "''a''" "join_sorts [idsorter]" ?w "Suc n" "[idsorter]" "''1''" "JObj []"] w'
    by (simp add: ok_res_def)
  then have "kv_get w' (ikey ''a'' ''indexes'') = kv_get ?w (ikey ''a'' ''indexes'')"
    by (rule writes_to_get) (simp add: starts_with_def ikey_def dkey_def join_sorts_def idsorter_def)
  then have "get_indexes ''a'' w' = JObj []"
    using e [of "''indexes''"] by (simp add: get_indexes_def ix_get_def or_empty_def)
  then show ?thesis using w' assms(2) by (simp add: put_doc_def create_doc_def Let_def)
qed

lemma first_doc: "\<exists>w'. put_doc (Suc n) ''a'' ''1'' (JObj []) False (kv_new Map.empty) = Inr w'"
  by (rule first_doc_in) (simp_all add: ix_get_def dget_def)

theorem put_doc_reads_back_witness:
  "\<exists>w'. put_doc 5 ''a'' ''1'' (JObj []) False (kv_new Map.empty) = Inr w' \<and> dget w' ''a'' ''1'' = JObj []"
proof -
  obtain w' where "put_doc (Suc 4) ''a'' ''1'' (JObj []) False (kv_new Map.empty) = Inr w'"
    using first_doc [of 4] by blast
  then show ?thesis
    using put_doc_reads_back [of "''a''" "JObj []" 5 "''1''" False "kv_new Map.empty" w'] by (auto simp: plain_def)
qed

section \<open>Names of indexes\<close>

lemma split_every2_concat: "list_all (\<lambda>v. length v = 2) sf \<Longrightarrow> split_every2 (concat sf) = sf"
proof (induction sf)
  case (Cons v sf)
  then obtain x y where "v = [x, y]" by (auto simp: numeral_2_eq_2 length_Suc_conv)
  with Cons show ?case by simp
qed simp

lemma join_concat: "[] \<notin> set xss \<Longrightarrow> join_with sep (map (join_with sep) xss) = join_with sep (concat xss)"
proof (induction xss)
  case (Cons xs xss)
  have app: "join_with sep (xs @ ys) = join_with sep xs @ sep @ join_with sep ys" if "xs \<noteq> []" "ys \<noteq> []" for xs ys
    using that by (induction sep xs rule: join_with.induct) (auto simp: neq_Nil_conv)
  show ?case
  proof (cases xss)
    case (Cons ys yss)
    then have "concat xss \<noteq> []" and "xs \<noteq> []" using Cons.prems by auto
    then have "join_with sep (xs @ concat xss) = join_with sep xs @ sep @ join_with sep (concat xss)"
      by (intro app)
    then show ?thesis using \<open>xss = ys # yss\<close> Cons.IH Cons.prems by simp
  qed simp
qed simp

text \<open>
  The name under which \<open>addIndex\<close> registers an index, read back by splitting at \<open>/\<close> as \<open>put\<close>, \<open>del\<close>
  and \<open>_update\<close> do, gives the sort fields it was made of, and it is the prefix of the tree they write, as
  long as no field name holds a \<open>/\<close>.
\<close>

theorem index_name_roundtrip:
  assumes "sf \<noteq> []" and "\<forall>v \<in> set sf. length v \<in> {1, 2} \<and> (\<forall>s \<in> set v. plain s)"
  shows "key_sorts (new_index_key (norm_sorts sf)) = norm_sorts sf \<and>
     new_index_key (norm_sorts sf) = join_sorts (norm_sorts sf)"
proof -
  let ?n = "norm_sorts sf"
  have two: "list_all (\<lambda>v. length v = 2) ?n"
    using assms(2) by (auto simp: norm_sorts_def list_all_iff)
  have join: "new_index_key ?n = join_sorts ?n"
    using two unfolding new_index_key_def join_sorts_def by (intro join_concat) (auto simp: list_all_iff)
  have "\<forall>s \<in> set (concat ?n). CHR ''/'' \<notin> set s"
    using assms(2) by (auto simp: norm_sorts_def plain_def)
  moreover have "concat ?n \<noteq> []"
    using two assms(1) by (cases ?n) (auto simp: norm_sorts_def)
  ultimately show ?thesis
    using join split_every2_concat [OF two] by (simp add: key_sorts_def join_sorts_def split_on_join)
qed

theorem index_name_roundtrip_witness:
  "key_sorts (new_index_key (norm_sorts [[''age'', ''desc''], [''name'']])) = [[''age'', ''desc''], [''name'', ''asc'']]"
proof -
  have "norm_sorts [[''age'', ''desc''], [''name'']] = [[''age'', ''desc''], [''name'', ''asc'']]"
    by (simp add: norm_sorts_def)
  moreover have "key_sorts (new_index_key (norm_sorts [[''age'', ''desc''], [''name'']])) =
      norm_sorts [[''age'', ''desc''], [''name'']]"
    by (rule conjunct1 [OF index_name_roundtrip]) (simp_all add: plain_def)
  ultimately show ?thesis by simp
qed

section \<open>The register of indexes\<close>

lemma get_indexes_put: "get_indexes dir (ix_put dir ''indexes'' (JObj p) w) = JObj p"
  by (simp add: get_indexes_def ix_put_def ix_get_def wkv.get_put_same or_empty_def)

text \<open>
  C35. \<open>addIndex\<close> registers exactly the new index and \<open>removeIndex\<close> removes exactly the old one; other
  indexes stay registered as they were. Both leave the store alone where the index is there already, not
  there, or not valid.
\<close>

theorem index_register:
  assumes "get_indexes dir w = JObj p" and "validateSortFields (norm_sorts sf)"
    and "key = new_index_key (norm_sorts sf)"
    and "addIndex n dir sf w = Inr w1" and "removeIndex n dir sf w = Inr w2"
  shows "\<not> is_nil (jget (get_indexes dir w1) key) \<and> is_nil (jget (get_indexes dir w2) key) \<and>
     (k \<noteq> key \<longrightarrow> jget (get_indexes dir w1) k = jget (JObj p) k \<and> jget (get_indexes dir w2) k = jget (JObj p) k)"
proof (intro conjI impI)
  have "w1 = w \<and> \<not> is_nil (jget (JObj p) key) \<or>
      (\<exists>v w'. get_indexes dir w1 = JObj (oput key v p) \<and> \<not> is_nil v)"
    using assms unfolding addIndex_def
    by (auto simp: Let_def rbind_Inr_iff split_def get_indexes_put index_entry_def split: if_splits)
  then show "\<not> is_nil (jget (get_indexes dir w1) key)"
    and "k \<noteq> key \<Longrightarrow> jget (get_indexes dir w1) k = jget (JObj p) k"
    using assms(1) by auto
  have "w2 = w \<and> is_nil (jget (JObj p) key) \<or> get_indexes dir w2 = JObj (odel key p)"
    using assms unfolding removeIndex_def
    by (auto simp: Let_def rbind_Inr_iff get_indexes_put split: if_splits)
  then show "is_nil (jget (get_indexes dir w2) key)"
    and "k \<noteq> key \<Longrightarrow> jget (get_indexes dir w2) k = jget (JObj p) k"
    using assms(1) by auto
qed
theorem index_register_witness:
  "\<exists>w1. addIndex 5 ''a'' [[''x''], [''y'']] (kv_new Map.empty) = Inr w1 \<and>
     \<not> is_nil (jget (get_indexes ''a'' w1) ''x/asc/y/asc'')"
proof -
  let ?w = "kv_new Map.empty"
  have i: "get_indexes ''a'' ?w = JObj []" by (simp add: get_indexes_def ix_get_def or_empty_def)
  have v: "validateSortFields (norm_sorts [[''x''], [''y'']])" 
    by (simp add: validateSortFields_def norm_sorts_def snd_of_def sort_pair_def)
  have k: "''x/asc/y/asc'' = new_index_key (norm_sorts [[''x''], [''y'']])"
    by (simp add: new_index_key_def norm_sorts_def)
  have t: "tree_docs 5 ''a'' p s ?w = Inr []" for p s
    by (simp add: eval_nat_numeral tree_docs_def bpt_range_def Let_def range_start_def range_limit_def no_opt_def tree_view_def b_get_def ix_get_def jv_sv_def start_key_def b_root_def)
  have a: "snd_of (hd (norm_sorts [[''x''], [''y'']])) \<noteq> ''array''"
    by (simp add: norm_sorts_def snd_of_def sort_pair_def)
  obtain w1 where "addIndex 5 ''a'' [[''x''], [''y'']] ?w = Inr w1"
    using i v t a by (auto simp: addIndex_def Let_def)
  moreover obtain w2 where "removeIndex 5 ''a'' [[''x''], [''y'']] ?w = Inr w2"
    using i v t a by (auto simp: removeIndex_def Let_def)
  ultimately show ?thesis using index_register [OF i v k] by blast
qed

section \<open>The classification of changes\<close>

lemma array_key_not_plain: "plain k \<Longrightarrow> k \<noteq> array_key k' v \<and> array_key k' v \<noteq> k"
  by (auto simp: plain_def array_key_def)

lemma array_keys_not_plain [simp]: "plain k \<Longrightarrow> k \<notin> array_key k' ` S"
  using array_key_not_plain by auto

lemma mod_field_plain:
  assumes "plain k"
  shows "k \<in> set (md_news (mod_field p q m k')) \<longleftrightarrow>
      k \<in> set (md_news m) \<or> k' = k \<and> \<not> jequals (jget p k) (jget q k) \<and> is_nil (jget p k)"
    and "k \<in> set (md_dels (mod_field p q m k')) \<longleftrightarrow>
      k \<in> set (md_dels m) \<or> k' = k \<and> \<not> jequals (jget p k) (jget q k) \<and> \<not> is_nil (jget p k) \<and> is_nil (jget q k)"
    and "k \<in> set (md_changes (mod_field p q m k')) \<longleftrightarrow>
      k \<in> set (md_changes m) \<or> k' = k \<and> \<not> jequals (jget p k) (jget q k) \<and> \<not> is_nil (jget p k) \<and> \<not> is_nil (jget q k)"
  using assms by (auto simp: mod_field_def Let_def)

lemma mod_fields_plain:
  assumes "plain k"
  shows "k \<in> set (md_news (foldl (mod_field p q) m ks)) \<longleftrightarrow>
      k \<in> set (md_news m) \<or> k \<in> set ks \<and> \<not> jequals (jget p k) (jget q k) \<and> is_nil (jget p k)"
    and "k \<in> set (md_dels (foldl (mod_field p q) m ks)) \<longleftrightarrow>
      k \<in> set (md_dels m) \<or> k \<in> set ks \<and> \<not> jequals (jget p k) (jget q k) \<and> \<not> is_nil (jget p k) \<and> is_nil (jget q k)"
    and "k \<in> set (md_changes (foldl (mod_field p q) m ks)) \<longleftrightarrow>
      k \<in> set (md_changes m) \<or> k \<in> set ks \<and> \<not> jequals (jget p k) (jget q k) \<and> \<not> is_nil (jget p k) \<and> \<not> is_nil (jget q k)"
  by (induction ks arbitrary: m) (auto simp: mod_field_plain [OF assms])

text \<open>
  \<open>mod\<close> sorts the top-level fields of two versions of a document into three disjoint lists: a field
  that differs is new where the old version has no value, deleted where the new one has none, and
  changed otherwise. Field names hold no \<open>/\<close>; the keys of array elements, which do, are listed besides.
\<close>

theorem mod_classifies:
  assumes "plain k" and "a = jget (JObj p) k" and "b = jget (JObj q) k"
  shows "(k \<in> set (md_news (mod_doc (JObj p) (JObj q))) \<longleftrightarrow> \<not> jequals a b \<and> is_nil a) \<and>
     (k \<in> set (md_dels (mod_doc (JObj p) (JObj q))) \<longleftrightarrow> \<not> jequals a b \<and> \<not> is_nil a \<and> is_nil b) \<and>
     (k \<in> set (md_changes (mod_doc (JObj p) (JObj q))) \<longleftrightarrow> \<not> jequals a b \<and> \<not> is_nil a \<and> \<not> is_nil b)"
proof (cases "k \<in> fst ` set p \<union> fst ` set q")
  case True
  then show ?thesis
    using assms(2,3) unfolding mod_doc_def by (auto simp: Let_def mod_fields_plain [OF assms(1)])
next
  case False
  then have "map_of p k = None" "map_of q k = None" by (simp_all add: map_of_eq_None_iff)
  then have "a = JUndef" "b = JUndef" using assms(2,3) by simp_all
  with False show ?thesis unfolding mod_doc_def by (auto simp: Let_def mod_fields_plain [OF assms(1)])
qed

theorem mod_classifies_witness:
  "''x'' \<in> set (md_changes (mod_doc (JObj [(''x'', JNum 1)]) (JObj [(''x'', JNum 2), (''y'', JNum 3)])))"
  using mod_classifies [of "''x''" "JNum 1" "[(''x'', JNum 1)]" "JNum 2" "[(''x'', JNum 2), (''y'', JNum 3)]"]
  by (simp add: plain_def)

end
