(* ===== verification/Json.thy ===== *)
theory Json
  imports Js_Value
begin

text \<open>
  \<open>JSON.parse\<close>, which the code applies to the query of a request. The numbers of the model are integers:
  a literal with a fraction or an exponent, like an escape above 255, is refused here.
  \<open>pval\<close> and its companions take a bound on the number of calls; twice the length of the text is enough,
  since two calls in a row without a character in between do not occur.
\<close>

definition json_ws :: "char \<Rightarrow> bool" where
  "json_ws c \<longleftrightarrow> c = CHR 0x20 \<or> c = CHR 0x09 \<or> c = CHR 0x0A \<or> c = CHR 0x0D"

definition skip_ws :: "string \<Rightarrow> string" where
  "skip_ws s = dropWhile json_ws s"

definition unhex :: "char \<Rightarrow> nat option" where
  "unhex c =
     (let n = of_char c in
      if 48 \<le> n \<and> n \<le> 57 then Some (n - 48)
      else if 97 \<le> n \<and> n \<le> 102 then Some (n - 87)
      else if 65 \<le> n \<and> n \<le> 70 then Some (n - 55)
      else None)"

definition unescape :: "char \<Rightarrow> char option" where
  "unescape c =
     (if c = CHR 0x22 \<or> c = CHR 0x5C \<or> c = CHR ''/'' then Some c
      else if c = CHR ''b'' then Some (CHR 0x08)
      else if c = CHR ''f'' then Some (CHR 0x0C)
      else if c = CHR ''n'' then Some (CHR 0x0A)
      else if c = CHR ''r'' then Some (CHR 0x0D)
      else if c = CHR ''t'' then Some (CHR 0x09)
      else None)"

definition hex4 :: "char \<Rightarrow> char \<Rightarrow> char \<Rightarrow> char \<Rightarrow> char option" where
  "hex4 a b c d =
     (case (unhex a, unhex b, unhex c, unhex d) of
        (Some 0, Some 0, Some x, Some y) \<Rightarrow> Some (char_of (16 * x + y))
      | _ \<Rightarrow> None)"

definition push_char :: "char option \<Rightarrow> (string \<times> string) option \<Rightarrow> (string \<times> string) option" where
  "push_char c r = (case (c, r) of (Some x, Some (s, rest)) \<Rightarrow> Some (x # s, rest) | _ \<Rightarrow> None)"

text \<open>A string after its opening quote: the text and the rest.\<close>

fun pstr :: "string \<Rightarrow> (string \<times> string) option" where
  "pstr [] = None"
| "pstr (c # cs) =
     (if c = CHR 0x22 then Some ([], cs)
      else if c = CHR 0x5C then
        (case cs of
           e # r \<Rightarrow>
             (if e = CHR ''u'' then
                (case r of a # b # x # y # r' \<Rightarrow> push_char (hex4 a b x y) (pstr r') | _ \<Rightarrow> None)
              else push_char (unescape e) (pstr r))
         | [] \<Rightarrow> None)
      else if (of_char c :: nat) < 32 then None
      else push_char (Some c) (pstr cs))"

definition pnum :: "string \<Rightarrow> (jv \<times> string) option" where
  "pnum s =
     (let (sg, t) = (if take 1 s = ''-'' then (-1, tl s) else (1, s));
          ds = takeWhile is_digit t; rest = dropWhile is_digit t
      in if ds = [] \<or> (hd ds = CHR ''0'' \<and> tl ds \<noteq> []) \<or>
            (rest \<noteq> [] \<and> hd rest \<in> {CHR ''.'', CHR ''e'', CHR ''E''}) then None
         else Some (JNum (sg * int (digits_val ds)), rest))"

definition plit :: "string \<Rightarrow> jv \<Rightarrow> string \<Rightarrow> (jv \<times> string) option" where
  "plit w v s = (if starts_with w s then Some (v, drop (length w) s) else None)"

fun pval :: "nat \<Rightarrow> string \<Rightarrow> (jv \<times> string) option"
  and pelems :: "nat \<Rightarrow> string \<Rightarrow> (jv list \<times> string) option"
  and pmembers :: "nat \<Rightarrow> (string \<times> jv) list \<Rightarrow> string \<Rightarrow> ((string \<times> jv) list \<times> string) option" where
  "pval 0 s = None"
| "pval (Suc n) s =
     (case skip_ws s of
        [] \<Rightarrow> None
      | c # cs \<Rightarrow>
          if c = CHR 0x22 then map_option (\<lambda>(t, r). (JStr t, r)) (pstr cs)
          else if c = CHR ''['' then
            (if take 1 (skip_ws cs) = '']'' then Some (JArr [], tl (skip_ws cs))
             else map_option (\<lambda>(vs, r). (JArr vs, r)) (pelems n cs))
          else if c = CHR ''{'' then
            (if take 1 (skip_ws cs) = ''}'' then Some (JObj [], tl (skip_ws cs))
             else map_option (\<lambda>(p, r). (JObj p, r)) (pmembers n [] cs))
          else if c = CHR ''-'' \<or> is_digit c then pnum (c # cs)
          else if c = CHR ''t'' then plit ''true'' (JBool True) (c # cs)
          else if c = CHR ''f'' then plit ''false'' (JBool False) (c # cs)
          else plit ''null'' JNull (c # cs))"
| "pelems 0 s = None"
| "pelems (Suc n) s =
     (case pval n s of
        None \<Rightarrow> None
      | Some (v, r) \<Rightarrow>
          (case skip_ws r of
             c # r' \<Rightarrow>
               (if c = CHR '']'' then Some ([v], r')
                else if c = CHR '','' then map_option (\<lambda>(vs, q). (v # vs, q)) (pelems n r')
                else None)
           | [] \<Rightarrow> None))"
| "pmembers 0 p s = None"
| "pmembers (Suc n) p s =
     (case skip_ws s of
        [] \<Rightarrow> None
      | q # cs \<Rightarrow>
          (if q \<noteq> CHR 0x22 then None
           else case pstr cs of
             None \<Rightarrow> None
           | Some (k, r) \<Rightarrow>
               (if take 1 (skip_ws r) \<noteq> '':'' then None
                else case pval n (tl (skip_ws r)) of
                  None \<Rightarrow> None
                | Some (v, r2) \<Rightarrow>
                    (case skip_ws r2 of
                       c # r' \<Rightarrow>
                         (if c = CHR ''}'' then Some (oput k v p, r')
                          else if c = CHR '','' then pmembers n (oput k v p) r'
                          else None)
                     | [] \<Rightarrow> None))))"

definition json_parse :: "string \<Rightarrow> jv res" where
  "json_parse s =
     (case pval (2 * length s + 2) s of
        Some (v, r) \<Rightarrow> if skip_ws r = [] then Inr v else Inl (Err ''Unexpected token'')
      | None \<Rightarrow> Inl (Err ''Unexpected token''))"

end
