(* ===== verification/Keccak.thy ===== *)
theory Keccak
  imports Js_Prelude "HOL-Library.Word"
begin

unbundle bit_operations_syntax

text \<open>
  Keccak-256, \<open>core/src/keccak.js\<close>: the permutation on 50 words of 32 bits, the sponge over a buffer of
  200 bytes, and the digest. The state array of the code is one buffer seen as bytes and, little endian,
  as 32-bit words; here it is the list of its bytes, turned into words and back around the permutation.

  The second half is the reference: the permutation of the standard on 25 lanes of 64 bits. A lane is two
  neighbouring words, the low half first, and the code's permutation is the reference on lanes
  (\<open>keccakP_is_keccak_f\<close>).
\<close>

type_synonym kbytes = "8 word list"
type_synonym kwords = "32 word list"

section \<open>The tables\<close>

text \<open>The loop over the rounds: \<open>R\<close>, \<open>x\<close> and \<open>y\<close> are threaded; the inner loop makes the round constant.\<close>

definition iota_r :: "nat \<Rightarrow> nat" where
  "iota_r r = (push_bit 1 r XOR drop_bit 7 r * 0x71) mod 256"

definition iota_inner :: "nat \<Rightarrow> nat \<times> nat" where
  "iota_inner r0 =
     foldl (\<lambda>(r, t) j. let r' = iota_r r in (r', if r' AND 2 \<noteq> 0 then t XOR push_bit (2 ^ j - 1) 1 else t))
       (r0, 0) [0..<7]"

fun sha3_tables :: "nat \<Rightarrow> nat \<Rightarrow> nat \<Rightarrow> nat \<Rightarrow> nat \<Rightarrow> (nat \<times> nat \<times> nat) list" where
  "sha3_tables 0 round r x y = []"
| "sha3_tables (Suc n) round r x y =
     (let x' = y; y' = (2 * x + 3 * y) mod 5; (r', t) = iota_inner r
      in (2 * (5 * y' + x'), (round + 1) * (round + 2) div 2 mod 64, t) # sha3_tables n (Suc round) r' x' y')"

definition SHA3 :: "(nat \<times> nat \<times> nat) list" where
  "SHA3 = sha3_tables 24 0 1 1 0"

definition SHA3_PI :: "nat list" where
  "SHA3_PI = map fst SHA3"

definition SHA3_ROTL :: "nat list" where
  "SHA3_ROTL = map (fst \<circ> snd) SHA3"

text \<open>\<open>fromBig(n, true)\<close>: the low half comes first.\<close>

definition fromBig_le :: "nat \<Rightarrow> 32 word \<times> 32 word" where
  "fromBig_le n = (of_nat (n mod 2 ^ 32), of_nat (n div 2 ^ 32 mod 2 ^ 32))"

definition SHA3_IOTA :: "(32 word \<times> 32 word) list" where
  "SHA3_IOTA = map (fromBig_le \<circ> snd \<circ> snd) SHA3"

section \<open>The permutation\<close>

definition rotlH :: "32 word \<Rightarrow> 32 word \<Rightarrow> nat \<Rightarrow> 32 word" where
  "rotlH h l s =
     (if s > 32 then push_bit (s - 32) l OR drop_bit (64 - s) h else push_bit s h OR drop_bit (32 - s) l)"

definition rotlL :: "32 word \<Rightarrow> 32 word \<Rightarrow> nat \<Rightarrow> 32 word" where
  "rotlL h l s =
     (if s > 32 then push_bit (s - 32) h OR drop_bit (64 - s) l else push_bit s l OR drop_bit (32 - s) h)"

text \<open>Theta: the column parities \<open>B\<close>, then every word of a column. The inner loops write each word once.\<close>

definition theta_B :: "kwords \<Rightarrow> nat \<Rightarrow> 32 word" where
  "theta_B s x = s ! x XOR s ! (x + 10) XOR s ! (x + 20) XOR s ! (x + 30) XOR s ! (x + 40)"

definition theta :: "kwords \<Rightarrow> kwords" where
  "theta s =
     (let B = map (theta_B s) [0..<10] in
      foldl (\<lambda>s i. let x = 2 * i;
                       idx1 = (x + 8) mod 10; idx0 = (x + 2) mod 10;
                       B0 = B ! idx0; B1 = B ! (idx0 + 1);
                       Th = rotlH B0 B1 1 XOR B ! idx1; Tl = rotlL B0 B1 1 XOR B ! (idx1 + 1)
                   in foldl (\<lambda>s k. let y = 10 * k in
                        (s[x + y := s ! (x + y) XOR Th])[x + y + 1 := s ! (x + y + 1) XOR Tl]) s [0..<5])
        s [0..<5])"

text \<open>Rho and Pi: one walk along the cycle of the lanes, the displaced lane carried along.\<close>

definition rho_pi :: "kwords \<Rightarrow> kwords" where
  "rho_pi s =
     fst (foldl (\<lambda>(s, curH, curL) (p, shift).
            (s[p := rotlH curH curL shift, p + 1 := rotlL curH curL shift], s ! p, s ! (p + 1)))
          (s, s ! 2, s ! 3) (zip SHA3_PI SHA3_ROTL))"

definition chi :: "kwords \<Rightarrow> kwords" where
  "chi s =
     foldl (\<lambda>s k. let y = 10 * k; B = map (\<lambda>x. s ! (y + x)) [0..<10] in
            foldl (\<lambda>s x. s[y + x := s ! (y + x) XOR (NOT (B ! ((x + 2) mod 10)) AND B ! ((x + 4) mod 10))]) s [0..<10])
       s [0..<5]"

definition iota :: "32 word \<times> 32 word \<Rightarrow> kwords \<Rightarrow> kwords" where
  "iota hl s = s[0 := s ! 0 XOR fst hl, 1 := s ! 1 XOR snd hl]"

definition keccakP :: "kwords \<Rightarrow> kwords" where
  "keccakP s = foldl (\<lambda>s c. iota c (chi (rho_pi (theta s)))) s SHA3_IOTA"

section \<open>The buffer\<close>

fun bytes_words :: "kbytes \<Rightarrow> kwords" where
  "bytes_words (a # b # c # d # bs) =
     (ucast a OR push_bit 8 (ucast b) OR push_bit 16 (ucast c) OR push_bit 24 (ucast d)) # bytes_words bs"
| "bytes_words bs = []"

definition word_bytes :: "32 word \<Rightarrow> kbytes" where
  "word_bytes w = [ucast w, ucast (drop_bit 8 w), ucast (drop_bit 16 w), ucast (drop_bit 24 w)]"

definition words_bytes :: "kwords \<Rightarrow> kbytes" where
  "words_bytes ws = concat (map word_bytes ws)"

record kstate =
  k_state :: kbytes
  k_pos :: nat
  k_posOut :: nat
  k_finished :: bool
  k_destroyed :: bool

record kparams =
  k_blockLen :: nat
  k_suffix :: "8 word"
  k_outputLen :: nat

definition k_new :: "kparams \<Rightarrow> kstate res" where
  "k_new P =
     (if k_blockLen P = 0 \<or> k_blockLen P \<ge> 200 then Inl (Err ''Sha3 supports only keccak-f1600 function'')
      else Inr \<lparr>k_state = replicate 200 0, k_pos = 0, k_posOut = 0, k_finished = False, k_destroyed = False\<rparr>)"

definition k_keccak :: "kstate \<Rightarrow> kstate" where
  "k_keccak k = k\<lparr>k_state := words_bytes (keccakP (bytes_words (k_state k))), k_posOut := 0, k_pos := 0\<rparr>"

definition xor_byte :: "nat \<Rightarrow> 8 word \<Rightarrow> kbytes \<Rightarrow> kbytes" where
  "xor_byte i b bs = bs[i := bs ! i XOR b]"

text \<open>The loop of \<open>update\<close>. A chunk is never empty while \<open>pos < blockLen\<close>; the loop of the code would not
  end on an empty one.\<close>

function k_absorb :: "kparams \<Rightarrow> kbytes \<Rightarrow> kstate \<Rightarrow> kstate" where
  "k_absorb P data k =
     (if data = [] then k
      else let n = min (k_blockLen P - k_pos k) (length data);
               k1 = k\<lparr>k_state := foldl (\<lambda>bs i. xor_byte (k_pos k + i) (data ! i) bs) (k_state k) [0..<n],
                      k_pos := k_pos k + n\<rparr>;
               k2 = (if k_pos k1 = k_blockLen P then k_keccak k1 else k1)
           in if n = 0 then k else k_absorb P (drop n data) k2)"
  by pat_completeness auto
termination
  by (relation "measure (\<lambda>(P, data, k). length data)") auto

declare k_absorb.simps [simp del]

definition k_update :: "kparams \<Rightarrow> kbytes \<Rightarrow> kstate \<Rightarrow> kstate res" where
  "k_update P data k =
     (if k_destroyed k then Inl (Err ''Hash instance has been destroyed'')
      else if k_finished k then Inl (Err ''Hash#digest() has already been called'')
      else Inr (k_absorb P data k))"

definition k_finish :: "kparams \<Rightarrow> kstate \<Rightarrow> kstate" where
  "k_finish P k =
     (if k_finished k then k
      else let k1 = k\<lparr>k_finished := True, k_state := xor_byte (k_pos k) (k_suffix P) (k_state k)\<rparr>;
               k2 = (if k_suffix P AND 0x80 \<noteq> 0 \<and> k_pos k = k_blockLen P - 1 then k_keccak k1 else k1);
               k3 = k2\<lparr>k_state := xor_byte (k_blockLen P - 1) 0x80 (k_state k2)\<rparr>
           in k_keccak k3)"

text \<open>The loop of \<open>writeInto\<close>: \<open>n\<close> bytes are left to write.\<close>

function k_squeeze :: "kparams \<Rightarrow> nat \<Rightarrow> kstate \<Rightarrow> kbytes \<times> kstate" where
  "k_squeeze P n k =
     (if n = 0 then ([], k)
      else let k1 = (if k_posOut k \<ge> k_blockLen P then k_keccak k else k);
               m = min (k_blockLen P - k_posOut k1) n
           in if m = 0 then ([], k1)
              else let (bs, k2) = k_squeeze P (n - m) (k1\<lparr>k_posOut := k_posOut k1 + m\<rparr>)
                   in (take m (drop (k_posOut k1) (k_state k1)) @ bs, k2))"
  by pat_completeness auto
termination
  by (relation "measure (\<lambda>(P, n, k). n)") auto

declare k_squeeze.simps [simp del]

definition k_writeInto :: "kparams \<Rightarrow> nat \<Rightarrow> kstate \<Rightarrow> (kbytes \<times> kstate) res" where
  "k_writeInto P n k =
     (if k_destroyed k then Inl (Err ''Hash instance has been destroyed'')
      else Inr (k_squeeze P n (k_finish P k)))"

definition k_destroy :: "kstate \<Rightarrow> kstate" where
  "k_destroy k = k\<lparr>k_destroyed := True, k_state := replicate (length (k_state k)) 0\<rparr>"

definition k_digest :: "kparams \<Rightarrow> kstate \<Rightarrow> (kbytes \<times> kstate) res" where
  "k_digest P k =
     (if k_finished k then Inl (Err ''digest() was already called'')
      else rbind (k_writeInto P (k_outputLen P) k) (\<lambda>(out, k1). Inr (out, k_destroy k1)))"

definition keccak_256 :: kparams where
  "keccak_256 = \<lparr>k_blockLen = 136, k_suffix = 0x01, k_outputLen = 32\<rparr>"

definition hashC :: "kparams \<Rightarrow> kbytes \<Rightarrow> kbytes res" where
  "hashC P message =
     rbind (k_new P) (\<lambda>k. rbind (k_update P message k) (\<lambda>k1. rbind (k_digest P k1) (\<lambda>(out, k2). Inr out)))"

definition keccak256 :: "kbytes \<Rightarrow> kbytes res" where
  "keccak256 msg = hashC keccak_256 msg"


section \<open>The reference\<close>

definition lane :: "32 word \<Rightarrow> 32 word \<Rightarrow> 64 word" where
  "lane h l = ucast h OR push_bit 32 (ucast l)"

definition lanes :: "kwords \<Rightarrow> 64 word list" where
  "lanes s = map (\<lambda>i. lane (s ! (2 * i)) (s ! (2 * i + 1))) [0..<25]"

definition f_theta :: "64 word list \<Rightarrow> 64 word list" where
  "f_theta A =
     (let C = map (\<lambda>x. A ! x XOR A ! (x + 5) XOR A ! (x + 10) XOR A ! (x + 15) XOR A ! (x + 20)) [0..<5];
          D = map (\<lambda>x. word_rotl 1 (C ! ((x + 1) mod 5)) XOR C ! ((x + 4) mod 5)) [0..<5]
      in map (\<lambda>i. A ! i XOR D ! (i mod 5)) [0..<25])"

lemma bit_lane: "bit (lane h l) n \<longleftrightarrow> (if n < 32 then bit h n else n < 64 \<and> bit l (n - 32))"
  by (auto simp: lane_def bit_simps dest: bit_imp_le_length)

lemma lane_xor: "lane (a XOR b) (c XOR d) = lane a c XOR lane b d"
  by (rule bit_word_eqI) (auto simp: bit_lane bit_simps)

lemma lane_and: "lane (a AND b) (c AND d) = lane a c AND lane b d"
  by (rule bit_word_eqI) (auto simp: bit_lane bit_simps)

lemma lane_not: "lane (NOT a) (NOT c) = NOT (lane a c)"
  by (rule bit_word_eqI) (auto simp: bit_lane bit_simps)

lemma rot_index:
  "n < 64 \<Longrightarrow> 0 < s \<Longrightarrow> s < 64 \<Longrightarrow> (n + (64 - s)) mod 64 = (if n < s then n + (64 - s) else n - s)" for n s :: nat
  by (cases "n < s") (auto simp: mod_if)

lemma bit_rotl64:
  fixes w :: "64 word"
  assumes "n < 64" "0 < s" "s < 64"
  shows "bit (word_rotl s w) n \<longleftrightarrow> bit w (if n < s then n + (64 - s) else n - s)"
  using assms rot_index [OF assms] by (simp add: bit_word_rotl_iff)

lemma rot_arith:
  "s < 32 \<Longrightarrow> n + (64 - s) - 32 = n + (32 - s)"
  "s < 32 \<Longrightarrow> (32 - s) + n = n + (32 - s)"
  "\<not> n < 32 \<Longrightarrow> s < 32 \<Longrightarrow> n - 32 + (32 - s) = n - s"
  "\<not> n < 32 \<Longrightarrow> s < 32 \<Longrightarrow> (32 - s) + (n - 32) = n - s"
  "n - 32 - s = n - s - 32"
  "32 < s \<Longrightarrow> s - 32 \<le> n \<Longrightarrow> s < 64 \<Longrightarrow> n + (64 - s) - 32 = n - (s - 32)"
  "(64 - s) + n = n + (64 - s)"
  "32 < s \<Longrightarrow> \<not> n < 32 \<Longrightarrow> n - 32 - (s - 32) = n - s"
  "\<not> n < 32 \<Longrightarrow> (64 - s) + (n - 32) = n + (64 - s) - 32"
  "\<not> n < 32 \<Longrightarrow> n - 32 + (64 - s) = n + (64 - s) - 32"
  for n s :: nat
  by linarith+

lemma lane_rotl:
  assumes "0 < s" "s < 64" "s \<noteq> 32"
  shows "lane (rotlH h l s) (rotlL h l s) = word_rotl s (lane h l)"
proof (rule bit_word_eqI)
  fix n assume "n < LENGTH(64)"
  then have n: "n < 64" by simp
  have h: "\<not> bit h m" "\<not> bit l m" if "\<not> m < 32" for m
    using that bit_imp_le_length [of h m] bit_imp_le_length [of l m] by auto
  consider "s < 32" "n < 32" | "s < 32" "\<not> n < 32" | "32 < s" "n < 32" | "32 < s" "\<not> n < 32"
    using assms by linarith
  then show "bit (lane (rotlH h l s) (rotlL h l s)) n = bit (word_rotl s (lane h l)) n"
    unfolding bit_rotl64 [OF n assms(1,2)] bit_lane
    using assms n
    by cases (auto simp: rotlH_def rotlL_def h bit_or_iff bit_push_bit_iff bit_drop_bit_eq rot_arith add.commute [of 32])
qed

lemma upt_25: "[0..<25] = [0,1,2,3,4,5,6,7,8,9,10,11,12,13,14,15,16,17,18,19,20,21,22,23,24::nat]"
  by (simp add: upt_rec)
lemma upt_50: "[0..<50] = [0,1,2,3,4,5,6,7,8,9,10,11,12,13,14,15,16,17,18,19,20,21,22,23,24,25,26,27,28,29,30,31,32,33,34,35,36,37,38,39,40,41,42,43,44,45,46,47,48,49::nat]"
  by (simp add: upt_rec)

lemma upt_10: "[0..<10] = [0,1,2,3,4,5,6,7,8,9::nat]"
  by (simp add: upt_rec)
lemma upt_5: "[0..<5] = [0,1,2,3,4::nat]"
  by (simp add: upt_rec)

lemma theta_lanes: "lanes (theta (map v [0..<50])) = f_theta (lanes (map v [0..<50]))"
  by (simp add: lanes_def theta_def f_theta_def theta_B_def Let_def upt_50 upt_25 upt_10 upt_5 lane_xor lane_rotl xor.assoc)

definition rho_table :: "nat list" where
  "rho_table = [0, 1, 62, 28, 27, 36, 44, 6, 55, 20, 3, 10, 43, 25, 39, 41, 45, 15, 21, 8, 18, 2, 61, 56, 14]"

text \<open>The lane at \<open>(x, y)\<close> moves to \<open>(y, 2x + 3y)\<close>: lane \<open>(x', y')\<close> comes from \<open>(x' + 3 y', x')\<close>.\<close>

definition f_rho_pi :: "64 word list \<Rightarrow> 64 word list" where
  "f_rho_pi A =
     map (\<lambda>i. let x' = i mod 5; y' = i div 5; j = (x' + 3 * y') mod 5 + 5 * x'
              in word_rotl (rho_table ! j) (A ! j)) [0..<25]"

definition f_chi :: "64 word list \<Rightarrow> 64 word list" where
  "f_chi B =
     map (\<lambda>i. let x = i mod 5; y = i div 5
              in B ! i XOR (NOT (B ! ((x + 1) mod 5 + 5 * y)) AND B ! ((x + 2) mod 5 + 5 * y))) [0..<25]"

definition f_iota :: "64 word \<Rightarrow> 64 word list \<Rightarrow> 64 word list" where
  "f_iota rc A = A[0 := A ! 0 XOR rc]"

lemma rotl_0: "word_rotl 0 w = w" for w :: "64 word"
  by (rule bit_word_eqI) (simp add: bit_word_rotl_iff)

lemma sha3_step:
  "0 < n \<Longrightarrow> sha3_tables n round r x y =
     (2 * (5 * ((2 * x + 3 * y) mod 5) + y), (round + 1) * (round + 2) div 2 mod 64, snd (iota_inner r)) #
     sha3_tables (n - 1) (Suc round) (fst (iota_inner r)) y ((2 * x + 3 * y) mod 5)"
  by (cases n) (simp_all add: Let_def split_def)

lemma upt_7: "[0..<7] = [0,1,2,3,4,5,6::nat]"
  by (simp add: upt_rec)

lemma iota_inner_evals:
  "iota_inner (Suc 0) = (128, 0x1)"
  "iota_inner 128 = (216, 0x8082)"
  "iota_inner 216 = (26, 0x800000000000808a)"
  "iota_inner 26 = (223, 0x8000000080008000)"
  "iota_inner 223 = (9, 0x808b)"
  "iota_inner 9 = (53, 0x80000001)"
  "iota_inner 53 = (79, 0x8000000080008081)"
  "iota_inner 79 = (202, 0x8000000000008009)"
  "iota_inner 202 = (112, 0x8a)"
  "iota_inner 112 = (65, 0x88)"
  "iota_inner 65 = (236, 0x80008009)"
  "iota_inner 236 = (213, 0x8000000a)"
  "iota_inner 213 = (205, 0x8000808b)"
  "iota_inner 205 = (99, 0x800000000000008b)"
  "iota_inner 99 = (171, 0x8000000000008089)"
  "iota_inner 171 = (170, 0x8000000000008003)"
  "iota_inner 170 = (42, 0x8000000000008002)"
  "iota_inner 42 = (242, 0x8000000000000080)"
  "iota_inner 242 = (232, 0x800a)"
  "iota_inner 232 = (55, 0x800000008000000a)"
  "iota_inner 55 = (62, 0x8000000080008081)"
  "iota_inner 62 = (11, 0x8000000000008080)"
  "iota_inner 11 = (68, 0x80000001)"
  "iota_inner 68 = (142, 0x8000000080008008)"
  by (simp_all add: iota_inner_def upt_7 iota_r_def push_bit_eq_mult drop_bit_eq_div)

lemma SHA3_table:
  "SHA3 = [(20, 1, 0x1), (14, 3, 0x8082), (22, 6, 0x800000000000808a), (34, 10, 0x8000000080008000), (36, 15, 0x808b), (6, 21, 0x80000001), (10, 28, 0x8000000080008081), (32, 36, 0x8000000000008009), (16, 45, 0x8a), (42, 55, 0x88), (48, 2, 0x80008009), (8, 14, 0x8000000a), (30, 27, 0x8000808b), (46, 41, 0x800000000000008b), (38, 56, 0x8000000000008089), (26, 8, 0x8000000000008003), (24, 25, 0x8000000000008002), (4, 43, 0x8000000000000080), (40, 62, 0x800a), (28, 18, 0x800000008000000a), (44, 39, 0x8000000080008081), (18, 61, 0x8000000000008080), (12, 20, 0x80000001), (2, 44, 0x8000000080008008)]"
  by (simp add: SHA3_def sha3_step iota_inner_evals)

lemma PI_table: "SHA3_PI = [20, 14, 22, 34, 36, 6, 10, 32, 16, 42, 48, 8, 30, 46, 38, 26, 24, 4, 40, 28, 44, 18, 12, 2]"
  by (simp add: SHA3_PI_def SHA3_table)

lemma ROTL_table: "SHA3_ROTL = [1, 3, 6, 10, 15, 21, 28, 36, 45, 55, 2, 14, 27, 41, 56, 8, 25, 43, 62, 18, 39, 61, 20, 44]"
  by (simp add: SHA3_ROTL_def SHA3_table)

lemma rho_pi_lanes: "lanes (rho_pi (map v [0..<50])) = f_rho_pi (lanes (map v [0..<50]))"
  by (simp add: lanes_def rho_pi_def f_rho_pi_def Let_def upt_50 upt_25 PI_table ROTL_table rho_table_def lane_rotl rotl_0)

lemma chi_lanes: "lanes (chi (map v [0..<50])) = f_chi (lanes (map v [0..<50]))"
  by (simp add: lanes_def chi_def f_chi_def Let_def upt_50 upt_25 upt_10 upt_5 lane_xor lane_and lane_not)

lemma iota_lanes: "lanes (iota (h, l) (map v [0..<50])) = f_iota (lane h l) (lanes (map v [0..<50]))"
  by (simp add: lanes_def iota_def f_iota_def upt_50 upt_25 lane_xor)

text \<open>The round constants of the standard.\<close>

definition RC_table :: "64 word list" where
  "RC_table =
     [0x0000000000000001, 0x0000000000008082, 0x800000000000808A, 0x8000000080008000,
      0x000000000000808B, 0x0000000080000001, 0x8000000080008081, 0x8000000000008009,
      0x000000000000008A, 0x0000000000000088, 0x0000000080008009, 0x000000008000000A,
      0x000000008000808B, 0x800000000000008B, 0x8000000000008089, 0x8000000000008003,
      0x8000000000008002, 0x8000000000000080, 0x000000000000800A, 0x800000008000000A,
      0x8000000080008081, 0x8000000000008080, 0x0000000080000001, 0x8000000080008008]"

definition f_round :: "64 word list \<Rightarrow> 64 word \<Rightarrow> 64 word list" where
  "f_round A rc = f_iota rc (f_chi (f_rho_pi (f_theta A)))"

definition keccak_f :: "64 word list \<Rightarrow> 64 word list" where
  "keccak_f A = foldl f_round A RC_table"

lemma fromBig_bits: "fromBig_le n = (of_nat (take_bit 32 n), of_nat (take_bit 32 (drop_bit 32 n)))"
  by (simp only: fromBig_le_def take_bit_eq_mod drop_bit_eq_div)

lemma bit_of_nat_word: "bit (of_nat n :: 'a::len word) m \<longleftrightarrow> m < LENGTH('a) \<and> bit n m"
  using bit_word_of_int_iff [where 'a = 'a, of "int n" m] by (simp add: bit_of_nat_iff_bit)

lemma lane_fromBig: "lane (fst (fromBig_le n)) (snd (fromBig_le n)) = of_nat n"
  by (rule bit_word_eqI) (auto simp: bit_lane fromBig_bits bit_of_nat_word bit_take_bit_iff bit_drop_bit_eq)

lemma iota_table: "map (\<lambda>c. lane (fst c) (snd c)) SHA3_IOTA = RC_table"
  by (simp add: SHA3_IOTA_def SHA3_table lane_fromBig RC_table_def)

lemma length_foldl: "(\<And>s x. length (f s x) = length s) \<Longrightarrow> length (foldl f s xs) = length s"
  by (induction xs arbitrary: s) simp_all

lemma length_steps:
  "length (theta s) = length s" "length (chi s) = length s" "length (iota c s) = length s"
  by (simp_all add: theta_def chi_def iota_def Let_def length_foldl)

lemma length_rho_pi: "length (rho_pi s) = length s"
proof -
  have "length (fst (foldl (\<lambda>(s, curH, curL) (p, shift).
            (s[p := rotlH curH curL shift, p + 1 := rotlL curH curL shift], s ! p, s ! (p + 1))) t ps)) =
      length (fst t)" for t :: "kwords \<times> 32 word \<times> 32 word" and ps
    by (induction ps arbitrary: t) (auto simp: split_def)
  then show ?thesis by (simp add: rho_pi_def)
qed

lemma as_map: "length s = 50 \<Longrightarrow> s = map ((!) s) [0..<50]"
  by (metis map_nth)

lemma round_lanes:
  assumes "length s = 50"
  shows "lanes (iota c (chi (rho_pi (theta s)))) = f_round (lanes s) (lane (fst c) (snd c))"
proof -
  have "lanes (theta s) = f_theta (lanes s)" if "length s = 50" for s :: kwords
    using theta_lanes [of "(!) s"] as_map [OF that] by metis
  moreover have "lanes (rho_pi s) = f_rho_pi (lanes s)" if "length s = 50" for s :: kwords
    using rho_pi_lanes [of "(!) s"] as_map [OF that] by metis
  moreover have "lanes (chi s) = f_chi (lanes s)" if "length s = 50" for s :: kwords
    using chi_lanes [of "(!) s"] as_map [OF that] by metis
  moreover have "lanes (iota c s) = f_iota (lane (fst c) (snd c)) (lanes s)" if "length s = 50" for s :: kwords
    using iota_lanes [of "fst c" "snd c" "(!) s"] as_map [OF that] by (metis prod.collapse)
  ultimately show ?thesis using assms by (simp add: f_round_def length_steps length_rho_pi)
qed

lemma length_keccakP: "length (keccakP s) = length s"
  by (simp add: keccakP_def length_foldl length_steps length_rho_pi)

lemma rounds_lanes:
  "length s = 50 \<Longrightarrow> lanes (foldl (\<lambda>s c. iota c (chi (rho_pi (theta s)))) s cs) =
     foldl f_round (lanes s) (map (\<lambda>c. lane (fst c) (snd c)) cs)"
  by (induction cs arbitrary: s) (simp_all add: round_lanes length_steps length_rho_pi)

text \<open>
  C36. The permutation in pairs of 32-bit words, with its computed tables, is the Keccak permutation of
  the standard on 25 lanes of 64 bits.
\<close>

theorem keccakP_is_keccak_f:
  assumes "length s = 50"
  shows "lanes (keccakP s) = keccak_f (lanes s) \<and> length (keccakP s) = 50"
  using rounds_lanes [OF assms, of SHA3_IOTA] assms
  by (simp add: keccakP_def keccak_f_def iota_table length_keccakP [unfolded keccakP_def])

theorem keccakP_is_keccak_f_witness:
  "lanes (keccakP (replicate 50 7)) = keccak_f (lanes (replicate 50 7))"
  using keccakP_is_keccak_f [of "replicate 50 7"] by simp


section \<open>The sponge\<close>

text \<open>Absorbing byte by byte: what the chunks of \<open>update\<close> amount to.\<close>

definition absorb_byte :: "kparams \<Rightarrow> kstate \<Rightarrow> 8 word \<Rightarrow> kstate" where
  "absorb_byte P k b =
     (let k1 = k\<lparr>k_state := xor_byte (k_pos k) b (k_state k), k_pos := k_pos k + 1\<rparr>
      in if k_pos k1 = k_blockLen P then k_keccak k1 else k1)"

lemma absorb_chunk:
  assumes "n \<le> length data" and "0 < n" and "k_pos k + n \<le> k_blockLen P"
  shows "foldl (absorb_byte P) k (take n data) =
     (let k1 = k\<lparr>k_state := foldl (\<lambda>bs i. xor_byte (k_pos k + i) (data ! i) bs) (k_state k) [0..<n],
                 k_pos := k_pos k + n\<rparr>
      in if k_pos k1 = k_blockLen P then k_keccak k1 else k1)"
  using assms
proof (induction n)
  case (Suc n)
  show ?case
  proof (cases "n = 0")
    case True
    with Suc.prems show ?thesis by (cases data) (simp_all add: absorb_byte_def)
  next
    case False
    with Suc show ?thesis by (simp add: take_Suc_conv_app_nth absorb_byte_def)
  qed
qed simp

lemma pos_absorb: "k_pos k < k_blockLen P \<Longrightarrow> k_pos (absorb_byte P k b) < k_blockLen P"
  by (simp add: absorb_byte_def Let_def k_keccak_def)

lemma pos_fold: "k_pos k < k_blockLen P \<Longrightarrow> k_pos (foldl (absorb_byte P) k data) < k_blockLen P"
  by (induction data arbitrary: k) (auto simp: pos_absorb)

lemma absorb_is_fold:
  "k_pos k < k_blockLen P \<Longrightarrow> k_absorb P data k = foldl (absorb_byte P) k data"
proof (induction P data k rule: k_absorb.induct)
  case (1 P data k)
  show ?case
  proof (cases "data = []")
    case True
    then show ?thesis by (simp add: k_absorb.simps)
  next
    case False
    define n where "n = min (k_blockLen P - k_pos k) (length data)"
    define k2 where "k2 = foldl (absorb_byte P) k (take n data)"
    have n: "n \<noteq> 0" "n \<le> length data" "k_pos k + n \<le> k_blockLen P"
      using False "1.prems" by (auto simp: n_def)
    have pos: "k_pos k2 < k_blockLen P"
      unfolding k2_def using "1.prems" by (rule pos_fold)
    have "k_absorb P data k = k_absorb P (drop n data) k2"
      using False n absorb_chunk [of n data k P]
      by (subst k_absorb.simps) (simp add: Let_def n_def [symmetric] k2_def)
    also have "\<dots> = foldl (absorb_byte P) k2 (drop n data)"
      using "1.IH" [OF False n_def refl refl n(1)] pos n absorb_chunk [of n data k P]
      by (simp add: k2_def Let_def)
    finally show ?thesis
      by (metis append_take_drop_id foldl_append k2_def)
  qed
qed

text \<open>
  Hashing is incremental: absorbing two pieces one after the other is absorbing them joined, whatever
  the block boundaries.
\<close>

theorem absorb_append:
  assumes "k_pos k < k_blockLen P"
  shows "k_absorb P (xs @ ys) k = k_absorb P ys (k_absorb P xs k)"
  using assms by (simp add: absorb_is_fold pos_fold)

theorem absorb_append_witness:
  "k_absorb keccak_256 ([1, 2] @ [3])
      \<lparr>k_state = replicate 200 0, k_pos = 135, k_posOut = 0, k_finished = False, k_destroyed = False\<rparr> =
   k_absorb keccak_256 [3] (k_absorb keccak_256 [1, 2]
      \<lparr>k_state = replicate 200 0, k_pos = 135, k_posOut = 0, k_finished = False, k_destroyed = False\<rparr>)"
  by (rule absorb_append) (simp add: keccak_256_def)

lemma length_words_bytes: "length (words_bytes ws) = 4 * length ws"
  by (induction ws) (simp_all add: words_bytes_def word_bytes_def)

lemma length_bytes_words: "length (bytes_words bs) = length bs div 4"
  by (induction bs rule: bytes_words.induct) auto

lemma length_keccak: "length (k_state k) = 200 \<Longrightarrow> length (k_state (k_keccak k)) = 200"
  by (simp add: k_keccak_def length_words_bytes length_keccakP length_bytes_words)

lemma length_absorb: "length (k_state k) = 200 \<Longrightarrow> length (k_state (foldl (absorb_byte P) k data)) = 200"
  by (induction data arbitrary: k) (auto simp: absorb_byte_def Let_def xor_byte_def length_keccak)

lemma length_finish: "length (k_state k) = 200 \<Longrightarrow> length (k_state (k_finish P k)) = 200"
  by (auto simp: k_finish_def Let_def xor_byte_def length_keccak)

lemma fold_flags:
  "k_finished (foldl (absorb_byte P) k data) = k_finished k \<and> k_destroyed (foldl (absorb_byte P) k data) = k_destroyed k"
  by (induction data arbitrary: k) (auto simp: absorb_byte_def Let_def k_keccak_def)

lemma squeeze_32: "k_posOut k = 0 \<Longrightarrow> k_squeeze keccak_256 32 k = (take 32 (k_state k), k\<lparr>k_posOut := 32\<rparr>)"
  by (simp add: k_squeeze.simps keccak_256_def Let_def)

text \<open>
  The digest of every message exists, no assertion of the code fails on the way, and has 32 bytes:
  the first 32 of the state after absorbing the message, padding and one more permutation.
\<close>

theorem keccak256_total:
  "\<exists>out. keccak256 msg = Inr out \<and> length out = 32"
proof -
  let ?k = "\<lparr>k_state = replicate 200 0, k_pos = 0, k_posOut = 0, k_finished = False, k_destroyed = False\<rparr>"
  let ?f = "k_finish keccak_256 (foldl (absorb_byte keccak_256) ?k msg)"
  have fl: "k_finished (foldl (absorb_byte keccak_256) ?k msg) = False"
    "k_destroyed (foldl (absorb_byte keccak_256) ?k msg) = False"
    using fold_flags [of keccak_256 ?k msg] by simp_all
  have blocklen: "k_blockLen keccak_256 = 136" "k_outputLen keccak_256 = 32"
    by (simp_all add: keccak_256_def)
  have len: "length (k_state ?f) = 200"
    by (intro length_finish length_absorb) simp
  have out: "k_posOut ?f = 0"
    using fl by (simp add: k_finish_def Let_def k_keccak_def)
  have "k_squeeze keccak_256 32 ?f = (take 32 (k_state ?f), ?f\<lparr>k_posOut := 32\<rparr>)"
    using out by (rule squeeze_32)
  then have "keccak256 msg = Inr (take 32 (k_state ?f))"
    using fl by (simp add: blocklen keccak256_def hashC_def k_new_def 
        k_update_def k_digest_def k_writeInto_def absorb_is_fold)
  with len show ?thesis by simp
qed
end
