(* ===== verification/Fpjson.thy ===== *)
theory Fpjson
  imports Weave_Kv
begin

text \<open>
  The rule language of the access control and of the triggers, \<open>core/src/fpjson.js\<close>: the expansion of
  \<open>$\<close> variables, assignments to variables, and the interpreter \<open>fpj\<close> over a table of functions. The
  expressions themselves are evaluated by the package \<open>fpjson-lang\<close>, the parameter \<open>ev\<close>: it returns a
  value and the variables, which its \<open>let\<close> assigns.

  The variables are an object \<open>fv_obj\<close>. The entry \<open>after\<close> starts as the very object \<open>data\<close> of the request,
  so a write to \<open>after.x\<close> reaches it: \<open>fv_data\<close> is that object, \<open>fv_linked\<close> says whether \<open>after\<close> still is
  it, and \<open>fv_key\<close> is the key under which the store holds it, when it does. Other variables are values:
  two of them that are one JavaScript object are told apart here.
\<close>

record fvars =
  fv_obj :: jv
  fv_data :: jv
  fv_linked :: bool
  fv_key :: "string option"

type_synonym fstate = "fvars \<times> wkv"
type_synonym 'a fres = "(js_error \<times> wkv) + 'a"
type_synonym fp_eval = "jv \<Rightarrow> jv \<Rightarrow> (jv \<times> jv) res"
type_synonym fp_fun = "jv \<Rightarrow> fstate \<Rightarrow> (fstate \<times> jv \<times> bool) fres"

section \<open>Strings\<close>

definition type_err :: js_error where
  "type_err = TypeErr ''not a function''"

definition as_str :: "jv \<Rightarrow> string res" where
  "as_str v = (case v of JStr s \<Rightarrow> Inr s | _ \<Rightarrow> Inl type_err)"

text \<open>Values that can be iterated over: arrays and strings.\<close>

definition as_list :: "jv \<Rightarrow> jv list res" where
  "as_list v = (case v of JArr xs \<Rightarrow> Inr xs | JStr s \<Rightarrow> Inr (map (\<lambda>c. JStr [c]) s) | _ \<Rightarrow> Inl type_err)"

text \<open>The keys \<open>for (k in v)\<close> visits.\<close>

fun for_keys :: "jv \<Rightarrow> string list" where
  "for_keys (JStr s) = map nat_to_string [0..<length s]"
| "for_keys v = jkeys v"

text \<open>\<open>s.split(sep)\<close> for any separator.\<close>

fun split_str :: "string \<Rightarrow> string \<Rightarrow> string list" where
  "split_str sep [] = [[]]"
| "split_str sep (c # cs) =
     (if sep \<noteq> [] \<and> starts_with sep (c # cs) then [] # split_str sep (drop (length sep - 1) cs)
      else if sep = [] then map (\<lambda>x. [x]) (c # cs)
      else (case split_str sep cs of [] \<Rightarrow> [[c]] | y # ys \<Rightarrow> (c # y) # ys))"

definition js_split :: "string \<Rightarrow> string \<Rightarrow> string list" where
  "js_split sep s = (if sep = [] \<and> s = [] then [] else split_str sep s)"

definition is_newline :: "char \<Rightarrow> bool" where
  "is_newline c \<longleftrightarrow> c = CHR 0x0A \<or> c = CHR 0x0D"

definition is_assign :: "string \<Rightarrow> bool" where
  "is_assign s \<longleftrightarrow> starts_with ''=$'' s"

text \<open>\<open>/^.+\(\)$/\<close>\<close>

definition is_call :: "string \<Rightarrow> bool" where
  "is_call s \<longleftrightarrow> length s > 2 \<and> drop (length s - 2) s = ''()'' \<and> \<not> list_ex is_newline s"

section \<open>\<open>replace$\<close>\<close>

definition var_ref :: "string \<Rightarrow> jv" where
  "var_ref s = JObj [(''var'', JStr s)]"

definition replace_str :: "string \<Rightarrow> jv" where
  "replace_str s =
     (let t = take 2 s; r = drop 2 s in
      if t = ''l$'' then JArr [JStr ''toLower'', var_ref r]
      else if t = ''u$'' then JArr [JStr ''toUpper'', var_ref r]
      else if t = ''o$'' then JArr [JArr [JStr ''complement'', JArr [JStr ''isNil'']], var_ref r]
      else if t = ''x$'' then JArr [JStr ''isNil'', var_ref r]
      else if t = ''!$'' then JArr [JStr ''not'', var_ref r]
      else if t = ''$$'' then JStr (tl s)
      else if take 1 s = ''$'' then var_ref (tl s)
      else JStr s)"

fun replace_var :: "jv \<Rightarrow> jv res" where
  "replace_var (JStr s) = Inr (replace_str s)"
| "replace_var (JArr xs) =
     (if jidx xs 0 = JStr ''toBatchAll'' then
        rbind (as_list (jidx xs 1)) (\<lambda>ys.
          Inr (JArr [JStr ''pipe'', JArr [JStr ''var'', JStr ''batch''],
                     JArr [JStr ''concat'', JArr [JStr ''__''], JArr (JStr ''[]'' # ys)],
                     JArr [JStr ''let'', JStr ''batch'']]))
      else if jidx xs 0 = JStr ''toBatch'' then
        rbind (as_list (jidx xs 1)) (\<lambda>ys.
          Inr (JArr [JStr ''pipe'', JArr [JStr ''var'', JStr ''batch''],
                     JArr [JStr ''append'', JArr (JStr ''[]'' # ys)],
                     JArr [JStr ''let'', JStr ''batch'']]))
      else rbind (rmap replace_var xs) (\<lambda>ys. Inr (JArr ys)))"
| "replace_var (JObj p) =
     rbind (rmap (\<lambda>kv. rbind (replace_var (snd kv)) (\<lambda>v. Inr (fst kv, v))) p) (\<lambda>q. Inr (JObj q))"
| "replace_var v = Inr v"

text \<open>What the argument is afterwards: arrays and objects are changed in place, except for the two
  forms that are rewritten as a whole.\<close>

definition replace_in_place :: "jv \<Rightarrow> jv res" where
  "replace_in_place v =
     (case v of
        JArr xs \<Rightarrow> if jidx xs 0 = JStr ''toBatchAll'' \<or> jidx xs 0 = JStr ''toBatch'' then Inr v else replace_var v
      | JObj p \<Rightarrow> replace_var v
      | _ \<Rightarrow> Inr v)"

section \<open>Assignments\<close>

text \<open>\<open>v[f] = d\<close> in strict mode: primitives throw; an array grows to reach an index.\<close>

fun assign_prop :: "jv \<Rightarrow> string \<Rightarrow> jv \<Rightarrow> jv res" where
  "assign_prop (JObj p) f d = Inr (JObj (oput f d p))"
| "assign_prop (JArr xs) f d =
     (if is_index_key f then
        (let i = digits_val f in
         Inr (JArr (if i < length xs then xs[i := d] else xs @ replicate (i - length xs) JUndef @ [d])))
      else Inr (JArr xs))"
| "assign_prop v f d = Inl type_err"

fun delete_prop :: "jv \<Rightarrow> string \<Rightarrow> jv" where
  "delete_prop (JArr xs) f = (if is_index_key f \<and> digits_val f < length xs then JArr (xs[digits_val f := JUndef]) else JArr xs)"
| "delete_prop v f = jdel v f"

definition is_del_mark :: "jv \<Rightarrow> bool" where
  "is_del_mark d \<longleftrightarrow> is_object d \<and> jget d ''_$'' = JStr ''del''"

fun set_path :: "string list \<Rightarrow> jv \<Rightarrow> jv \<Rightarrow> jv res" where
  "set_path [] d v = Inr v"
| "set_path [f] d v = (if is_del_mark d then Inr (delete_prop v f) else assign_prop v f d)"
| "set_path (f # g # fs) d v =
     (let c = jget v f in
      rbind (if is_nil c then assign_prop v f (JObj []) else Inr v) (\<lambda>v1.
      rbind (set_path (g # fs) d (if is_nil c then JObj [] else c)) (\<lambda>c'.
        if c' = c then Inr v1 else assign_prop v1 f c')))"

definition elm_path :: "string \<Rightarrow> string list" where
  "elm_path k = split_on (CHR ''.'') (hd (split_on (CHR ''#'') k))"

text \<open>\<open>setElm\<close> on the variables. A path into \<open>after\<close> writes the request's object, and its stored copy when
  the store holds that very object.\<close>

definition setElm :: "string \<Rightarrow> jv \<Rightarrow> fstate \<Rightarrow> fstate fres" where
  "setElm k d fs =
     (case fs of (fv, w) \<Rightarrow>
        let p = elm_path k in
        rbind (at_store w (set_path p d (fv_obj fv))) (\<lambda>o'.
          let fv1 = fv\<lparr>fv_obj := o'\<rparr> in
          if hd p \<noteq> ''after'' \<or> \<not> fv_linked fv then Inr (fv1, w)
          else if length p = 1 then Inr (fv1\<lparr>fv_linked := False\<rparr>, w)
          else Inr (fv1\<lparr>fv_data := jget o' ''after''\<rparr>,
                    case fv_key fv of None \<Rightarrow> w | Some key \<Rightarrow> kv_put key (jget o' ''after'') w)))"

section \<open>Evaluation\<close>

fun parse_vars :: "jv \<Rightarrow> jv \<Rightarrow> jv" where
  "parse_vars vars (JArr xs) = JArr (map (parse_vars vars) xs)"
| "parse_vars vars (JObj p) =
     (case map_of p ''var'' of
        Some (JStr s) \<Rightarrow> jpath (split_on (CHR ''.'') s) vars
      | _ \<Rightarrow> JObj (map (\<lambda>kv. (fst kv, parse_vars vars (snd kv))) p))"
| "parse_vars vars v = v"

text \<open>A call of \<open>fpjson(v, obj)\<close>; an assignment to \<open>after\<close> in it cuts the link.\<close>

definition fp_call :: "fp_eval \<Rightarrow> jv \<Rightarrow> fstate \<Rightarrow> (fstate \<times> jv) fres" where
  "fp_call ev e fs =
     (case fs of (fv, w) \<Rightarrow>
        rbind (at_store w (ev e (fv_obj fv))) (\<lambda>(v, o').
          Inr ((fv\<lparr>fv_obj := o', fv_linked := (fv_linked fv \<and> jget o' ''after'' = jget (fv_obj fv) ''after'')\<rparr>, w), v)))"

definition fp_exec :: "fp_eval \<Rightarrow> jv \<Rightarrow> fstate \<Rightarrow> (fstate \<times> jv) fres" where
  "fp_exec ev e fs = rbind (at_store (snd fs) (replace_var e)) (\<lambda>e'. fp_call ev e' fs)"

text \<open>\<open>arr[0].slice(0, -2)\<close> as the key of the function table.\<close>

fun call_name :: "jv \<Rightarrow> string" where
  "call_name (JStr s) = take (length s - 2) s"
| "call_name (JArr xs) = to_str (JArr (take (length xs - 2) xs))"
| "call_name v = []"

definition call_fn :: "(string \<times> fp_fun) list \<Rightarrow> jv \<Rightarrow> jv \<Rightarrow> fstate \<Rightarrow> (fstate \<times> jv \<times> bool) fres" where
  "call_fn fns h arg fs =
     (case map_of fns (call_name h) of
        None \<Rightarrow> Inl (Err ''unknown function '', snd fs)
      | Some f \<Rightarrow> rbind (at_store (snd fs) (replace_var arg)) (\<lambda>a. f (parse_vars (fv_obj (fst fs)) a) fs))"

text \<open>The element of the list that stands for \<open>arr[i]\<close> is smaller, also out of range.\<close>

lemma size_jidx_le: "size (jidx xs i) \<le> size_list size xs"
  by (cases "i < length xs") (auto simp: jidx_def intro!: size_list_estimation')

lemma size_drop_le: "size_list f (drop n xs) \<le> size_list f xs"
proof (induction xs arbitrary: n)
  case (Cons x xs)
  show ?case
  proof (cases n)
    case (Suc m)
    have "size_list f (drop m xs) \<le> Suc (f x + size_list f xs)"
      using Cons.IH [of m] by linarith
    with Suc show ?thesis by simp
  qed simp
qed simp

text \<open>
  \<open>cmd\<close>. The result is the state, the value and \<open>isBreak\<close>; \<open>inIf\<close> is \<open>ctx.if\<close>. On the empty array
  \<open>arr[0]\<close> is \<open>undefined\<close>, which is none of the forms, and \<open>[]\<close> is evaluated.
\<close>

function cmd :: "fp_eval \<Rightarrow> (string \<times> fp_fun) list \<Rightarrow> jv \<Rightarrow> bool \<Rightarrow> fstate \<Rightarrow> (fstate \<times> jv \<times> bool) fres"
  and cmd_block :: "fp_eval \<Rightarrow> (string \<times> fp_fun) list \<Rightarrow> jv list \<Rightarrow> fstate \<Rightarrow> fstate fres" where
  "cmd ev fns v inIf fs =
     (case v of
        JArr (h # t) \<Rightarrow>
          if is_assign (to_str h) then
            rbind (cmd ev fns (jidx t 0) False fs) (\<lambda>(fs1, x, brk).
              if brk then Inr (fs1, x, brk)
              else rbind (at_store (snd fs1) (as_str h)) (\<lambda>s.
                   rbind (setElm (drop 2 s) x fs1) (\<lambda>fs2. Inr (fs2, x, brk))))
          else if is_call (to_str h) then call_fn fns h (jidx t 0) fs
          else if h = JStr ''break'' then Inr (fs, JNull, True)
          else if h = JStr ''[]'' then rbind (cmd_block ev fns t fs) (\<lambda>fs1. Inr (fs1, JNull, False))
          else if h = JStr ''if'' then
            rbind (fp_exec ev (jidx t 0) fs) (\<lambda>(fs1, c).
              if truthy c then
                (if jidx t 1 = JUndef then Inl (Err ''wrong fpjson'', snd fs1) else cmd ev fns (jidx t 1) False fs1)
              else cmd ev fns (JArr (drop 2 t)) True fs1)
          else if h = JStr ''else'' then
            (if inIf then cmd ev fns (jidx t 0) False fs else Inl (Err ''wrong fpjson'', snd fs))
          else if h = JStr ''elif'' then
            (if inIf then
               rbind (fp_exec ev (jidx t 0) fs) (\<lambda>(fs1, c).
                 if truthy c then cmd ev fns (jidx t 1) False fs1 else cmd ev fns (JArr (drop 2 t)) True fs1)
             else Inl (Err ''wrong fpjson'', snd fs))
          else rbind (fp_exec ev v fs) (\<lambda>(fs1, x). Inr (fs1, x, False))
      | _ \<Rightarrow> rbind (fp_exec ev v fs) (\<lambda>(fs1, x). Inr (fs1, x, False)))"
| "cmd_block ev fns [] fs = Inr fs"
| "cmd_block ev fns (v # vs) fs = rbind (cmd ev fns v False fs) (\<lambda>(fs1, x, brk). cmd_block ev fns vs fs1)"
  by pat_completeness auto
termination
proof (relation "measure (\<lambda>x. case x of Inl (_, _, v, _, _) \<Rightarrow> 2 * size v | Inr (_, _, vs, _) \<Rightarrow> 2 * size_list size vs + 1)",
    goal_cases)
  case 1
  show ?case by simp
qed (use size_jidx_le in \<open>auto simp: le_imp_less_Suc le_SucI less_Suc_eq_le trans_le_add2 size_drop_le\<close>)

declare cmd.simps [simp del]

text \<open>\<open>fpj\<close>: the commands in order, up to the first that breaks.\<close>

fun run_cmds :: "fp_eval \<Rightarrow> (string \<times> fp_fun) list \<Rightarrow> jv list \<Rightarrow> fstate \<Rightarrow> fstate fres" where
  "run_cmds ev fns [] fs = Inr fs"
| "run_cmds ev fns (v # vs) fs =
     rbind (cmd ev fns v False fs) (\<lambda>(fs1, x, brk). if brk then Inr fs1 else run_cmds ev fns vs fs1)"

definition fpj :: "fp_eval \<Rightarrow> (string \<times> fp_fun) list \<Rightarrow> jv \<Rightarrow> fstate \<Rightarrow> fstate fres" where
  "fpj ev fns arr fs =
     rbind (at_store (snd fs) (if arr = JUndef then Inr [] else as_list arr)) (\<lambda>vs. run_cmds ev fns vs fs)"

section \<open>The functions of the access control: \<open>ac_funcs\<close>\<close>

definition allow_set :: "bool \<Rightarrow> fstate \<Rightarrow> fstate" where
  "allow_set b fs = (case fs of (fv, w) \<Rightarrow> (fv\<lparr>fv_obj := jset (fv_obj fv) ''allow'' (JBool b)\<rparr>, w))"

text \<open>\<open>[null, isBreak]\<close>, having set \<open>allow\<close> if the test holds.\<close>

definition decide :: "bool option \<Rightarrow> bool \<Rightarrow> fstate \<Rightarrow> (fstate \<times> jv \<times> bool) fres" where
  "decide b c fs =
     Inr (if c then (case b of None \<Rightarrow> fs | Some x \<Rightarrow> allow_set x fs) else fs, JNull, c)"

definition when_expr :: "fp_eval \<Rightarrow> bool option \<Rightarrow> (jv \<Rightarrow> jv) \<Rightarrow> fp_fun" where
  "when_expr ev b wrap_e v fs = rbind (fp_call ev (wrap_e v) fs) (\<lambda>(fs1, x). decide b (truthy x) fs1)"

definition all_true :: "jv \<Rightarrow> jv" where
  "all_true v = JArr [JStr ''all'', JArr [JStr ''equals'', JBool True], v]"

definition any_true :: "jv \<Rightarrow> jv" where
  "any_true v = JArr [JStr ''any'', JArr [JStr ''equals'', JBool True], v]"

definition req_keys :: "fstate \<Rightarrow> jv list" where
  "req_keys fs = map JStr (jkeys (jget (fv_obj (fst fs)) ''req''))"

text \<open>The names of a field list; \<open>*\<close> in front marks a required field.\<close>

definition star_field :: "jv \<Rightarrow> (string \<times> bool) res" where
  "star_field v = rbind (as_str v) (\<lambda>s. Inr (if take 1 s = ''*'' then (tl s, True) else (s, False)))"

definition ac_fields :: fp_fun where
  "ac_fields v fs =
     rbind (at_store (snd fs) (rbind (as_list v) (rmap star_field))) (\<lambda>ss.
       let ks = req_keys fs;
           fields = map (JStr \<circ> fst) ss;
           required = map (JStr \<circ> fst) (filter snd ss)
       in decide (Some False) (jdifference ks fields \<noteq> [] \<or> jdifference required ks \<noteq> []) fs)"

text \<open>What ramda's list functions see of a value that is not a list.\<close>

definition ramda_list :: "jv \<Rightarrow> jv list res" where
  "ramda_list v =
     (if is_nil v then Inl type_err
      else case v of JArr xs \<Rightarrow> Inr xs | JStr s \<Rightarrow> Inr (map (\<lambda>c. JStr [c]) s) | _ \<Rightarrow> Inr [])"

definition ac_required_fields :: fp_fun where
  "ac_required_fields v fs =
     rbind (at_store (snd fs) (ramda_list v)) (\<lambda>fields. decide (Some False) (jdifference fields (req_keys fs) \<noteq> []) fs)"

definition ac_disallowed_fields :: fp_fun where
  "ac_disallowed_fields v fs =
     rbind (at_store (snd fs) (ramda_list v)) (\<lambda>fields. decide (Some False) (jintersection (req_keys fs) fields \<noteq> []) fs)"

definition ac_mod :: "fp_eval \<Rightarrow> fp_fun" where
  "ac_mod ev v fs =
     rbind (rfoldl (\<lambda>fs k. rbind (fp_call ev (jget v k) fs) (\<lambda>(fs1, x). setElm (''after.'' @ k) x fs1)) fs (for_keys v))
       (\<lambda>fs1. Inr (fs1, JNull, False))"

text \<open>\<open>split(v[0], fpjson(v[1], obj))\<close>, the parts assigned to the \<open>=$\<close> names of \<open>v[2]\<close>.\<close>

definition split_name :: "jv \<Rightarrow> string option" where
  "split_name v =
     (case v of
        JStr s \<Rightarrow> (if is_assign s \<and> length s > 2 \<and> \<not> list_ex is_newline (drop 2 s) then Some (drop 2 s) else None)
      | _ \<Rightarrow> None)"

definition ac_split :: "fp_eval \<Rightarrow> fp_fun" where
  "ac_split ev v fs =
     rbind (at_store (snd fs) (jprop v ''0'')) (\<lambda>sep.
     rbind (fp_call ev (jget v ''1'') fs) (\<lambda>(fs1, x).
     rbind (at_store (snd fs1) (as_str x)) (\<lambda>s.
       let elms = (if sep = JUndef then [s] else js_split (to_str sep) s);
           names = jelems (jget v ''2'')
       in rbind (rfoldl (\<lambda>fs (i, e).
                   case split_name (jidx names i) of None \<Rightarrow> Inr fs | Some k \<Rightarrow> setElm k (JStr e) fs)
                 fs1 (enumerate 0 elms))
            (\<lambda>fs2. Inr (fs2, JNull, False)))))"

definition ac_funcs :: "fp_eval \<Rightarrow> (string \<times> fp_fun) list" where
  "ac_funcs ev =
     [(''split'', ac_split ev), (''mod'', ac_mod ev), (''fields'', ac_fields),
      (''required_fields'', ac_required_fields), (''disallowed_fields'', ac_disallowed_fields),
      (''denyifall'', when_expr ev (Some False) all_true), (''denyifany'', when_expr ev (Some False) any_true),
      (''allowifall'', when_expr ev (Some True) all_true), (''allow'', \<lambda>v. decide (Some True) True),
      (''deny'', \<lambda>v. decide (Some False) True), (''allowifany'', when_expr ev (Some True) any_true),
      (''denyif'', when_expr ev (Some False) (\<lambda>v. v)), (''allowif'', when_expr ev (Some True) (\<lambda>v. v)),
      (''breakif'', when_expr ev None (\<lambda>v. v))]"

end
