(* ===== verification/Request.thy ===== *)
theory Request
  imports Json Codec Keccak Fpjson Indexer
begin

text \<open>
  A request on its way through the devices: the record \<open>ctx\<close> is the object \<open>{ state, msg, env }\<close> that each
  device takes and returns, and the functions of \<open>core/src/utils.js\<close> on it. A field that the code has not
  set is \<open>JUndef\<close>. A device maps a context to a context, or to an error with the store at the throw.

  The record \<open>ext\<close> holds the packages outside the repository: SHA-256 (\<open>fast-sha256\<close>), \<open>fpjson-lang\<close>,
  \<open>jsonschema\<close>, the signature helpers of \<open>hbsig\<close>, Node's \<open>Buffer.from\<close> and the clock at the request.
\<close>

record ext =
  x_sha256 :: "bytes \<Rightarrow> bytes"
  x_eval :: fp_eval
  x_validate :: "jv \<Rightarrow> jv \<Rightarrow> bool res"
  x_structured :: "jv \<Rightarrow> jv res"
  x_hmacid :: "jv \<Rightarrow> string res"
  x_rsaid :: "jv \<Rightarrow> string res"
  x_pubkey :: "jv \<Rightarrow> string res"
  x_id :: "jv \<Rightarrow> string res"
  x_hashpath :: "jv \<Rightarrow> jv \<Rightarrow> jv res"
  x_buffer :: "string \<Rightarrow> string \<Rightarrow> bytes res"
  x_now :: int

record ctx =
  c_query :: jv
  c_op :: jv
  c_opcode :: jv
  c_operand :: jv
  c_nonce :: jv
  c_id :: jv
  c_signer :: jv
  c_signer23 :: jv
  c_ts :: jv
  c_ts64 :: jv
  c_dir :: jv
  c_doc :: jv
  c_data :: jv
  c_before :: jv
  c_dirinfo :: jv
  c_range :: jv
  c_branch :: jv
  c_result :: jv
  c_updates :: jv
  c_i :: jv
  c_msg :: jv
  c_kv :: wkv
  c_info :: jv
  c_version :: jv
  c_ignore_version :: jv
  c_no_commit :: jv
  c_env_branch :: jv
  c_env_id :: jv
  c_kv_dir :: "string option"

type_synonym dev = "ctx \<Rightarrow> ctx sres"

definition blank :: ctx where
  "blank =
     \<lparr>c_query = JUndef, c_op = JUndef, c_opcode = JUndef, c_operand = JUndef, c_nonce = JUndef, c_id = JUndef,
      c_signer = JUndef, c_signer23 = JUndef, c_ts = JUndef, c_ts64 = JUndef, c_dir = JUndef, c_doc = JUndef,
      c_data = JUndef, c_before = JUndef, c_dirinfo = JUndef, c_range = JUndef, c_branch = JUndef,
      c_result = JUndef, c_updates = JUndef, c_i = JUndef, c_msg = JUndef, c_kv = kv_new Map.empty,
      c_info = JUndef, c_version = JUndef, c_ignore_version = JUndef, c_no_commit = JUndef,
      c_env_branch = JUndef, c_env_id = JUndef, c_kv_dir = None\<rparr>"

section \<open>Small pieces\<close>

definition fail :: "js_error \<Rightarrow> ctx \<Rightarrow> 'a sres" where
  "fail e c = Inl (e, c_kv c)"

definition lift_res :: "ctx \<Rightarrow> 'a res \<Rightarrow> 'a sres" where
  "lift_res c m = at_store (c_kv c) m"

definition check :: "bool \<Rightarrow> js_error \<Rightarrow> ctx \<Rightarrow> unit sres" where
  "check b e c = (if b then Inr () else fail e c)"

text \<open>\<open>kv.get(dir, doc)\<close>, \<open>kv.put(dir, doc, v)\<close> and \<open>kv.del(dir, doc)\<close> interpolate their arguments.\<close>

definition vget :: "wkv \<Rightarrow> jv \<Rightarrow> jv \<Rightarrow> jv" where
  "vget w dir doc = dget w (to_str dir) (to_str doc)"

definition vput :: "jv \<Rightarrow> jv \<Rightarrow> jv \<Rightarrow> wkv \<Rightarrow> wkv" where
  "vput dir doc v w = dput (to_str dir) (to_str doc) v w"

definition vdel :: "jv \<Rightarrow> jv \<Rightarrow> wkv \<Rightarrow> wkv" where
  "vdel dir doc w = ddel (to_str dir) (to_str doc) w"

definition set_kv :: "wkv \<Rightarrow> ctx \<Rightarrow> ctx" where
  "set_kv w c = c\<lparr>c_kv := w\<rparr>"

text \<open>\<open>v + 1\<close> and \<open>v++\<close>; \<open>JUndef\<close> stands for \<open>NaN\<close>.\<close>

definition js_plus1 :: "jv \<Rightarrow> jv" where
  "js_plus1 v =
     (case to_prim v of
        JStr s \<Rightarrow> JStr (s @ ''1'')
      | p \<Rightarrow> (case to_num p of Some n \<Rightarrow> JNum (n + 1) | None \<Rightarrow> JUndef))"

definition js_incr :: "jv \<Rightarrow> jv" where
  "js_incr v = (case to_num v of Some n \<Rightarrow> JNum (n + 1) | None \<Rightarrow> JUndef)"

text \<open>\<open>[a, b, c] = v\<close>\<close>

definition nth3 :: "jv \<Rightarrow> jv list res" where
  "nth3 v = rbind (as_list v) (\<lambda>xs. Inr [jidx xs 0, jidx xs 1, jidx xs 2])"

definition private_dir :: "jv \<Rightarrow> bool res" where
  "private_dir dir = rbind (jprop dir ''0'') (\<lambda>c. Inr (c = JStr ''_''))"

text \<open>The object's own properties, as \<open>{...v}\<close> and \<open>Object.assign\<close> copy them.\<close>

fun own_props :: "jv \<Rightarrow> (string \<times> jv) list" where
  "own_props (JObj p) = p"
| "own_props v = map (\<lambda>k. (k, jget v k)) (for_keys v)"

definition spread :: "jv \<Rightarrow> (string \<times> jv) list \<Rightarrow> (string \<times> jv) list" where
  "spread v o' = foldl (\<lambda>o' (k, x). oput k x o') o' (own_props v)"

text \<open>\<open>mergeLeft(l, r)\<close>\<close>

definition merge_left :: "jv \<Rightarrow> jv \<Rightarrow> jv" where
  "merge_left l r = JObj (spread l (spread r []))"

definition utf8_bytes :: "string \<Rightarrow> bytes" where
  "utf8_bytes s =
     concat (map (\<lambda>c. let n = of_char c :: nat in
                   if n < 128 then [of_nat n] else [of_nat (192 + n div 64), of_nat (128 + n mod 64)]) s)"

section \<open>parseOp, merge\<close>

definition parseOp :: dev where
  "parseOp c =
     rbind (lift_res c (rbind (jprop (c_query c) ''0'') as_str)) (\<lambda>op.
       let parts = split_on (CHR '':'') op
       in Inr (c\<lparr>c_op := JStr op, c_opcode := JStr (hd parts),
                 c_operand := nullish (jidx (map JStr parts) 1) JNull\<rparr>))"

definition fields :: "jv \<Rightarrow> jv \<Rightarrow> string list" where
  "fields ndata odata = uniq (jkeys ndata @ jkeys odata)"

text \<open>The variables of a field value \<open>{_$: ...}\<close>.\<close>

definition merge_vars :: "ctx \<Rightarrow> jv" where
  "merge_vars c =
     JObj [(''signer'', c_signer c), (''ts'', c_ts c), (''id'', c_env_id c), (''owner'', jget (c_info c) ''owner'')]"

text \<open>
  One field. The result is the new value, if any, and the given and the old value afterwards:
  \<open>replace$\<close> expands them in place.
\<close>

definition merge_field :: "ext \<Rightarrow> jv \<Rightarrow> jv \<Rightarrow> jv \<Rightarrow> string \<Rightarrow> (jv option \<times> jv \<times> jv) res" where
  "merge_field X vars data old k =
     (if is_nil data then Inl type_err
      else if jget data k = JUndef then rbind (jprop old k) (\<lambda>v. Inr (Some v, data, old))
      else
        let v = jget data k; e = jget v ''_$'' in
        if is_object v \<and> \<not> is_nil e then
          (case e of
             JStr s \<Rightarrow>
               Inr (if s = ''del'' \<or> jget vars s = JUndef then None else Some (jget vars s), data, old)
           | _ \<Rightarrow>
               rbind (jprop old k) (\<lambda>ov.
               rbind (rmap replace_var [e, nullish ov JNull]) (\<lambda>es.
               rbind (x_eval X (JArr es) vars) (\<lambda>(r, vars').
               rbind (replace_in_place e) (\<lambda>e'.
               rbind (replace_in_place ov) (\<lambda>ov'.
                 Inr (Some r, jset data k (jset v ''_$'' e'), if ov' = ov then old else jset old k ov')))))))
        else Inr (Some v, data, old))"

definition merge_fields :: "ext \<Rightarrow> jv \<Rightarrow> jv \<Rightarrow> jv \<Rightarrow> string list \<Rightarrow> (jv \<times> jv \<times> jv) res" where
  "merge_fields X vars data old ks =
     rfoldl (\<lambda>(new_data, data, old) k.
        rbind (merge_field X vars data old k) (\<lambda>(r, data', old').
          Inr (case r of None \<Rightarrow> new_data | Some v \<Rightarrow> jset new_data k v, data', old')))
       (JObj [], data, old) ks"

text \<open>
  \<open>state.data = merge(state.data, state, old, env)\<close>, where no \<open>old\<close> stands for \<open>state.before\<close>. What is
  expanded in place stays in \<open>before\<close> and in the query, whose first entry is the given data.
\<close>

definition set_first :: "jv \<Rightarrow> jv \<Rightarrow> jv" where
  "set_first x q = (case q of JArr (y # ys) \<Rightarrow> JArr (x # ys) | _ \<Rightarrow> q)"

definition merge :: "ext \<Rightarrow> jv option \<Rightarrow> dev" where
  "merge X old c =
     (let o' = (case old of None \<Rightarrow> c_before c | Some v \<Rightarrow> v) in
      rbind (lift_res c (merge_fields X (merge_vars c) (c_data c) o' (fields (c_data c) o'))) (\<lambda>(d, data', old').
        Inr (c\<lparr>c_data := d, c_query := set_first data' (c_query c),
               c_before := (case old of None \<Rightarrow> old' | Some v \<Rightarrow> c_before c)\<rparr>)))"

section \<open>Document ids\<close>

text \<open>\<open>while (env.kv.get(dir, tob64(i))) i++\<close>, at most \<open>n\<close> ids tried.\<close>

fun free_id :: "nat \<Rightarrow> wkv \<Rightarrow> jv \<Rightarrow> int \<Rightarrow> (int \<times> string) res" where
  "free_id 0 w dir i = Inl Fuel"
| "free_id (Suc n) w dir i =
     rbind (tob64 i) (\<lambda>s. if truthy (vget w dir (JStr s)) then free_id n w dir (i + 1) else Inr (i, s))"

definition genDocID :: "nat \<Rightarrow> dev" where
  "genDocID n c =
     (let d = vget (c_kv c) (JStr ''_'') (c_dir c) in
      if is_nil d then fail (Err ''dir doesn't exist:'') c
      else case (if is_nil (jget d ''autoid'') then JNum 0 else js_plus1 (jget d ''autoid'')) of
        JNum i \<Rightarrow>
          rbind (lift_res c (free_id n (c_kv c) (c_dir c) i)) (\<lambda>(j, s).
            Inr (c\<lparr>c_doc := JStr s, c_kv := vput (JStr ''_'') (c_dir c) (jset d ''autoid'' (JNum j)) (c_kv c)\<rparr>))
      | _ \<Rightarrow> fail (Err ''Only non-negative integers allowed'') c)"

text \<open>\<open>checkDocID(id, kv)\<close>: a value that is not a string reaches \<open>id.replace\<close> or fails the pattern.\<close>

definition checkDocID :: "jv \<Rightarrow> wkv \<Rightarrow> unit res" where
  "checkDocID v w =
     (if \<not> (to_str v \<noteq> [] \<and> list_all is_b64url_char (to_str v)) then Inl (Err ''invalid docID: '')
      else rbind (jprop (vget w (JStr ''_config'') (JStr ''info'')) ''max_doc_id'') (\<lambda>m.
           rbind (as_str v) (\<lambda>s.
             rguard (case to_num m of Some n \<Rightarrow> checkMaxDocID s n | None \<Rightarrow> False) (Err ''docID too large: ''))))"

section \<open>Storing\<close>

definition need_dir :: "dev" where
  "need_dir c = (if is_nil (vget (c_kv c) (JStr ''_'') (c_dir c)) then fail (Err ''dir doesn't exist'') c else Inr c)"

text \<open>The indexer works on the directory of \<open>env.kv_dir\<close>; a document id is a string there.\<close>

definition kv_dir_name :: "ctx \<Rightarrow> string sres" where
  "kv_dir_name c = (case c_kv_dir c of None \<Rightarrow> fail type_err c | Some d \<Rightarrow> Inr d)"

definition putData :: "nat \<Rightarrow> dev" where
  "putData n c =
     rbind (need_dir c) (\<lambda>_.
     rbind (lift_res c (if is_nil (c_dir c) then Inl type_err else as_str (c_doc c))) (\<lambda>doc.
     rbind (kv_dir_name c) (\<lambda>d.
     rbind (put_doc n d doc (c_data c) (is_nil (c_before c)) (c_kv c)) (\<lambda>w. Inr (set_kv w c)))))"

definition delData :: "nat \<Rightarrow> dev" where
  "delData n c =
     rbind (need_dir c) (\<lambda>_.
     rbind (lift_res c (as_str (c_doc c))) (\<lambda>doc.
     rbind (kv_dir_name c) (\<lambda>d.
     rbind (del_doc n d doc (c_kv c)) (\<lambda>w. Inr (set_kv w c)))))"

section \<open>Time stamps\<close>

text \<open>Several requests of one millisecond are told apart by a count below it.\<close>

definition ts64_of :: "jv \<Rightarrow> jv \<Rightarrow> jv" where
  "ts64_of ts count =
     (case (to_num ts, to_num count) of (Some t, Some n) \<Rightarrow> JNum (t * 1000 + n) | _ \<Rightarrow> JUndef)"

definition setTS64 :: dev where
  "setTS64 c =
     (let ts = jget (c_info c) ''ts'';
          old = nullish (vget (c_kv c) (JStr ''__ts__'') (JStr ''latest'')) (JObj [(''count'', JNum (-1)), (''ts'', ts)]);
          tc = (if js_eq (jget old ''ts'') ts then jset old ''count'' (js_plus1 (jget old ''count''))
                else jset (jset old ''count'' (JNum 0)) ''ts'' ts)
      in rbind (lift_res c (jprop (c_info c) ''ts'')) (\<lambda>_.
           Inr (c\<lparr>c_ts := ts, c_ts64 := ts64_of ts (jget tc ''count''),
                  c_kv := vput (JStr ''__ts__'') (JStr ''latest'') tc (c_kv c)\<rparr>)))"

section \<open>Identifiers\<close>

definition wdb23_jv :: "jv \<Rightarrow> jv res" where
  "wdb23_jv v =
     (case v of
        JStr s \<Rightarrow> rbind (wdb23 s) (\<lambda>r. Inr (JStr r))
      | _ \<Rightarrow> Inl (Err ''Invalid Arweave address: must be a non-empty string''))"

fun pad4 :: "nat \<Rightarrow> string \<Rightarrow> string" where
  "pad4 0 s = s"
| "pad4 (Suc n) s = (if length s mod 4 = 0 then s else pad4 n (s @ ''=''))"

text \<open>One entry of \<open>wdb160\<close>: its text and its encoding, given to \<open>Buffer.from\<close>.\<close>

definition wdb160_text :: "jv \<Rightarrow> string \<times> string" where
  "wdb160_text v =
     (let (val, ty) = (case v of
            JArr xs \<Rightarrow> (jidx xs 0, nullish (jidx xs 1) (JStr ''utf8''))
          | _ \<Rightarrow> (v, JStr ''utf8''));
          s = (if is_nil val \<or> \<not> is_object val then to_str val else stringify val);
          ty1 = (case ty of JStr t \<Rightarrow> t | _ \<Rightarrow> ''utf8'');
          ty2 = (if ty = JStr ''utf8'' \<and> length s = 31 \<and> list_all is_b64url_char s then ''base64url'' else ty1);
          s2 = (if ty2 = ''hex'' \<and> starts_with ''0x'' s then drop 2 s else s)
      in if ty2 = ''base64url'' then (pad4 3 (url_to_std s2), ''base64'') else (s2, ty2))"

definition wdb160 :: "ext \<Rightarrow> jv \<Rightarrow> jv res" where
  "wdb160 X bufs =
     (case bufs of
        JArr vs \<Rightarrow>
          rbind (rmap (\<lambda>v. case wdb160_text v of (s, t) \<Rightarrow> x_buffer X s t) vs) (\<lambda>bs.
          rbind (keccak256 (concat bs)) (\<lambda>h. Inr (JStr (to64 h))))
      | _ \<Rightarrow> Inl type_err)"

definition cid_jv :: "ext \<Rightarrow> jv \<Rightarrow> jv res" where
  "cid_jv X v =
     rbind (cid (x_sha256 X) utf8_bytes (if v = JUndef then [] else stringify v)) (\<lambda>s. Inr (JStr s))"

end
