(* ===== verification/Dev_Parse.thy ===== *)
theory Dev_Parse
  imports Request
begin

text \<open>
  \<open>dev_parse.js\<close>: the query becomes the directory, the document and the data; the changed document is
  merged from the data and the stored one. And \<open>dev_auth.js\<close>: who may do what.
\<close>

section \<open>dev_parse\<close>

definition setData :: "ext \<Rightarrow> dev" where
  "setData X c = rbind (need_dir c) (merge X (Some (JObj [])))"

definition updateData :: "ext \<Rightarrow> dev" where
  "updateData X c = (if is_nil (c_before c) then fail (Err ''data doesn't exist'') c else merge X None c)"

definition upsertData :: "ext \<Rightarrow> dev" where
  "upsertData X c = rbind (need_dir c) (\<lambda>c1. if is_nil (c_before c1) then Inr c1 else merge X None c1)"

definition parser_step :: "ext \<Rightarrow> nat \<Rightarrow> dev" where
  "parser_step X n c =
     (if c_opcode c = JStr ''add'' then rbind (genDocID n c) (setData X)
      else if c_opcode c = JStr ''set'' then setData X c
      else if c_opcode c = JStr ''update'' then updateData X c
      else if c_opcode c = JStr ''upsert'' then upsertData X c
      else Inr c)"

definition op_in :: "string list \<Rightarrow> ctx \<Rightarrow> bool" where
  "op_in ops c \<longleftrightarrow> (case c_opcode c of JStr s \<Rightarrow> s \<in> set ops | _ \<Rightarrow> False)"

definition shift_query :: dev where
  "shift_query c =
     (case c_query c of JArr xs \<Rightarrow> Inr (c\<lparr>c_query := JArr (tl xs)\<rparr>) | _ \<Rightarrow> fail type_err c)"

text \<open>The document of a request that names one: its id is checked and its stored value read.\<close>

definition with_doc :: "jv \<Rightarrow> jv \<Rightarrow> jv \<Rightarrow> dev" where
  "with_doc dir doc data c =
     rbind (lift_res c (checkDocID doc (c_kv c))) (\<lambda>_.
       Inr (c\<lparr>c_before := vget (c_kv c) dir doc, c_dir := dir, c_doc := doc, c_data := data\<rparr>))"

text \<open>What each kind of query holds.\<close>

definition parse_query :: dev where
  "parse_query c =
     (let q = jidx (jelems (c_query c)) in
      if op_in [''mkdir''] c then Inr (c\<lparr>c_dir := q 0\<rparr>)
      else if op_in [''upgrade''] c then Inr (c\<lparr>c_data := q 0\<rparr>)
      else if op_in [''revert'', ''migrate'', ''init''] c then Inr c
      else if op_in [''get'', ''cget''] c then
        (if is_str (q 1)
         then rbind (lift_res c (checkDocID (q 1) (c_kv c))) (\<lambda>_.
                Inr (c\<lparr>c_dir := q 0, c_doc := q 1, c_range := JBool False\<rparr>))
         else Inr (c\<lparr>c_dir := q 0, c_range := JBool True\<rparr>))
      else if op_in [''add'', ''addIndex'', ''removeIndex'', ''addTrigger'', ''removeTrigger'', ''setSchema'', ''setAuth''] c then
        Inr (c\<lparr>c_dir := q 1, c_data := q 0, c_before := (if op_in [''add''] c then JNull else c_before c)\<rparr>)
      else if op_in [''del''] c then with_doc (q 0) (q 1) JNull c
      else rbind (with_doc (q 1) (q 2) (q 0) c) (\<lambda>c1. if op_in [''getInputs''] c1 then shift_query c1 else Inr c1))"

text \<open>The local \<open>dir\<close>, which \<open>kv_dir\<close> closes over; it is \<open>undefined\<close> where the query names none.\<close>

definition query_dir :: "ctx \<Rightarrow> jv" where
  "query_dir c =
     (if op_in [''upgrade'', ''revert'', ''migrate'', ''init''] c then JUndef else c_dir c)"

definition dev_parse :: "ext \<Rightarrow> nat \<Rightarrow> dev" where
  "dev_parse X n c =
     rbind (shift_query c) (\<lambda>c1.
       if op_in [''batch''] c1 then Inr c1
       else rbind (parse_query c1) (\<lambda>c2.
         let dir = query_dir c2;
             c3 = c2\<lparr>c_dirinfo := (if truthy dir then vget (c_kv c2) (JStr ''_'') dir else c_dirinfo c2),
                     c_kv_dir := Some (to_str dir)\<rparr>
         in parser_step X n c3))"

section \<open>dev_auth\<close>

definition onlyOwner :: dev where
  "onlyOwner c =
     rbind (lift_res c (jprop (c_info c) ''owner'')) (\<lambda>owner.
       if \<not> js_eq (c_signer c) owner then fail (Err ''only owner can execute'') c else Inr c)"

text \<open>A function table entry from a pure function of the argument.\<close>

definition pure_fn :: "(jv \<Rightarrow> jv res) \<Rightarrow> fp_fun" where
  "pure_fn f v fs = rbind (at_store (snd fs) (f v)) (\<lambda>r. Inr (fs, r, False))"

text \<open>
  \<open>get\<close>: a private directory is read from the store; for any other one the value is the context with
  its state set up for a read, which nothing runs (the environment in it is left out).
\<close>

definition rule_get :: "(jv \<Rightarrow> (string \<times> jv) list) \<Rightarrow> fp_fun" where
  "rule_get info_of v fs =
     (let w = snd fs in
      rbind (at_store w (nth3 v)) (\<lambda>xs.
      rbind (at_store w (private_dir (xs ! 0))) (\<lambda>priv.
        if priv then Inr (fs, vget w (xs ! 0) (xs ! 1), False)
        else rbind (at_store w (if is_str (xs ! 1) then checkDocID (xs ! 1) w else Inr ())) (\<lambda>_.
          Inr (fs, JObj [(''state'', JObj ([(''opcode'', JStr ''get''), (''query'', v), (''dir'', xs ! 0)] @ info_of (xs ! 0) @
                 (if is_str (xs ! 1) then [(''doc'', xs ! 1), (''range'', JBool False)] else [(''range'', JBool True)]) @
                 [(''branch'', JStr ''get'')]))], False)))))"

definition id_fns :: "ext \<Rightarrow> (string \<times> fp_fun) list" where
  "id_fns X = [(''wdb23'', pure_fn wdb23_jv), (''wdb160'', pure_fn (wdb160 X)), (''cid'', pure_fn (cid_jv X))]"

text \<open>The writers, in rules of private directories only. Each refuses a directory that is not private.\<close>

definition priv_write :: "(jv list \<Rightarrow> jv \<times> jv) \<Rightarrow> (jv list \<Rightarrow> wkv \<Rightarrow> wkv option) \<Rightarrow> fp_fun" where
  "priv_write dir_of write v fs =
     (case fs of (fv, w) \<Rightarrow>
        rbind (at_store w (nth3 v)) (\<lambda>xs.
        rbind (at_store w (private_dir (fst (dir_of xs)))) (\<lambda>priv.
          if \<not> priv then Inr (fs, JBool False, False)
          else case write xs w of
            None \<Rightarrow> Inr (fs, JBool False, False)
          | Some w' \<Rightarrow> Inr ((fv, w'), JBool True, False))))"

definition second_third :: "jv list \<Rightarrow> jv \<times> jv" where
  "second_third xs = (xs ! 1, xs ! 2)"

definition first_second :: "jv list \<Rightarrow> jv \<times> jv" where
  "first_second xs = (xs ! 0, xs ! 1)"

definition rule_set :: fp_fun where
  "rule_set = priv_write second_third (\<lambda>xs w. Some (vput (xs ! 1) (xs ! 2) (xs ! 0) w))"

definition rule_update :: fp_fun where
  "rule_update = priv_write second_third (\<lambda>xs w.
     let old = vget w (xs ! 1) (xs ! 2) in
     if \<not> truthy old then None else Some (vput (xs ! 1) (xs ! 2) (merge_left (xs ! 0) old) w))"

definition rule_upsert :: fp_fun where
  "rule_upsert = priv_write second_third (\<lambda>xs w.
     Some (vput (xs ! 1) (xs ! 2) (merge_left (xs ! 0) (nullish (vget w (xs ! 1) (xs ! 2)) (JObj []))) w))"

definition rule_del :: fp_fun where
  "rule_del = priv_write first_second (\<lambda>xs w.
     if \<not> truthy (vget w (xs ! 0) (xs ! 1)) then None else Some (vdel (xs ! 0) (xs ! 1) w))"

definition write_fns :: "(string \<times> fp_fun) list" where
  "write_fns = [(''set'', rule_set), (''update'', rule_update), (''upsert'', rule_upsert), (''del'', rule_del)]"

text \<open>The table of a request: later entries of the spread win, so they come first here.\<close>

definition auth_fns :: "ext \<Rightarrow> bool \<Rightarrow> (string \<times> fp_fun) list" where
  "auth_fns X priv =
     (if priv then write_fns else []) @ [(''get'', rule_get (\<lambda>_. []))] @ id_fns X @ ac_funcs (x_eval X)"

definition auth_vars :: "ctx \<Rightarrow> jv" where
  "auth_vars c =
     JObj [(''op'', c_op c), (''opcode'', c_opcode c), (''operand'', c_operand c), (''owner'', jget (c_info c) ''owner''),
           (''signer'', c_signer c), (''signer23'', c_signer23 c), (''ts'', jget (c_info c) ''ts''), (''ts64'', c_ts64 c),
           (''i'', jget (c_info c) ''i''), (''db'', jget (c_info c) ''id''), (''dir'', c_dir c), (''doc'', c_doc c),
           (''query'', c_query c),
           (''req'', if c_opcode c = JStr ''del'' then JObj [] else jidx (jelems (c_query c)) 0),
           (''before'', c_before c), (''after'', c_data c), (''allow'', JBool False)]"

text \<open>The rules of the directory, in the order of its \<open>auth\<close> object.\<close>

definition auth_rules :: "ctx \<Rightarrow> jv list" where
  "auth_rules c =
     (let di = c_dirinfo c; au = jget di ''auth'' in
      List.map_filter (\<lambda>k.
          let a = vget (c_kv c) (JStr ''_config'')
                    (JStr (''auth_'' @ to_str (jget di ''index'') @ ''_'' @ to_str (jget au k)))
          in if truthy a then Some (jget a ''rules'') else None)
        (for_keys au))"

text \<open>The first rule whose list of operations names this one.\<close>

fun pick_rule :: "jv \<Rightarrow> jv list \<Rightarrow> jv option res" where
  "pick_rule op [] = Inr None"
| "pick_rule op (v # vs) =
     rbind (jprop v ''0'') (\<lambda>h. rbind (as_str h) (\<lambda>s.
       if op \<in> JStr ` set (split_on (CHR '','') s) then Inr (Some v) else pick_rule op vs))"

definition auth_start :: "ctx \<Rightarrow> fstate" where
  "auth_start c =
     (\<lparr>fv_obj = auth_vars c, fv_data = c_data c, fv_linked = is_object (c_data c), fv_key = None\<rparr>, c_kv c)"

definition default_auth :: "ext \<Rightarrow> dev" where
  "default_auth X c =
     (if is_nil (c_info c) then fail type_err c
      else if is_nil (c_dirinfo c) then fail (Err ''dir doesn't exist: '') c
      else rbind (lift_res c (private_dir (c_dir c))) (\<lambda>priv.
        rbind (lift_res c (pick_rule (c_op c) (auth_rules c))) (\<lambda>m.
          case m of
            None \<Rightarrow> fail (Err ''operation not allowed'') c
          | Some rule \<Rightarrow>
              (case fpj (x_eval X) (auth_fns X priv) (jget rule ''1'') (auth_start c) of
                 Inl (e, w) \<Rightarrow> Inl (Err ''authentication failed'', w)
               | Inr (fv, w) \<Rightarrow>
                   (if truthy (jget (fv_obj fv) ''allow'')
                    then Inr (c\<lparr>c_data := fv_data fv, c_kv := w\<rparr>)
                    else Inl (Err ''operation not allowed'', w))))))"

definition owner_ops :: "string list" where
  "owner_ops = [''addIndex'', ''removeIndex'', ''addTrigger'', ''removeTrigger'', ''migrate'', ''revert'', ''upgrade'',
                ''setAuth'', ''setSchema'', ''mkdir'']"

definition dev_auth :: "ext \<Rightarrow> dev" where
  "dev_auth X c =
     (if op_in [''init'', ''batch''] c then Inr c
      else if op_in owner_ops c then onlyOwner c
      else default_auth X c)"

end
