(* ===== verification/Dev_Normalize.thy ===== *)
theory Dev_Normalize
  imports Request
begin

text \<open>
  The devices in front of a request: \<open>dev_normalize_httpsig.js\<close>, which reads a signed HTTP message,
  \<open>dev_normalize.js\<close> and \<open>dev_normalize_noauth.js\<close>, which set the state and the environment,
  \<open>dev_version.js\<close> and \<open>dev_verify.js\<close>, which admit it. The signature itself is checked before the message
  reaches the database.
\<close>

section \<open>Signature-Input\<close>

fun index_of_char :: "char \<Rightarrow> string \<Rightarrow> nat option" where
  "index_of_char x [] = None"
| "index_of_char x (c # cs) = (if c = x then Some 0 else map_option Suc (index_of_char x cs))"

definition lower_char :: "char \<Rightarrow> char" where
  "lower_char c = (let n = of_char c :: nat in if 65 \<le> n \<and> n \<le> 90 \<or> 192 \<le> n \<and> n \<le> 222 \<and> n \<noteq> 215 then char_of (n + 32) else c)"

definition lower :: "string \<Rightarrow> string" where
  "lower s = map lower_char s"

text \<open>\<open>s.split(/\s+/)\<close>\<close>

fun split_ws :: "string \<Rightarrow> string list" where
  "split_ws [] = [[]]"
| "split_ws (c # cs) =
     (if is_space c then
        (case cs of
           d # ds \<Rightarrow> if is_space d then split_ws cs else [] # split_ws cs
         | [] \<Rightarrow> [[], []])
      else (case split_ws cs of [] \<Rightarrow> [[c]] | y # ys \<Rightarrow> (c # y) # ys))"

text \<open>\<open>f.replace(/^"|"$/g, "")\<close>\<close>

definition unquote :: "string \<Rightarrow> string" where
  "unquote f =
     (let g = (if take 1 f = [quote_char] then tl f else f)
      in if g \<noteq> [] \<and> last g = quote_char then butlast g else g)"

text \<open>The parameters: \<open>key="quoted"\<close> with backslash escapes, or \<open>key=token\<close>.\<close>

definition is_alnum :: "char \<Rightarrow> bool" where
  "is_alnum c \<longleftrightarrow> is_digit c \<or> (let n = of_char c :: nat in 65 \<le> n \<and> n \<le> 90 \<or> 97 \<le> n \<and> n \<le> 122)"

definition key_char :: "char \<Rightarrow> bool" where
  "key_char c \<longleftrightarrow> is_alnum c \<or> c = CHR ''-''"

definition token_char :: "char \<Rightarrow> bool" where
  "token_char c \<longleftrightarrow> is_alnum c \<or> c \<in> set ''-._~''"

definition backslash :: char where
  "backslash = CHR 0x5C"

text \<open>The text between the quotes, which must end the input.\<close>

fun quoted_body :: "string \<Rightarrow> string option" where
  "quoted_body [] = None"
| "quoted_body (c # cs) =
     (if c = quote_char then (if cs = [] then Some [] else None)
      else if c = backslash then
        (case cs of
           e # r \<Rightarrow> if is_newline e then None else map_option (\<lambda>t. c # e # t) (quoted_body r)
         | [] \<Rightarrow> None)
      else map_option ((#) c) (quoted_body cs))"

fun replace_pair :: "char \<Rightarrow> char \<Rightarrow> char \<Rightarrow> string \<Rightarrow> string" where
  "replace_pair a b x (c # d # cs) =
     (if c = a \<and> d = b then x # replace_pair a b x cs else c # replace_pair a b x (d # cs))"
| "replace_pair a b x s = s"

definition parse_param :: "string \<Rightarrow> (string \<times> string) option" where
  "parse_param p =
     (let k = takeWhile key_char p; r = dropWhile key_char p in
      if k = [] \<or> take 1 r \<noteq> ''='' then None
      else let v = tl r in
        if take 1 v = [quote_char] then
          (case quoted_body (tl v) of
             None \<Rightarrow> None
           | Some t \<Rightarrow> Some (lower k, replace_pair backslash backslash backslash (replace_pair backslash quote_char quote_char t)))
        else if v \<noteq> [] \<and> list_all token_char v then Some (lower k, v) else None)"

definition last_param :: "string \<Rightarrow> (string \<times> string) list \<Rightarrow> string option" where
  "last_param k ps = map_of (rev ps) k"

text \<open>\<open>parseSI\<close>: the field names and the \<open>keyid\<close>, the parts that are used.\<close>

definition parseSI :: "string \<Rightarrow> (string list \<times> string) res" where
  "parseSI input =
     (case index_of_char (CHR ''='') input of
        None \<Rightarrow> Inl (Err ''Invalid Signature-Input (no = found)'')
      | Some eq \<Rightarrow>
          (let rest = trim (drop (eq + 1) input) in
           if take 1 rest \<noteq> ''('' then Inl (Err ''Invalid Signature-Input (fields list missing)'')
           else case index_of_char (CHR '')'') rest of
             None \<Rightarrow> Inl (Err ''Invalid Signature-Input (unclosed fields list)'')
           | Some e \<Rightarrow>
               (let fields = map (lower \<circ> unquote) (split_ws (take (e - 1) (tl rest)))
                in rbind (rmap (\<lambda>p. of_opt (Err ''Invalid parameter in Signature-Input: '') (parse_param p))
                     (filter (\<lambda>p. p \<noteq> []) (map trim (split_on (CHR '';'') (drop (e + 1) rest))))) (\<lambda>ps.
                   case last_param ''alg'' ps of
                     None \<Rightarrow> Inl (Err ''Missing alg in Signature-Input'')
                   | Some [] \<Rightarrow> Inl (Err ''Missing alg in Signature-Input'')
                   | Some _ \<Rightarrow>
                       (case last_param ''keyid'' ps of
                          None \<Rightarrow> Inl (Err ''Missing keyid in Signature-Input'')
                        | Some [] \<Rightarrow> Inl (Err ''Missing keyid in Signature-Input'')
                        | Some kid \<Rightarrow> Inr (fields, kid))))))"

section \<open>dev_normalize_httpsig\<close>

definition sig_names :: "string list" where
  "sig_names = [''signature'', ''signature-input'']"

definition toLower :: dev where
  "toLower c =
     (if \<not> truthy (c_msg c) then Inr c
      else let hs = jget (c_msg c) ''headers'';
               lowers = foldl (\<lambda>l k. if lower k \<in> set sig_names then oput (lower k) (jget hs k) l else l)
                          [(''signature'', JNull), (''signature-input'', JNull)] (for_keys hs);
               rest = filter (\<lambda>kv. lower (fst kv) \<notin> set sig_names) (own_props hs)
           in Inr (c\<lparr>c_msg := jset (c_msg c) ''headers'' (JObj (spread (JObj lowers) rest))\<rparr>))"

definition toMsg :: "jv \<Rightarrow> jv" where
  "toMsg req =
     (let m = JObj (spread (jget req ''headers'') [])
      in if truthy (jget req ''body'') then jset m ''body'' (jget req ''body'') else m)"

definition pick_header :: "jv \<Rightarrow> (string \<times> jv) list \<times> (string \<times> jv) list \<Rightarrow> string
    \<Rightarrow> ((string \<times> jv) list \<times> (string \<times> jv) list) res" where
  "pick_header msg = (\<lambda>(hs, etc) v.
     if jget (jget msg ''headers'') v = JUndef then Inl (Err ''invalid signature'')
     else Inr (oput v (jget (jget msg ''headers'') v) hs,
               if lower v = ''content-digest'' then oput ''body'' (jget msg ''body'') etc else etc))"

definition pickInput :: "ext \<Rightarrow> dev" where
  "pickInput X c =
     (let msg = c_msg c in
      if \<not> truthy msg then Inr c
      else rbind (lift_res c (x_structured X (toMsg msg))) (\<lambda>st.
           rbind (lift_res c (jprop st ''id'')) (\<lambda>i.
           if i = JUndef then fail (Err ''id missing'') c
           else if jget st ''nonce'' = JUndef then fail (Err ''nonce missing'') c
           else let hs = jget msg ''headers'' in
             rbind (lift_res c (rbind (as_str (jget hs ''signature-input'')) parseSI)) (\<lambda>(fields, kid).
             rbind (lift_res c (rfoldl (pick_header msg)
                      ([(''signature'', jget hs ''signature''), (''signature-input'', jget hs ''signature-input'')],
                       [(''fields'', JArr (map JStr fields)), (''keyid'', JStr kid)]) fields)) (\<lambda>(headers, etc).
               Inr (c\<lparr>c_msg := JObj ((''headers'', JObj headers) # etc)\<rparr>))))))"

definition normalize_httpsig :: "ext \<Rightarrow> dev" where
  "normalize_httpsig X c = rbind (toLower c) (pickInput X)"

section \<open>dev_normalize\<close>

definition module_version :: string where
  "module_version = ''0.1.0''"

definition sig_meta :: "string \<Rightarrow> (string \<times> jv) list" where
  "sig_meta alg = [(''alg'', JStr alg), (''commitment-device'', JStr ''httpsig@1.0'')]"

text \<open>\<open>commit(msg)\<close>: the message with its commitments, which the hash path covers.\<close>

definition commit_msg :: "ext \<Rightarrow> jv \<Rightarrow> jv res" where
  "commit_msg X msg =
     rbind (jprop msg ''headers'') (\<lambda>hs.
     rbind (jprop hs ''inline-body-key'') (\<lambda>inline.
     rbind (as_list (jget msg ''fields'')) (\<lambda>fs.
       let body0 = foldl (\<lambda>b v. oput (if v = JStr ''@path'' then ''path'' else to_str v)
                                 (jget hs (if v = JStr ''@path'' then ''path'' else to_str v)) b) [] fs;
           body1 = (if truthy (jget msg ''body'')
                    then oput (if inline = JStr ''data'' then ''data'' else ''body'') (jget msg ''body'') body0 else body0);
           body = odel ''inline-body-key'' body1;
           sigs = [(''signature'', jget hs ''signature''), (''signature-input'', jget hs ''signature-input'')]
       in rbind (x_hmacid X hs) (\<lambda>hmacId.
          rbind (x_rsaid X hs) (\<lambda>rsaId.
          rbind (rbind (x_pubkey X hs) (toAddr (x_sha256 X))) (\<lambda>committer.
            Inr (JObj (spread (JObj body)
              [(''commitments'',
                JObj (oput hmacId (JObj (sig_meta ''hmac-sha256'' @ sigs))
                  (oput rsaId (JObj (sig_meta ''rsa-pss-sha512'' @ [(''committer'', JStr committer)] @ sigs)) [])))])))))))) "

definition setHashpath :: "ext \<Rightarrow> dev" where
  "setHashpath X c =
     rbind (lift_res c (commit_msg X (c_msg c))) (\<lambda>committed.
     rbind (lift_res c
        (if \<not> truthy (jget (c_info c) ''hashpath'')
         then rbind (x_id X committed) (\<lambda>i. Inr (JStr (to_str (jget (jget (c_msg c) ''headers'') ''id'') @ ''/'' @ i)))
         else x_hashpath X (jget (c_info c) ''hashpath'') committed)) (\<lambda>h.
       Inr (c\<lparr>c_info := jset (c_info c) ''hashpath'' h\<rparr>)))"

definition info_start :: jv where
  "info_start = JObj [(''i'', JNum (-1))]"

definition load_info :: "ctx \<Rightarrow> ctx" where
  "load_info c =
     c\<lparr>c_info := nullish (vget (c_kv c) (JStr ''_config'') (JStr ''info'')) info_start,
       c_version := JStr module_version\<rparr>"

text \<open>\<open>info.i++\<close>, \<open>info.ts = msg.ts ?? Date.now()\<close>, and the store.\<close>

definition bump_info :: "ext \<Rightarrow> ctx \<Rightarrow> ctx" where
  "bump_info X c =
     (let i1 = jset (c_info c) ''i'' (js_incr (jget (c_info c) ''i''));
          i2 = jset i1 ''ts'' (nullish (jget (c_msg c) ''ts'') (JNum (x_now X)))
      in c\<lparr>c_info := i2, c_kv := vput (JStr ''_config'') (JStr ''info'') i2 (c_kv c)\<rparr>)"

definition setEnv :: "ext \<Rightarrow> dev" where
  "setEnv X c =
     (if \<not> truthy (c_msg c) then Inr c
      else rbind (setHashpath X (load_info c)) (\<lambda>c1. Inr (bump_info X c1)))"

definition setMeta :: "ext \<Rightarrow> dev" where
  "setMeta X c =
     rbind (lift_res c (jprop (c_msg c) ''headers'')) (\<lambda>hs.
     rbind (lift_res c (jprop hs ''nonce'')) (\<lambda>nonce.
     rbind (lift_res c (jprop (c_info c) ''branch'')) (\<lambda>br.
     rbind (lift_res c (rbind (as_str (jget (c_msg c) ''keyid'')) (toAddr (x_sha256 X)))) (\<lambda>signer.
     rbind (lift_res c (wdb23 signer)) (\<lambda>s23.
     rbind (lift_res c (json_parse (to_str (jget hs ''query'')))) (\<lambda>q.
       Inr (c\<lparr>c_branch := (if truthy br then br else c_branch c), c_id := jget hs ''id'', c_nonce := nonce,
              c_signer := JStr signer, c_signer23 := JStr s23, c_query := q\<rparr>)))))))"

definition setState :: "ext \<Rightarrow> dev" where
  "setState X c = rbind (setMeta X c) (\<lambda>c1. rbind (setTS64 c1) parseOp)"

definition dev_normalize :: "ext \<Rightarrow> dev" where
  "dev_normalize X c = rbind (normalize_httpsig X c) (\<lambda>c1. rbind (setEnv X c1) (setState X))"

section \<open>dev_normalize_noauth, tdev_noauth\<close>

definition setEnv_noauth :: "ext \<Rightarrow> dev" where
  "setEnv_noauth X c = (if \<not> truthy (c_msg c) then Inr c else Inr (bump_info X (load_info c)))"

definition dev_normalize_noauth :: "ext \<Rightarrow> dev" where
  "dev_normalize_noauth X c = rbind (setEnv_noauth X c) (setState X)"

definition tdev_noauth :: "string \<Rightarrow> dev" where
  "tdev_noauth op c =
     rbind (lift_res c (as_list (c_msg c))) (\<lambda>ms.
       Inr (c\<lparr>c_opcode := JStr op, c_query := JArr (JStr op # ms)\<rparr>))"

section \<open>dev_version, dev_verify\<close>

definition dev_version :: dev where
  "dev_version c =
     rbind (lift_res c (if truthy (c_version c) \<and> c_opcode c \<noteq> JStr ''get'' \<and> c_opcode c \<noteq> JStr ''cget''
                        then jprop (c_info c) ''id'' else Inr JUndef)) (\<lambda>i.
     let ver = jget (c_info c) ''version''; upg = jget (c_info c) ''upgrading'' in
     if truthy i \<and> truthy ver \<and> c_ignore_version c \<noteq> JBool True then
       (if \<not> js_eq (c_version c) ver then
          (if truthy upg then
             (if c_opcode c \<noteq> JStr ''revert'' \<and> c_opcode c \<noteq> JStr ''migrate''
              then fail (Err ''only revert or migrate is possithe during upgrade: '') c
              else if \<not> js_eq (c_version c) upg then fail (Err ''the wrong version: upgrade to '') c
              else Inr c)
           else fail (Err ''the wrong version: '') c)
        else if truthy upg \<and> c_opcode c \<noteq> JStr ''revert''
          then fail (Err ''only revert or migrate is possithe during upgrade: '') c
        else Inr c)
     else Inr c)"

text \<open>\<open>+state.nonce !== nonce + 1\<close>: the two must be the same number.\<close>

definition next_nonce :: "jv \<Rightarrow> jv" where
  "next_nonce acc = js_plus1 (nullish (jget acc ''nonce'') (JNum 0))"

definition nonce_ok :: "jv \<Rightarrow> jv \<Rightarrow> bool" where
  "nonce_ok given expected =
     (case (to_num given, expected) of (Some m, JNum n) \<Rightarrow> m = n | _ \<Rightarrow> False)"

definition dev_verify :: dev where
  "dev_verify c =
     rbind (lift_res c (jprop (c_info c) ''id'')) (\<lambda>i.
       if truthy i \<and> \<not> js_eq i (c_id c) then fail (Err ''the wrong id: '') c
       else rbind (dev_version c) (\<lambda>_.
         let acc = vget (c_kv c) (JStr ''_accounts'') (c_signer c) in
         if \<not> nonce_ok (c_nonce c) (next_nonce acc) then fail (Err ''the wrong nonce: '') c
         else Inr (c\<lparr>c_kv := vput (JStr ''_accounts'') (c_signer c)
                               (JObj (spread (JObj [(''nonce'', next_nonce acc)]) (spread acc []))) (c_kv c)\<rparr>)))"

end
