(* ===== verification/Draft07.thy ===== *)
theory Draft07
  imports Js_Value
begin

text \<open>The meta-schema of JSON Schema draft 7 as the code holds it, \<open>core/src/jsonschema-draft-07.js\<close>:
  what a directory's schema is checked against before it is stored.\<close>

definition draft_07 :: jv where
  "draft_07 =
     JObj [
       (''$schema'', JStr ''http://json-schema.org/draft-07/schema#''),
       (''$id'', JStr ''http://json-schema.org/draft-07/schema#''),
       (''title'', JStr ''Core schema meta-schema''),
       (''definitions'', JObj [
         (''schemaArray'', JObj [(''type'', JStr ''array''), (''minItems'', JNum 1), (''items'', JObj [(''$ref'', JStr ''#'')])]),
         (''nonNegativeInteger'', JObj [(''type'', JStr ''integer''), (''minimum'', JNum 0)]),
         (''nonNegativeIntegerDefault0'', JObj [(''allOf'', JArr [JObj [(''$ref'', JStr ''#/definitions/nonNegativeInteger'')], JObj [(''default'', JNum 0)]])]),
         (''simpleTypes'', JObj [(''enum'', JArr [JStr ''array'', JStr ''boolean'', JStr ''integer'', JStr ''null'', JStr ''number'', JStr ''object'', JStr ''string''])]),
         (''stringArray'', JObj [(''type'', JStr ''array''), (''items'', JObj [(''type'', JStr ''string'')]), (''uniqueItems'', JBool True), (''default'', JArr [])])]),
       (''type'', JArr [JStr ''object'', JStr ''boolean'']),
       (''properties'', JObj [
         (''$id'', JObj [(''type'', JStr ''string''), (''format'', JStr ''uri-reference'')]),
         (''$schema'', JObj [(''type'', JStr ''string''), (''format'', JStr ''uri'')]),
         (''$ref'', JObj [(''type'', JStr ''string''), (''format'', JStr ''uri-reference'')]),
         (''$comment'', JObj [(''type'', JStr ''string'')]),
         (''title'', JObj [(''type'', JStr ''string'')]),
         (''description'', JObj [(''type'', JStr ''string'')]),
         (''default'', JBool True),
         (''readOnly'', JObj [(''type'', JStr ''boolean''), (''default'', JBool False)]),
         (''writeOnly'', JObj [(''type'', JStr ''boolean''), (''default'', JBool False)]),
         (''examples'', JObj [(''type'', JStr ''array''), (''items'', JBool True)]),
         (''multipleOf'', JObj [(''type'', JStr ''number''), (''exclusiveMinimum'', JNum 0)]),
         (''maximum'', JObj [(''type'', JStr ''number'')]),
         (''exclusiveMaximum'', JObj [(''type'', JStr ''number'')]),
         (''minimum'', JObj [(''type'', JStr ''number'')]),
         (''exclusiveMinimum'', JObj [(''type'', JStr ''number'')]),
         (''maxLength'', JObj [(''$ref'', JStr ''#/definitions/nonNegativeInteger'')]),
         (''minLength'', JObj [(''$ref'', JStr ''#/definitions/nonNegativeIntegerDefault0'')]),
         (''pattern'', JObj [(''type'', JStr ''string''), (''format'', JStr ''regex'')]),
         (''additionalItems'', JObj [(''$ref'', JStr ''#'')]),
         (''items'', JObj [(''anyOf'', JArr [JObj [(''$ref'', JStr ''#'')], JObj [(''$ref'', JStr ''#/definitions/schemaArray'')]]), (''default'', JBool True)]),
         (''maxItems'', JObj [(''$ref'', JStr ''#/definitions/nonNegativeInteger'')]),
         (''minItems'', JObj [(''$ref'', JStr ''#/definitions/nonNegativeIntegerDefault0'')]),
         (''uniqueItems'', JObj [(''type'', JStr ''boolean''), (''default'', JBool False)]),
         (''contains'', JObj [(''$ref'', JStr ''#'')]),
         (''maxProperties'', JObj [(''$ref'', JStr ''#/definitions/nonNegativeInteger'')]),
         (''minProperties'', JObj [(''$ref'', JStr ''#/definitions/nonNegativeIntegerDefault0'')]),
         (''required'', JObj [(''$ref'', JStr ''#/definitions/stringArray'')]),
         (''additionalProperties'', JObj [(''$ref'', JStr ''#'')]),
         (''definitions'', JObj [(''type'', JStr ''object''), (''additionalProperties'', JObj [(''$ref'', JStr ''#'')]), (''default'', JObj [])]),
         (''properties'', JObj [(''type'', JStr ''object''), (''additionalProperties'', JObj [(''$ref'', JStr ''#'')]), (''default'', JObj [])]),
         (''patternProperties'', JObj [(''type'', JStr ''object''), (''additionalProperties'', JObj [(''$ref'', JStr ''#'')]), (''propertyNames'', JObj [(''format'', JStr ''regex'')]), (''default'', JObj [])]),
         (''dependencies'', JObj [(''type'', JStr ''object''), (''additionalProperties'', JObj [(''anyOf'', JArr [JObj [(''$ref'', JStr ''#'')], JObj [(''$ref'', JStr ''#/definitions/stringArray'')]])])]),
         (''propertyNames'', JObj [(''$ref'', JStr ''#'')]),
         (''const'', JBool True),
         (''enum'', JObj [(''type'', JStr ''array''), (''items'', JBool True), (''minItems'', JNum 1), (''uniqueItems'', JBool True)]),
         (''type'', JObj [(''anyOf'', JArr [JObj [(''$ref'', JStr ''#/definitions/simpleTypes'')], JObj [(''type'', JStr ''array''), (''items'', JObj [(''$ref'', JStr ''#/definitions/simpleTypes'')]), (''minItems'', JNum 1), (''uniqueItems'', JBool True)]])]),
         (''format'', JObj [(''type'', JStr ''string'')]),
         (''contentMediaType'', JObj [(''type'', JStr ''string'')]),
         (''contentEncoding'', JObj [(''type'', JStr ''string'')]),
         (''if'', JObj [(''$ref'', JStr ''#'')]),
         (''then'', JObj [(''$ref'', JStr ''#'')]),
         (''else'', JObj [(''$ref'', JStr ''#'')]),
         (''allOf'', JObj [(''$ref'', JStr ''#/definitions/schemaArray'')]),
         (''anyOf'', JObj [(''$ref'', JStr ''#/definitions/schemaArray'')]),
         (''oneOf'', JObj [(''$ref'', JStr ''#/definitions/schemaArray'')]),
         (''not'', JObj [(''$ref'', JStr ''#'')])]),
       (''default'', JBool True)]"

end
