(* ===== verification/Dev_Ops.thy ===== *)
theory Dev_Ops
  imports Dev_Parse Dev_Normalize Draft07
begin

text \<open>
  The devices that carry out a request: documents (\<open>dev_put.js\<close>, \<open>dev_del.js\<close> with \<open>dev_schema.js\<close> and
  \<open>dev_trigger.js\<close>), directories and their configuration (\<open>dev_init\<close>, \<open>dev_mkdir\<close>, \<open>dev_set_auth\<close>,
  \<open>dev_set_schema\<close>, \<open>dev_add_index\<close>, \<open>dev_remove_index\<close>, \<open>dev_add_trigger\<close>, \<open>dev_remove_trigger\<close>), versions
  (\<open>dev_upgrade\<close>, \<open>dev_revert\<close>, \<open>dev_migrate\<close>), \<open>dev_batch\<close>, \<open>dev_write\<close> and \<open>dev_result\<close>.
\<close>

definition config :: "string \<Rightarrow> ctx \<Rightarrow> jv" where
  "config k c = vget (c_kv c) (JStr ''_config'') (JStr k)"

definition put_config :: "string \<Rightarrow> jv \<Rightarrow> ctx \<Rightarrow> ctx" where
  "put_config k v c = set_kv (vput (JStr ''_config'') (JStr k) v (c_kv c)) c"

definition del_config :: "string \<Rightarrow> ctx \<Rightarrow> ctx" where
  "del_config k c = set_kv (vdel (JStr ''_config'') (JStr k) (c_kv c)) c"

definition put_dir :: "jv \<Rightarrow> jv \<Rightarrow> ctx \<Rightarrow> ctx" where
  "put_dir dir v c = set_kv (vput (JStr ''_'') dir v (c_kv c)) c"

definition numbered :: "string \<Rightarrow> jv \<Rightarrow> string" where
  "numbered name index = name @ to_str index"

section \<open>dev_schema\<close>

text \<open>\<open>max_doc_size * 20 < len\<close>; a size that is no number compares false.\<close>

definition dev_schema :: "ext \<Rightarrow> dev" where
  "dev_schema X c =
     rbind (lift_res c (jprop (c_dirinfo c) ''index'')) (\<lambda>ix.
       let sch = config (numbered ''schema_'' ix) c in
       if \<not> truthy sch then fail (Err ''schema missing'') c
       else let valid = (case x_validate X (c_data c) sch of Inr b \<Rightarrow> b | Inl e \<Rightarrow> False) in
         if c_data c = JUndef then fail type_err c
         else if \<not> valid then fail (Err ''invalid schema'') c
         else rbind (lift_res c (jprop (c_info c) ''max_doc_size'')) (\<lambda>m.
           if (case to_num m of Some k \<Rightarrow> k * 20 < int (length (stringify (c_data c))) | None \<Rightarrow> False)
           then fail (Err ''data too large: '') c
           else Inr c))"

section \<open>dev_trigger\<close>

record tmod =
  t_on :: jv
  t_diff :: "(string \<times> jv) list"

definition change :: "jv \<Rightarrow> jv \<Rightarrow> jv" where
  "change a b = JObj [(''before'', a), (''after'', b)]"

text \<open>The event and the changed fields. An update looks at the fields of the old document only:
  \<open>uniq(bkeys, akeys)\<close> takes one argument.\<close>

definition trigger_mod :: "jv \<Rightarrow> jv \<Rightarrow> tmod res" where
  "trigger_mod before data =
     (if before \<noteq> JNull \<and> data = JNull then
        Inr \<lparr>t_on = JStr ''delete'', t_diff = foldl (\<lambda>d k. oput k (change (jget before k) JNull) d) [] (for_keys before)\<rparr>
      else if before \<noteq> JNull then
        (if jkeys before \<noteq> [] \<and> is_nil data then Inl type_err
         else let ks = filter (\<lambda>k. \<not> jequals (jget before k) (jget data k)) (uniq (jkeys before))
              in Inr \<lparr>t_on = (if ks = [] then JNull else JStr ''update''),
                      t_diff = foldl (\<lambda>d k. oput k (change (nullish (jget before k) JNull) (nullish (jget data k) JNull)) d) [] ks\<rparr>)
      else if data \<noteq> JNull then
        Inr \<lparr>t_on = JStr ''create'', t_diff = foldl (\<lambda>d k. oput k (change JNull (jget data k)) d) [] (for_keys data)\<rparr>
      else Inr \<lparr>t_on = JNull, t_diff = []\<rparr>)"

definition trigger_vars :: "ctx \<Rightarrow> tmod \<Rightarrow> jv" where
  "trigger_vars c m =
     JObj [(''on'', t_on m), (''diff'', JObj (t_diff m)), (''before'', c_before c), (''after'', c_data c), (''doc'', c_doc c),
           (''dir'', c_dir c), (''i'', jget (c_info c) ''i''), (''ts64'', c_ts64 c), (''ts'', jget (c_info c) ''ts''),
           (''db'', jget (c_info c) ''id''), (''owner'', jget (c_info c) ''owner''), (''signer'', c_signer c),
           (''signer23'', c_signer23 c), (''batch'', JArr [])]"

text \<open>\<open>checkDir\<close>: the value of the document before, \<open>null\<close> for \<open>add\<close>.\<close>

definition checkDir :: "jv \<Rightarrow> jv \<Rightarrow> bool \<Rightarrow> wkv \<Rightarrow> jv res" where
  "checkDir dir doc is_add w =
     (if is_nil (vget w (JStr ''_'') dir) then Inl (Err ''dir doesn't exist:'')
      else Inr (if is_add then JNull else nullish (vget w dir doc) JNull))"

text \<open>
  \<open>_putData\<close>: a write of a trigger. Its state takes the directory object of the request that fired the
  trigger (so its schema), not of the directory it writes, and \<open>undefined\<close> for the rest. A write of the
  request's own document cuts the stored copy loose from \<open>after\<close>.
\<close>

datatype wop = WAdd | WPut | WDel

definition trigger_ctx :: "ctx \<Rightarrow> wkv \<Rightarrow> jv \<Rightarrow> jv \<Rightarrow> jv \<Rightarrow> jv \<Rightarrow> ctx" where
  "trigger_ctx c w dir doc before data =
     blank\<lparr>c_dir := dir, c_doc := doc, c_dirinfo := c_dirinfo c, c_signer := c_signer c, c_signer23 := c_signer23 c,
           c_i := jget (c_info c) ''i'', c_ts := jget (c_info c) ''ts'', c_ts64 := c_ts64 c, c_id := jget (c_info c) ''id'',
           c_before := before, c_data := data, c_kv := w, c_info := c_info c, c_kv_dir := Some (to_str dir)\<rparr>"

definition trigger_write :: "ext \<Rightarrow> nat \<Rightarrow> ctx \<Rightarrow> wop \<Rightarrow> jv \<Rightarrow> jv \<Rightarrow> jv \<Rightarrow> jv \<Rightarrow> fstate \<Rightarrow> (fstate \<times> jv \<times> bool) sres" where
  "trigger_write X n c op data dir doc before fs =
     (case fs of (fv, w) \<Rightarrow>
        rbind
          (let c0 = trigger_ctx c w dir doc before data in
           case op of
             WDel \<Rightarrow> delData n (c0\<lparr>c_data := JNull\<rparr>)
           | WAdd \<Rightarrow> rbind (merge X None c0) (\<lambda>c1. rbind (genDocID n c1) (\<lambda>c2. rbind (dev_schema X c2) (putData n)))
           | WPut \<Rightarrow> rbind (merge X None c0) (\<lambda>c1. rbind (dev_schema X c1) (putData n)))
          (\<lambda>c'. Inr ((fv\<lparr>fv_key := (if fv_key fv = Some (dkey (to_str dir) (to_str (c_doc c'))) then None else fv_key fv)\<rparr>,
                     c_kv c'), JBool True, False)))"

definition trigger_op :: "ext \<Rightarrow> nat \<Rightarrow> ctx \<Rightarrow> wop \<Rightarrow> bool option \<Rightarrow> fp_fun" where
  "trigger_op X n c op must v fs =
     (let w = snd fs in
      rbind (at_store w (nth3 v)) (\<lambda>xs.
        let (data, dir, doc) = (if op = WDel then (JUndef, xs ! 0, xs ! 1) else (xs ! 0, xs ! 1, xs ! 2)) in
        rbind (at_store w (checkDir dir doc (op = WAdd) w)) (\<lambda>before.
          case must of
            Some True \<Rightarrow> if \<not> truthy before then Inl (Err ''doc doesn't exist'', w)
                          else trigger_write X n c op data dir doc before fs
          | Some False \<Rightarrow> if truthy before then Inl (Err ''doc exists'', w)
                          else trigger_write X n c op data dir doc before fs
          | None \<Rightarrow> trigger_write X n c op data dir (if op = WAdd then JUndef else doc) before fs)))"

text \<open>\<open>obj.batch = concat(obj.batch, query)\<close> and \<open>obj.batch.push(query)\<close>\<close>

definition to_batch :: "bool \<Rightarrow> fp_fun" where
  "to_batch all v fs =
     (case fs of (fv, w) \<Rightarrow>
        (case (jget (fv_obj fv) ''batch'', all, v) of
           (JArr bs, True, JArr qs) \<Rightarrow> Inr ((fv\<lparr>fv_obj := jset (fv_obj fv) ''batch'' (JArr (bs @ qs))\<rparr>, w), JBool True, False)
         | (JArr bs, False, q) \<Rightarrow> Inr ((fv\<lparr>fv_obj := jset (fv_obj fv) ''batch'' (JArr (bs @ [q]))\<rparr>, w), JBool True, False)
         | _ \<Rightarrow> Inl (type_err, w)))"

definition trigger_fns :: "ext \<Rightarrow> nat \<Rightarrow> ctx \<Rightarrow> (string \<times> fp_fun) list" where
  "trigger_fns X n c =
     id_fns X @
     [(''get'', \<lambda>v fs. rule_get (\<lambda>dir. [(''dirinfo'', vget (snd fs) (JStr ''_'') dir)]) v fs),
      (''add'', trigger_op X n c WAdd None), (''set'', trigger_op X n c WPut (Some False)),
      (''update'', trigger_op X n c WPut (Some True)), (''upsert'', trigger_op X n c WPut None),
      (''del'', trigger_op X n c WDel (Some True)), (''toBatchAll'', to_batch True), (''toBatch'', to_batch False)]"

text \<open>What the trigger left in \<open>batch\<close>, as a list of operations; a string stands for a list of them.\<close>

definition expand_batch :: "jv \<Rightarrow> jv list \<Rightarrow> jv list res" where
  "expand_batch vars vs =
     rbind (rmap (\<lambda>v. case v of
               JStr s \<Rightarrow> as_list (parse_vars vars (replace_str s))
             | _ \<Rightarrow> Inr [v]) vs) (\<lambda>vss. Inr (concat vss))"

text \<open>One operation of the batch. \<open>toBatch\<close> and \<open>toBatchAll\<close> have no variables here and throw.\<close>

definition run_batch_op :: "ext \<Rightarrow> nat \<Rightarrow> ctx \<Rightarrow> fstate \<Rightarrow> jv \<Rightarrow> fstate sres" where
  "run_batch_op X n c fs v =
     rbind (at_store (snd fs) (as_list v)) (\<lambda>xs.
     rbind (at_store (snd fs) (rbind (jprop (jidx xs 0) ''0'') (\<lambda>h. Inr h))) (\<lambda>h.
     rbind (at_store (snd fs) (if h = JStr ''%'' then rbind (as_str (jidx xs 0)) (\<lambda>s. Inr (tl s)) else Inr (to_str (jidx xs 0)))) (\<lambda>op.
     rbind (at_store (snd fs) (replace_var (JArr (tl xs)))) (\<lambda>q.
       case map_of (trigger_fns X n c) op of
         None \<Rightarrow> Inl (type_err, snd fs)
       | Some f \<Rightarrow>
           if op \<in> {''toBatch'', ''toBatchAll''} then Inl (type_err, snd fs)
           else rbind (f (parse_vars (fv_obj (fst fs)) q) fs) (\<lambda>(fs1, r, brk). Inr fs1)))))"

definition fields_match :: "jv \<Rightarrow> tmod \<Rightarrow> bool res" where
  "fields_match t m =
     (let fs = jget t ''fields''; ks = map (JStr \<circ> fst) (t_diff m); how = nullish (jget t ''match'') (JStr ''all'') in
      if \<not> truthy fs then Inr True
      else if how \<in> {JStr ''all'', JStr ''any'', JStr ''none''} then
        rbind (ramda_list fs) (\<lambda>xs.
          Inr (if how = JStr ''all'' then jdifference xs ks = []
               else if how = JStr ''any'' then jintersection xs ks \<noteq> []
               else jintersection xs ks = []))
      else Inr False)"

definition run_trigger :: "ext \<Rightarrow> nat \<Rightarrow> ctx \<Rightarrow> tmod \<Rightarrow> fvars \<times> wkv \<Rightarrow> jv \<Rightarrow> (fvars \<times> wkv) sres" where
  "run_trigger X n c m s t =
     (case s of (fv0, w) \<Rightarrow>
        rbind (at_store w (rbind (jprop t ''on'') (\<lambda>on'. as_str on'))) (\<lambda>ons.
        rbind (at_store w (if t_on m \<in> JStr ` set (split_on (CHR '','') ons) then fields_match t m else Inr False)) (\<lambda>ok.
          if \<not> ok then Inr (fv0, w)
          else let fv = fv0\<lparr>fv_obj := jset (trigger_vars c m) ''after'' (fv_data fv0), fv_linked := is_object (fv_data fv0)\<rparr> in
            rbind (fpj (x_eval X) (trigger_fns X n c) (jget t ''fn'') (fv, w)) (\<lambda>fs1.
            rbind (at_store (snd fs1) (rbind (as_list (jget (fv_obj (fst fs1)) ''batch'')) (expand_batch (fv_obj (fst fs1))))) (\<lambda>ops.
              rfoldl (run_batch_op X n c) fs1 ops)))))"

definition dir_triggers :: "ctx \<Rightarrow> jv list res" where
  "dir_triggers c =
     rbind (jprop (c_dirinfo c) ''triggers'') (\<lambda>ts.
       Inr (map (\<lambda>k. config (''triggers_'' @ to_str (jget (c_dirinfo c) ''index'') @ ''_'' @ to_str (jget ts k)) c)
              (if truthy ts then for_keys ts else [])))"

text \<open>
  The request's document is what \<open>after\<close> is and what the store holds, unless a trigger replaces either.
  The triggers are read before the first of them runs.
\<close>

definition dev_trigger :: "ext \<Rightarrow> nat \<Rightarrow> dev" where
  "dev_trigger X n c =
     rbind (lift_res c (if is_nil (c_info c) then Inl type_err else trigger_mod (c_before c) (c_data c))) (\<lambda>m.
       if \<not> truthy (t_on m) then Inr c
       else rbind (lift_res c (dir_triggers c)) (\<lambda>ts.
         let fv = \<lparr>fv_obj = JUndef, fv_data = c_data c, fv_linked = is_object (c_data c),
                   fv_key = (if is_object (c_data c) then Some (dkey (to_str (c_dir c)) (to_str (c_doc c))) else None)\<rparr>
         in rbind (rfoldl (run_trigger X n c m) (fv, c_kv c) ts) (\<lambda>(fv', w).
              Inr (c\<lparr>c_data := fv_data fv', c_kv := w\<rparr>))))"

section \<open>Documents\<close>

definition dev_put :: "ext \<Rightarrow> nat \<Rightarrow> dev" where
  "dev_put X n c = rbind (dev_schema X c) (\<lambda>c1. rbind (putData n c1) (dev_trigger X n))"

definition dev_del :: "ext \<Rightarrow> nat \<Rightarrow> dev" where
  "dev_del X n c = rbind (delData n c) (dev_trigger X n)"


section \<open>Directories\<close>

definition init_auth :: jv where
  "init_auth = JArr [JStr ''add,set,update,upsert,del'', JArr [JArr [JStr ''deny()'']]]"

definition init_schema :: jv where
  "init_schema =
     JObj [(''type'', JStr ''object''), (''required'', JArr [JStr ''index'']),
           (''properties'', JObj [(''index'', JObj [(''type'', JStr ''number'')]), (''auth'', JObj [(''type'', JStr ''object'')]),
                                  (''triggers'', JObj [(''type'', JStr ''object'')])])]"

definition closed_dir :: "int \<Rightarrow> jv" where
  "closed_dir i =
     JObj [(''index'', JNum i),
           (''schema'', JObj [(''type'', JStr ''object''), (''additionalProperties'', JBool False)]), (''auth'', JArr [])]"

definition init_info :: "ctx \<Rightarrow> jv \<Rightarrow> jv" where
  "init_info c q =
     (let base = JObj [(''dirs'', JNum 3), (''i'', jget (c_info c) ''i''), (''id'', c_id c), (''owner'', c_signer c),
                       (''ts'', jget (c_info c) ''ts''), (''max_doc_id'', JNum 168), (''max_dir_id'', JNum 8),
                       (''max_doc_size'', JNum 256)];
          i1 = (if truthy (jget q ''branch'') then jset base ''branch'' (jget q ''branch'') else base)
      in if truthy (jget (c_info c) ''hashpath'') then jset i1 ''hashpath'' (jget (c_info c) ''hashpath'') else i1)"

definition dev_init :: dev where
  "dev_init c =
     rbind (lift_res c (jprop (c_info c) ''id'')) (\<lambda>i.
       if truthy i then fail (Err ''already initialized'') c
       else
         let c1 = put_dir (JStr ''_config'') (closed_dir 1)
                   (put_dir (JStr ''_'') (JObj [(''auth'', JObj [(''add,set,update,upsert,del'', JNum 0)]), (''triggers'', JObj []),
                                                (''index'', JNum 0), (''auth_index'', JNum 0)])
                     (put_config ''auth_0_0'' (JObj [(''rules'', init_auth)]) c))
         in rbind (lift_res c1 (rbind (jprop (c_query c) ''0'') (\<lambda>q. rbind (jprop q ''branch'') (\<lambda>_. Inr q)))) (\<lambda>q.
              let ver = jget q ''version'' in
              if truthy ver \<and> \<not> js_eq (c_version c) ver \<and> c_ignore_version c \<noteq> JBool True
              then fail (Err ''the wrong version: '') c1
              else let info = (if truthy ver then jset (init_info c q) ''version'' ver else init_info c q)
                   in Inr (put_config ''schema_0'' init_schema
                        (put_dir (JStr ''_accounts'') (closed_dir 2) (put_config ''info'' info c1)))))"

text \<open>The request's own copy of the information record is kept: \<open>init\<close> makes another one.\<close>

definition put_info :: "jv \<Rightarrow> ctx \<Rightarrow> ctx" where
  "put_info info c = put_config ''info'' info (c\<lparr>c_info := info\<rparr>)"

definition dev_mkdir :: dev where
  "dev_mkdir c =
     (if truthy (vget (c_kv c) (JStr ''_'') (c_dir c)) then fail (Err ''dir exists:'') c
      else rbind (lift_res c (jprop (c_info c) ''dirs'')) (\<lambda>dirid.
        Inr (put_info (jset (c_info c) ''dirs'' (js_plus1 dirid))
               (put_dir (c_dir c) (JObj [(''index'', dirid)]) c))))"

definition auth_key :: "jv \<Rightarrow> nat \<Rightarrow> string" where
  "auth_key dirinfo i = ''auth_'' @ to_str (jget dirinfo ''index'') @ ''_'' @ nat_to_string i"

text \<open>\<open>(dirinfo.auth_index ?? -1) + 1\<close>\<close>

definition auth_count :: "jv \<Rightarrow> nat" where
  "auth_count dirinfo = (case nullish (jget dirinfo ''auth_index'') (JNum (-1)) of JNum k \<Rightarrow> nat (k + 1) | _ \<Rightarrow> 0)"

definition set_rule :: "jv \<Rightarrow> (string \<times> jv) list \<times> nat \<times> ctx \<Rightarrow> jv \<Rightarrow> ((string \<times> jv) list \<times> nat \<times> ctx) sres" where
  "set_rule dirinfo = (\<lambda>(auth, i, c) v.
     case v of
       JArr xs \<Rightarrow>
         Inr (oput (to_str (jidx xs 0)) (JNum (int i)) auth, i + 1,
              put_config (auth_key dirinfo i) (JObj [(''rules'', v)]) c)
     | _ \<Rightarrow> fail (Err ''auth must be an array'') c)"

definition dev_set_auth :: dev where
  "dev_set_auth c =
     (let di = c_dirinfo c in
      rbind (lift_res c (jprop (c_data c) ''length'')) (\<lambda>_.
      rbind (lift_res c (jprop di ''auth_index'')) (\<lambda>_.
        case c_data c of
          JArr rules \<Rightarrow>
            (let c1 = foldl (\<lambda>c i. del_config (auth_key di i) c) c [length rules..<auth_count di]
             in rbind (rfoldl (set_rule di) ([], 0, c1) rules) (\<lambda>(auth, i, c2).
                  let di1 = (if i = 0 then jdel di ''auth_index'' else jset di ''auth_index'' (JNum (int i - 1)));
                      di2 = jset di1 ''auth'' (JObj auth)
                  in Inr (put_dir (c_dir c) di2 (c2\<lparr>c_dirinfo := di2\<rparr>))))
        | _ \<Rightarrow> fail (Err ''auth must be an array'') c)))"

definition dev_set_schema :: "ext \<Rightarrow> dev" where
  "dev_set_schema X c =
     (if (case x_validate X (c_data c) draft_07 of Inr b \<Rightarrow> b | Inl e \<Rightarrow> False)
      then rbind (lift_res c (jprop (c_dirinfo c) ''index'')) (\<lambda>ix. Inr (put_config (numbered ''schema_'' ix) (c_data c) c))
      else fail (Err ''invalid schema'') c)"

section \<open>Indexes and triggers of a directory\<close>

text \<open>Entries of an index are strings.\<close>

definition jv_sorts :: "jv list \<Rightarrow> sorts res" where
  "jv_sorts vs = rmap (\<lambda>v. rmap as_str (jelems v)) vs"

definition stored_indexes :: "ctx \<Rightarrow> jv res" where
  "stored_indexes c =
     rbind (jprop (c_dirinfo c) ''index'') (\<lambda>ix.
       Inr (nullish (config (numbered ''indexes_'' ix) c) (JObj [(''indexes'', JArr [])])))"

definition put_indexes :: "jv \<Rightarrow> jv list \<Rightarrow> ctx \<Rightarrow> ctx" where
  "put_indexes ixs vs c = put_config (numbered ''indexes_'' (jget (c_dirinfo c) ''index'')) (jset ixs ''indexes'' (JArr vs)) c"

definition dev_add_index :: "nat \<Rightarrow> dev" where
  "dev_add_index n c =
     (case c_data c of
        JArr data \<Rightarrow>
          (if length data < 2 then fail (Err ''index must be multi fields'') c
           else rbind (lift_res c (stored_indexes c)) (\<lambda>ixs.
                rbind (lift_res c (normalizeIndex data)) (\<lambda>ix.
                rbind (lift_res c (if truthy (jget ixs ''indexes'') then as_list (jget ixs ''indexes'') else Inr [])) (\<lambda>vs.
                  if list_ex (jequals (JArr ix)) vs then fail (Err ''index already exists:'') c
                  else if \<not> is_arr (jget ixs ''indexes'') then fail type_err c
                  else rbind (lift_res c (jv_sorts ix)) (\<lambda>sf.
                       rbind (kv_dir_name c) (\<lambda>d.
                       rbind (addIndex n d sf (c_kv c)) (\<lambda>w.
                         Inr (put_indexes ixs (vs @ [JArr ix]) (set_kv w (c\<lparr>c_data := JArr ix\<rparr>))))))))))
      | _ \<Rightarrow> fail (Err ''index must be Array'') c)"

definition dev_remove_index :: "nat \<Rightarrow> dev" where
  "dev_remove_index n c =
     rbind (lift_res c (stored_indexes c)) (\<lambda>ixs.
     rbind (lift_res c (rbind (as_list (c_data c)) normalizeIndex)) (\<lambda>ix.
     rbind (lift_res c (as_list (jget ixs ''indexes''))) (\<lambda>vs.
       if \<not> list_ex (jequals (JArr ix)) vs then fail (Err ''index doesn't exist'') c
       else rbind (lift_res c (jv_sorts ix)) (\<lambda>sf.
            rbind (kv_dir_name c) (\<lambda>d.
            rbind (removeIndex n d sf (c_kv c)) (\<lambda>w.
              Inr (put_indexes ixs (filter (\<lambda>v. \<not> jequals (JArr ix) v) vs) (set_kv w (c\<lparr>c_data := JArr ix\<rparr>)))))))))"

definition trigger_key :: "jv \<Rightarrow> jv \<Rightarrow> string" where
  "trigger_key dirinfo i = ''triggers_'' @ to_str (jget dirinfo ''index'') @ ''_'' @ to_str i"

definition events :: "string list" where
  "events = [''create'', ''update'', ''delete'']"

definition check_trigger :: "jv \<Rightarrow> unit res" where
  "check_trigger data =
     rbind (jprop data ''key'') (\<lambda>key.
       if \<not> truthy key then Inl (Err ''key doesn't exist'')
       else if \<not> truthy (jget data ''on'') then Inl (Err ''on doesn't exist'')
       else rbind (as_str (jget data ''on'')) (\<lambda>on'.
         if difference (split_on (CHR '','') on') events \<noteq> [] then Inl (Err ''the wrong on: '')
         else if truthy (jget data ''fields'') \<and> \<not> is_arr (jget data ''fields'') then Inl (Err ''fields must be Array'')
         else if truthy (jget data ''match'') \<and> jget data ''match'' \<notin> {JStr ''all'', JStr ''any'', JStr ''none''}
           then Inl (Err ''the wrong type: '')
         else Inr ()))"

text \<open>\<open>triggers_index\<close> is set to \<open>-1\<close> and counted up to \<open>0\<close>, whatever it was.\<close>

definition dev_add_trigger :: dev where
  "dev_add_trigger c =
     rbind (lift_res c (check_trigger (c_data c))) (\<lambda>_.
     rbind (lift_res c (jprop (c_dirinfo c) ''triggers'')) (\<lambda>ts.
       let data = c_data c; di = c_dirinfo c; key = to_str (jget data ''key'');
           di1 = jset di ''triggers'' (jset (nullish ts (JObj [])) key (JNum 0));
           di2 = jset di1 ''triggers_index'' (JNum 0);
           t = JObj [(''on'', jget data ''on''), (''fn'', jget data ''fn''), (''match'', nullish (jget data ''match'') (JStr ''all'')),
                     (''fields'', nullish (jget data ''fields'') JNull)]
       in Inr (put_config (trigger_key di2 (JNum 0)) t (put_dir (c_dir c) di2 (c\<lparr>c_dirinfo := di2\<rparr>)))))"

definition dev_remove_trigger :: dev where
  "dev_remove_trigger c =
     rbind (lift_res c (jprop (c_data c) ''key'')) (\<lambda>key.
       if \<not> truthy key then fail (Err ''key doesn't exist'') c
       else rbind (lift_res c (jprop (c_dirinfo c) ''triggers'')) (\<lambda>ts.
         let ts1 = nullish ts (JObj []); k = to_str key; di = c_dirinfo c in
         if is_nil (jget ts1 k) then fail (Err ''trigger doesn't exist'') c
         else let di1 = jset di ''triggers'' (jdel ts1 k)
              in Inr (put_dir (c_dir c) di1 (del_config (trigger_key di (jget ts1 k)) (c\<lparr>c_dirinfo := di1\<rparr>)))))"

section \<open>Versions\<close>

definition dev_upgrade :: dev where
  "dev_upgrade c =
     (if is_nil (c_info c) then fail type_err c else Inr (put_info (jset (c_info c) ''upgrading'' (c_data c)) c))"

definition dev_revert :: dev where
  "dev_revert c =
     rbind (lift_res c (jprop (c_info c) ''upgrading'')) (\<lambda>u.
       if \<not> truthy u then fail (Err ''not in the process of upgrading'') c
       else Inr (put_info (jdel (c_info c) ''upgrading'') c))"

definition dev_migrate :: dev where
  "dev_migrate c =
     rbind (lift_res c (jprop (c_info c) ''upgrading'')) (\<lambda>u.
       if \<not> truthy u then fail (Err ''not in the process of upgrading'') c
       else if \<not> js_eq (c_version c) u then fail (Err ''the wrong version running'') c
       else if jget (c_info c) ''version'' \<noteq> JStr ''0.1.0'' then fail (Err ''migration not possible from '') c
       else Inr (put_info (jdel (jset (c_info c) ''version'' (c_version c)) ''upgrading'') c))"

section \<open>Batches\<close>

definition batch_ctx :: "ctx \<Rightarrow> jv \<Rightarrow> ctx" where
  "batch_ctx c q =
     blank\<lparr>c_nonce := c_nonce c, c_ts64 := c_ts64 c, c_signer := c_signer c, c_signer23 := c_signer23 c, c_id := c_id c,
           c_query := q, c_msg := JNull, c_kv := c_kv c, c_no_commit := JBool True, c_info := c_info c\<rparr>"

definition batch_write :: "ext \<Rightarrow> nat \<Rightarrow> dev" where
  "batch_write X n c =
     (if op_in [''set'', ''add'', ''upsert'', ''update''] c then dev_put X n c
      else if op_in [''del''] c then dev_del X n c
      else Inr c)"

definition batch_item :: "ext \<Rightarrow> nat \<Rightarrow> ctx \<Rightarrow> jv \<Rightarrow> ctx sres" where
  "batch_item X n c q =
     rbind (rbind (parseOp (batch_ctx c q)) (\<lambda>b1. rbind (dev_parse X n b1) (\<lambda>b2. rbind (dev_auth X b2) (batch_write X n))))
       (\<lambda>b. Inr (c\<lparr>c_kv := c_kv b\<rparr>))"

definition dev_batch :: "ext \<Rightarrow> nat \<Rightarrow> dev" where
  "dev_batch X n c = rbind (lift_res c (as_list (c_query c))) (\<lambda>qs. rfoldl (batch_item X n) c qs)"

section \<open>Branches and the result\<close>

definition br :: "(string \<times> string) list" where
  "br = [(''set'', ''put''), (''add'', ''put''), (''upsert'', ''put''), (''update'', ''put''), (''del'', ''del''),
         (''addTrigger'', ''add_trigger''), (''removeTrigger'', ''remove_trigger''), (''setSchema'', ''set_schema''),
         (''setAuth'', ''set_auth''), (''addIndex'', ''add_index''), (''removeIndex'', ''remove_index''),
         (''init'', ''init''), (''upgrade'', ''upgrade''), (''revert'', ''revert''), (''migrate'', ''migrate''),
         (''batch'', ''batch''), (''mkdir'', ''mkdir'')]"

definition dev_write :: dev where
  "dev_write c =
     (case c_opcode c of
        JStr op \<Rightarrow> Inr (case map_of br op of None \<Rightarrow> c | Some b \<Rightarrow> c\<lparr>c_branch := JStr b\<rparr>)
      | _ \<Rightarrow> Inr c)"

definition dev_read :: dev where
  "dev_read c = Inr (c\<lparr>c_branch := JStr ''get''\<rparr>)"

text \<open>\<open>commit\<close> reads the field \<open>hashpath\<close> of the state, which no device sets.\<close>

definition dev_result :: dev where
  "dev_result c =
     (let (w, i, cl) = kv_commit (c_msg c) (JObj []) (c_info c) (c_kv c);
          c1 = (if c_no_commit c \<noteq> JBool True then c\<lparr>c_kv := w, c_updates := JObj cl\<rparr> else c)
      in rbind (lift_res c1 (jprop (c_info c) ''i'')) (\<lambda>j.
           Inr (c1\<lparr>c_result := nullish (c_result c) JNull, c_i := j, c_ts := jget (c_info c) ''ts'',
                   c_branch := c_env_branch c\<rparr>)))"

end
