(* ===== verification/Pipeline.thy ===== *)
theory Pipeline
  imports Dev_Ops Monade
begin

text \<open>
  The document database put together: the routes of \<open>core/src/db.js\<close> and the runner of
  \<open>core/src/build.js\<close>, which makes the context of a request, runs the flow of its route and gives the
  transaction up when a device throws. \<open>X\<close> holds the outside packages, \<open>n\<close> bounds the recursions.
\<close>

section \<open>build.js\<close>

text \<open>\<open>opt\<close>: the options of the database and of the call. An option \<open>info\<close>, \<open>kv_dir\<close> or \<open>module_version\<close> would be
  overwritten by the devices before they read it, or is not given.\<close>

record opts =
  o_branch :: jv
  o_ignore_version :: jv
  o_no_commit :: jv
  o_id :: jv

definition init_ctx :: "opts \<Rightarrow> jv \<Rightarrow> wkv \<Rightarrow> ctx" where
  "init_ctx opt msg w =
     blank\<lparr>c_msg := msg, c_kv := w, c_ignore_version := o_ignore_version opt, c_no_commit := o_no_commit opt,
           c_env_branch := o_branch opt, c_env_id := o_id opt\<rparr>"

text \<open>\<open>state.branch ?? env.branch ?? "main"\<close>\<close>

definition pred :: "ctx \<Rightarrow> string" where
  "pred c = to_str (nullish (nullish (c_branch c) (c_env_branch c)) (JStr ''main''))"

type_synonym dev_stage = "(js_error \<times> wkv, ctx) stage"

text \<open>A call of a method: the store afterwards, and the final state or the error.\<close>

definition run_method :: "dev_stage list \<Rightarrow> opts \<Rightarrow> jv \<Rightarrow> wkv \<Rightarrow> wkv \<times> (js_error + ctx)" where
  "run_method devs opt msg w =
     (case flow (SSeq devs) (Some pred) (init_ctx opt msg w) of
        Inl (e, w') \<Rightarrow> (kv_reset w', Inl e)
      | Inr c \<Rightarrow> (c_kv c, Inr c))"

section \<open>The routes of db.js\<close>

definition branches :: "ext \<Rightarrow> nat \<Rightarrow> dev_stage" where
  "branches X n = SBranch None
     [(''init'', SFn dev_init), (''put'', SKa [dev_schema X, putData n, dev_trigger X n]), (''del'', SKa [delData n, dev_trigger X n]), (''batch'', SFn (dev_batch X n)),
      (''upgrade'', SFn dev_upgrade), (''revert'', SFn dev_revert), (''migrate'', SFn dev_migrate),
      (''add_index'', SFn (dev_add_index n)), (''remove_index'', SFn (dev_remove_index n)),
      (''set_auth'', SFn dev_set_auth), (''set_schema'', SFn (dev_set_schema X)),
      (''add_trigger'', SFn dev_add_trigger), (''remove_trigger'', SFn dev_remove_trigger), (''mkdir'', SFn dev_mkdir)]"

definition write_route :: "ext \<Rightarrow> nat \<Rightarrow> dev_stage list" where
  "write_route X n =
     [SFn (dev_normalize X), SFn dev_verify, SFn (dev_parse X n), SFn (dev_auth X), SFn dev_write, branches X n, SFn dev_result]"

definition noauth_write_route :: "ext \<Rightarrow> nat \<Rightarrow> dev_stage list" where
  "noauth_write_route X n =
     [SFn (dev_normalize_noauth X), SFn dev_verify, SFn (dev_parse X n), SFn (dev_auth X), SFn dev_write, branches X n,
      SFn dev_result]"

end
