(* ===== verification/Fpjson_Props.thy ===== *)
theory Fpjson_Props
  imports Fpjson
begin

text \<open>
  What a run of rules can do to the store. The locale states it once for any relation between stores that
  every function of the table respects; the access control and the triggers interpret it on their tables.
\<close>

section \<open>Runs that respect a relation\<close>

definition fs_ok :: "(wkv \<Rightarrow> wkv \<Rightarrow> bool) \<Rightarrow> (string option \<Rightarrow> bool) \<Rightarrow> fstate \<Rightarrow> ('a \<Rightarrow> fstate) \<Rightarrow> 'a fres \<Rightarrow> bool" where
  "fs_ok S K fs p r \<longleftrightarrow>
     (case r of Inl (e, w) \<Rightarrow> S (snd fs) w | Inr x \<Rightarrow> S (snd fs) (snd (p x)) \<and> K (fv_key (fst (p x))))"

lemma fs_ok_Inr [simp]: "fs_ok S K fs p (Inr x) \<longleftrightarrow> S (snd fs) (snd (p x)) \<and> K (fv_key (fst (p x)))"
  by (simp add: fs_ok_def)

lemma fs_ok_Inl [simp]: "fs_ok S K fs p (Inl (e, w)) \<longleftrightarrow> S (snd fs) w"
  by (simp add: fs_ok_def)

text \<open>\<open>S\<close> relates the store before to the one after; \<open>K\<close> says which keys \<open>after\<close> may be stored under.\<close>

locale store_rel =
  fixes S :: "wkv \<Rightarrow> wkv \<Rightarrow> bool"
    and K :: "string option \<Rightarrow> bool"
  assumes S_refl: "S w w"
    and S_trans: "S w w1 \<Longrightarrow> S w1 w2 \<Longrightarrow> S w w2"
    and S_put: "K (Some k) \<Longrightarrow> S w (kv_put k v w)"
begin

lemma bind_ok:
  assumes "fs_ok S K fs p m" and "\<And>x. m = Inr x \<Longrightarrow> K (fv_key (fst (p x))) \<Longrightarrow> fs_ok S K (p x) q (f x)"
  shows "fs_ok S K fs q (rbind m f)"
proof (cases m)
  case (Inl a)
  then show ?thesis using assms(1) by (cases a) simp
next
  case (Inr x)
  have "S (snd fs) (snd (p x))" using assms(1) Inr by simp
  moreover have "fs_ok S K (p x) q (f x)" using assms Inr by simp
  ultimately show ?thesis using Inr S_trans by (auto simp: fs_ok_def split: sum.splits prod.splits)
qed

lemma bind_store_ok: "(\<And>x. fs_ok S K fs q (f x)) \<Longrightarrow> fs_ok S K fs q (rbind (at_store (snd fs) m) f)"
  by (cases m) (auto simp: S_refl)

lemma if_ok:
  "(b \<Longrightarrow> fs_ok S K fs q x) \<Longrightarrow> (\<not> b \<Longrightarrow> fs_ok S K fs q y) \<Longrightarrow> fs_ok S K fs q (if b then x else y)"
  by simp

lemma pair_ok: "(\<And>a b. x = (a, b) \<Longrightarrow> fs_ok S K fs q (f a b)) \<Longrightarrow> fs_ok S K fs q (case x of (a, b) \<Rightarrow> f a b)"
  by (cases x) simp

lemma setElm_ok: "K (fv_key (fst fs)) \<Longrightarrow> fs_ok S K fs (\<lambda>x. x) (setElm k d fs)"
  unfolding setElm_def Let_def
  by (cases fs) (auto simp: S_refl S_put fs_ok_def at_store_def rbind_def split: sum.splits option.splits)

lemma fp_call_ok: "K (fv_key (fst fs)) \<Longrightarrow> fs_ok S K fs fst (fp_call ev e fs)"
  unfolding fp_call_def
  by (cases fs) (auto simp: S_refl fs_ok_def at_store_def rbind_def split: sum.splits)

lemma fp_exec_ok: "K (fv_key (fst fs)) \<Longrightarrow> fs_ok S K fs fst (fp_exec ev e fs)"
  unfolding fp_exec_def by (intro bind_store_ok fp_call_ok)

section \<open>The functions of the access control\<close>

lemma decide_ok: "K (fv_key (fst fs)) \<Longrightarrow> fs_ok S K fs fst (decide b c fs)"
  by (cases fs) (auto simp: decide_def allow_set_def S_refl split: option.split)

lemma when_expr_ok: "K (fv_key (fst fs)) \<Longrightarrow> fs_ok S K fs fst (when_expr ev b g v fs)"
  unfolding when_expr_def by (rule bind_ok [OF fp_call_ok]) (auto intro!: decide_ok)

lemma rfoldl_ok:
  "K (fv_key (fst fs)) \<Longrightarrow> (\<And>fs x. K (fv_key (fst fs)) \<Longrightarrow> fs_ok S K fs (\<lambda>x. x) (f fs x)) \<Longrightarrow>
   fs_ok S K fs (\<lambda>x. x) (rfoldl f fs xs)"
  by (induction xs arbitrary: fs) (auto simp: S_refl intro: bind_ok [where p = "\<lambda>x. x"])

lemma ac_fields_ok:
  "K (fv_key (fst fs)) \<Longrightarrow> fs_ok S K fs fst (ac_fields v fs)"
  "K (fv_key (fst fs)) \<Longrightarrow> fs_ok S K fs fst (ac_required_fields v fs)"
  "K (fv_key (fst fs)) \<Longrightarrow> fs_ok S K fs fst (ac_disallowed_fields v fs)"
  unfolding ac_fields_def ac_required_fields_def ac_disallowed_fields_def Let_def
  by (intro bind_store_ok decide_ok; assumption)+

lemma ac_mod_ok:
  assumes "K (fv_key (fst fs))"
  shows "fs_ok S K fs fst (ac_mod ev v fs)"
proof -
  have "fs_ok S K gs (\<lambda>x. x) (rbind (fp_call ev e gs) (\<lambda>(fs1, x). setElm k x fs1))" if "K (fv_key (fst gs))" for gs e k
    by (rule bind_ok [OF fp_call_ok [OF that]]) (auto intro!: setElm_ok)
  with assms show ?thesis unfolding ac_mod_def
    by (intro bind_ok [where p = "\<lambda>x. x"] rfoldl_ok) (auto simp: S_refl)
qed

lemma ac_split_ok:
  assumes "K (fv_key (fst fs))"
  shows "fs_ok S K fs fst (ac_split ev v fs)"
proof -
  have st: "fs_ok S K gs (\<lambda>x. x) (case m of None \<Rightarrow> Inr gs | Some k \<Rightarrow> setElm k e gs)"
    if "K (fv_key (fst gs))" for gs m e
    using that by (cases m) (auto simp: S_refl intro: setElm_ok)
  have call: "fs_ok S K fs fst (fp_call ev e fs)" for e by (rule fp_call_ok [OF assms])
  show ?thesis unfolding ac_split_def Let_def
    by (intro bind_store_ok bind_ok [OF call] bind_ok [where p = "\<lambda>x. x"] pair_ok rfoldl_ok)
      (auto simp: S_refl intro!: bind_store_ok bind_ok [where p = "\<lambda>x. x"] rfoldl_ok st)
qed

lemma ac_funcs_ok:
  "f \<in> snd ` set (ac_funcs ev) \<Longrightarrow> K (fv_key (fst fs)) \<Longrightarrow> fs_ok S K fs fst (f v fs)"
  by (auto simp: ac_funcs_def intro: when_expr_ok decide_ok ac_fields_ok ac_mod_ok ac_split_ok)

end

section \<open>Runs over a table\<close>

locale rule_table = store_rel S K
  for S :: "wkv \<Rightarrow> wkv \<Rightarrow> bool"
    and K :: "string option \<Rightarrow> bool" +
  fixes fns :: "(string \<times> fp_fun) list"
  assumes fns_ok: "f \<in> snd ` set fns \<Longrightarrow> K (fv_key (fst fs)) \<Longrightarrow> fs_ok S K fs fst (f v fs)"
begin

lemma call_fn_ok: "K (fv_key (fst fs)) \<Longrightarrow> fs_ok S K fs fst (call_fn fns h arg fs)"
  unfolding call_fn_def
  by (cases "map_of fns (call_name h)")
    (auto simp: S_refl intro!: bind_store_ok fns_ok dest: map_of_SomeD intro: rev_image_eqI)

lemma cmd_block_ok:
  assumes "\<And>v fs. v \<in> set vs \<Longrightarrow> K (fv_key (fst fs)) \<Longrightarrow> fs_ok S K fs fst (cmd ev fns v False fs)"
    and "K (fv_key (fst fs))"
  shows "fs_ok S K fs (\<lambda>x. x) (cmd_block ev fns vs fs)"
  using assms
proof (induction vs arbitrary: fs)
  case (Cons v vs)
  note head = Cons.prems(1) [OF list.set_intros(1) Cons.prems(2)]
  show ?case unfolding cmd_block.simps
    by (rule bind_ok [OF head]) (auto intro!: Cons.IH Cons.prems(1))
qed (simp add: S_refl)

lemma cmd_ok: "K (fv_key (fst fs)) \<Longrightarrow> fs_ok S K fs fst (cmd ev fns v inIf fs)"
proof (induction "size v" arbitrary: v inIf fs rule: less_induct)
  case less
  have ex: "fs_ok S K fs fst (rbind (fp_exec ev e fs) (\<lambda>(fs1, x). Inr (fs1, x, False)))" for e
    using less.prems by (auto intro!: bind_ok [OF fp_exec_ok] simp: S_refl)
  show ?case
  proof (cases "\<exists>h t. v = JArr (h # t)")
    case False
    then show ?thesis using ex by (subst cmd.simps) (auto split: jv.splits list.splits)
  next
    case True
    then obtain h t where v: "v = JArr (h # t)" by blast
    have arg: "fs_ok S K gs fst (cmd ev fns (jidx t i) b gs)" if "K (fv_key (fst gs))" for i b gs
      using that less.hyps [of "jidx t i"] size_jidx_le [of t i] v by simp
    have rest: "fs_ok S K gs fst (cmd ev fns (JArr (drop 2 t)) b gs)" if "K (fv_key (fst gs))" for b gs
      using that less.hyps [of "JArr (drop 2 t)"] size_drop_le [of size 2 t] v by simp
    have blk: "fs_ok S K fs (\<lambda>x. x) (cmd_block ev fns t fs)"
    proof (rule cmd_block_ok)
      fix u and gs :: fstate
      assume u: "u \<in> set t" "K (fv_key (fst gs))"
      then have "size u < size v" using v size_list_estimation' [of u t "size u" size] by simp
      with u less.hyps show "fs_ok S K gs fst (cmd ev fns u False gs)" by blast
    qed (rule less.prems)
    note step = if_ok pair_ok arg rest call_fn_ok fp_exec_ok bind_store_ok setElm_ok blk
      bind_ok [where p = fst] bind_ok [where p = "\<lambda>x. x"]
    show ?thesis
      using less.prems
      by (subst cmd.simps, unfold v jv.case list.case) (rule step | assumption | simp add: S_refl v)+
  qed
qed

lemma run_cmds_ok: "K (fv_key (fst fs)) \<Longrightarrow> fs_ok S K fs (\<lambda>x. x) (run_cmds ev fns vs fs)"
  by (induction vs arbitrary: fs) (auto simp: S_refl intro!: bind_ok [where p = fst] cmd_ok)

lemma fpj_ok: "K (fv_key (fst fs)) \<Longrightarrow> fs_ok S K fs (\<lambda>x. x) (fpj ev fns arr fs)"
  unfolding fpj_def by (intro bind_store_ok run_cmds_ok)

end

end
