(* ===== verification/Dev_Frame.thy ===== *)
theory Dev_Frame
  imports Pipeline Fpjson_Props Indexer_Props
begin

text \<open>
  What every device keeps: it writes to the running transaction only, it leaves the option \<open>no_commit\<close> alone,
  and it never loses the information record of the database once that is loaded. The rules of the access
  control and the triggers are interpretations of \<open>rule_table\<close>.
\<close>

section \<open>The contract of a device\<close>

definition same_txn :: "ctx \<Rightarrow> ctx \<Rightarrow> bool" where
  "same_txn c c' \<longleftrightarrow> kv_reset (c_kv c') = kv_reset (c_kv c) \<and> c_no_commit c' = c_no_commit c \<and>
     (is_nil (c_info c') \<longrightarrow> is_nil (c_info c))"

text \<open>\<open>p\<close> finds the context in the result of a part of a device.\<close>

definition keeps :: "('a \<Rightarrow> ctx) \<Rightarrow> ctx \<Rightarrow> 'a sres \<Rightarrow> bool" where
  "keeps p c r \<longleftrightarrow> (case r of Inl (e, w) \<Rightarrow> kv_reset w = kv_reset (c_kv c) | Inr x \<Rightarrow> same_txn c (p x))"

named_theorems dev_intros

lemma reset_kv_put [simp]: "kv_reset (kv_put k v w) = kv_reset w"
  by (rule wkv.reset_put)

lemma reset_vput [simp]: "kv_reset (vput d k v w) = kv_reset w" "kv_reset (vdel d k w) = kv_reset w"
  by (simp_all add: vput_def vdel_def dput_def ddel_def kv_del_def)

lemma same_txn_refl [simp]: "same_txn c c"
  by (simp add: same_txn_def)

lemma same_txn_trans: "same_txn c c1 \<Longrightarrow> same_txn c1 c2 \<Longrightarrow> same_txn c c2"
  by (auto simp: same_txn_def)

lemma lift_res_Inr [simp]: "lift_res c m = Inr x \<longleftrightarrow> m = Inr x" "lift_res c (Inr x) = Inr x"
  by (cases m; simp add: lift_res_def)+

lemma keeps_Inr [simp]: "keeps p c (Inr x) \<longleftrightarrow> same_txn c (p x)"
  by (simp add: keeps_def)

lemma keeps_Inl [simp]: "keeps p c (Inl (e, w)) \<longleftrightarrow> kv_reset w = kv_reset (c_kv c)"
  by (simp add: keeps_def)

lemma keeps_fail [dev_intros]: "keeps p c (fail e c)"
  by (simp add: fail_def)

lemma keeps_bind:
  "keeps p c m \<Longrightarrow> (\<And>x. m = Inr x \<Longrightarrow> keeps q (p x) (f x)) \<Longrightarrow> keeps q c (rbind m f)"
  by (cases m) (auto simp: keeps_def same_txn_def split: sum.splits)

lemma keeps_bind_dev [dev_intros]:
  "keeps (\<lambda>c. c) c m \<Longrightarrow> (\<And>c'. m = Inr c' \<Longrightarrow> keeps q c' (f c')) \<Longrightarrow> keeps q c (rbind m f)"
  by (rule keeps_bind)

lemma keeps_bind_pure [dev_intros]:
  "(\<And>x. m = Inr x \<Longrightarrow> keeps q c (f x)) \<Longrightarrow> keeps q c (rbind (lift_res c m) f)"
  "(\<And>d. keeps q c (g d)) \<Longrightarrow> keeps q c (rbind (kv_dir_name c) g)"
  by (cases m; simp add: lift_res_def at_store_def rbind_def keeps_def)
    (auto simp: kv_dir_name_def fail_def keeps_def rbind_def split: option.splits)

lemma keeps_lift [dev_intros]: "keeps (\<lambda>_. c) c (lift_res c m)"
  by (cases m) (simp_all add: lift_res_def at_store_def)

lemma keeps_bind_store [dev_intros]:
  "ok_res P (\<lambda>w. w) (c_kv c) m \<Longrightarrow> (\<And>w. keeps q (set_kv w c) (f w)) \<Longrightarrow> keeps q c (rbind m f)"
  by (rule keeps_bind [where p = "\<lambda>w. set_kv w c"])
    (auto simp: keeps_def ok_res_def same_txn_def set_kv_def writes_to_reset split: sum.splits)

lemma keeps_if [dev_intros]: "(b \<Longrightarrow> keeps p c x) \<Longrightarrow> (\<not> b \<Longrightarrow> keeps p c y) \<Longrightarrow> keeps p c (if b then x else y)"
  by simp

lemma keeps_pair [dev_intros]: "(\<And>a b. x = (a, b) \<Longrightarrow> keeps p c (f a b)) \<Longrightarrow> keeps p c (case x of (a, b) \<Rightarrow> f a b)"
  by (cases x) simp

lemma keeps_Inr_intro [dev_intros]: "same_txn c (p x) \<Longrightarrow> keeps p c (Inr x)"
  by simp

lemma keeps_rfoldl: "(\<And>s x. keeps p (p s) (f s x)) \<Longrightarrow> keeps p (p s) (rfoldl f s xs)"
  by (induction xs arbitrary: s) (auto intro: keeps_bind)

lemma keeps_jv_case [dev_intros]:
  "keeps p c u \<Longrightarrow> keeps p c l \<Longrightarrow> (\<And>b. keeps p c (fb b)) \<Longrightarrow> (\<And>m. v = JNum m \<Longrightarrow> keeps p c (fn m)) \<Longrightarrow>
   (\<And>s. v = JStr s \<Longrightarrow> keeps p c (fs s)) \<Longrightarrow> (\<And>xs. v = JArr xs \<Longrightarrow> keeps p c (fa xs)) \<Longrightarrow> (\<And>q. keeps p c (fo q)) \<Longrightarrow>
   keeps p c (case v of JUndef \<Rightarrow> u | JNull \<Rightarrow> l | JBool b \<Rightarrow> fb b | JNum m \<Rightarrow> fn m | JStr s \<Rightarrow> fs s | JArr xs \<Rightarrow> fa xs | JObj q \<Rightarrow> fo q)"
  by (cases v) auto

section \<open>Reads after writes\<close>

lemma vget_vput_same: "\<not> is_nil v \<Longrightarrow> vget (vput d k v w) d k = v"
  by (simp add: vget_def vput_def dget_def dput_def wkv.get_put_same)

lemma config_put_config: "\<not> is_nil v \<Longrightarrow> config k' (put_config k v c) = (if k = k' then v else config k' c)"
  by (auto simp: config_def put_config_def set_kv_def vget_def vput_def dget_def dput_def wkv.get_put_same
      wkv.get_put_other dkey_eq_iff plain_def)

section \<open>Requests and documents\<close>

lemma need_dir_keeps [dev_intros]: "keeps (\<lambda>c. c) c (need_dir c)"
  by (simp add: need_dir_def fail_def)

lemma keeps_need_dir: "keeps q c (f c) \<Longrightarrow> keeps q c (rbind (need_dir c) f)"
  by (simp add: need_dir_def fail_def rbind_def)

lemma parseOp_keeps [dev_intros]: "keeps (\<lambda>c. c) c (parseOp c)"
  unfolding parseOp_def Let_def by (intro dev_intros) (simp add: same_txn_def)

lemma merge_keeps [dev_intros]: "keeps (\<lambda>c. c) c (merge X old c)"
  unfolding merge_def Let_def by (intro dev_intros) (simp add: same_txn_def)

lemma genDocID_keeps [dev_intros]: "keeps (\<lambda>c. c) c (genDocID n c)"
  unfolding genDocID_def Let_def by (intro dev_intros) (simp_all add: same_txn_def)

lemma putData_keeps [dev_intros]: "keeps (\<lambda>c. c) c (putData n c)"
  unfolding putData_def by (rule keeps_need_dir) (intro dev_intros, rule own.put_doc_ok, simp)

lemma delData_keeps [dev_intros]: "keeps (\<lambda>c. c) c (delData n c)"
  unfolding delData_def by (rule keeps_need_dir) (intro dev_intros, rule own.del_doc_ok, simp)

lemma setTS64_keeps [dev_intros]: "keeps (\<lambda>c. c) c (setTS64 c)"
  unfolding setTS64_def Let_def by (intro dev_intros) (simp add: same_txn_def)

lemma dev_schema_keeps [dev_intros]: "keeps (\<lambda>c. c) c (dev_schema X c)"
  unfolding dev_schema_def Let_def by (intro dev_intros) (simp_all add: fail_def)

section \<open>The devices in front\<close>

lemma toLower_keeps [dev_intros]: "keeps (\<lambda>c. c) c (toLower c)"
  unfolding toLower_def Let_def by (intro dev_intros) (simp_all add: same_txn_def)

lemma pickInput_keeps [dev_intros]: "keeps (\<lambda>c. c) c (pickInput X c)"
  unfolding pickInput_def Let_def by (intro dev_intros) (simp_all add: same_txn_def)

lemma setEnv_parts:
  "same_txn c (load_info c)" "\<not> is_nil (c_info (load_info c))"
  by (simp_all add: same_txn_def load_info_def info_start_def nullish_def)

lemma bump_info_nil: "is_nil (c_info (bump_info X c)) \<longleftrightarrow> is_nil (c_info c)"
  by (cases "c_info c") (simp_all add: bump_info_def Let_def)

lemma bump_info_keeps [dev_intros]: "same_txn c (bump_info X c)"
  using bump_info_nil [of X c] by (simp add: same_txn_def bump_info_def Let_def)

lemma setHashpath_keeps [dev_intros]: "keeps (\<lambda>c. c) c (setHashpath X c)"
proof -
  have nil: "is_nil (jset v k x) \<longleftrightarrow> is_nil v" for v k x by (cases v) simp_all
  show ?thesis unfolding setHashpath_def by (intro dev_intros) (simp add: same_txn_def nil)
qed

lemma keeps_after: "same_txn c c1 \<Longrightarrow> keeps p c1 r \<Longrightarrow> keeps p c r"
  by (auto simp: keeps_def same_txn_def split: sum.splits)

lemma setEnv_keeps [dev_intros]: "keeps (\<lambda>c. c) c (setEnv X c)"
  unfolding setEnv_def
  by (intro dev_intros) (simp, rule keeps_after [OF setEnv_parts(1)], intro dev_intros)

lemma setMeta_keeps [dev_intros]: "keeps (\<lambda>c. c) c (setMeta X c)"
  unfolding setMeta_def by (intro dev_intros) (simp add: same_txn_def)

lemma setState_keeps [dev_intros]: "keeps (\<lambda>c. c) c (setState X c)"
  unfolding setState_def by (intro dev_intros)

lemma dev_normalize_keeps [dev_intros]: "keeps (\<lambda>c. c) c (dev_normalize X c)"
  unfolding dev_normalize_def normalize_httpsig_def by (intro dev_intros)

lemma dev_normalize_noauth_keeps [dev_intros]: "keeps (\<lambda>c. c) c (dev_normalize_noauth X c)"
proof -
  have "keeps (\<lambda>c. c) c (setEnv_noauth X c)"
    unfolding setEnv_noauth_def
    by (intro dev_intros) (simp, rule same_txn_trans [OF setEnv_parts(1)], intro dev_intros)
  then show ?thesis unfolding dev_normalize_noauth_def by (intro dev_intros)
qed

lemma dev_version_keeps [dev_intros]: "keeps (\<lambda>c. c) c (dev_version c)"
  unfolding dev_version_def Let_def by (intro dev_intros) simp_all

lemma dev_version_same: "dev_version c = Inr c' \<Longrightarrow> c' = c"
  by (auto simp: dev_version_def rbind_Inr_iff fail_def Let_def split: if_splits)

lemma dev_verify_keeps [dev_intros]: "keeps (\<lambda>c. c) c (dev_verify c)"
  unfolding dev_verify_def Let_def
  by (intro dev_intros) (auto dest: dev_version_same simp: same_txn_def fail_def)

text \<open>A request is admitted only with the information record in place.\<close>

lemma dev_verify_info: "dev_verify c = Inr c' \<Longrightarrow> \<not> is_nil (c_info c')"
  by (auto simp: dev_verify_def rbind_Inr_iff fail_def Let_def lift_res_def at_store_def jprop_def split: if_splits sum.splits)

section \<open>Rules and triggers\<close>

text \<open>The functions every table shares write nothing.\<close>

lemma pure_fn_ok: "K (fv_key (fst fs)) \<Longrightarrow> S (snd fs) (snd fs) \<Longrightarrow> fs_ok S K fs fst (pure_fn f v fs)"
  by (cases "f v") (simp_all add: pure_fn_def fs_ok_def)

lemma rule_get_ok: "K (fv_key (fst fs)) \<Longrightarrow> S (snd fs) (snd fs) \<Longrightarrow> fs_ok S K fs fst (rule_get info_of v fs)"
  by (auto simp: rule_get_def Let_def fs_ok_def at_store_def rbind_def split: sum.splits)

lemma id_fns_ok:
  "f \<in> snd ` set (id_fns X) \<Longrightarrow> K (fv_key (fst fs)) \<Longrightarrow> S (snd fs) (snd fs) \<Longrightarrow> fs_ok S K fs fst (f v fs)"
  by (auto simp: id_fns_def pure_fn_ok)


text \<open>The rules of a directory: without the writers the store stays as it is.\<close>

interpretation pure_rules: rule_table "(=)" "\<lambda>k. k = None" "auth_fns X False"
  for X :: ext
proof (unfold_locales, goal_cases)
  case (4 f fs v)
  have "store_rel (=) (\<lambda>k. k = None)" by unfold_locales simp_all
  with 4 show ?case
    by (auto simp: auth_fns_def intro: rule_get_ok id_fns_ok store_rel.ac_funcs_ok)
qed simp_all

text \<open>With them only keys of private directories are written: the name starts with \<open>_\<close>, or it is an object,
  whose name is the text of every object.\<close>

definition priv_key :: "string \<Rightarrow> bool" where
  "priv_key k \<longleftrightarrow> starts_with ''_'' k \<or> starts_with ''[object Object]'' k"

lemma private_priv_key:
  assumes "private_dir dir = Inr True"
  shows "priv_key (dkey (to_str dir) doc)"
proof -
  have h: "jget dir ''0'' = JStr ''_''" using assms by (auto simp: private_dir_def rbind_Inr_iff jprop_def split: if_splits)
  have "starts_with ''_'' (to_str dir) \<or> starts_with ''[object Object]'' (to_str dir)"
  proof (cases dir)
    case (JStr s)
    with h show ?thesis by (cases s) (auto simp: starts_with_def is_index_key_def digits_val_def digit_val_def is_digit_def split: if_splits)
  next
    case (JArr xs)
    with h obtain ys where "xs = JStr ''_'' # ys"
      by (cases xs) (auto simp: is_index_key_def digits_val_def digit_val_def is_digit_def split: if_splits)
    with JArr show ?thesis by (cases ys) (auto simp: starts_with_def)
  qed (use h in \<open>auto simp: starts_with_def\<close>)
  then show ?thesis by (auto simp: priv_key_def dkey_def starts_with_iff)
qed

text \<open>A writer of the table writes under the directory it has checked.\<close>

lemma priv_write_ok:
  assumes "fv_key (fst fs) = None"
    and "\<And>xs w w'. write xs w = Some w' \<Longrightarrow> \<exists>doc v. w' = kv_put (dkey (to_str (fst (dir_of xs))) doc) v w"
  shows "fs_ok (writes_to priv_key) (\<lambda>k. k = None) fs fst (priv_write dir_of write v fs)"
  using assms unfolding priv_write_def
  by (cases fs) (auto simp: fs_ok_def at_store_def rbind_def split: sum.splits option.splits
      intro!: writes_to_put private_priv_key dest!: assms(2))

lemma write_fns_ok:
  assumes "f \<in> snd ` set write_fns" and "fv_key (fst fs) = None"
  shows "fs_ok (writes_to priv_key) (\<lambda>k. k = None) fs fst (f v fs)"
  using assms(1) unfolding write_fns_def
  by (auto simp: rule_set_def rule_update_def rule_upsert_def rule_del_def second_third_def first_second_def
      vput_def dput_def vdel_def ddel_def kv_del_def Let_def intro!: priv_write_ok [OF assms(2)] split: if_splits) blast+

interpretation priv_rules: rule_table "writes_to priv_key" "\<lambda>k. k = None" "auth_fns X True"
  for X :: ext
proof (unfold_locales, goal_cases)
  case (2 w w1 w2)
  then show ?case by (rule writes_to_trans)
next
  case (4 f fs v)
  have "store_rel (writes_to priv_key) (\<lambda>k. k = None)" by unfold_locales (auto intro: writes_to_trans)
  with 4 show ?case
    by (auto simp: auth_fns_def intro: rule_get_ok id_fns_ok store_rel.ac_funcs_ok write_fns_ok)
qed simp_all

lemma auth_run_ok:
  assumes "fv_key (fst fs) = None"
  shows "fs_ok (if priv then writes_to priv_key else (=)) (\<lambda>k. k = None) fs (\<lambda>x. x) (fpj ev (auth_fns X priv) v fs)"
  using assms pure_rules.fpj_ok priv_rules.fpj_ok by (cases priv) simp_all

text \<open>A trigger may write anything, within the transaction.\<close>

definition same_reset :: "wkv \<Rightarrow> wkv \<Rightarrow> bool" where
  "same_reset w w' \<longleftrightarrow> kv_reset w' = kv_reset w"

lemma trigger_write_ok: "fs_ok same_reset (\<lambda>_. True) fs fst (trigger_write X n c op data dir doc before fs)"
proof -
  obtain fv w where fs: "fs = (fv, w)" by force
  let ?m = "let c0 = trigger_ctx c w dir doc before data in
           case op of
             WDel \<Rightarrow> delData n (c0\<lparr>c_data := JNull\<rparr>)
           | WAdd \<Rightarrow> rbind (merge X None c0) (\<lambda>c1. rbind (genDocID n c1) (\<lambda>c2. rbind (dev_schema X c2) (putData n)))
           | WPut \<Rightarrow> rbind (merge X None c0) (\<lambda>c1. rbind (dev_schema X c1) (putData n))"
  have del: "keeps (\<lambda>c. c) c0 (delData n (c0\<lparr>c_data := JNull\<rparr>))" for c0
    by (rule keeps_after [of _ "c0\<lparr>c_data := JNull\<rparr>"]) (simp add: same_txn_def, intro dev_intros)
  have "keeps (\<lambda>c. c) (trigger_ctx c w dir doc before data) ?m"
    unfolding Let_def by (cases op; simp add: del) (intro dev_intros)+
  moreover have "c_kv (trigger_ctx c w dir doc before data) = w" by (simp add: trigger_ctx_def)
  ultimately show ?thesis unfolding fs trigger_write_def
    by (auto simp: keeps_def same_txn_def fs_ok_def same_reset_def rbind_def split: sum.splits)
qed

interpretation any_write: store_rel same_reset "\<lambda>_. True"
  by unfold_locales (auto simp: same_reset_def)

lemma trigger_op_ok: "fs_ok same_reset (\<lambda>_. True) fs fst (trigger_op X n c op must v fs)"
  unfolding trigger_op_def Let_def split_def
  by (intro any_write.bind_store_ok)
    (auto simp: any_write.S_refl intro!: trigger_write_ok split: option.split bool.split)

lemma to_batch_ok: "fs_ok same_reset (\<lambda>_. True) fs fst (to_batch all v fs)"
  by (cases fs) (auto simp: to_batch_def same_reset_def split: jv.splits bool.splits)

lemma trigger_fns_ok: "f \<in> snd ` set (trigger_fns X n c) \<Longrightarrow> fs_ok same_reset (\<lambda>_. True) fs fst (f v fs)"
  by (auto simp: trigger_fns_def same_reset_def intro: id_fns_ok rule_get_ok trigger_op_ok to_batch_ok)

interpretation trig_rules: rule_table same_reset "\<lambda>_. True" "trigger_fns X n c"
  for X :: ext and n :: nat and c :: ctx
  by unfold_locales (auto simp: same_reset_def intro: trigger_fns_ok)

text \<open>A part that works on the variables and the store, inside a device.\<close>

lemma keeps_run:
  assumes "fs_ok same_reset K (fv, c_kv c) p m" and "\<And>x. keeps q (set_kv (snd (p x)) c) (f x)"
  shows "keeps q c (rbind m f)"
  by (rule keeps_bind [where p = "\<lambda>x. set_kv (snd (p x)) c"])
    (use assms in \<open>auto simp: keeps_def fs_ok_def same_reset_def same_txn_def set_kv_def split: sum.splits\<close>)

lemma run_batch_op_ok: "fs_ok same_reset (\<lambda>_. True) fs (\<lambda>x. x) (run_batch_op X n c fs v)"
proof -
  have f: "fs_ok same_reset (\<lambda>_. True) fs (\<lambda>x. x) (rbind (f a fs) (\<lambda>(fs1, r, brk). Inr fs1))"
    if "map_of (trigger_fns X n c) op = Some f" for f op a
    by (rule any_write.bind_ok [where p = fst], rule trigger_fns_ok)
      (use that in \<open>auto dest: map_of_SomeD intro: rev_image_eqI simp: any_write.S_refl\<close>)
  show ?thesis unfolding run_batch_op_def
    by (intro any_write.bind_store_ok) (auto simp: any_write.S_refl f split: option.split)
qed

lemma run_trigger_ok: "fs_ok same_reset (\<lambda>_. True) s (\<lambda>x. x) (run_trigger X n c m s t)"
proof -
  obtain fv w where s: "s = (fv, w)" by force
  have run: "fs_ok same_reset (\<lambda>_. True) (fv, w) (\<lambda>x. x)
      (rbind (fpj (x_eval X) (trigger_fns X n c) a (fv', w)) (\<lambda>fs1.
        rbind (at_store (snd fs1) (g fs1)) (\<lambda>ops. rfoldl (run_batch_op X n c) fs1 ops)))" for fv' a g
  proof -
    have "fs_ok same_reset (\<lambda>_. True) (fv', w) (\<lambda>x. x)
      (rbind (fpj (x_eval X) (trigger_fns X n c) a (fv', w)) (\<lambda>fs1.
        rbind (at_store (snd fs1) (g fs1)) (\<lambda>ops. rfoldl (run_batch_op X n c) fs1 ops)))"
      by (intro any_write.bind_ok [where p = "\<lambda>x. x"] trig_rules.fpj_ok any_write.bind_store_ok any_write.rfoldl_ok
          run_batch_op_ok TrueI)
    then show ?thesis by (simp only: fs_ok_def snd_conv)
  qed
  have st: "fs_ok same_reset (\<lambda>_. True) (fv, w) q (rbind (at_store w h) k)"
    if "\<And>x. fs_ok same_reset (\<lambda>_. True) (fv, w) q (k x)" for q h and k :: "'b \<Rightarrow> 'c fres"
    using any_write.bind_store_ok [of "(fv, w)" q k h] that by simp
  show ?thesis unfolding s run_trigger_def Let_def
    by (simp, intro st) (auto simp: any_write.S_refl intro!: run)
qed

lemma dev_trigger_keeps [dev_intros]: "keeps (\<lambda>c. c) c (dev_trigger X n c)"
proof -
  have run: "keeps (\<lambda>c. c) c (rbind (rfoldl (run_trigger X n c m) (fv, c_kv c) ts) (\<lambda>(fv', w). Inr (c\<lparr>c_data := fv_data fv', c_kv := w\<rparr>)))"
    for m fv ts
    by (rule keeps_run, rule any_write.rfoldl_ok) (auto intro: run_trigger_ok simp: same_txn_def set_kv_def)
  show ?thesis unfolding dev_trigger_def Let_def
    by (intro dev_intros run) simp
qed

section \<open>The access control\<close>

lemma auth_run_reset:
  "fs_ok same_reset (\<lambda>k. k = None) (auth_start c) (\<lambda>x. x) (fpj ev (auth_fns X priv) v (auth_start c))"
  using auth_run_ok [of "auth_start c" priv ev X v]
  by (cases priv) (auto simp: auth_start_def fs_ok_def same_reset_def writes_to_reset split: sum.splits)

lemma onlyOwner_keeps [dev_intros]: "keeps (\<lambda>c. c) c (onlyOwner c)"
  unfolding onlyOwner_def by (intro dev_intros) simp

lemma default_auth_keeps [dev_intros]: "keeps (\<lambda>c. c) c (default_auth X c)"
proof -
  have "keeps (\<lambda>c. c) c
      (case fpj (x_eval X) (auth_fns X priv) v (auth_start c) of
         Inl (e, w) \<Rightarrow> Inl (Err ''authentication failed'', w)
       | Inr (fv, w) \<Rightarrow> (if truthy (jget (fv_obj fv) ''allow'') then Inr (c\<lparr>c_data := fv_data fv, c_kv := w\<rparr>)
                       else Inl (Err ''operation not allowed'', w)))" for priv v
    using auth_run_reset [of c "x_eval X" X priv v]
    by (auto simp: auth_start_def fs_ok_def same_reset_def same_txn_def split: sum.splits)
  then show ?thesis unfolding default_auth_def
    by (intro dev_intros) (auto simp: fail_def split: option.split)
qed

lemma dev_auth_keeps [dev_intros]: "keeps (\<lambda>c. c) c (dev_auth X c)"
  unfolding dev_auth_def by (intro dev_intros) simp

section \<open>Parsing\<close>

lemma shift_query_keeps [dev_intros]: "keeps (\<lambda>c. c) c (shift_query c)"
  unfolding shift_query_def by (intro dev_intros) (simp_all add: same_txn_def)

lemma with_doc_keeps [dev_intros]: "keeps (\<lambda>c. c) c (with_doc dir doc data c)"
  unfolding with_doc_def by (intro dev_intros) (simp add: same_txn_def)

lemma parse_query_keeps [dev_intros]: "keeps (\<lambda>c. c) c (parse_query c)"
  unfolding parse_query_def Let_def by (intro dev_intros) (simp_all add: same_txn_def)

lemma parser_step_keeps [dev_intros]: "keeps (\<lambda>c. c) c (parser_step X n c)"
  unfolding parser_step_def setData_def updateData_def upsertData_def by (intro dev_intros) simp_all

lemma dev_parse_keeps [dev_intros]: "keeps (\<lambda>c. c) c (dev_parse X n c)"
  unfolding dev_parse_def Let_def
  by (intro dev_intros) (simp, rule keeps_after [OF _ parser_step_keeps], simp add: same_txn_def)

section \<open>Directories, configuration, versions\<close>

lemma put_config_fields [simp]:
  "kv_reset (c_kv (put_config k v c)) = kv_reset (c_kv c)" "c_no_commit (put_config k v c) = c_no_commit c"
  "c_info (put_config k v c) = c_info c"
  "kv_reset (c_kv (del_config k c)) = kv_reset (c_kv c)" "c_no_commit (del_config k c) = c_no_commit c"
  "c_info (del_config k c) = c_info c"
  "kv_reset (c_kv (put_dir d v c)) = kv_reset (c_kv c)" "c_no_commit (put_dir d v c) = c_no_commit c"
  "c_info (put_dir d v c) = c_info c"
  by (simp_all add: put_config_def del_config_def put_dir_def set_kv_def)

lemma put_config_txn [simp]:
  "same_txn c (put_config k v c') \<longleftrightarrow> same_txn c c'" "same_txn c (del_config k c') \<longleftrightarrow> same_txn c c'"
  "same_txn c (put_dir d v c') \<longleftrightarrow> same_txn c c'"
  by (simp_all add: same_txn_def)

lemma kv_reset_eq: "same_txn c c' \<Longrightarrow> kv_reset (c_kv c') = kv_reset (c_kv c)"
  by (simp add: same_txn_def)

lemma dev_init_keeps [dev_intros]: "keeps (\<lambda>c. c) c (dev_init c)"
proof -
  have "same_txn c c1 \<Longrightarrow> keeps p c (rbind (lift_res c1 m) f)" if "\<And>x. keeps p c1 (f x)"
    for c1 and p :: "ctx \<Rightarrow> ctx" and m :: "jv res" and f
    by (rule keeps_after, assumption, intro keeps_bind_pure that)
  then show ?thesis unfolding dev_init_def Let_def
    by (intro dev_intros) (auto simp: fail_def dest: kv_reset_eq)
qed

lemma put_info_txn: "is_nil info \<Longrightarrow> is_nil (c_info c) \<Longrightarrow> same_txn c (put_info info c)"
  "\<not> is_nil info \<Longrightarrow> same_txn c (put_info info c)"
  by (auto simp: put_info_def same_txn_def)

lemma is_nil_jset [simp]: "is_nil (jset v k x) \<longleftrightarrow> is_nil v" "is_nil (jdel v k) \<longleftrightarrow> is_nil v"
  by (cases v; simp)+

lemma put_info_set [simp]: "is_nil info = is_nil (c_info c) \<Longrightarrow> same_txn c (put_info info c)"
  by (cases "is_nil info") (simp_all add: put_info_txn)

lemma dev_mkdir_keeps [dev_intros]: "keeps (\<lambda>c. c) c (dev_mkdir c)"
proof -
  have "same_txn c (put_info (jset (c_info c) k v) (put_dir d x c))" for k v d x
    by (rule same_txn_trans [of _ "put_dir d x c"]) simp_all
  then show ?thesis unfolding dev_mkdir_def by (intro dev_intros)
qed

lemma dev_versions_keeps [dev_intros]:
  "keeps (\<lambda>c. c) c (dev_upgrade c)" "keeps (\<lambda>c. c) c (dev_revert c)" "keeps (\<lambda>c. c) c (dev_migrate c)"
  unfolding dev_upgrade_def dev_revert_def dev_migrate_def by (intro dev_intros; simp)+

lemma foldl_txn: "(\<And>c x. same_txn c (f c x)) \<Longrightarrow> same_txn c (foldl f c xs)"
  by (induction xs arbitrary: c) (auto intro: same_txn_trans)

lemma set_rule_keeps: "keeps (\<lambda>x. snd (snd x)) (snd (snd s)) (set_rule di s v)"
  by (cases s) (auto simp: set_rule_def fail_def split: jv.split)

lemma dev_set_auth_keeps [dev_intros]: "keeps (\<lambda>c. c) c (dev_set_auth c)"
proof -
  have rules: "keeps (\<lambda>x. snd (snd x)) c1 (rfoldl (set_rule di) (a, i, c1) vs)" for c1 di a i vs
    using keeps_rfoldl [of "\<lambda>x. snd (snd x)" "set_rule di" "(a, i, c1)" vs] set_rule_keeps by simp
  have del: "same_txn c (foldl (\<lambda>c i. del_config (k i) c) c xs)" for k :: "nat \<Rightarrow> string" and xs
    by (rule foldl_txn) simp
  show ?thesis unfolding dev_set_auth_def Let_def
    by (intro dev_intros) (auto intro!: keeps_after [OF del] keeps_bind [OF rules] simp: same_txn_def put_dir_def set_kv_def)
qed

lemma dev_set_schema_keeps [dev_intros]: "keeps (\<lambda>c. c) c (dev_set_schema X c)"
  unfolding dev_set_schema_def by (intro dev_intros) simp

lemma put_indexes_txn [simp]: "same_txn c (put_indexes ixs vs c') \<longleftrightarrow> same_txn c c'"
  by (simp add: put_indexes_def)

lemma set_data_txn [simp]: "same_txn c (set_kv w (c'\<lparr>c_data := v\<rparr>)) \<longleftrightarrow> same_txn c (set_kv w c')"
  by (simp add: same_txn_def set_kv_def)

lemma dev_index_keeps [dev_intros]:
  "keeps (\<lambda>c. c) c (dev_add_index n c)" "keeps (\<lambda>c. c) c (dev_remove_index n c)"
  unfolding dev_add_index_def dev_remove_index_def
  by (intro dev_intros; (rule trees.addIndex_ok | rule trees.removeIndex_ok | simp))+

lemma dev_triggers_keeps [dev_intros]:
  "keeps (\<lambda>c. c) c (dev_add_trigger c)" "keeps (\<lambda>c. c) c (dev_remove_trigger c)"
  unfolding dev_add_trigger_def dev_remove_trigger_def Let_def
  by (intro dev_intros; simp add: same_txn_def)+

section \<open>Batches and routing\<close>

lemma batch_write_keeps [dev_intros]: "keeps (\<lambda>c. c) c (batch_write X n c)"
  unfolding batch_write_def dev_put_def dev_del_def by (intro dev_intros) simp

lemma batch_item_keeps: "keeps (\<lambda>c. c) c (batch_item X n c q)"
proof -
  have b: "keeps (\<lambda>b. b) (batch_ctx c q)
      (rbind (parseOp (batch_ctx c q)) (\<lambda>b1. rbind (dev_parse X n b1) (\<lambda>b2. rbind (dev_auth X b2) (batch_write X n))))"
    by (intro dev_intros)
  show ?thesis unfolding batch_item_def
    by (rule keeps_bind [where p = "\<lambda>b. c\<lparr>c_kv := c_kv b\<rparr>"])
      (use b in \<open>auto simp: keeps_def same_txn_def batch_ctx_def split: sum.splits\<close>)
qed

lemma dev_batch_keeps [dev_intros]: "keeps (\<lambda>c. c) c (dev_batch X n c)"
  unfolding dev_batch_def by (intro dev_intros keeps_rfoldl [where p = "\<lambda>c. c"] batch_item_keeps)

lemma dev_write_keeps [dev_intros]: "keeps (\<lambda>c. c) c (dev_write c)"
  unfolding dev_write_def by (intro dev_intros) (auto simp: same_txn_def split: option.split)
end
