(* ===== verification/Dev_Props.thy ===== *)
theory Dev_Props
  imports Dev_Frame
begin

text \<open>
  What the write pipeline guarantees: a request takes effect as a whole or not at all, requests are not
  replayed, and the rules of a directory decide what is written.
\<close>

section \<open>Atomic requests\<close>

lemma branches_keeps [dev_intros]: "keeps (\<lambda>c. c) c (match (Some pred) (branches X n) c)"
proof -
  have put: "keeps (\<lambda>c. c) c (ka_k [dev_schema X, putData n, dev_trigger X n] c)"
    and del: "keeps (\<lambda>c. c) c (ka_k [delData n, dev_trigger X n] c)"
    by (simp_all add: ka_k_def) (intro dev_intros; simp)+
  note ka = put [unfolded ka_k_def] del [unfolded ka_k_def]
  show ?thesis unfolding branches_def
    by (simp add: mon_map_def ka_k_def ka [simplified] del: rfoldl.simps) (auto intro!: dev_intros)
qed

text \<open>The route after the request is read, up to \<open>dev_result\<close>.\<close>

definition carry_out :: "ext \<Rightarrow> nat \<Rightarrow> dev" where
  "carry_out X n c =
     rbind (dev_verify c) (\<lambda>c1. rbind (dev_parse X n c1) (\<lambda>c2. rbind (dev_auth X c2) (\<lambda>c3.
     rbind (dev_write c3) (match (Some pred) (branches X n)))))"

lemma carry_out_keeps [dev_intros]: "keeps (\<lambda>c. c) c (carry_out X n c)"
  unfolding carry_out_def by (intro dev_intros)

lemma carry_out_info: "carry_out X n c = Inr c' \<Longrightarrow> \<not> is_nil (c_info c')"
proof -
  assume "carry_out X n c = Inr c'"
  then obtain c1 where c1: "dev_verify c = Inr c1"
    "rbind (dev_parse X n c1) (\<lambda>c2. rbind (dev_auth X c2) (\<lambda>c3. rbind (dev_write c3) (match (Some pred) (branches X n)))) = Inr c'"
    by (auto simp: carry_out_def rbind_Inr_iff)
  have "keeps (\<lambda>c. c) c1 (rbind (dev_parse X n c1) (\<lambda>c2. rbind (dev_auth X c2) (\<lambda>c3. rbind (dev_write c3) (match (Some pred) (branches X n)))))"
    by (intro dev_intros)
  with c1 dev_verify_info [OF c1(1)] show ?thesis by (auto simp: same_txn_def)
qed

lemma routes_split:
  "flow (SSeq (write_route X n)) (Some pred) c = rbind (dev_normalize X c) (\<lambda>c1. rbind (carry_out X n c1) dev_result)"
  "flow (SSeq (noauth_write_route X n)) (Some pred) c =
     rbind (dev_normalize_noauth X c) (\<lambda>c1. rbind (carry_out X n c1) dev_result)"
  by (simp_all add: flow_def write_route_def noauth_write_route_def carry_out_def mon_map_def rbind_assoc cong: rbind_cong)

lemma reset_same_iff: "kv_reset w' = kv_reset w \<longleftrightarrow> (\<exists>l. w' = w\<lparr>kv_l := l\<rparr>)"
  by (cases w; cases w') (auto simp: kv_reset_def)

text \<open>A call of a method either fails and leaves nothing of the running transaction, or commits once, all it
  has written; with \<open>no_commit\<close> the writes stay in the transaction.\<close>

definition all_or_nothing :: "opts \<Rightarrow> wkv \<Rightarrow> wkv \<times> (js_error + ctx) \<Rightarrow> bool" where
  "all_or_nothing opt w r =
     (case r of
        (w', Inl e) \<Rightarrow> w' = kv_reset w
      | (w', Inr c) \<Rightarrow>
          (\<exists>l. if o_no_commit opt = JBool True then w' = w\<lparr>kv_l := l\<rparr>
               else w' = fst (kv_commit (c_msg c) (JObj []) (c_info c) (w\<lparr>kv_l := l\<rparr>)) \<and> c_updates c = JObj l))"

text \<open>What the runners of both kinds make of a flow that ends in \<open>dev_result\<close>.\<close>

lemma runner_all_or_nothing:
  assumes "keeps (\<lambda>c. c) (init_ctx opt msg w) m" and "\<And>c. m = Inr c \<Longrightarrow> \<not> is_nil (c_info c)"
  shows "all_or_nothing opt w
     (case rbind m dev_result of Inl (e, w') \<Rightarrow> (kv_reset w', Inl e) | Inr c \<Rightarrow> (c_kv c, Inr c))"
proof -
  have c0: "c_kv (init_ctx opt msg w) = w" "c_no_commit (init_ctx opt msg w) = o_no_commit opt"
    by (simp_all add: init_ctx_def)
  show ?thesis
  proof (cases m)
    case (Inl ew)
    then show ?thesis using assms(1) by (cases ew) (simp add: all_or_nothing_def c0)
  next
    case (Inr c)
    then obtain l where l: "c_kv c = w\<lparr>kv_l := l\<rparr>" "c_no_commit c = o_no_commit opt"
      using assms(1) by (auto simp: same_txn_def c0 reset_same_iff)
    have "snd (snd (kv_commit opt' st info' (w\<lparr>kv_l := l\<rparr>))) = l" for opt' st info' by (simp add: kv_commit_def Let_def)
    then show ?thesis using assms(2) [OF Inr] l
      by (auto simp: Inr dev_result_def all_or_nothing_def lift_res_def jprop_def Let_def split_def)
  qed
qed

lemma result_all_or_nothing:
  assumes "keeps (\<lambda>c. c) (init_ctx opt msg w) (d (init_ctx opt msg w))"
    and "\<And>c. flow (SSeq devs) (Some pred) c = rbind (d c) (\<lambda>c1. rbind (carry_out X n c1) dev_result)"
  shows "all_or_nothing opt w (run_method devs opt msg w)"
proof -
  have "all_or_nothing opt w (case rbind (rbind (d (init_ctx opt msg w)) (carry_out X n)) dev_result of
      Inl (e, w') \<Rightarrow> (kv_reset w', Inl e) | Inr c \<Rightarrow> (c_kv c, Inr c))"
    by (rule runner_all_or_nothing [OF keeps_bind_dev [OF assms(1) carry_out_keeps]])
      (auto simp: rbind_Inr_iff dest: carry_out_info)
  then show ?thesis by (simp add: run_method_def assms(2) rbind_assoc)
qed

text \<open>
  C1. A write request is atomic. Whatever device throws, the store is back to what was committed before;
  a request that succeeds commits exactly once, and the entry it commits is the whole of what its devices
  have written.
\<close>

theorem write_atomic:
  "all_or_nothing opt w (run_method (write_route X n) opt msg w) \<and>
   all_or_nothing opt w (run_method (noauth_write_route X n) opt msg w)"
  by (intro conjI result_all_or_nothing [OF _ routes_split(1)] result_all_or_nothing [OF _ routes_split(2)] dev_intros)
end
