(* ===== verification/Dev_Auth_Props.thy ===== *)
theory Dev_Auth_Props
  imports Dev_Frame
begin

text \<open>
  Who may write what: nonces, ownership, the rules of a directory and the order in which their commands
  decide, and the round trip of the rules through the store.
\<close>

section \<open>Nonces\<close>

lemma get_spread_last: "jget (JObj (spread (JObj [(k, v)]) p)) k = v"
  by (simp add: spread_def)

lemma dev_verify_nonce:
  assumes "dev_verify c = Inr c1"
  shows "\<exists>m. to_num (c_nonce c) = Some m \<and> next_nonce (vget (c_kv c) (JStr ''_accounts'') (c_signer c)) = JNum m \<and>
     jget (vget (c_kv c1) (JStr ''_accounts'') (c_signer c)) ''nonce'' = JNum m"
proof -
  let ?acc = "vget (c_kv c) (JStr ''_accounts'') (c_signer c)"
  have ok: "nonce_ok (c_nonce c) (next_nonce ?acc)"
    and c1: "c1 = c\<lparr>c_kv := vput (JStr ''_accounts'') (c_signer c)
        (JObj (spread (JObj [(''nonce'', next_nonce ?acc)]) (spread ?acc []))) (c_kv c)\<rparr>"
    using assms by (auto simp: dev_verify_def rbind_Inr_iff fail_def Let_def split: if_splits)
  obtain m where "to_num (c_nonce c) = Some m" "next_nonce ?acc = JNum m"
    using ok by (auto simp: nonce_ok_def split: option.splits jv.splits)
  then show ?thesis by (simp add: c1 vget_vput_same get_spread_last del: jget.simps)
qed

lemma next_after: "jget acc ''nonce'' = JNum m \<Longrightarrow> next_nonce acc = JNum (m + 1)"
  by (simp add: next_nonce_def js_plus1_def)

text \<open>The number an account has on record, and the one its next request has to carry.\<close>

definition nonce_of :: "wkv \<Rightarrow> jv \<Rightarrow> jv" where
  "nonce_of w signer = jget (vget w (JStr ''_accounts'') signer) ''nonce''"

definition successor :: "jv \<Rightarrow> int \<Rightarrow> bool" where
  "successor old m \<longleftrightarrow> (is_nil old \<and> m = 1) \<or> old = JNum (m - 1)"

lemma dev_version_refuses: "dev_version c = Inr c \<or> (\<exists>e. dev_version c = Inl (e, c_kv c))"
  by (auto simp: dev_version_def Let_def fail_def lift_res_def at_store_def rbind_def jprop_def split: sum.splits)

lemma wrong_nonce_refused:
  assumes "\<not> nonce_ok (c_nonce c) (next_nonce (vget (c_kv c) (JStr ''_accounts'') (c_signer c)))"
  shows "\<exists>e. dev_verify c = Inl (e, c_kv c)"
proof (cases "jprop (c_info c) ''id''")
  case (Inl e)
  then show ?thesis by (simp add: dev_verify_def lift_res_def)
next
  case (Inr i)
  with dev_version_refuses [of c] assms show ?thesis by (auto simp: dev_verify_def lift_res_def fail_def Let_def)
qed

lemma nonce_ok_successor:
  assumes "is_nil old \<or> (\<exists>k. old = JNum k)" and "old = jget acc ''nonce''"
  shows "nonce_ok v (next_nonce acc) \<longleftrightarrow> (\<exists>m. to_num v = Some m \<and> successor old m)"
  using assms by (cases old) (auto simp: nonce_ok_def next_nonce_def js_plus1_def successor_def split: option.split)

text \<open>
  C6. Requests of a signer are numbered, and no number is taken twice. A request is admitted only with the
  successor of the number its signer has on record (1 for a new signer), which is on record afterwards; any
  other number is refused with the store as it is. So once a request is admitted, the only number with which
  another of the same signer can be admitted on that record is the next one: the request itself cannot be
  replayed, and none can be passed over.
\<close>

theorem replay_rejected:
  assumes "is_nil (nonce_of (c_kv c) (c_signer c)) \<or> (\<exists>k. nonce_of (c_kv c) (c_signer c) = JNum k)"
  shows "(case dev_verify c of
       Inr c1 \<Rightarrow> \<exists>m. to_num (c_nonce c) = Some m \<and> successor (nonce_of (c_kv c) (c_signer c)) m \<and>
         nonce_of (c_kv c1) (c_signer c) = JNum m \<and>
         (\<forall>c'. c_signer c' = c_signer c \<and> nonce_of (c_kv c') (c_signer c) = nonce_of (c_kv c1) (c_signer c) \<and>
            to_num (c_nonce c') \<noteq> Some (m + 1) \<longrightarrow> (\<exists>e. dev_verify c' = Inl (e, c_kv c')))
     | Inl (e, w) \<Rightarrow> w = c_kv c) \<and>
     ((\<forall>m. to_num (c_nonce c) = Some m \<longrightarrow> \<not> successor (nonce_of (c_kv c) (c_signer c)) m) \<longrightarrow>
        (\<exists>e. dev_verify c = Inl (e, c_kv c)))"
proof (intro conjI impI)
  let ?acc = "\<lambda>c. vget (c_kv c) (JStr ''_accounts'') (c_signer c)"
  have ok: "nonce_ok (c_nonce c) (next_nonce (?acc c)) \<longleftrightarrow>
      (\<exists>m. to_num (c_nonce c) = Some m \<and> successor (nonce_of (c_kv c) (c_signer c)) m)"
    by (rule nonce_ok_successor [OF assms]) (simp add: nonce_of_def)
  show "\<exists>e. dev_verify c = Inl (e, c_kv c)"
    if "\<forall>m. to_num (c_nonce c) = Some m \<longrightarrow> \<not> successor (nonce_of (c_kv c) (c_signer c)) m"
    using that ok by (intro wrong_nonce_refused) blast
  show "case dev_verify c of
       Inr c1 \<Rightarrow> \<exists>m. to_num (c_nonce c) = Some m \<and> successor (nonce_of (c_kv c) (c_signer c)) m \<and>
         nonce_of (c_kv c1) (c_signer c) = JNum m \<and>
         (\<forall>c'. c_signer c' = c_signer c \<and> nonce_of (c_kv c') (c_signer c) = nonce_of (c_kv c1) (c_signer c) \<and>
            to_num (c_nonce c') \<noteq> Some (m + 1) \<longrightarrow> (\<exists>e. dev_verify c' = Inl (e, c_kv c')))
     | Inl (e, w) \<Rightarrow> w = c_kv c"
  proof (cases "dev_verify c")
    case (Inl ew)
    then show ?thesis using dev_version_refuses [of c]
      by (cases ew) (auto simp: dev_verify_def lift_res_def at_store_def rbind_def fail_def Let_def split: sum.splits if_splits)
  next
    case (Inr c1)
    obtain m where m: "to_num (c_nonce c) = Some m" "next_nonce (?acc c) = JNum m" "nonce_of (c_kv c1) (c_signer c) = JNum m"
      using dev_verify_nonce [OF Inr] by (auto simp: nonce_of_def)
    then have suc: "successor (nonce_of (c_kv c) (c_signer c)) m" using ok by (simp add: nonce_ok_def)
    have "\<exists>e. dev_verify c' = Inl (e, c_kv c')"
      if "c_signer c' = c_signer c" "nonce_of (c_kv c') (c_signer c) = JNum m" "to_num (c_nonce c') \<noteq> Some (m + 1)" for c'
      using that next_after [of "?acc c'" m] by (intro wrong_nonce_refused) (auto simp: nonce_ok_def nonce_of_def split: option.split)
    then show ?thesis using Inr m suc by auto
  qed
qed

definition first_request :: ctx where
  "first_request = blank\<lparr>c_info := JObj [], c_nonce := JStr ''1'', c_signer := JStr ''a''\<rparr>"

lemma first_admitted: "\<exists>c1. dev_verify first_request = Inr c1"
proof -
  have "vget (kv_new Map.empty) d k = JNull" for d k
    by (simp add: vget_def dget_def kv_get_def kv_new_def sget_def Let_def)
  moreover have "to_num (JStr ''1'') = Some 1" by code_simp
  ultimately show ?thesis
    by (simp add: first_request_def blank_def dev_verify_def dev_version_def lift_res_def jprop_def nonce_ok_def
        next_nonce_def js_plus1_def Let_def)
qed

theorem replay_rejected_witness:
  "\<exists>c1. dev_verify first_request = Inr c1 \<and> nonce_of (c_kv c1) (JStr ''a'') = JNum 1 \<and>
     (\<exists>e. dev_verify (first_request\<lparr>c_kv := c_kv c1\<rparr>) = Inl (e, c_kv c1)) \<and>
     (\<exists>e. dev_verify (first_request\<lparr>c_kv := c_kv c1, c_nonce := JStr ''3''\<rparr>) = Inl (e, c_kv c1))"
proof -
  have num: "to_num (JStr ''1'') = Some 1" "to_num (JStr ''3'') = Some 3" by code_simp+
  have "is_nil (nonce_of (c_kv first_request) (c_signer first_request))"
    by (simp add: nonce_of_def first_request_def blank_def vget_def dget_def kv_get_def kv_new_def sget_def Let_def)
  then have prem: "is_nil (nonce_of (c_kv first_request) (c_signer first_request)) \<or>
      (\<exists>k. nonce_of (c_kv first_request) (c_signer first_request) = JNum k)" ..
  obtain c1 where c1: "dev_verify first_request = Inr c1" using first_admitted by blast
  have s: "c_signer first_request = JStr ''a''" "c_nonce first_request = JStr ''1''" by (simp_all add: first_request_def)
  from replay_rejected [OF prem] c1 num s
  have one: "nonce_of (c_kv c1) (JStr ''a'') = JNum 1"
    and no: "\<forall>c'. c_signer c' = JStr ''a'' \<and> nonce_of (c_kv c') (JStr ''a'') = nonce_of (c_kv c1) (JStr ''a'') \<and>
      to_num (c_nonce c') \<noteq> Some 2 \<longrightarrow> (\<exists>e. dev_verify c' = Inl (e, c_kv c'))"
    by auto
  from no [THEN spec, of "first_request\<lparr>c_kv := c_kv c1\<rparr>"]
    no [THEN spec, of "first_request\<lparr>c_kv := c_kv c1, c_nonce := JStr ''3''\<rparr>"] c1 one num s
  show ?thesis by auto
qed

section \<open>Ownership\<close>

text \<open>What the parser leaves alone.\<close>

definition same_head :: "ctx \<Rightarrow> ctx \<Rightarrow> bool" where
  "same_head c c' \<longleftrightarrow> c_op c' = c_op c \<and> c_opcode c' = c_opcode c \<and> c_signer c' = c_signer c \<and> c_info c' = c_info c"

lemma same_head_upd [simp]:
  "same_head c c"
  "same_head c (c'\<lparr>c_query := v\<rparr>) \<longleftrightarrow> same_head c c'" "same_head c (c'\<lparr>c_dir := v\<rparr>) \<longleftrightarrow> same_head c c'"
  "same_head c (c'\<lparr>c_data := v\<rparr>) \<longleftrightarrow> same_head c c'" "same_head c (c'\<lparr>c_doc := v\<rparr>) \<longleftrightarrow> same_head c c'"
  "same_head c (c'\<lparr>c_before := v\<rparr>) \<longleftrightarrow> same_head c c'" "same_head c (c'\<lparr>c_kv := w\<rparr>) \<longleftrightarrow> same_head c c'"
  "same_head c (c'\<lparr>c_range := v\<rparr>) \<longleftrightarrow> same_head c c'" "same_head c (c'\<lparr>c_dirinfo := v\<rparr>) \<longleftrightarrow> same_head c c'"
  "same_head c (c'\<lparr>c_kv_dir := d\<rparr>) \<longleftrightarrow> same_head c c'"
  "same_head (c\<lparr>c_query := v\<rparr>) c' \<longleftrightarrow> same_head c c'" "same_head (c\<lparr>c_dir := v\<rparr>) c' \<longleftrightarrow> same_head c c'"
  "same_head (c\<lparr>c_data := v\<rparr>) c' \<longleftrightarrow> same_head c c'" "same_head (c\<lparr>c_doc := v\<rparr>) c' \<longleftrightarrow> same_head c c'"
  "same_head (c\<lparr>c_before := v\<rparr>) c' \<longleftrightarrow> same_head c c'" "same_head (c\<lparr>c_kv := w\<rparr>) c' \<longleftrightarrow> same_head c c'"
  "same_head (c\<lparr>c_dirinfo := v\<rparr>) c' \<longleftrightarrow> same_head c c'" "same_head (c\<lparr>c_kv_dir := d\<rparr>) c' \<longleftrightarrow> same_head c c'"
  by (simp_all add: same_head_def)

lemma same_head_trans: "same_head c c1 \<Longrightarrow> same_head c1 c2 \<Longrightarrow> same_head c c2"
  by (simp add: same_head_def)

lemma merge_head: "merge X old c = Inr c' \<Longrightarrow> same_head c c'"
  by (auto simp: merge_def rbind_Inr_iff Let_def)

lemma need_dir_Inr: "need_dir c = Inr c' \<longleftrightarrow> c' = c \<and> \<not> is_nil (vget (c_kv c) (JStr ''_'') (c_dir c))"
  by (auto simp: need_dir_def fail_def)

lemma genDocID_head: "genDocID n c = Inr c' \<Longrightarrow> same_head c c'"
  by (auto simp: genDocID_def rbind_Inr_iff fail_def Let_def split: if_splits jv.splits)

lemma parser_step_head: "parser_step X n c = Inr c' \<Longrightarrow> same_head c c'"
  by (auto simp: parser_step_def setData_def updateData_def upsertData_def rbind_Inr_iff need_dir_Inr fail_def
      dest!: merge_head genDocID_head intro: same_head_trans split: if_splits)

lemma shift_query_head: "shift_query c = Inr c' \<Longrightarrow> same_head c c'"
  by (auto simp: shift_query_def fail_def split: jv.splits)

lemma parse_query_head: "parse_query c = Inr c' \<Longrightarrow> same_head c c'"
  by (auto simp: parse_query_def with_doc_def rbind_Inr_iff Let_def dest!: shift_query_head split: if_splits)

lemma dev_parse_head: "dev_parse X n c = Inr c' \<Longrightarrow> same_head c c'"
  by (auto simp: dev_parse_def rbind_Inr_iff Let_def
      dest!: shift_query_head parse_query_head parser_step_head intro: same_head_trans split: if_splits)

text \<open>The directory record a request works with is that of the directory it names.\<close>

lemma same_dirinfo_upd:
  "merge X old c = Inr c' \<Longrightarrow> c_dir c' = c_dir c \<and> c_dirinfo c' = c_dirinfo c \<and> c_kv_dir c' = c_kv_dir c"
  "genDocID n c = Inr c' \<Longrightarrow> c_dir c' = c_dir c \<and> c_dirinfo c' = c_dirinfo c \<and> c_kv_dir c' = c_kv_dir c"
  by (auto simp: merge_def genDocID_def rbind_Inr_iff fail_def Let_def split: if_splits jv.splits)

lemma parser_step_dirinfo:
  "parser_step X n c = Inr c' \<Longrightarrow> c_dir c' = c_dir c \<and> c_dirinfo c' = c_dirinfo c \<and> c_kv_dir c' = c_kv_dir c"
  by (auto simp: parser_step_def setData_def updateData_def upsertData_def rbind_Inr_iff need_dir_Inr fail_def
      dest!: same_dirinfo_upd split: if_splits)

lemma shift_query_store: "shift_query c = Inr c' \<Longrightarrow> c_kv c' = c_kv c \<and> c_opcode c' = c_opcode c"
  by (auto simp: shift_query_def fail_def split: jv.splits)

lemma parse_query_store: "parse_query c = Inr c' \<Longrightarrow> c_kv c' = c_kv c \<and> c_opcode c' = c_opcode c"
  by (auto simp: parse_query_def with_doc_def rbind_Inr_iff Let_def dest!: shift_query_store split: if_splits)

lemma dev_parse_dirinfo:
  assumes "dev_parse X n c = Inr c1" and "\<not> op_in [''batch'', ''upgrade'', ''revert'', ''migrate'', ''init''] c"
    and "truthy (c_dir c1)"
  shows "c_dirinfo c1 = vget (c_kv c) (JStr ''_'') (c_dir c1) \<and> c_kv_dir c1 = Some (to_str (c_dir c1))"
proof -
  obtain c0 where c0: "shift_query c = Inr c0" "c_kv c0 = c_kv c" "c_opcode c0 = c_opcode c"
    using assms(1) shift_query_store by (auto simp: dev_parse_def rbind_Inr_iff)
  with assms(1,2) obtain c2 where c2: "parse_query c0 = Inr c2"
      "parser_step X n (c2\<lparr>c_dirinfo := (if truthy (query_dir c2) then vget (c_kv c2) (JStr ''_'') (query_dir c2) else c_dirinfo c2),
         c_kv_dir := Some (to_str (query_dir c2))\<rparr>) = Inr c1"
    by (auto simp: dev_parse_def rbind_Inr_iff Let_def op_in_def split: jv.splits)
  have "query_dir c2 = c_dir c2"
    using assms(2) c0 parse_query_store [OF c2(1)] by (auto simp: query_dir_def op_in_def split: jv.splits)
  with parser_step_dirinfo [OF c2(2)] parse_query_store [OF c2(1)] c0 assms(3) show ?thesis by simp
qed

text \<open>What an admitted and parsed request needs before anything is carried out: the first rule of its
  directory that names the operation is run, and it must leave \<open>allow\<close> set. \<open>c'\<close> is the request afterwards.\<close>

definition names_op :: "ctx \<Rightarrow> jv \<Rightarrow> bool" where
  "names_op c rule \<longleftrightarrow> (\<exists>ops. jget rule ''0'' = JStr ops \<and> c_op c \<in> JStr ` set (split_on (CHR '','') ops))"

definition rule_allows :: "ext \<Rightarrow> ctx \<Rightarrow> ctx \<Rightarrow> bool" where
  "rule_allows X c c' \<longleftrightarrow>
     (\<exists>us rule vs priv fv w. auth_rules c = us @ rule # vs \<and> (\<forall>u \<in> set us. \<not> names_op c u) \<and> names_op c rule \<and>
        private_dir (c_dir c) = Inr priv \<and>
        fpj (x_eval X) (auth_fns X priv) (jget rule ''1'') (auth_start c) = Inr (fv, w) \<and>
        truthy (jget (fv_obj fv) ''allow'') \<and> c' = c\<lparr>c_data := fv_data fv, c_kv := w\<rparr>)"

definition permitted :: "ext \<Rightarrow> ctx \<Rightarrow> ctx \<Rightarrow> bool" where
  "permitted X c c' \<longleftrightarrow>
     (if op_in [''init'', ''batch''] c then c' = c
      else if op_in owner_ops c then js_eq (c_signer c) (jget (c_info c) ''owner'') \<and> c' = c
      else \<not> is_nil (c_dirinfo c) \<and> rule_allows X c c')"

lemma pick_rule_first:
  "pick_rule (c_op c) vs = Inr (Some v) \<Longrightarrow>
   \<exists>us ws. vs = us @ v # ws \<and> (\<forall>u \<in> set us. \<not> names_op c u) \<and> names_op c v"
proof (induction vs)
  case (Cons u vs)
  show ?case
  proof (cases "names_op c u")
    case True
    then have "v = u" using Cons.prems by (auto simp: rbind_Inr_iff jprop_def as_str_def names_op_def split: if_splits)
    with True show ?thesis by (intro exI [of _ "[]"] exI [of _ vs]) simp
  next
    case False
    then have "pick_rule (c_op c) vs = Inr (Some v)"
      using Cons.prems by (auto simp: rbind_Inr_iff jprop_def as_str_def names_op_def split: if_splits jv.splits)
    then obtain us ws where "vs = us @ v # ws" "\<forall>u \<in> set us. \<not> names_op c u" "names_op c v" using Cons.IH by blast
    then have "u # vs = (u # us) @ v # ws" "\<forall>x \<in> set (u # us). \<not> names_op c x" using False by simp_all
    with \<open>names_op c v\<close> show ?thesis by blast
  qed
qed simp

lemma default_auth_allows:
  assumes "default_auth X c = Inr c'"
  shows "\<not> is_nil (c_dirinfo c) \<and> rule_allows X c c'"
proof -
  obtain priv m where dir: "\<not> is_nil (c_dirinfo c)" and priv: "private_dir (c_dir c) = Inr priv"
    and m: "pick_rule (c_op c) (auth_rules c) = Inr m"
    and rest: "(case m of None \<Rightarrow> Inl (Err ''operation not allowed'', c_kv c)
        | Some rule \<Rightarrow>
            (case fpj (x_eval X) (auth_fns X priv) (jget rule ''1'') (auth_start c) of
               Inl (e, w) \<Rightarrow> Inl (Err ''authentication failed'', w)
             | Inr (fv, w) \<Rightarrow> (if truthy (jget (fv_obj fv) ''allow'') then Inr (c\<lparr>c_data := fv_data fv, c_kv := w\<rparr>)
                             else Inl (Err ''operation not allowed'', w)))) = Inr c'"
    using assms by (simp add: default_auth_def rbind_Inr_iff fail_def split: if_splits) blast
  obtain rule where rule: "m = Some rule" using rest by (cases m) simp_all
  obtain fv w where run: "fpj (x_eval X) (auth_fns X priv) (jget rule ''1'') (auth_start c) = Inr (fv, w)"
    and "truthy (jget (fv_obj fv) ''allow'')" "c' = c\<lparr>c_data := fv_data fv, c_kv := w\<rparr>"
    using rest by (auto simp: rule split: sum.splits if_splits)
  moreover obtain us ws where "auth_rules c = us @ rule # ws" "\<forall>u \<in> set us. \<not> names_op c u" "names_op c rule"
    using pick_rule_first [OF m [unfolded rule]] by blast
  ultimately show ?thesis using dir priv unfolding rule_allows_def by blast
qed

lemma dev_auth_permitted: "dev_auth X c = Inr c' \<Longrightarrow> permitted X c c'"
  using default_auth_allows [of X c c']
  by (auto simp: dev_auth_def permitted_def onlyOwner_def rbind_Inr_iff jprop_def fail_def split: if_splits)

text \<open>
  C3. Only what is permitted is carried out. A request that passes the parser and the access control
  initialises or is a batch (whose operations pass both on their own); or its operation is one of the owner's
  and its signer is the owner on record; or the directory it names is there and the first of its rules that
  names the operation, run on the request, sets \<open>allow\<close>, and the data written is what the rule leaves.
  Signer and operation are those it came with, and the rules are those of the directory it names.
\<close>

theorem only_permitted:
  assumes "rbind (dev_parse X n c) (dev_auth X) = Inr c2"
  shows "\<exists>c1. dev_parse X n c = Inr c1 \<and> permitted X c1 c2 \<and> c_signer c1 = c_signer c \<and> c_op c1 = c_op c \<and>
     c_opcode c1 = c_opcode c \<and> c_info c1 = c_info c \<and>
     (op_in [''batch'', ''upgrade'', ''revert'', ''migrate'', ''init''] c \<or> \<not> truthy (c_dir c1) \<or>
      c_dirinfo c1 = vget (c_kv c) (JStr ''_'') (c_dir c1))"
proof -
  obtain c1 where "dev_parse X n c = Inr c1" "dev_auth X c1 = Inr c2" using assms by (auto simp: rbind_Inr_iff)
  with dev_parse_head dev_auth_permitted dev_parse_dirinfo show ?thesis by (fastforce simp: same_head_def)
qed

definition owner_mkdir :: ctx where
  "owner_mkdir = blank\<lparr>c_opcode := JStr ''mkdir'', c_signer := JStr ''o'', c_info := JObj [(''owner'', JStr ''o'')],
     c_query := JArr [JStr ''mkdir'', JStr ''d'']\<rparr>"

theorem only_permitted_witness:
  "\<forall>X n. \<exists>c1 c2. dev_parse X n owner_mkdir = Inr c1 \<and> permitted X c1 c2 \<and> c_opcode c1 = JStr ''mkdir''"
proof (intro allI)
  fix X n
  have "\<exists>c2. rbind (dev_parse X n owner_mkdir) (dev_auth X) = Inr c2"
    by (simp add: owner_mkdir_def blank_def dev_parse_def shift_query_def parse_query_def op_in_def parser_step_def
        query_dir_def dev_auth_def owner_ops_def onlyOwner_def lift_res_def jprop_def js_eq_def is_object_def Let_def)
  then obtain c2 where "rbind (dev_parse X n owner_mkdir) (dev_auth X) = Inr c2" by blast
  from only_permitted [OF this]
  show "\<exists>c1 c2. dev_parse X n owner_mkdir = Inr c1 \<and> permitted X c1 c2 \<and> c_opcode c1 = JStr ''mkdir''"
    by (auto simp: owner_mkdir_def)
qed

section \<open>What the rules can write\<close>

definition store_of :: "ctx sres \<Rightarrow> wkv" where
  "store_of r = (case r of Inl (e, w) \<Rightarrow> w | Inr c \<Rightarrow> c_kv c)"

lemma auth_store:
  "store_of (dev_auth X c) = c_kv c \<or>
   private_dir (c_dir c) = Inr True \<and> writes_to priv_key (c_kv c) (store_of (dev_auth X c))"
proof -
  have run: "fs_ok (if priv then writes_to priv_key else (=)) (\<lambda>k. k = None) (auth_start c) (\<lambda>x. x)
      (fpj (x_eval X) (auth_fns X priv) v (auth_start c))" for priv v
    by (rule auth_run_ok) (simp add: auth_start_def)
  have rules: "(if priv then writes_to priv_key else (=)) (c_kv c) (store_of
      (case fpj (x_eval X) (auth_fns X priv) v (auth_start c) of
         Inl (e, w) \<Rightarrow> Inl (Err ''authentication failed'', w)
       | Inr (fv, w) \<Rightarrow> (if truthy (jget (fv_obj fv) ''allow'') then Inr (c\<lparr>c_data := fv_data fv, c_kv := w\<rparr>)
                       else Inl (Err ''operation not allowed'', w))))" for priv v
    using run [of priv v] by (auto simp: fs_ok_def auth_start_def store_of_def split: sum.splits)
  have onlyOwner: "store_of (onlyOwner c) = c_kv c"
    by (cases "c_info c") (auto simp: onlyOwner_def lift_res_def jprop_def store_of_def fail_def)
  have "store_of (default_auth X c) = c_kv c \<or>
      private_dir (c_dir c) = Inr True \<and> writes_to priv_key (c_kv c) (store_of (default_auth X c))"
  proof (cases "is_nil (c_info c) \<or> is_nil (c_dirinfo c)")
    case True
    then show ?thesis by (auto simp: default_auth_def fail_def store_of_def)
  next
    case False
    show ?thesis
    proof (cases "private_dir (c_dir c)")
      case (Inl e)
      then show ?thesis using False by (simp add: default_auth_def lift_res_def store_of_def)
    next
      case (Inr priv)
      show ?thesis
      proof (cases "pick_rule (c_op c) (auth_rules c)")
        case (Inl e)
        then show ?thesis using False Inr by (simp add: default_auth_def lift_res_def store_of_def)
      next
        case (Inr m)
        then show ?thesis
          using False \<open>private_dir (c_dir c) = Inr priv\<close> rules [of priv "jget (the m) ''1''"]
          by (cases m; cases priv) (simp_all add: default_auth_def lift_res_def fail_def store_of_def [of "Inl (_, _)"])
      qed
    qed
  qed
  with onlyOwner show ?thesis by (simp add: dev_auth_def store_of_def [of "Inr _"])
qed

text \<open>
  C16. The access control is isolated. Whatever its rules compute, and whether it lets the request through
  or throws, it leaves the store of a request to an ordinary directory as it is; the rules of a private
  directory write keys of private directories only, and always inside the running transaction.
\<close>

theorem auth_isolated:
  "(if private_dir (c_dir c) = Inr True
    then (priv_key k \<or> kv_get (store_of (dev_auth X c)) k = kv_get (c_kv c) k)
    else store_of (dev_auth X c) = c_kv c) \<and>
   kv_reset (store_of (dev_auth X c)) = kv_reset (c_kv c)"
  using auth_store [of X c] by (auto simp: writes_to_reset dest: writes_to_get [of priv_key _ _ k])

section \<open>The order of the commands\<close>

definition verdict :: "bool \<Rightarrow> jv" where
  "verdict b = JArr [JStr (if b then ''allow()'' else ''deny()'')]"

lemma run_cmds_stop:
  assumes "\<And>fs. \<exists>fs1 x. cmd ev fns v False fs = Inr (fs1, x, True)"
  shows "run_cmds ev fns (us @ v # vs) fs = run_cmds ev fns (us @ [v]) fs"
proof (induction us arbitrary: fs)
  case Nil
  obtain fs1 x where "cmd ev fns v False fs = Inr (fs1, x, True)" using assms by blast
  then show ?case by simp
next
  case (Cons u us)
  then show ?case by (auto intro!: rbind_cong)
qed

lemma cmd_verdict:
  "cmd ev (auth_fns X priv) (verdict b) i fs = Inr (allow_set b fs, JNull, True)"
proof -
  have "map_of (auth_fns X priv) (if b then ''allow'' else ''deny'') = Some (\<lambda>v. decide (Some b) True)"
    by (cases priv; cases b) (simp_all add: auth_fns_def write_fns_def id_fns_def ac_funcs_def)
  then show ?thesis
    by (cases b; subst cmd.simps)
      (simp_all add: verdict_def is_assign_def starts_with_def is_call_def is_newline_def call_fn_def decide_def)
qed

lemma allow_set_reads: "fv_obj (fst fs) = JObj p \<Longrightarrow> jget (fv_obj (fst (allow_set b fs))) ''allow'' = JBool b"
  by (cases fs) (simp add: allow_set_def)

lemma cmd_block_one:
  "cmd ev fns (JArr [JStr ''[]'', v]) i fs = rbind (cmd ev fns v False fs) (\<lambda>(fs1, x, brk). Inr (fs1, JNull, False))"
  by (subst cmd.simps)
    (simp add: is_assign_def starts_with_def is_call_def rbind_assoc split_def cong: rbind_cong)

text \<open>
  C21. The first verdict of a rule is final: after \<open>allow()\<close> or \<open>deny()\<close> at the top of a rule no command
  runs, and \<open>allow\<close> is what the verdict says. In a block \<open>["[]", ...]\<close> it is not: a \<open>deny()\<close> there is
  overruled by an \<open>allow()\<close> after the block.
\<close>

theorem verdict_final:
  "fpj ev (auth_fns X priv) (JArr (us @ verdict b # vs)) fs = fpj ev (auth_fns X priv) (JArr (us @ [verdict b])) fs \<and>
   (\<exists>fv. fpj ev (auth_fns X priv) (JArr (verdict b # vs)) (auth_start c) = Inr (fv, c_kv c) \<and>
      jget (fv_obj fv) ''allow'' = JBool b) \<and>
   (\<exists>fv. fpj ev (auth_fns X priv) (JArr [JArr [JStr ''[]'', verdict b], verdict (\<not> b)]) (auth_start c) = Inr (fv, c_kv c) \<and>
      jget (fv_obj fv) ''allow'' = JBool (\<not> b))"
proof -
  have obj: "\<exists>p. fv_obj (fst (auth_start c)) = JObj p" by (simp add: auth_start_def auth_vars_def)
  have kv: "snd (allow_set b fs) = snd fs" for b fs by (cases fs) (simp add: allow_set_def)
  have obj2: "\<exists>p. fv_obj (fst (allow_set b fs)) = JObj p" if "\<exists>p. fv_obj (fst fs) = JObj p" for b fs
    using that by (cases fs) (auto simp: allow_set_def)
  have w: "snd (auth_start c) = c_kv c" by (simp add: auth_start_def)
  have run: "fpj ev (auth_fns X priv) (JArr vs) fs = run_cmds ev (auth_fns X priv) vs fs" for vs fs
    by (simp add: fpj_def as_list_def)
  have fin: "\<exists>fv. Inr (allow_set b' fs) = (Inr (fv, snd fs) :: fstate fres) \<and> jget (fv_obj fv) ''allow'' = JBool b'"
    if "\<exists>p. fv_obj (fst fs) = JObj p" for b' fs
    using that allow_set_reads [of fs _ b'] kv [of b' fs] by (intro exI [of _ "fst (allow_set b' fs)"]) (auto simp: prod_eq_iff)
  have "fpj ev (auth_fns X priv) (JArr (verdict b # vs)) (auth_start c) = Inr (allow_set b (auth_start c))"
    by (simp add: run cmd_verdict)
  moreover have "fpj ev (auth_fns X priv) (JArr [JArr [JStr ''[]'', verdict b], verdict (\<not> b)]) (auth_start c) =
      Inr (allow_set (\<not> b) (allow_set b (auth_start c)))"
    by (simp add: run cmd_verdict cmd_block_one)
  moreover have "run_cmds ev (auth_fns X priv) (us @ verdict b # vs) fs = run_cmds ev (auth_fns X priv) (us @ [verdict b]) fs"
    by (rule run_cmds_stop) (simp add: cmd_verdict)
  ultimately show ?thesis
    using fin [OF obj, of b] fin [OF obj2 [OF obj], of "\<not> b" b] by (simp add: run kv w)
qed

section \<open>Rules through the store\<close>

text \<open>The state of \<open>dev_set_auth\<close> after the first rules: what is numbered and what is stored.\<close>

lemma set_rule_Inr:
  "set_rule di (auth, i, c) v = Inr s' \<longleftrightarrow>
     (\<exists>xs. v = JArr xs \<and> s' = (oput (to_str (jidx xs 0)) (JNum (int i)) auth, i + 1,
        put_config (auth_key di i) (JObj [(''rules'', v)]) c))"
  by (auto simp: set_rule_def fail_def split: jv.splits)

lemma auth_key_inj [simp]: "auth_key di i = auth_key di j \<longleftrightarrow> i = j"
  by (simp add: auth_key_def)

text \<open>Names in the order in which an object lists them.\<close>

definition rule_name :: "jv \<Rightarrow> string" where
  "rule_name v = to_str (jidx (jelems v) 0)"

lemma oput_new: "k \<notin> fst ` set p \<Longrightarrow> \<not> is_index_key k \<Longrightarrow> oput k v p = p @ [(k, v)]"
proof -
  assume "\<not> is_index_key k"
  then have "oinsert k v p = p @ [(k, v)]" by (induction p) (auto simp: key_before_def)
  then show "k \<notin> fst ` set p \<Longrightarrow> oput k v p = p @ [(k, v)]" by (simp add: oput_def)
qed

lemma set_rules_stored:
  assumes "rfoldl (set_rule di) (auth, i, c) vs = Inr (auth', j, c')"
    and "distinct (okeys auth @ map rule_name vs)" and "\<forall>v \<in> set vs. \<not> is_index_key (rule_name v)"
  shows "auth' = auth @ map (\<lambda>(k, v). (rule_name v, JNum (int k))) (enumerate i vs) \<and> j = i + length vs \<and>
     c_dir c' = c_dir c \<and>
     (\<forall>k < length vs. config (auth_key di (i + k)) c' = JObj [(''rules'', vs ! k)]) \<and>
     (\<forall>k < i. config (auth_key di k) c' = config (auth_key di k) c)"
  using assms
proof (induction vs arbitrary: auth i c)
  case Nil
  then show ?case by simp
next
  case (Cons v vs)
  let ?c = "put_config (auth_key di i) (JObj [(''rules'', v)]) c"
  let ?auth = "auth @ [(rule_name v, JNum (int i))]"
  have rest: "rfoldl (set_rule di) (?auth, i + 1, ?c) vs = Inr (auth', j, c')"
    using Cons.prems by (auto simp: rbind_Inr_iff set_rule_Inr oput_new rule_name_def)
  have dir: "c_dir ?c = c_dir c" by (simp add: put_config_def set_kv_def)
  have ih: "auth' = ?auth @ map (\<lambda>(k, v). (rule_name v, JNum (int k))) (enumerate (i + 1) vs) \<and> j = i + 1 + length vs \<and>
     c_dir c' = c_dir ?c \<and>
     (\<forall>k < length vs. config (auth_key di (i + 1 + k)) c' = JObj [(''rules'', vs ! k)]) \<and>
     (\<forall>k < i + 1. config (auth_key di k) c' = config (auth_key di k) ?c)"
    by (rule Cons.IH [OF rest]) (use Cons.prems in auto)
  then have old: "config (auth_key di k) c' = (if k = i then JObj [(''rules'', v)] else config (auth_key di k) c)"
    if "k < i + 1" for k
    using that by (simp add: config_put_config)
  have "config (auth_key di (i + k)) c' = JObj [(''rules'', (v # vs) ! k)]" if "k < length (v # vs)" for k
    using that ih old [of i] by (cases k) auto
  with ih old dir show ?case by (auto simp: config_put_config)
qed

lemma map_filter_all: "list_all2 (\<lambda>x y. f x = Some y) xs ys \<Longrightarrow> List.map_filter f xs = ys"
  by (induction rule: list_all2_induct) (simp_all add: List.map_filter_def)

lemma config_vget: "vget (c_kv c) (JStr ''_config'') (JStr k) = config k c"
  by (simp add: config_def)

lemma config_put_dir [simp]: "config k (put_dir d v c) = config k c"
  by (simp add: config_def put_dir_def set_kv_def vget_def vput_def dget_def dput_def wkv.get_put_other dkey_eq_iff plain_def)

text \<open>
  C19. What the owner sets is what is enforced: after \<open>setAuth\<close> with rules of different names, the access
  control of the directory reads back exactly these rules, in this order, and the directory's stored
  record is the one in force. (Two rules of one name collapse to the last, and a name that looks like an
  array index moves to the front.)
\<close>

theorem set_auth_reads_back:
  assumes "dev_set_auth c = Inr c'" and "c_data c = JArr rules" and "c_dirinfo c = JObj di"
    and "distinct (map rule_name rules)" and "\<forall>v \<in> set rules. \<not> is_index_key (rule_name v)"
  shows "auth_rules c' = rules \<and> vget (c_kv c') (JStr ''_'') (c_dir c) = c_dirinfo c'"
proof -
  let ?c1 = "foldl (\<lambda>c i. del_config (auth_key (JObj di) i) c) c [length rules..<auth_count (JObj di)]"
  let ?di1 = "\<lambda>i. if i = 0 then jdel (JObj di) ''auth_index'' else jset (JObj di) ''auth_index'' (JNum (int i - 1))"
  obtain auth i c2 where run: "rfoldl (set_rule (JObj di)) ([], 0, ?c1) rules = Inr (auth, i, c2)"
    and c': "c' = put_dir (c_dir c) (jset (?di1 i) ''auth'' (JObj auth)) (c2\<lparr>c_dirinfo := jset (?di1 i) ''auth'' (JObj auth)\<rparr>)"
    using assms(1-3) by (auto simp: dev_set_auth_def rbind_Inr_iff Let_def)
  from set_rules_stored [OF run] assms(4,5)
  have auth: "auth = map (\<lambda>(k, v). (rule_name v, JNum (int k))) (enumerate 0 rules)"
    and conf: "\<forall>k < length rules. config (auth_key (JObj di) k) c2 = JObj [(''rules'', rules ! k)]"
    by auto
  let ?di = "jset (?di1 i) ''auth'' (JObj auth)"
  have ix: "jget ?di ''index'' = jget (JObj di) ''index''" "jget ?di ''auth'' = JObj auth" "\<not> is_nil ?di"
    by simp_all
  have key: "''auth_'' @ to_str (jget ?di ''index'') @ ''_'' @ to_str (JNum (int k)) = auth_key (JObj di) k" for k
    by (simp add: auth_key_def ix(1) int_to_string_def del: jget.simps)
  have conf': "config k c' = config k c2" for k by (simp only: c' config_put_dir) (simp add: config_def)
  have names: "okeys auth = map rule_name rules" unfolding auth
    by (rule nth_equalityI) (auto simp: nth_enumerate_eq)
  have num: "jget (JObj auth) (rule_name (rules ! k)) = JNum (int k)" if "k < length rules" for k
  proof -
    have "(rule_name (rules ! k), JNum (int k)) \<in> set auth"
      using that unfolding auth by (auto simp: in_set_enumerate_eq image_iff intro!: bexI [of _ "(k, rules ! k)"])
    then have "map_of auth (rule_name (rules ! k)) = Some (JNum (int k))"
      using assms(4) names by (simp add: map_of_is_SomeI)
    then show ?thesis by simp
  qed
  have "List.map_filter (\<lambda>k. let a = config (''auth_'' @ to_str (jget ?di ''index'') @ ''_'' @ to_str (jget (JObj auth) k)) c'
          in if truthy a then Some (jget a ''rules'') else None) (okeys auth) = rules"
  proof (rule map_filter_all)
    show "list_all2 (\<lambda>k r. (let a = config (''auth_'' @ to_str (jget ?di ''index'') @ ''_'' @ to_str (jget (JObj auth) k)) c'
          in if truthy a then Some (jget a ''rules'') else None) = Some r) (okeys auth) rules"
      unfolding names list_all2_conv_all_nth by (auto simp only: length_map nth_map num key conf' conf Let_def truthy.simps if_True)
        (simp_all add: conf)
  qed
  moreover have "c_dirinfo c' = ?di" by (simp add: c' put_dir_def set_kv_def)
  ultimately have "auth_rules c' = rules"
    by (simp only: auth_rules_def config_vget ix(2) Let_def for_keys.simps jkeys.simps)
  moreover have "vget (c_kv c') (JStr ''_'') (c_dir c) = c_dirinfo c'"
    using ix(3) by (simp add: c' put_dir_def set_kv_def vget_vput_same del: jset.simps)
  ultimately show ?thesis ..
qed

definition set_auth_call :: ctx where
  "set_auth_call = blank\<lparr>c_dir := JStr ''d'', c_dirinfo := JObj [(''index'', JNum 3)],
     c_data := JArr [JArr [JStr ''set'', JArr []], JArr [JStr ''del'', JArr []]]\<rparr>"

theorem set_auth_reads_back_witness:
  "\<exists>c'. dev_set_auth set_auth_call = Inr c' \<and>
     auth_rules c' = [JArr [JStr ''set'', JArr []], JArr [JStr ''del'', JArr []]]"
proof -
  have "\<exists>c'. dev_set_auth set_auth_call = Inr c'"
    by (simp add: set_auth_call_def blank_def dev_set_auth_def jprop_def set_rule_def auth_count_def Let_def)
  then obtain c' where c': "dev_set_auth set_auth_call = Inr c'" by blast
  have "auth_rules c' = [JArr [JStr ''set'', JArr []], JArr [JStr ''del'', JArr []]] \<and>
      vget (c_kv c') (JStr ''_'') (c_dir set_auth_call) = c_dirinfo c'"
    by (rule set_auth_reads_back [OF c', where di = "[(''index'', JNum 3)]"])
      (simp_all add: set_auth_call_def rule_name_def is_index_key_def is_digit_def)
  with c' show ?thesis by blast
qed

end
