(* ===== verification/Dev_State_Props.thy ===== *)
theory Dev_State_Props
  imports Dev_Auth_Props Dev_Props
begin

text \<open>
  The counters of the database: document ids, time stamps, directory numbers, trigger numbers; the versions a
  database accepts requests in; and what a write of a document stores.
\<close>

section \<open>Document ids\<close>

lemma free_id_free: "free_id n w dir i = Inr (j, s) \<Longrightarrow> i \<le> j \<and> tob64 j = Inr s \<and> \<not> truthy (vget w dir (JStr s))"
proof (induction n arbitrary: i)
  case (Suc n)
  then show ?case by (fastforce simp: rbind_Inr_iff split: if_splits)
qed simp

definition dir_record :: "ctx \<Rightarrow> jv" where
  "dir_record c = vget (c_kv c) (JStr ''_'') (c_dir c)"

definition autoid :: "jv \<Rightarrow> int" where
  "autoid d = (case jget d ''autoid'' of JNum i \<Rightarrow> i | _ \<Rightarrow> -1)"

text \<open>
  C22. A generated document id names no document of the directory, is the base-64 numeral of a counter
  above the last one, and that counter is kept in the directory's record: so ids of one directory never
  repeat, whatever is deleted in between.
\<close>

theorem genDocID_fresh:
  assumes "genDocID n c = Inr c'" and "dir_record c = JObj d" and "jget (JObj d) ''autoid'' = JNum k \<or> is_nil (jget (JObj d) ''autoid'')"
  shows "\<exists>j s. c_doc c' = JStr s \<and> tob64 j = Inr s \<and> autoid (JObj d) < j \<and> autoid (dir_record c') = j \<and>
     \<not> truthy (vget (c_kv c) (c_dir c) (JStr s))"
proof -
  let ?i = "if is_nil (jget (JObj d) ''autoid'') then 0 else k + 1"
  have start: "(if is_nil (jget (JObj d) ''autoid'') then JNum 0 else js_plus1 (jget (JObj d) ''autoid'')) = JNum ?i"
    using assms(3) by (auto simp: js_plus1_def)
  obtain j s where j: "free_id n (c_kv c) (c_dir c) ?i = Inr (j, s)"
    and c': "c' = c\<lparr>c_doc := JStr s, c_kv := vput (JStr ''_'') (c_dir c) (jset (JObj d) ''autoid'' (JNum j)) (c_kv c)\<rparr>"
    using assms(1) unfolding genDocID_def Let_def assms(2) [unfolded dir_record_def] start
    by (auto simp: rbind_Inr_iff)
  have "autoid (JObj d) < ?i" using assms(3) by (auto simp: autoid_def is_nil_def split: jv.splits simp del: jget.simps)
  moreover have "autoid (dir_record c') = j" by (simp add: c' dir_record_def vget_vput_same autoid_def)
  ultimately show ?thesis using free_id_free [OF j] c' by auto
qed

text \<open>
  C23. The search for a free id ends: in a directory where finitely many ids are taken there is a bound on
  the ids tried that the search never reaches.
\<close>

theorem genDocID_total:
  assumes "finite {i. \<exists>s. 0 \<le> i \<and> tob64 i = Inr s \<and> truthy (vget w dir (JStr s))}" and "0 \<le> i"
  shows "\<exists>n j s. \<forall>m. free_id (n + m) w dir i = Inr (j, s)"
proof -
  let ?used = "\<lambda>i. \<exists>s. 0 \<le> i \<and> tob64 i = Inr s \<and> truthy (vget w dir (JStr s))"
  have "\<exists>k. \<not> ?used (i + int k)"
  proof (rule ccontr)
    assume "\<nexists>k. \<not> ?used (i + int k)"
    then have "range (\<lambda>k. i + int k) \<subseteq> {i. ?used i}" by blast
    with assms(1) have "finite (range (\<lambda>k. i + int k))" by (rule finite_subset [rotated])
    then show False by (subst (asm) finite_image_iff) (auto simp: inj_on_def)
  qed
  then obtain k where "\<not> ?used (i + int k)" ..
  with assms(2) show ?thesis
  proof (induction k arbitrary: i)
    case 0
    obtain s where s: "tob64 i = Inr s" using tob64_value [OF 0(1)] by blast
    have "free_id (1 + m) w dir i = Inr (i, s)" for m using 0 s by simp
    then show ?case by blast
  next
    case (Suc k)
    obtain s where s: "tob64 i = Inr s" using tob64_value [OF Suc(2)] by blast
    show ?case
    proof (cases "truthy (vget w dir (JStr s))")
      case True
      obtain n j t where n: "\<And>m. free_id (n + m) w dir (i + 1) = Inr (j, t)"
        using Suc.IH [of "i + 1"] Suc.prems by (auto simp: algebra_simps)
      have "free_id (Suc n + m) w dir i = Inr (j, t)" for m using n s True by simp
      then show ?thesis by blast
    next
      case False
      have "free_id (1 + m) w dir i = Inr (i, s)" for m using False s by simp
      then show ?thesis by blast
    qed
  qed
qed

lemma vget_new [simp]: "vget (kv_new Map.empty) d k = JNull"
  by (simp add: vget_def dget_def)

definition add_call :: ctx where
  "add_call = blank\<lparr>c_dir := JStr ''d'', c_kv := vput (JStr ''_'') (JStr ''d'') (JObj []) (kv_new Map.empty)\<rparr>"

lemma add_call_gets: "\<exists>c'. genDocID 1 add_call = Inr c'"
proof -
  have "vget (c_kv add_call) (JStr ''d'') (JStr ''A'') = JNull"
    using vget_new [of "JStr ''d''" "JStr ''A''"]
    by (simp add: add_call_def vget_def vput_def dget_def dput_def wkv.get_put_other dkey_def)
  moreover have "tob64 0 = Inr ''A''" by (simp add: tob64_def BASE64_CHARS_def)
  ultimately show ?thesis
    by (simp add: genDocID_def add_call_def blank_def vget_vput_same lift_res_def Let_def)
qed

theorem genDocID_fresh_witness: "\<exists>c' j. genDocID 1 add_call = Inr c' \<and> -1 < j \<and> autoid (dir_record c') = j"
proof -
  obtain c' where c': "genDocID 1 add_call = Inr c'" using add_call_gets by blast
  have "dir_record add_call = JObj []" by (simp add: dir_record_def add_call_def vget_vput_same)
  from genDocID_fresh [OF c' this] c' show ?thesis by (auto simp: autoid_def)
qed

theorem genDocID_total_witness: "\<exists>m j s. free_id m (kv_new Map.empty) (JStr ''d'') 0 = Inr (j, s)"
proof -
  have "\<exists>n j s. \<forall>m. free_id (n + m) (kv_new Map.empty) (JStr ''d'') 0 = Inr (j, s)"
    by (rule genDocID_total) simp_all
  then show ?thesis by blast
qed

section \<open>Time stamps\<close>

text \<open>
  C24. The stamps of requests, 1000 times the time in milliseconds plus a count that starts anew with each
  millisecond, increase strictly as long as the clock does not step back and fewer than 1000 requests fall
  in one millisecond.
\<close>

lemma setTS64_stored:
  assumes "setTS64 c = Inr c'" and "jget (c_info c) ''ts'' = JNum t"
    and "vget (c_kv c') (JStr ''__ts__'') (JStr ''latest'') = JObj p" and "jget (JObj p) ''count'' = JNum k"
  shows "c_ts64 c' = JNum (t * 1000 + k) \<and> jget (JObj p) ''ts'' = JNum t"
proof -
  let ?old = "nullish (vget (c_kv c) (JStr ''__ts__'') (JStr ''latest'')) (JObj [(''count'', JNum (-1)), (''ts'', JNum t)])"
  let ?tc = "if js_eq (jget ?old ''ts'') (JNum t) then jset ?old ''count'' (js_plus1 (jget ?old ''count''))
             else jset (jset ?old ''count'' (JNum 0)) ''ts'' (JNum t)"
  obtain tc where tc: "tc = ?tc" by blast
  have c': "c' = c\<lparr>c_ts := JNum t, c_ts64 := ts64_of (JNum t) (jget tc ''count''),
      c_kv := vput (JStr ''__ts__'') (JStr ''latest'') tc (c_kv c)\<rparr>"
    using assms(1,2) unfolding tc by (auto simp: setTS64_def rbind_Inr_iff Let_def)
  have "\<not> is_nil tc" unfolding tc by (auto simp: nullish_def)
  then have p: "tc = JObj p" using assms(3) by (simp add: c' vget_vput_same)
  note tc = tc [unfolded p, symmetric]
  obtain q where "?old = JObj q" using tc by (cases ?old) (auto split: if_splits)
  with tc have "jget (JObj p) ''ts'' = JNum t" by (auto simp: js_eq_def split: if_splits)
  moreover have "c_ts64 c' = ts64_of (JNum t) (jget (JObj p) ''count'')" by (simp add: c' p)
  ultimately show ?thesis using assms(4) by (simp add: ts64_of_def)
qed

theorem ts64_increasing:
  assumes "setTS64 c = Inr c1" and "setTS64 c' = Inr c2"
    and "jget (c_info c) ''ts'' = JNum t" and "jget (c_info c') ''ts'' = JNum t'" and "t \<le> t'"
    and "vget (c_kv c1) (JStr ''__ts__'') (JStr ''latest'') = JObj p"
    and "vget (c_kv c') (JStr ''__ts__'') (JStr ''latest'') = JObj p"
    and "jget (JObj p) ''count'' = JNum k" and "k < 999"
  shows "\<exists>a b. c_ts64 c1 = JNum a \<and> c_ts64 c2 = JNum b \<and> a < b"
proof -
  have first: "c_ts64 c1 = JNum (t * 1000 + k)" "jget (JObj p) ''ts'' = JNum t"
    using setTS64_stored [OF assms(1,3,6,8)] by auto
  have "c_ts64 c2 = JNum (if t = t' then t' * 1000 + (k + 1) else t' * 1000)"
    using assms(2,4,7,8) first(2)
    by (auto simp: setTS64_def rbind_Inr_iff Let_def js_eq_def is_object_def js_plus1_def ts64_of_def simp del: jget.simps)
      (simp_all add: ts64_of_def js_plus1_def)
  with first(1) assms(5,9) show ?thesis by (cases "t = t'") auto
qed

definition ts_call :: ctx where
  "ts_call = blank\<lparr>c_info := JObj [(''ts'', JNum 5)]\<rparr>"

theorem ts64_increasing_witness:
  "\<exists>c1 c2 a b. setTS64 ts_call = Inr c1 \<and> setTS64 (ts_call\<lparr>c_kv := c_kv c1\<rparr>) = Inr c2 \<and>
     c_ts64 c1 = JNum a \<and> c_ts64 c2 = JNum b \<and> a < b"
proof -
  obtain c1 where c1: "setTS64 ts_call = Inr c1"
      "vget (c_kv c1) (JStr ''__ts__'') (JStr ''latest'') = JObj [(''count'', JNum 0), (''ts'', JNum 5)]"
    by (simp add: setTS64_def ts_call_def blank_def jprop_def js_eq_def is_object_def js_plus1_def Let_def vget_vput_same
        oput_def)
  obtain c2 where c2: "setTS64 (ts_call\<lparr>c_kv := c_kv c1\<rparr>) = Inr c2"
    by (simp add: setTS64_def ts_call_def blank_def jprop_def Let_def)
  have "\<exists>a b. c_ts64 c1 = JNum a \<and> c_ts64 c2 = JNum b \<and> a < b"
    by (rule ts64_increasing [OF c1(1) c2 _ _ _ c1(2), of 5 5 0]) (simp_all add: c1(2), simp_all add: ts_call_def)
  with c1(1) c2 show ?thesis by blast
qed

section \<open>Directories\<close>

lemma dir_record_put_config [simp]: "dir_record (put_config k v c) = dir_record c"
  by (simp add: dir_record_def put_config_def set_kv_def vget_def vput_def dget_def dput_def wkv.get_put_other
      dkey_eq_iff plain_def)

lemma dir_record_put_dir: "\<not> is_nil v \<Longrightarrow> dir_record (put_dir (c_dir c) v c) = v"
  by (simp add: dir_record_def put_dir_def set_kv_def vget_vput_same)

text \<open>
  C25. Directories get numbers of their own: \<open>mkdir\<close> refuses a name in use, gives the new directory the
  counter of the database and moves the counter on, so the next directory has the next number.
\<close>

theorem mkdir_numbers:
  assumes "dev_mkdir c = Inr c1" and "dev_mkdir c' = Inr c2"
    and "c_info c = JObj p" and "jget (JObj p) ''dirs'' = JNum k"
    and "c_info c' = JObj q" and "jget (JObj q) ''dirs'' = jget (config ''info'' c1) ''dirs''"
  shows "\<not> truthy (dir_record c) \<and> jget (dir_record c1) ''index'' = JNum k \<and>
     \<not> truthy (dir_record c') \<and> jget (dir_record c2) ''index'' = JNum (k + 1)"
proof -
  have mk: "\<not> truthy (dir_record c) \<and> jget (dir_record c1) ''index'' = JNum m \<and>
      jget (config ''info'' c1) ''dirs'' = JNum (m + 1)"
    if "dev_mkdir c = Inr c1" "c_info c = JObj r" "jget (JObj r) ''dirs'' = JNum m" for c c1 r m
  proof -
    let ?d = "put_dir (c_dir c) (JObj [(''index'', JNum m)]) c"
    have c1: "c1 = put_config ''info'' (jset (JObj r) ''dirs'' (JNum (m + 1)))
        (?d\<lparr>c_info := jset (JObj r) ''dirs'' (JNum (m + 1))\<rparr>)" and new: "\<not> truthy (dir_record c)"
      using that by (auto simp: dev_mkdir_def rbind_Inr_iff jprop_def fail_def dir_record_def put_info_def js_plus1_def
          split: if_splits)
    have "dir_record (?d\<lparr>c_info := i\<rparr>) = dir_record ?d" for i by (simp add: dir_record_def)
    then show ?thesis using new by (simp add: c1 dir_record_put_dir config_put_config)
  qed
  from mk [OF assms(1,3,4)] have one: "\<not> truthy (dir_record c)" "jget (dir_record c1) ''index'' = JNum k"
    "jget (JObj q) ''dirs'' = JNum (k + 1)" using assms(6) by auto
  from mk [OF assms(2,5) one(3)] one show ?thesis by blast
qed

definition mkdir_call :: ctx where
  "mkdir_call = blank\<lparr>c_dir := JStr ''a'', c_info := JObj [(''dirs'', JNum 3)]\<rparr>"

theorem mkdir_numbers_witness:
  "\<exists>c1 c2. dev_mkdir mkdir_call = Inr c1 \<and> dev_mkdir (c1\<lparr>c_dir := JStr ''b''\<rparr>) = Inr c2 \<and>
     jget (dir_record c1) ''index'' = JNum 3 \<and> jget (dir_record c2) ''index'' = JNum 4"
proof -
  let ?i = "JObj [(''dirs'', JNum 4)]"
  let ?d = "put_dir (JStr ''a'') (JObj [(''index'', JNum 3)]) mkdir_call"
  let ?c1 = "put_info ?i ?d"
  have new: "vget (c_kv ?d) (JStr ''_'') (JStr ''b'') = JNull"
    using vget_new [of "JStr ''_''" "JStr ''b''"]
    by (simp add: mkdir_call_def blank_def put_dir_def set_kv_def vget_def vput_def dget_def dput_def wkv.get_put_other dkey_def)
  have c1: "dev_mkdir mkdir_call = Inr ?c1"
    by (simp add: dev_mkdir_def mkdir_call_def blank_def jprop_def js_plus1_def oput_def)
  have info: "c_info ?c1 = ?i" "config ''info'' ?c1 = ?i"
    by (simp_all add: put_info_def config_put_config)
  have "vget (c_kv ?c1) (JStr ''_'') (JStr ''b'') = JNull"
    using new by (simp add: put_info_def put_config_def set_kv_def vget_def vput_def dget_def dput_def wkv.get_put_other dkey_def)
  then have "\<exists>c2. dev_mkdir (?c1\<lparr>c_dir := JStr ''b''\<rparr>) = Inr c2"
    by (simp add: dev_mkdir_def jprop_def info)
  then obtain c2 where c2: "dev_mkdir (?c1\<lparr>c_dir := JStr ''b''\<rparr>) = Inr c2" by blast
  from mkdir_numbers [OF c1 c2, of "[(''dirs'', JNum 3)]" 3 "[(''dirs'', JNum 4)]"] info c1 c2
  show ?thesis by (simp add: mkdir_call_def)
qed

section \<open>Triggers\<close>

definition trigger_record :: "jv \<Rightarrow> jv" where
  "trigger_record data =
     JObj [(''on'', jget data ''on''), (''fn'', jget data ''fn''), (''match'', nullish (jget data ''match'') (JStr ''all'')),
           (''fields'', nullish (jget data ''fields'') JNull)]"

lemma nat_to_string_0: "nat_to_string 0 = ''0''"
  by code_simp

lemma dev_add_trigger_Inr:
  assumes "dev_add_trigger c = Inr c'" and "c_dirinfo c = JObj di"
    and "nullish (jget (JObj di) ''triggers'') (JObj []) = JObj ts"
  shows "\<exists>di'. c_dirinfo c' = JObj di' \<and> jget (JObj di') ''index'' = jget (JObj di) ''index'' \<and>
     jget (JObj di') ''triggers'' = JObj (oput (to_str (jget (c_data c) ''key'')) (JNum 0) ts) \<and>
     config (''triggers_'' @ to_str (jget (JObj di) ''index'') @ ''_0'') c' = trigger_record (c_data c)"
proof -
  let ?ts = "JObj (oput (to_str (jget (c_data c) ''key'')) (JNum 0) ts)"
  let ?di = "oput ''triggers_index'' (JNum 0) (oput ''triggers'' ?ts di)"
  have c': "c' = put_config (trigger_key (JObj ?di) (JNum 0)) (trigger_record (c_data c))
      (put_dir (c_dir c) (JObj ?di) (c\<lparr>c_dirinfo := JObj ?di\<rparr>))"
    using assms by (auto simp: dev_add_trigger_def rbind_Inr_iff jprop_def Let_def trigger_record_def simp del: jget.simps)
  have key: "trigger_key (JObj ?di) (JNum 0) = ''triggers_'' @ to_str (jget (JObj di) ''index'') @ ''_0''"
    by (simp add: trigger_key_def int_to_string_def nat_to_string_0)
  have "c_dirinfo c' = JObj ?di" by (simp add: c' put_config_def put_dir_def set_kv_def)
  moreover have "config (trigger_key (JObj ?di) (JNum 0)) c' = trigger_record (c_data c)"
    by (simp add: c' config_put_config trigger_record_def)
  ultimately show ?thesis unfolding key by simp
qed

text \<open>
  Triggers of a directory share one slot: \<open>triggers_index\<close> always starts from \<open>-1\<close>, so the second
  trigger that is added replaces the first in the store, while both names stay; the directory then runs the
  second one twice.
\<close>

theorem add_trigger_collides:
  assumes "dev_add_trigger c = Inr c1" and "dev_add_trigger (c1\<lparr>c_data := data\<rparr>) = Inr c2"
    and "c_dirinfo c = JObj di" and "jget (JObj di) ''triggers'' = JUndef"
    and "k1 = to_str (jget (c_data c) ''key'')" and "k2 = to_str (jget data ''key'')" and "k1 \<noteq> k2"
  shows "dir_triggers c2 = Inr [trigger_record data, trigger_record data] \<and>
     (\<forall>k. \<not> is_nil (jget (jget (c_dirinfo c2) ''triggers'') k) \<longleftrightarrow> k \<in> {k1, k2})"
proof -
  have k1: "oput k1 (JNum 0) [] = [(k1, JNum 0)]" by (simp add: oput_def)
  obtain d1 where d1: "c_dirinfo c1 = JObj d1" "jget (JObj d1) ''index'' = jget (JObj di) ''index''"
      "jget (JObj d1) ''triggers'' = JObj [(k1, JNum 0)]"
    using dev_add_trigger_Inr [OF assms(1,3), of "[]"] assms(4,5) k1 by auto
  let ?ts = "oput k2 (JNum 0) [(k1, JNum 0)]"
  obtain d2 where d2: "c_dirinfo c2 = JObj d2" "jget (JObj d2) ''index'' = jget (JObj di) ''index''"
      "jget (JObj d2) ''triggers'' = JObj ?ts"
      "config (''triggers_'' @ to_str (jget (JObj di) ''index'') @ ''_0'') c2 = trigger_record data"
    using dev_add_trigger_Inr [OF assms(2), of d1 "[(k1, JNum 0)]"] d1 assms(6) by auto
  have two: "\<exists>a b. okeys ?ts = [a, b] \<and> map_of ?ts a = Some (JNum 0) \<and> map_of ?ts b = Some (JNum 0)"
    using assms(7) by (auto simp: oput_def)
  then obtain a b where ab: "okeys ?ts = [a, b]" "map_of ?ts a = Some (JNum 0)" "map_of ?ts b = Some (JNum 0)"
    by (elim exE conjE) (rule that)
  have "dir_triggers c2 = Inr [trigger_record data, trigger_record data]"
    using ab d2 unfolding dir_triggers_def d2(1) jprop_def
    by (simp add: int_to_string_def nat_to_string_0 del: map_of_oput fst_set_oput)
  moreover have "\<not> is_nil (jget (jget (c_dirinfo c2) ''triggers'') k) \<longleftrightarrow> k \<in> {k1, k2}" for k
    by (simp only: d2(1,3)) simp
  ultimately show ?thesis by blast
qed

definition trigger_data :: "string \<Rightarrow> jv" where
  "trigger_data key = JObj [(''key'', JStr key), (''on'', JStr ''create'')]"

definition trigger_call :: ctx where
  "trigger_call = blank\<lparr>c_dir := JStr ''d'', c_dirinfo := JObj [(''index'', JNum 3)], c_data := trigger_data ''a''\<rparr>"

theorem add_trigger_collides_witness:
  "\<exists>c1 c2. dev_add_trigger trigger_call = Inr c1 \<and> dev_add_trigger (c1\<lparr>c_data := trigger_data ''b''\<rparr>) = Inr c2 \<and>
     dir_triggers c2 = Inr [trigger_record (trigger_data ''b''), trigger_record (trigger_data ''b'')]"
proof -
  have ok: "check_trigger (trigger_data k) = Inr ()" if "k \<noteq> []" for k
    using that by (simp add: check_trigger_def trigger_data_def jprop_def as_str_def difference_def events_def)
  obtain c1 where c1: "dev_add_trigger trigger_call = Inr c1"
    by (simp add: dev_add_trigger_def trigger_call_def ok jprop_def Let_def)
  then have "\<exists>d. c_dirinfo c1 = JObj d"
    using dev_add_trigger_Inr [OF c1, of "[(''index'', JNum 3)]" "[]"] by (auto simp: trigger_call_def)
  then obtain c2 where c2: "dev_add_trigger (c1\<lparr>c_data := trigger_data ''b''\<rparr>) = Inr c2"
    by (auto simp: dev_add_trigger_def ok jprop_def Let_def)
  have "dir_triggers c2 = Inr [trigger_record (trigger_data ''b''), trigger_record (trigger_data ''b'')] \<and>
      (\<forall>k. \<not> is_nil (jget (jget (c_dirinfo c2) ''triggers'') k) \<longleftrightarrow> k \<in> {''a'', ''b''})"
    by (rule add_trigger_collides [OF c1 c2, of "[(''index'', JNum 3)]"]) (simp_all add: trigger_call_def trigger_data_def)
  with c1 c2 show ?thesis by blast
qed

section \<open>Versions\<close>

text \<open>
  The versions a database accepts. Once it is initialised with a version, a write is accepted exactly
  when no upgrade is in progress and the running version is the database's, or when an upgrade is in
  progress and the request is a \<open>revert\<close>, or a \<open>migrate\<close> run by the version upgraded to.
\<close>

theorem version_gate:
  assumes "truthy (jget (c_info c) ''id'')" and "jget (c_info c) ''version'' = JStr v" and "v \<noteq> []"
    and "c_version c = JStr m" and "m \<noteq> []" and "c_ignore_version c \<noteq> JBool True"
    and "c_opcode c = JStr op" and "op \<notin> {''get'', ''cget''}"
    and "upg = jget (c_info c) ''upgrading''" and "\<not> truthy upg \<or> (\<exists>u. upg = JStr u)"
  shows "dev_version c = Inr c \<longleftrightarrow>
     (if truthy upg
      then op = ''revert'' \<and> (m = v \<or> upg = JStr m) \<or> op = ''migrate'' \<and> m \<noteq> v \<and> upg = JStr m
      else m = v)"
proof -
  have "\<not> is_nil (c_info c)" using assms(1) by (cases "c_info c") simp_all
  then have "jprop (c_info c) ''id'' = Inr (jget (c_info c) ''id'')" by (simp add: jprop_def)
  then show ?thesis
    using assms by (auto simp: dev_version_def fail_def Let_def js_eq_def is_object_def)
qed

definition version_call :: ctx where
  "version_call = blank\<lparr>c_info := JObj [(''id'', JStr ''db''), (''version'', JStr ''0.1.0'')], c_version := JStr ''0.2.0'',
     c_opcode := JStr ''set''\<rparr>"

theorem version_gate_witness: "dev_version version_call \<noteq> Inr version_call"
  using version_gate [of version_call "''0.1.0''" "''0.2.0''" "''set''" JUndef]
  by (simp add: version_call_def blank_def)

section \<open>Documents\<close>

lemma put_doc_reads:
  assumes "plain dir" and "dir \<noteq> ''__indexes__''" and "\<not> is_nil data"
    and "put_doc n dir docid data create w = Inr w'"
  shows "dget w' dir docid = data"
  using assms(4) create_doc_reads [OF assms(1,2,3)] update_doc_reads [OF assms(3)]
  unfolding put_doc_def by (auto simp: Let_def rbind_Inr_iff split: if_splits)

lemma dev_schema_Inr:
  "dev_schema X c = Inr c' \<Longrightarrow>
   c' = c \<and> (\<exists>ix m. jprop (c_dirinfo c) ''index'' = Inr ix \<and>
     truthy (config (numbered ''schema_'' ix) c) \<and> x_validate X (c_data c) (config (numbered ''schema_'' ix) c) = Inr True \<and>
     (case to_num (jget (c_info c) ''max_doc_size'') of Some k \<Rightarrow> int (length (stringify (c_data c))) \<le> k * 20 | None \<Rightarrow> True))"
  by (auto simp: dev_schema_def rbind_Inr_iff fail_def Let_def jprop_def split: if_splits sum.splits option.splits)

text \<open>A write of a document, taken apart: the parsed request, what the rules leave of it, and the store before
  the triggers run.\<close>

definition put_ops :: "string list" where
  "put_ops = [''add'', ''set'', ''update'', ''upsert'']"

lemma put_op_cases:
  "op_in put_ops c \<longleftrightarrow> (\<exists>op \<in> {''add'', ''set'', ''update'', ''upsert''}. c_opcode c = JStr op)"
  by (auto simp: op_in_def put_ops_def split: jv.splits)

lemma put_op_plain:
  assumes "op_in put_ops c" and "c_opcode c' = c_opcode c"
  shows "\<not> op_in [''init'', ''batch''] c' \<and> \<not> op_in owner_ops c' \<and>
     \<not> op_in [''batch'', ''upgrade'', ''revert'', ''migrate'', ''init''] c'"
proof -
  obtain op where "op \<in> {''add'', ''set'', ''update'', ''upsert''}" "c_opcode c' = JStr op"
    using assms put_op_cases by force
  then show ?thesis by (auto simp: op_in_def owner_ops_def)
qed

lemma carry_out_put:
  assumes "carry_out X n c = Inr c'" and "op_in put_ops c"
  obtains c0 c1 c2 c3 where "dev_verify c = Inr c0" "dev_parse X n c0 = Inr c1" "dev_auth X c1 = Inr c2"
    "dev_schema X (c2\<lparr>c_branch := JStr ''put''\<rparr>) = Inr (c2\<lparr>c_branch := JStr ''put''\<rparr>)"
    "putData n (c2\<lparr>c_branch := JStr ''put''\<rparr>) = Inr c3" "dev_trigger X n c3 = Inr c'" "op_in put_ops c1" "op_in put_ops c2"
proof -
  obtain c0 c1 c2 c2' where V: "dev_verify c = Inr c0" and P: "dev_parse X n c0 = Inr c1" and A: "dev_auth X c1 = Inr c2"
    and W: "dev_write c2 = Inr c2'" and B: "match (Some pred) (branches X n) c2' = Inr c'"
    using assms(1) by (auto simp: carry_out_def rbind_Inr_iff)
  have "c_opcode c0 = c_opcode c"
    using V by (auto simp: dev_verify_def rbind_Inr_iff fail_def Let_def split: if_splits)
  then have op1: "op_in put_ops c1" using assms(2) dev_parse_head [OF P] by (simp add: op_in_def same_head_def)
  then have "permitted X c1 c2" "\<not> op_in [''init'', ''batch''] c1" "\<not> op_in owner_ops c1"
    using dev_auth_permitted [OF A] put_op_plain [OF _ refl] by blast+
  then have op2: "op_in put_ops c2" using op1 by (auto simp: permitted_def rule_allows_def op_in_def)
  then have "c2' = c2\<lparr>c_branch := JStr ''put''\<rparr>" using W by (auto simp: put_op_cases dev_write_def br_def)
  then have "ka_k [dev_schema X, putData n, dev_trigger X n] (c2\<lparr>c_branch := JStr ''put''\<rparr>) = Inr c'"
    using B by (simp add: branches_def pred_def)
  then obtain c4 c3 where S: "dev_schema X (c2\<lparr>c_branch := JStr ''put''\<rparr>) = Inr c4" and "putData n c4 = Inr c3" "dev_trigger X n c3 = Inr c'"
    by (auto simp: ka_k_def rbind_Inr_iff)
  moreover have "c4 = c2\<lparr>c_branch := JStr ''put''\<rparr>" using dev_schema_Inr [OF S] by blast
  ultimately show ?thesis using that V P A op1 op2 by blast
qed

text \<open>
  C15. What a write stores is valid. When a request of one of the four operations that put a document is
  carried out, the value its rules leave is validated against the schema of the very directory it names, is
  no longer than 20 times the size on record, and is what the document it names reads as when the triggers
  start. (What triggers write then is checked against the schema of the directory that fired them.)
\<close>

theorem put_valid_and_stored:
  assumes "carry_out X n c = Inr c'" and "op_in put_ops c" and "\<And>c0 c1. dev_verify c = Inr c0 \<Longrightarrow> dev_parse X n c0 = Inr c1 \<Longrightarrow> c_dir c1 = JStr dir"
    and "plain dir" and "dir \<notin> {[], ''__indexes__''}"
  shows "\<exists>c0 c1 c2 c3 doc ix. dev_verify c = Inr c0 \<and> dev_parse X n c0 = Inr c1 \<and> dev_auth X c1 = Inr c2 \<and>
     ix = jget (vget (c_kv c0) (JStr ''_'') (JStr dir)) ''index'' \<and>
     x_validate X (c_data c2) (config (numbered ''schema_'' ix) c2) = Inr True \<and>
     (case to_num (jget (c_info c2) ''max_doc_size'') of Some k \<Rightarrow> int (length (stringify (c_data c2))) \<le> k * 20 | None \<Rightarrow> True) \<and>
     putData n (c2\<lparr>c_branch := JStr ''put''\<rparr>) = Inr c3 \<and> c_doc c1 = JStr doc \<and>
     (is_nil (c_data c2) \<or> vget (c_kv c3) (JStr dir) (JStr doc) = c_data c2) \<and> dev_trigger X n c3 = Inr c'"
proof -
  from assms(1,2) obtain c0 c1 c2 c3 where V: "dev_verify c = Inr c0" and P: "dev_parse X n c0 = Inr c1" and A: "dev_auth X c1 = Inr c2"
    and S: "dev_schema X (c2\<lparr>c_branch := JStr ''put''\<rparr>) = Inr (c2\<lparr>c_branch := JStr ''put''\<rparr>)"
    and D: "putData n (c2\<lparr>c_branch := JStr ''put''\<rparr>) = Inr c3" and T: "dev_trigger X n c3 = Inr c'"
    and op: "op_in put_ops c1"
    by (rule carry_out_put)
  have op0: "c_opcode c0 = c_opcode c1" using dev_parse_head [OF P] by (simp add: same_head_def)
  have dir: "c_dir c1 = JStr dir" by (rule assms(3) [OF V P])
  have info: "c_dirinfo c1 = vget (c_kv c0) (JStr ''_'') (JStr dir) \<and> c_kv_dir c1 = Some dir"
    using dev_parse_dirinfo [OF P] put_op_plain [OF op op0] assms(5) dir by simp
  have "permitted X c1 c2" "\<not> op_in [''init'', ''batch''] c1" "\<not> op_in owner_ops c1"
    using dev_auth_permitted [OF A] put_op_plain [OF op refl] by blast+
  then obtain v w where c2: "c2 = c1\<lparr>c_data := v, c_kv := w\<rparr>" by (auto simp: permitted_def rule_allows_def)
  obtain doc w3 where doc: "c_doc c1 = JStr doc" and w3: "put_doc n dir doc v (is_nil (c_before c1)) w = Inr w3" "c_kv c3 = w3"
    using D info by (auto simp: c2 putData_def rbind_Inr_iff kv_dir_name_def as_str_def need_dir_def set_kv_def fail_def
        split: if_splits jv.splits)
  have "vget w3 (JStr dir) (JStr doc) = v" if "\<not> is_nil v"
    using put_doc_reads [OF assms(4) _ that w3(1)] assms(5) by (simp add: vget_def)
  with V P A T D doc w3(2) info dev_schema_Inr [OF S] show ?thesis unfolding c2
    by (auto simp: config_def jprop_def split: if_splits cong: option.case_cong)
qed

text \<open>Packages that accept every document and compute nothing.\<close>

definition lax_ext :: ext where
  "lax_ext = \<lparr>x_sha256 = \<lambda>b. [], x_eval = \<lambda>e v. Inr (e, v), x_validate = \<lambda>v s. Inr True, x_structured = \<lambda>v. Inr v,
     x_hmacid = \<lambda>v. Inr [], x_rsaid = \<lambda>v. Inr [], x_pubkey = \<lambda>v. Inr [], x_id = \<lambda>v. Inr [], x_hashpath = \<lambda>a b. Inr a,
     x_buffer = \<lambda>s e. Inr [], x_now = 0\<rparr>"

text \<open>A rule that allows at once lets the request through as it is.\<close>

lemma allowed_as_is:
  assumes "\<not> op_in [''init'', ''batch''] c" and "\<not> op_in owner_ops c" and "\<not> is_nil (c_info c)" and "\<not> is_nil (c_dirinfo c)"
    and "private_dir (c_dir c) = Inr priv" and "pick_rule (c_op c) (auth_rules c) = Inr (Some rule)"
    and "jget rule ''1'' = JArr [verdict True]"
  shows "dev_auth X c = Inr c"
proof -
  have "fpj (x_eval X) (auth_fns X priv) (JArr [verdict True]) (auth_start c) = Inr (allow_set True (auth_start c))"
    by (simp add: fpj_def as_list_def cmd_verdict)
  then show ?thesis using assms
    by (simp add: dev_auth_def default_auth_def allow_set_def auth_start_def split_def auth_vars_def)
qed

text \<open>A directory \<open>a\<close> with a schema and one rule, a request that puts an empty document into it, and that
  request once it is parsed.\<close>

definition put_store :: "(string \<times> jv) list" where
  "put_store =
     [(dkey ''_'' ''a'', JObj [(''index'', JNum 3), (''auth'', JObj [(''set'', JNum 0)])]),
      (dkey ''_config'' ''auth_3_0'', JObj [(''rules'', JArr [JStr ''set'', JArr [verdict True]])]),
      (dkey ''_config'' ''schema_3'', JObj [(''type'', JStr ''object'')]),
      (dkey ''_config'' ''info'', JObj [(''max_doc_id'', JNum 168)])]"

definition put_kv :: "(string \<times> jv) list \<Rightarrow> wkv" where
  "put_kv l = (kv_new Map.empty)\<lparr>kv_l := put_store @ l\<rparr>"

definition put_request :: ctx where
  "put_request = blank\<lparr>c_op := JStr ''set'', c_opcode := JStr ''set'', c_query := JArr [JStr ''set'', JObj [], JStr ''a'', JStr ''1''],
     c_signer := JStr ''s'', c_nonce := JNum 1, c_info := JObj [(''max_doc_size'', JNum 256)], c_kv := put_kv []\<rparr>"

definition put_account :: "(string \<times> jv) list" where
  "put_account = [(dkey ''_accounts'' ''s'', JObj [(''nonce'', JNum 1)])]"

definition put_parsed :: ctx where
  "put_parsed = put_request\<lparr>c_query := JArr [JObj [], JStr ''a'', JStr ''1''], c_dir := JStr ''a'', c_doc := JStr ''1'', c_data := JObj [],
     c_before := JNull, c_kv_dir := Some ''a'', c_dirinfo := JObj [(''index'', JNum 3), (''auth'', JObj [(''set'', JNum 0)])],
     c_kv := put_kv put_account\<rparr>"

lemma put_numbers: "int_to_string 3 = ''3''" "int_to_string 0 = ''0''"
  by code_simp+

lemma put_indexes: "is_index_key ''0''" "is_index_key ''1''" "digits_val ''0'' = 0" "digits_val ''1'' = 1"
  by (simp_all add: is_index_key_def is_digit_def digits_val_def digit_val_def)

lemma put_read: "kv_get (put_kv l) k = nullish (opt_jv (map_of (put_store @ l) k)) JNull"
  by (simp add: put_kv_def kv_get_def kv_new_def sget_def Let_def)

lemma put_reads:
  "vget (put_kv l) (JStr ''_'') (JStr ''a'') = JObj [(''index'', JNum 3), (''auth'', JObj [(''set'', JNum 0)])]"
  "vget (put_kv l) (JStr ''_config'') (JStr ''auth_3_0'') = JObj [(''rules'', JArr [JStr ''set'', JArr [verdict True]])]"
  "vget (put_kv l) (JStr ''_config'') (JStr ''schema_3'') = JObj [(''type'', JStr ''object'')]"
  "vget (put_kv []) (JStr ''_accounts'') (JStr ''s'') = JNull" "vget (put_kv put_account) (JStr ''a'') (JStr ''1'') = JNull"
  by (simp_all add: vget_def dget_def dkey_eq_iff plain_def put_read put_store_def put_account_def)

lemma put_doc_id: "checkDocID (JStr ''1'') (put_kv put_account) = Inr ()"
  by code_simp

lemma put_admitted: "dev_verify put_request = Inr (put_request\<lparr>c_kv := put_kv put_account\<rparr>)"
proof -
  have "oput (dkey ''_accounts'' ''s'') (JObj (spread (JObj [(''nonce'', JNum 1)]) (spread JNull []))) put_store = put_store @ put_account"
    by code_simp
  then show ?thesis
    by (simp add: put_request_def blank_def dev_verify_def dev_version_def nonce_ok_def next_nonce_def js_plus1_def put_reads
        lift_res_def jprop_def Let_def vput_def dput_def kv_put_def) (simp add: put_kv_def)
qed

lemma put_parse: "dev_parse lax_ext 5 (put_request\<lparr>c_kv := put_kv put_account\<rparr>) = Inr put_parsed"
  by (simp add: put_parsed_def put_request_def dev_parse_def shift_query_def op_in_def parse_query_def with_doc_def parser_step_def
      query_dir_def put_doc_id put_reads jidx_def lift_res_def setData_def need_dir_def merge_def merge_fields_def fields_def
      Request.fields_def uniq_def set_first_def Let_def)

lemma put_allowed: "dev_auth lax_ext put_parsed = Inr put_parsed"
proof -
  have rules: "auth_rules put_parsed = [JArr [JStr ''set'', JArr [verdict True]]]"
    by (simp add: auth_rules_def put_parsed_def put_request_def put_reads put_numbers Let_def List.map_filter_def)
  show ?thesis
    by (rule allowed_as_is [where priv = False and rule = "JArr [JStr ''set'', JArr [verdict True]]"])
      (simp_all add: rules, simp_all add: put_parsed_def put_request_def op_in_def owner_ops_def private_dir_def jprop_def put_indexes
        as_str_def split_on_no_sep)
qed

lemma put_schema: "dev_schema lax_ext (put_parsed\<lparr>c_branch := b\<rparr>) = Inr (put_parsed\<lparr>c_branch := b\<rparr>)"
  by (simp add: dev_schema_def put_parsed_def put_request_def lift_res_def jprop_def Let_def put_reads put_numbers numbered_def lax_ext_def config_def)

abbreviation put_ready :: ctx where
  "put_ready \<equiv> put_parsed\<lparr>c_branch := JStr ''put''\<rparr>"

lemma put_data: "\<exists>w. putData 5 put_ready = Inr (set_kv w put_ready)"
proof -
  have get: "kv_get (put_kv put_account) (dkey d k) = JNull" if "d \<notin> {''_'', ''_config'', ''_accounts''}" "plain d" for d k
    using that by (simp add: put_read put_store_def put_account_def dkey_eq_iff plain_def)
  have "\<exists>w. put_doc (Suc 4) ''a'' ''1'' (JObj []) True (put_kv put_account) = Inr w"
    by (rule first_doc_in) (simp_all add: ix_get_def ikey_def dget_def get plain_def)
  then show ?thesis
    by (auto simp: putData_def need_dir_def kv_dir_name_def as_str_def put_parsed_def put_reads)
qed

lemma put_untriggered: "dev_trigger lax_ext 5 (set_kv w put_ready) = Inr (set_kv w put_ready)"
  by (simp add: dev_trigger_def put_parsed_def put_request_def trigger_mod_def set_kv_def lift_res_def dir_triggers_def jprop_def Let_def)

lemma put_runs: "putData 5 put_ready = Inr (set_kv w put_ready) \<Longrightarrow> carry_out lax_ext 5 put_request = Inr (set_kv w put_ready)"
proof -
  assume put: "putData 5 put_ready = Inr (set_kv w put_ready)"
  have "dev_write put_parsed = Inr put_ready" by (simp add: dev_write_def br_def put_parsed_def put_request_def)
  moreover have "match (Some pred) (branches lax_ext 5) put_ready = Inr (set_kv w put_ready)"
    by (simp add: branches_def pred_def ka_k_def put_schema put put_untriggered)
  ultimately show ?thesis by (simp add: carry_out_def put_admitted put_parse put_allowed)
qed

theorem put_valid_and_stored_witness:
  "\<exists>c' c3. carry_out lax_ext 5 put_request = Inr c' \<and> vget (c_kv c3) (JStr ''a'') (JStr ''1'') = JObj [] \<and>
     dev_trigger lax_ext 5 c3 = Inr c'"
proof -
  obtain w where run: "carry_out lax_ext 5 put_request = Inr (set_kv w put_ready)" using put_data put_runs by blast
  have dir: "c_dir c1 = JStr ''a''" if "dev_verify put_request = Inr c0" "dev_parse lax_ext 5 c0 = Inr c1" for c0 c1
    using that by (auto simp: put_admitted put_parse) (simp add: put_parsed_def)
  have "\<exists>c0 c1 c2 c3 doc ix. dev_verify put_request = Inr c0 \<and> dev_parse lax_ext 5 c0 = Inr c1 \<and> dev_auth lax_ext c1 = Inr c2 \<and>
     ix = jget (vget (c_kv c0) (JStr ''_'') (JStr ''a'')) ''index'' \<and>
     x_validate lax_ext (c_data c2) (config (numbered ''schema_'' ix) c2) = Inr True \<and>
     (case to_num (jget (c_info c2) ''max_doc_size'') of Some k \<Rightarrow> int (length (stringify (c_data c2))) \<le> k * 20 | None \<Rightarrow> True) \<and>
     putData 5 (c2\<lparr>c_branch := JStr ''put''\<rparr>) = Inr c3 \<and> c_doc c1 = JStr doc \<and>
     (is_nil (c_data c2) \<or> vget (c_kv c3) (JStr ''a'') (JStr doc) = c_data c2) \<and> dev_trigger lax_ext 5 c3 = Inr (set_kv w put_ready)"
    by (rule put_valid_and_stored [OF run _ dir]) (simp_all add: put_request_def op_in_def put_ops_def plain_def)
  then obtain c0 c1 c2 c3 doc where "dev_verify put_request = Inr c0" "dev_parse lax_ext 5 c0 = Inr c1" "dev_auth lax_ext c1 = Inr c2"
      "c_doc c1 = JStr doc" and v: "is_nil (c_data c2) \<or> vget (c_kv c3) (JStr ''a'') (JStr doc) = c_data c2"
      and t: "dev_trigger lax_ext 5 c3 = Inr (set_kv w put_ready)"
    by (elim exE conjE) (rule that)
  then have "c2 = put_parsed" "JStr doc = c_doc put_parsed" by (auto simp: put_admitted put_parse put_allowed)
  then have "vget (c_kv c3) (JStr ''a'') (JStr ''1'') = JObj []" using v by (simp add: put_parsed_def)
  with run t show ?thesis by blast
qed

end
