(* ===== verification/Parser.thy ===== *)
theory Parser
  imports Indexer Fpjson
begin

text \<open>
  The query language, \<open>core/src/parser.js\<close>: a query is a path of strings and options, \<open>[field, op, value]\<close>,
  \<open>[field, direction]\<close>, bounds, cursors and a limit; \<open>parseQuery\<close> turns it into the ranges of an index.
  A clause is the list of its entries. Two objects are never the same field (\<open>!==\<close>), and the lists of \<open>in\<close>
  and \<open>not-in\<close> hold numbers or strings, which \<open>sort\<close> orders in one way.
\<close>

section \<open>Parsed queries\<close>

type_synonym clause = "jv list"

record subq =
  sq_opt :: ropt
  sq_prefix :: "string option"

datatype qtype = QNone | QRange | QRanges | QPranges

record pquery =
  pq_path :: "string list"
  pq_limit :: int
  pq_start :: "clause option"
  pq_end :: "clause option"
  pq_startCursor :: "clause option"
  pq_endCursor :: "clause option"
  pq_sort :: "clause list"
  pq_rev_start :: bool
  pq_rev_end :: bool
  pq_array :: "clause option"
  pq_equals :: "clause list"
  pq_range :: "clause list option"
  pq_sortByTail :: bool
  pq_queries :: "subq list"
  pq_type :: qtype
  pq_sortRange :: bool

section \<open>The options one by one: \<open>parser\<close>\<close>

text \<open>The local variables. A bound is the clause and whether it is a cursor: at most one of the four
  variables of a side is ever set. \<open>ps_filter\<close> holds the filters other than \<open>==\<close> and \<open>range\<close>.\<close>

record pst =
  ps_limit :: "int option"
  ps_start :: "(clause \<times> bool) option"
  ps_end :: "(clause \<times> bool) option"
  ps_eq :: "clause list"
  ps_keys :: "string list"
  ps_range :: "clause list"
  ps_ops :: "string list"
  ps_field :: jv
  ps_filter :: "(string \<times> clause) list"
  ps_sort :: "clause list"

definition pst0 :: pst where
  "pst0 = \<lparr>ps_limit = None, ps_start = None, ps_end = None, ps_eq = [], ps_keys = [], ps_range = [], ps_ops = [],
           ps_field = JNull, ps_filter = [], ps_sort = []\<rparr>"

definition has_filter :: "string list \<Rightarrow> pst \<Rightarrow> bool" where
  "has_filter ops s \<longleftrightarrow> list_ex (\<lambda>o'. map_of (ps_filter s) o' \<noteq> None) ops"

definition inequities :: "string list" where
  "inequities = [''!='', ''in'', ''not-in'']"

text \<open>A bound; a cursor gets the id of its document.\<close>

definition parse_bound :: "clause \<Rightarrow> (clause \<times> bool) res" where
  "parse_bound v =
     (if length v \<le> 1 then Inl (Err ''startAt has no value'')
      else rbind (jprop (v ! 1) ''__cursor__'') (\<lambda>c.
        if truthy c then
          rbind (let d = jget (v ! 1) ''data'' in
                 if is_nil d then Inl type_err else assign_prop d ''__id__'' (jget (v ! 1) ''id'')) (\<lambda>d.
            Inr (v[1 := jset (v ! 1) ''data'' d], True))
        else Inr (v, False)))"

definition clash :: "string \<Rightarrow> pst \<Rightarrow> bool" where
  "clash op s \<longleftrightarrow>
     op \<in> set (ps_ops s) \<or>
     op = ''>'' \<and> ''>='' \<in> set (ps_ops s) \<or> op = ''>='' \<and> ''>'' \<in> set (ps_ops s) \<or>
     op = ''<'' \<and> ''<='' \<in> set (ps_ops s) \<or> op = ''<='' \<and> ''<'' \<in> set (ps_ops s)"

definition parse_where :: "pst \<Rightarrow> string \<Rightarrow> clause \<Rightarrow> pst res" where
  "parse_where s op v =
     (if op \<in> {''array-contains'', ''array-contains-any''} then
        (if has_filter [''array-contains'', ''array-contains-any''] s
           then Inl (Err ''only one array-contains/array-contains-any is allowed'')
         else if op = ''array-contains-any'' \<and> \<not> is_arr (v ! 2) then Inl (Err ''array-contains-any must be an array'')
         else Inr (s\<lparr>ps_filter := oput op v (ps_filter s)\<rparr>))
      else if op \<in> {''>'', ''>='', ''<'', ''<=''} then
        (if has_filter inequities s then Inl (Err ''only one inequity is allowed'')
         else if \<not> is_nil (ps_field s) \<and> \<not> js_eq (ps_field s) (v ! 0) then Inl (Err ''inequity has to be on the same field'')
         else if clash op s then Inl (Err ''duplicate inequity'')
         else Inr (s\<lparr>ps_range := ps_range s @ [v], ps_field := v ! 0, ps_ops := op # ps_ops s\<rparr>))
      else if op \<in> set inequities then
        (if op \<in> {''in'', ''not-in''} \<and> \<not> is_arr (v ! 2) then Inl (Err ''in must be an array'')
         else if ps_range s \<noteq> [] \<or> has_filter inequities s then Inl (Err ''only one inequity is allowed'')
         else Inr (s\<lparr>ps_filter := oput op v (ps_filter s)\<rparr>))
      else if op = ''=='' then
        (if ps_range s \<noteq> [] \<or> has_filter inequities s then Inl (Err ''== must come before inequity'')
         else if to_str (v ! 0) \<in> set (ps_keys s) then Inl (Err ''only one == per field is allowed'')
         else Inr (s\<lparr>ps_eq := ps_eq s @ [v], ps_keys := to_str (v ! 0) # ps_keys s\<rparr>))
      else Inl (Err ''The wrong where operant''))"

definition parse_clause :: "pst \<Rightarrow> clause \<Rightarrow> pst res" where
  "parse_clause s v =
     (if v = [] then Inl (Err ''empty query option []'')
      else if v ! 0 \<in> {JStr ''startAt'', JStr ''startAfter''} then
        (if ps_start s \<noteq> None then Inl (Err ''only one startAt/startAfter is allowed'')
         else rbind (parse_bound v) (\<lambda>b. Inr (s\<lparr>ps_start := Some b\<rparr>)))
      else if v ! 0 \<in> {JStr ''endAt'', JStr ''endBefore''} then
        (if ps_end s \<noteq> None then Inl (Err ''only one endAt/endBefore is allowed'')
         else rbind (parse_bound v) (\<lambda>b. Inr (s\<lparr>ps_end := Some b\<rparr>)))
      else if length v = 3 then
        (case v ! 1 of JStr op \<Rightarrow> parse_where s op v | _ \<Rightarrow> Inl (Err ''The wrong where operant''))
      else if length v = 2 then
        (if v ! 1 \<in> {JStr ''asc'', JStr ''desc''} then Inr (s\<lparr>ps_sort := ps_sort s @ [v]\<rparr>)
         else Inl (Err ''sort order must be either asc or desc''))
      else if length v = 1 then Inr (s\<lparr>ps_sort := ps_sort s @ [v @ [JStr ''asc'']]\<rparr>)
      else Inl (Err ''unknown query option''))"

definition parse_option :: "pst \<Rightarrow> jv \<Rightarrow> pst res" where
  "parse_option s v =
     (case v of
        JNum n \<Rightarrow>
          (if ps_limit s \<noteq> None then Inl (Err ''only one limit is allowed'')
           else if n > 1000 then Inl (Err ''limit cannot be above 1000'')
           else if n < 1 then Inl (Err ''limit must be a natural number'')
           else Inr (s\<lparr>ps_limit := Some n\<rparr>))
      | JArr xs \<Rightarrow> parse_clause s xs
      | _ \<Rightarrow> Inl (Err ''unknown query''))"

text \<open>The bound of one side that is, or is not, a cursor.\<close>

definition side :: "bool \<Rightarrow> (clause \<times> bool) option \<Rightarrow> clause option" where
  "side cursor m = (case m of Some (v, b) \<Rightarrow> if b = cursor then Some v else None | None \<Rightarrow> None)"

definition the_range :: "pst \<Rightarrow> clause list option" where
  "the_range s =
     (if ps_range s \<noteq> [] then Some (ps_range s)
      else case map_of (ps_filter s) ''in'' of Some v \<Rightarrow> Some [v]
      | None \<Rightarrow> (case map_of (ps_filter s) ''not-in'' of Some v \<Rightarrow> Some [v]
      | None \<Rightarrow> map_option (\<lambda>v. [v]) (map_of (ps_filter s) ''!='')))"

definition query_of :: "string list \<Rightarrow> pst \<Rightarrow> pquery" where
  "query_of path s =
     \<lparr>pq_path = path, pq_limit = (case ps_limit s of None \<Rightarrow> 1000 | Some n \<Rightarrow> n),
      pq_start = side False (ps_start s), pq_end = side False (ps_end s),
      pq_startCursor = side True (ps_start s), pq_endCursor = side True (ps_end s),
      pq_sort = ps_sort s, pq_rev_start = False, pq_rev_end = False,
      pq_array = (case map_of (ps_filter s) ''array-contains'' of Some v \<Rightarrow> Some v
                  | None \<Rightarrow> map_of (ps_filter s) ''array-contains-any''),
      pq_equals = ps_eq s, pq_range = the_range s, pq_sortByTail = False,
      pq_queries = [], pq_type = QNone, pq_sortRange = False\<rparr>"

definition parser :: "jv list \<Rightarrow> pquery res" where
  "parser query =
     (let path = map to_str (takeWhile is_str query) in
      if path = [] then Inl (Err ''the wrong path'')
      else rbind (rfoldl parse_option pst0 (dropWhile is_str query)) (\<lambda>s. Inr (query_of path s)))"

section \<open>The order: \<open>checkSort\<close>\<close>

definition wrong_sort :: js_error where
  "wrong_sort = Err ''the wrong sort ''"

text \<open>The sort fields that have a \<open>==\<close> come first.\<close>

definition eq_first :: "jv list \<Rightarrow> jv list \<Rightarrow> bool" where
  "eq_first eq_keys qkeys \<longleftrightarrow>
     list_all (\<lambda>k. \<not> jmem k eq_keys) (dropWhile (\<lambda>k. jmem k eq_keys) qkeys)"

text \<open>\<open>indexOf(prop(0), q.sort)\<close> looks for a function and is \<open>-1\<close>: the directions given for fields with
  \<open>==\<close> are dropped, and \<open>asc\<close> stands in their place.\<close>

definition asc :: "jv \<Rightarrow> clause" where
  "asc k = [k, JStr ''asc'']"

definition sort_equals :: "pquery \<Rightarrow> (clause list \<times> clause list) res" where
  "sort_equals q =
     (if pq_equals q = [] then Inr ([], pq_sort q)
      else let eq_keys = map hd (pq_equals q); qkeys = map hd (pq_sort q) in
        if \<not> eq_first eq_keys qkeys then Inl wrong_sort
        else Inr (map asc eq_keys, map asc eq_keys @ drop (length (jintersection eq_keys qkeys)) (pq_sort q)))"

text \<open>The field of an inequity comes next. The result is \<open>sort\<close>, \<open>q.sort\<close> and \<open>q.sortByTail\<close>.\<close>

definition sort_range :: "pquery \<Rightarrow> clause list \<Rightarrow> clause list \<Rightarrow> (clause list \<times> clause list \<times> bool) res" where
  "sort_range q srt qsort =
     (let next = length srt; rng = (case pq_range q of Some (v # _) \<Rightarrow> v | _ \<Rightarrow> []); f = jidx rng 0; op = jidx rng 1 in
      if is_nil f then Inr (srt, qsort, False)
      else
        rbind (if length qsort = next \<or> op = JStr ''in'' then Inr (srt @ [[f]])
               else if next < length qsort \<and> \<not> js_eq f (hd (qsort ! next)) then Inl (Err ''the sort field must be'')
               else Inr srt) (\<lambda>sort1.
          let qkeys = map hd qsort in
          if op \<in> JStr ` set inequities \<and> qkeys \<noteq> [] \<and> \<not> js_eq (jidx qkeys next) f then
            (if jmem f qkeys then Inl wrong_sort
             else Inr (sort1, take (length (pq_equals q)) qsort @ [asc f] @ drop (length (pq_equals q)) qsort, True))
          else Inr (sort1, qsort, False)))"

text \<open>One step of the last loop of \<open>checkSort\<close>, on the \<open>i\<close>-th field given.\<close>

definition merge_sort_field :: "clause list \<Rightarrow> nat \<times> clause \<Rightarrow> clause list res" where
  "merge_sort_field srt iv =
     (case iv of (i, v) \<Rightarrow>
        if i \<ge> length srt then Inr (srt @ [v])
        else let u = srt ! i in
          if js_eq (hd u) (hd v) then
            (if \<not> is_nil (jidx u 1) \<and> \<not> is_nil (jidx v 1) \<and> \<not> js_eq (jidx u 1) (jidx v 1) then Inl wrong_sort
             else Inr (if is_nil (jidx u 1) \<and> \<not> is_nil (jidx v 1) then srt[i := [hd u, jidx v 1]] else srt))
          else Inl wrong_sort)"

definition checkSort :: "pquery \<Rightarrow> pquery res" where
  "checkSort q =
     rbind (sort_equals q) (\<lambda>(srt, qsort).
     rbind (sort_range q srt qsort) (\<lambda>(sort1, qsort1, by_tail).
     rbind (rfoldl merge_sort_field sort1 (enumerate 0 qsort1)) (\<lambda>sort2.
       Inr (q\<lparr>pq_sort := map (\<lambda>v. if is_nil (jidx v 1) then asc (hd v) else v) sort2,
              pq_sortByTail := by_tail \<or> pq_sortByTail q\<rparr>))))"

section \<open>The bounds: \<open>checkStartEnd\<close>\<close>

text \<open>\<open>side ??= [name]; side[1] ??= {}; side[1][k] = v\<close>, where \<open>weak\<close> is the name that \<open>name\<close> replaces.\<close>

definition set_bound :: "string \<Rightarrow> string list \<Rightarrow> jv \<Rightarrow> jv \<Rightarrow> clause option \<Rightarrow> clause option" where
  "set_bound name weak k v m =
     (let c = (case m of None \<Rightarrow> [JStr name] | Some xs \<Rightarrow> xs);
          op = (if hd c \<in> JStr ` set weak then JStr name else hd c);
          o' = (if is_nil (jidx c 1) then JObj [] else jidx c 1)
      in Some [op, jset o' (to_str k) v])"

text \<open>A given bound \<open>[name, v...]\<close> takes its fields from the order.\<close>

definition bound_fields :: "clause list \<Rightarrow> clause \<Rightarrow> clause res" where
  "bound_fields srt b =
     rbind (rfoldl (\<lambda>o' (i, v). if i \<ge> length srt then Inl (Err ''sort must exist for '')
                              else Inr (jset o' (to_str (hd (srt ! i))) v))
              (JObj []) (enumerate 0 (tl b))) (\<lambda>o'. Inr [hd b, o'])"

definition range_bound :: "pquery \<Rightarrow> clause \<Rightarrow> pquery" where
  "range_bound q v =
     (let k = jidx v 0; x = jidx v 2 in
      if jidx v 1 = JStr ''<'' then q\<lparr>pq_end := set_bound ''endBefore'' [''endAt''] k x (pq_end q), pq_rev_end := True\<rparr>
      else if jidx v 1 = JStr ''<='' then q\<lparr>pq_end := set_bound ''endAt'' [] k x (pq_end q), pq_rev_end := True\<rparr>
      else if jidx v 1 = JStr ''>'' then q\<lparr>pq_start := set_bound ''startAfter'' [''startAt''] k x (pq_start q), pq_rev_start := True\<rparr>
      else if jidx v 1 = JStr ''>='' then q\<lparr>pq_start := set_bound ''startAt'' [] k x (pq_start q), pq_rev_start := True\<rparr>
      else q)"

text \<open>\<open>else if (!isNil(q.end))\<close>: with a start the end is not looked at, and is dropped.\<close>

definition checkStartEnd :: "pquery \<Rightarrow> pquery res" where
  "checkStartEnd q =
     (let given = pq_start q \<noteq> None \<or> pq_end q \<noteq> None in
      if pq_equals q \<noteq> [] \<and> (case pq_range q of Some (v # _) \<Rightarrow> jmem (jidx v 0) (map hd (pq_equals q)) | _ \<Rightarrow> False)
        then Inl (Err ''== and range field must be different'')
      else if given \<and> (pq_equals q \<noteq> [] \<or> pq_range q \<noteq> None) then Inl (Err ''range cannot be used with ==/inequity'')
      else if given then
        (case pq_start q of
           Some b \<Rightarrow> rbind (bound_fields (pq_sort q) b) (\<lambda>c. Inr (q\<lparr>pq_start := Some c, pq_end := None\<rparr>))
         | None \<Rightarrow>
             (case pq_end q of
                Some b \<Rightarrow> rbind (bound_fields (pq_sort q) b) (\<lambda>c. Inr (q\<lparr>pq_start := None, pq_end := Some c\<rparr>))
              | None \<Rightarrow> Inr q))
      else
        (let q1 = foldl (\<lambda>q v. q\<lparr>pq_start := set_bound ''startAt'' [] (jidx v 0) (jidx v 2) (pq_start q),
                                 pq_end := set_bound ''endAt'' [] (jidx v 0) (jidx v 2) (pq_end q)\<rparr>) q (pq_equals q)
         in Inr (foldl range_bound q1 (case pq_range q of None \<Rightarrow> [] | Some vs \<Rightarrow> vs))))"

section \<open>The ranges: \<open>buildQueries\<close>\<close>

text \<open>\<open>opt[b[0]] = b[1]\<close> for a bound that is given.\<close>

definition opt_bound :: "clause option \<Rightarrow> ropt \<Rightarrow> ropt" where
  "opt_bound m opt =
     (case m of
        None \<Rightarrow> opt
      | Some b \<Rightarrow>
          (let v = jidx b 1 in
           if hd b = JStr ''startAt'' then opt\<lparr>ro_startAt := v\<rparr>
           else if hd b = JStr ''startAfter'' then opt\<lparr>ro_startAfter := v\<rparr>
           else if hd b = JStr ''endAt'' then opt\<lparr>ro_endAt := v\<rparr>
           else opt\<lparr>ro_endBefore := v\<rparr>))"

definition with_limit :: "pquery \<Rightarrow> ropt" where
  "with_limit q = no_opt\<lparr>ro_limit := Some (pq_limit q)\<rparr>"

text \<open>\<open>b = clone(b) ?? [name]; b[1] ??= {}; b[1][k] = v\<close>: the object of the bound.\<close>

definition bound_obj :: "jv \<Rightarrow> jv \<Rightarrow> clause option \<Rightarrow> jv" where
  "bound_obj k v m = jidx (the (set_bound [] [] k v m)) 1"

text \<open>\<open>sortBy(identity)\<close> on numbers or strings.\<close>

fun insert_val :: "jv \<Rightarrow> jv list \<Rightarrow> jv list" where
  "insert_val x [] = [x]"
| "insert_val x (y # ys) = (if js_lt y x then y # insert_val x ys else x # y # ys)"

definition sort_vals :: "jv list \<Rightarrow> jv list" where
  "sort_vals xs = foldr insert_val xs []"

definition plain_sub :: "ropt \<Rightarrow> subq" where
  "plain_sub opt = \<lparr>sq_opt = opt, sq_prefix = None\<rparr>"

definition array_queries :: "pquery \<Rightarrow> clause \<Rightarrow> subq list \<times> qtype" where
  "array_queries q a =
     (let opt = opt_bound (pq_end q) (opt_bound (pq_start q) (with_limit q));
          sub = (\<lambda>v. \<lparr>sq_opt = opt, sq_prefix = Some (array_key (to_str (jidx a 0)) v)\<rparr>)
      in if jidx a 1 = JStr ''array-contains-any'' then (map sub (jelems (jidx a 2)), QPranges)
         else ([sub (jidx a 2)], QRange))"

definition ne_queries :: "pquery \<Rightarrow> jv \<Rightarrow> jv \<Rightarrow> subq list" where
  "ne_queries q f v =
     [plain_sub (opt_bound (pq_start q) (no_opt\<lparr>ro_endBefore := bound_obj f v (pq_end q)\<rparr>)),
      plain_sub (opt_bound (pq_end q) (no_opt\<lparr>ro_startAfter := bound_obj f v (pq_start q)\<rparr>))]"

definition in_queries :: "pquery \<Rightarrow> jv \<Rightarrow> jv list \<Rightarrow> subq list" where
  "in_queries q f vs =
     map (\<lambda>v. plain_sub (no_opt\<lparr>ro_startAt := bound_obj f v (pq_start q), ro_endAt := bound_obj f v (pq_end q)\<rparr>)) vs"

text \<open>Between two excluded values the range starts at the bound of the query, where it has one: \<open>start ??=
  ["startAfter"]\<close> keeps a \<open>startAt\<close> that comes from \<open>==\<close>.\<close>

fun not_in_queries :: "pquery \<Rightarrow> jv \<Rightarrow> jv option \<Rightarrow> jv list \<Rightarrow> subq list" where
  "not_in_queries q f prev [] = []"
| "not_in_queries q f prev (v # vs) =
     (let start = (case prev of None \<Rightarrow> pq_start q | Some p \<Rightarrow> set_bound ''startAfter'' [] f p (pq_start q))
      in plain_sub (opt_bound start (no_opt\<lparr>ro_endBefore := bound_obj f v (pq_end q)\<rparr>)) #
         (if vs = [] then [plain_sub (opt_bound (pq_end q) (no_opt\<lparr>ro_startAfter := bound_obj f v (pq_start q)\<rparr>))]
          else not_in_queries q f (Some v) vs))"

definition buildQueries :: "pquery \<Rightarrow> pquery" where
  "buildQueries q =
     (case pq_array q of
        Some a \<Rightarrow> (case array_queries q a of (qs, ty) \<Rightarrow> q\<lparr>pq_queries := qs, pq_type := ty\<rparr>)
      | None \<Rightarrow>
          (let rng = (case pq_range q of Some (v # _) \<Rightarrow> v | _ \<Rightarrow> []); f = jidx rng 0; op = jidx rng 1 in
           if op \<in> JStr ` set inequities then
             (let qs = (if op = JStr ''!='' then ne_queries q f (jidx rng 2)
                        else if op = JStr ''in'' then in_queries q f (sort_vals (jelems (jidx rng 2)))
                        else not_in_queries q f None (sort_vals (jelems (jidx rng 2))));
                  some = op \<noteq> JStr ''in'' \<or> qs \<noteq> []
              in q\<lparr>pq_queries := qs, pq_sortRange := some \<or> pq_sortRange q, pq_rev_start := some \<or> pq_rev_start q,
                   pq_rev_end := some \<or> pq_rev_end q, pq_type := (if pq_sortByTail q then QPranges else QRanges)\<rparr>)
           else q\<lparr>pq_queries := [plain_sub (opt_bound (pq_end q) (opt_bound (pq_start q) (with_limit q)))],
                  pq_type := QRange\<rparr>))"

definition parseQuery :: "jv list \<Rightarrow> pquery res" where
  "parseQuery query =
     rbind (parser query) (\<lambda>q. rbind (checkSort q) (\<lambda>q1. rbind (checkStartEnd q1) (\<lambda>q2. Inr (buildQueries q2))))"

end
