(* ===== verification/Planner.thy ===== *)
theory Planner
  imports Parser Pipeline
begin

text \<open>
  Running a parsed query over the trees of a directory, \<open>core/src/planner.js\<close>, the device \<open>dev_get.js\<close> and
  the read routes of \<open>core/src/db.js\<close>. \<open>n\<close> bounds the walks over the trees. The fields of a query are
  strings: a query with another field is refused when its tree is built. The ranges of a list query share
  one options object, on which \<open>modOpt\<close> works again for each range; applied to its own result it changes
  nothing, so each range has options of its own here.
\<close>

section \<open>Trees of a query\<close>

definition sorts_of :: "clause list \<Rightarrow> sorts res" where
  "sorts_of srt = rmap (rmap as_str) srt"

text \<open>\<open>prefix?.split("/")[1]?.split(":")[0] === "array"\<close>\<close>

definition isArrayIndex :: "string option \<Rightarrow> bool" where
  "isArrayIndex p =
     (case p of
        None \<Rightarrow> False
      | Some s \<Rightarrow> (case split_on (CHR ''/'') s of _ # x # _ \<Rightarrow> hd (split_on (CHR '':'') x) = ''array'' | _ \<Rightarrow> False))"

text \<open>\<open>(v[1] || "asc").split(":")[0]\<close>\<close>

definition index_pair :: "string list \<Rightarrow> string list" where
  "index_pair v = [hd v, hd (split_on (CHR '':'') (if length v > 1 \<and> v ! 1 \<noteq> [] then v ! 1 else ''asc''))]"

definition checkIndex :: "string \<Rightarrow> string \<Rightarrow> wkv \<Rightarrow> unit res" where
  "checkIndex prefix dir w =
     (let sf = map index_pair (split_every2 (split_on (CHR ''/'') prefix));
          key = join_sorts sf
      in if (length sf > 1 \<or> length (split_on (CHR ''.'') (hd (hd sf))) > 1) \<and> is_nil (jget (get_indexes dir w) key)
         then Inl (Err ''missing index '') else Inr ())"

text \<open>A single field in descending order is the ascending tree walked backwards.\<close>

definition flip_desc :: "string option \<Rightarrow> sorts \<Rightarrow> ropt \<Rightarrow> sorts \<times> ropt" where
  "flip_desc prefix sf opt =
     (case sf of
        [[f, d]] \<Rightarrow> if \<not> isArrayIndex prefix \<and> d = ''desc'' then ([[f, ''asc'']], opt\<lparr>ro_reverse := True\<rparr>) else (sf, opt)
      | _ \<Rightarrow> (sf, opt))"

definition range_prefix :: "string \<Rightarrow> sorts \<Rightarrow> string" where
  "range_prefix prefix sf =
     prefix @ (if prefix = [] \<or> sf = [] then [] else ''/'') @
     join_sorts (if sf = [] \<and> prefix = [] then [idsorter] else sf)"

section \<open>Cursors: \<open>modOpt\<close>\<close>

record qcur =
  qc_start :: "clause option"
  qc_end :: "clause option"
  qc_rev_start :: bool
  qc_rev_end :: bool

definition query_cur :: "pquery \<Rightarrow> qcur" where
  "query_cur q = \<lparr>qc_start = pq_startCursor q, qc_end = pq_endCursor q, qc_rev_start = pq_rev_start q, qc_rev_end = pq_rev_end q\<rparr>"

text \<open>A backward walk swaps the bounds that a filter set; the result says which sides were swapped.\<close>

definition swap_bounds :: "ropt \<Rightarrow> qcur \<Rightarrow> ropt \<times> bool \<times> bool" where
  "swap_bounds opt cur =
     (if \<not> ro_reverse opt then (opt, False, False)
      else
        let s_at = qc_rev_start cur \<and> \<not> is_nil (ro_startAt opt);
            s_after = qc_rev_start cur \<and> \<not> s_at \<and> \<not> is_nil (ro_startAfter opt);
            e_at = qc_rev_end cur \<and> \<not> is_nil (ro_endAt opt);
            e_before = qc_rev_end cur \<and> \<not> e_at \<and> \<not> is_nil (ro_endBefore opt);
            o1 = opt\<lparr>ro_startAt := if s_at then JUndef else ro_startAt opt, ro_startAfter := if s_after then JUndef else ro_startAfter opt,
                     ro_endAt := if e_at then JUndef else ro_endAt opt, ro_endBefore := if e_before then JUndef else ro_endBefore opt\<rparr>
        in (o1\<lparr>ro_endAt := if s_at then ro_startAt opt else ro_endAt o1,
               ro_endBefore := if s_after then ro_startAfter opt else ro_endBefore o1,
               ro_startAt := if e_at then ro_endAt opt else ro_startAt o1,
               ro_startAfter := if e_before then ro_endBefore opt else ro_startAfter o1\<rparr>, s_at \<or> s_after, e_at \<or> e_before))"

text \<open>The document of a cursor, compared with a bound on the fields of the order without the id.\<close>

definition cur_comp :: "sorts \<Rightarrow> bool \<Rightarrow> clause \<Rightarrow> jv \<Rightarrow> int" where
  "cur_comp sf null_last c bound =
     comp_fields (map sort_pair sf) \<lparr>it_key = jget (jidx c 1) ''id'', it_val = jget (jidx c 1) ''data''\<rparr>
       \<lparr>it_key = JUndef, it_val = bound\<rparr> null_last"

definition put_bound :: "clause \<Rightarrow> ropt \<Rightarrow> ropt" where
  "put_bound c opt = opt_bound (Some [hd c, jget (jidx c 1) ''data'']) opt"

definition mod_start :: "sorts \<Rightarrow> bool \<Rightarrow> clause \<Rightarrow> ropt \<Rightarrow> ropt" where
  "mod_start sf rev_end c opt =
     (let k = cur_comp sf (ro_reverse opt) c in
      if \<not> is_nil (ro_startAt opt) then
        (if (if rev_end then k (ro_startAt opt) \<ge> 0 else k (ro_startAt opt) \<le> 0)
         then put_bound c (opt\<lparr>ro_startAt := JUndef\<rparr>) else opt)
      else if \<not> is_nil (ro_startAfter opt) then
        (if hd c = JStr ''startAt'' then
           (if (if rev_end then k (ro_startAfter opt) > 0 else k (ro_startAfter opt) < 0)
            then put_bound c (opt\<lparr>ro_startAfter := JUndef\<rparr>) else opt)
         else if (if rev_end then k (ro_startAfter opt) \<ge> 0 else k (ro_startAfter opt) \<le> 0)
           then opt\<lparr>ro_startAfter := jget (jidx c 1) ''data''\<rparr>
         else opt)
      else put_bound c opt)"

definition mod_end :: "sorts \<Rightarrow> bool \<Rightarrow> clause \<Rightarrow> ropt \<Rightarrow> ropt" where
  "mod_end sf rev_start c opt =
     (let k = cur_comp sf (ro_reverse opt) c in
      if \<not> is_nil (ro_endAt opt) then
        (if (if rev_start then k (ro_endAt opt) \<le> 0 else k (ro_endAt opt) \<ge> 0)
         then put_bound c (opt\<lparr>ro_endAt := JUndef\<rparr>) else opt)
      else if \<not> is_nil (ro_endBefore opt) then
        (if hd c = JStr ''endAt'' then
           (if (if rev_start then k (ro_endBefore opt) < 0 else k (ro_endBefore opt) > 0)
            then put_bound c (opt\<lparr>ro_endBefore := JUndef\<rparr>) else opt)
         else if (if rev_start then k (ro_endBefore opt) \<le> 0 else k (ro_endBefore opt) \<ge> 0)
           then opt\<lparr>ro_endBefore := jget (jidx c 1) ''data''\<rparr>
         else opt)
      else put_bound c opt)"

definition modOpt :: "ropt \<Rightarrow> qcur \<Rightarrow> sorts \<Rightarrow> ropt" where
  "modOpt opt cur sf =
     (case swap_bounds opt cur of (o1, rev_start, rev_end) \<Rightarrow>
        let o2 = (case qc_start cur of None \<Rightarrow> o1 | Some c \<Rightarrow> mod_start sf rev_end c o1)
        in (case qc_end cur of None \<Rightarrow> o2 | Some c \<Rightarrow> mod_end sf rev_start c o2))"

section \<open>One range, several ranges\<close>

definition plan_range :: "nat \<Rightarrow> sorts \<Rightarrow> ropt \<Rightarrow> string \<Rightarrow> string option \<Rightarrow> qcur \<Rightarrow> wkv \<Rightarrow> item list res" where
  "plan_range n sf0 opt0 dir prefix0 cur w =
     (case flip_desc prefix0 sf0 opt0 of (sf, opt) \<Rightarrow>
        let prefix = range_prefix (case prefix0 of None \<Rightarrow> [] | Some p \<Rightarrow> p) sf in
        rbind (checkIndex prefix dir w) (\<lambda>_.
          bpt_range n (tree_view dir prefix w) (tree_cfg (sf @ [idsorter])) (modOpt opt cur sf)))"

text \<open>The ranges one after the other, in reverse for one descending field (the bounds to swap are looked for
  in the range and not in its options, and never found). \<open>count\<close> adds up the results so far, not the new
  ones.\<close>

fun run_ranges :: "nat \<Rightarrow> sorts \<Rightarrow> int \<Rightarrow> string \<Rightarrow> qcur \<Rightarrow> wkv \<Rightarrow> subq list \<Rightarrow> item list \<Rightarrow> int \<Rightarrow> item list res" where
  "run_ranges n sf limit dir cur w [] res count = Inr res"
| "run_ranges n sf limit dir cur w (v # vs) res count =
     rbind (plan_range n sf ((sq_opt v)\<lparr>ro_limit := Some (limit - count)\<rparr>) dir None cur w) (\<lambda>r.
       let res1 = res @ r; count1 = count + int (length res1) in
       if count1 \<ge> limit then Inr res1 else run_ranges n sf limit dir cur w vs res1 count1)"

definition ranges :: "nat \<Rightarrow> sorts \<Rightarrow> int \<Rightarrow> string \<Rightarrow> qcur \<Rightarrow> bool \<Rightarrow> wkv \<Rightarrow> subq list \<Rightarrow> item list res" where
  "ranges n sf limit dir cur sortRange w qs =
     (if qs = [] then Inl (TypeErr ''Cannot read properties'')
      else let back = sortRange \<and> (case sf of [_ # d # _] \<Rightarrow> d = ''desc'' | _ \<Rightarrow> False)
           in run_ranges n sf limit dir cur w (if back then rev qs else qs) [] 0)"

section \<open>Merged ranges: \<open>pranges\<close>\<close>

text \<open>A range in progress: its last value, its tree and options, and the cursor; no cursor is the one of an
  empty tree.\<close>

record pcur =
  pc_val :: "item option"
  pc_view :: bview
  pc_cfg :: bcfg
  pc_opt :: ropt
  pc_cur :: "bcur option"

definition pc_next :: "nat \<Rightarrow> pcur \<Rightarrow> pcur res" where
  "pc_next n p =
     (case pc_cur p of
        None \<Rightarrow> Inr (p\<lparr>pc_val := None\<rparr>)
      | Some cu \<Rightarrow>
          rbind ((if ro_reverse (pc_opt p) then cur_next_rev else cur_next) n (pc_view p) (pc_cfg p) (pc_opt p) cu)
            (\<lambda>(v, cu1). Inr (p\<lparr>pc_val := v, pc_cur := Some cu1\<rparr>)))"

definition open_range :: "nat \<Rightarrow> sorts \<Rightarrow> string \<Rightarrow> qcur \<Rightarrow> wkv \<Rightarrow> subq \<Rightarrow> pcur res" where
  "open_range n sf0 dir cur w v =
     (case (if sq_prefix v = None then flip_desc None sf0 (sq_opt v) else (sf0, sq_opt v)) of (sf, opt) \<Rightarrow>
        let prefix = range_prefix (case sq_prefix v of None \<Rightarrow> [] | Some p \<Rightarrow> p) sf;
            cfg = tree_cfg (sf @ [idsorter]); V = tree_view dir prefix w;
            o1 = modOpt (opt\<lparr>ro_limit := None\<rparr>) cur sf
        in rbind (checkIndex prefix dir w) (\<lambda>_. rbind (range_cursor n V cfg o1) (\<lambda>c.
             Inr \<lparr>pc_val = None, pc_view = V, pc_cfg = cfg, pc_opt = range_limit o1, pc_cur = c\<rparr>)))"

text \<open>A value goes into the sorted results from behind, unless it is there.\<close>

fun insert_back :: "(item \<Rightarrow> item \<Rightarrow> int) \<Rightarrow> item \<Rightarrow> item list \<Rightarrow> item list" where
  "insert_back cmp v [] = [v]"
| "insert_back cmp v (x # xs) =
     (if cmp v x = 0 then x # xs else if cmp v x < 0 then v # x # xs else x # insert_back cmp v xs)"

definition add_result :: "(item \<Rightarrow> item \<Rightarrow> int) \<Rightarrow> item \<Rightarrow> item list \<Rightarrow> item list" where
  "add_result cmp v res = rev (insert_back cmp v (rev res))"

text \<open>The range goes back before the first one whose last value is not after it.\<close>

fun requeue :: "(item \<Rightarrow> item \<Rightarrow> int) \<Rightarrow> item \<Rightarrow> pcur \<Rightarrow> pcur list \<Rightarrow> pcur list" where
  "requeue cmp v p [] = [p]"
| "requeue cmp v p (q # qs) =
     (case pc_val q of
        Some x \<Rightarrow> if cmp v x \<ge> 0 then p # q # qs else q # requeue cmp v p qs
      | None \<Rightarrow> q # requeue cmp v p qs)"

fun merge_loop :: "nat \<Rightarrow> (item \<Rightarrow> item \<Rightarrow> int) \<Rightarrow> (item \<Rightarrow> item \<Rightarrow> int) \<Rightarrow> int \<Rightarrow> pcur list \<Rightarrow> item list \<Rightarrow> item list res" where
  "merge_loop 0 cmp full limit curs res = Inl Fuel"
| "merge_loop (Suc n) cmp full limit [] res = Inr res"
| "merge_loop (Suc n) cmp full limit (p # ps) res =
     rbind (pc_next n p) (\<lambda>p1.
       case pc_val p1 of
         None \<Rightarrow> merge_loop n cmp full limit ps res
       | Some v \<Rightarrow>
           (let res1 = add_result cmp v res;
                past = (if 0 < limit \<and> nat limit \<le> length res1 then \<not> full (res1 ! nat (limit - 1)) v < 0 else False)
            in merge_loop n cmp full limit (if past then ps else requeue cmp v p1 ps) res1))"

text \<open>The results are ordered by the fields of the first tree, without the first field if the order follows
  a field that has no place in it.\<close>

definition pranges :: "nat \<Rightarrow> sorts \<Rightarrow> int \<Rightarrow> string \<Rightarrow> qcur \<Rightarrow> bool \<Rightarrow> wkv \<Rightarrow> subq list \<Rightarrow> item list res" where
  "pranges n sf limit dir cur by_tail w qs =
     rbind (rmap (open_range n sf dir cur w) qs) (\<lambda>ps.
       case ps of
         [] \<Rightarrow> Inl (TypeErr ''Cannot read properties'')
       | p # _ \<Rightarrow>
           (let full = (case bc_sort (pc_cfg p) of SFields fs \<Rightarrow> fs | SPlain \<Rightarrow> []);
                sorter = (if by_tail then tl full else full)
            in rbind (merge_loop n (\<lambda>a b. comp_fields sorter a b False) (\<lambda>a b. comp_fields full a b False) limit ps [])
                 (\<lambda>res. Inr (take (nat limit) res))))"

section \<open>\<open>get\<close>\<close>

datatype found = FDoc item | FList "item list" | FNull

definition plan_doc :: "string \<Rightarrow> string \<Rightarrow> wkv \<Rightarrow> item" where
  "plan_doc id' dir w = b_data (tree_view dir (join_sorts [idsorter]) w) (JStr id') []"

definition plan_get :: "nat \<Rightarrow> pquery \<Rightarrow> string \<Rightarrow> wkv \<Rightarrow> found res" where
  "plan_get n q dir w =
     (if even (length (pq_path q)) then Inr (FDoc (plan_doc (last (pq_path q)) dir w))
      else rbind (sorts_of (pq_sort q)) (\<lambda>sf.
        case pq_type q of
          QRange \<Rightarrow>
            (case pq_queries q of
               [] \<Rightarrow> Inl (TypeErr ''Cannot read properties'')
             | v # _ \<Rightarrow> rbind (plan_range n sf (sq_opt v) dir (sq_prefix v) (query_cur q) w) (\<lambda>r. Inr (FList r)))
        | QRanges \<Rightarrow> rbind (ranges n sf (pq_limit q) dir (query_cur q) (pq_sortRange q) w (pq_queries q)) (\<lambda>r. Inr (FList r))
        | QPranges \<Rightarrow> rbind (pranges n sf (pq_limit q) dir (query_cur q) (pq_sortByTail q) w (pq_queries q)) (\<lambda>r. Inr (FList r))
        | QNone \<Rightarrow> Inr FNull))"

section \<open>dev_get and the read routes\<close>

definition cursor_of :: "jv \<Rightarrow> jv \<Rightarrow> jv \<Rightarrow> jv" where
  "cursor_of dir id' data = JObj [(''__cursor__'', JBool True), (''dir'', dir), (''id'', id'), (''data'', data)]"

definition dev_get :: "nat \<Rightarrow> dev" where
  "dev_get n c =
     rbind (need_dir c) (\<lambda>_.
     rbind (lift_res c (rbind (as_list (c_query c)) parseQuery)) (\<lambda>q.
     rbind (kv_dir_name c) (\<lambda>d.
     rbind (lift_res c (plan_get n q d (c_kv c))) (\<lambda>r.
       let cget = op_in [''cget''] c; dir = c_dir c in
       if c_range c = JBool True then
         (case r of
            FList xs \<Rightarrow> Inr (c\<lparr>c_result := JArr (map (\<lambda>v. if cget then cursor_of dir (it_key v) (it_val v) else it_val v) xs)\<rparr>)
          | _ \<Rightarrow> fail type_err c)
       else
         (case r of
            FDoc v \<Rightarrow> Inr (c\<lparr>c_result := (if cget then cursor_of dir (it_key v) (it_val v) else it_val v)\<rparr>)
          | FList xs \<Rightarrow> Inr (c\<lparr>c_result := (if cget then cursor_of dir JUndef JUndef else JUndef)\<rparr>)
          | FNull \<Rightarrow> fail type_err c)))))"

definition read_branches :: "nat \<Rightarrow> dev_stage" where
  "read_branches n = SBranch None [(''get'', SFn (dev_get n))]"

definition read_route :: "ext \<Rightarrow> nat \<Rightarrow> dev_stage list" where
  "read_route X n = [SFn (dev_normalize X), SFn (dev_parse X n), SFn dev_read, read_branches n]"

definition get_route :: "ext \<Rightarrow> nat \<Rightarrow> string \<Rightarrow> dev_stage list" where
  "get_route X n op = [SFn (tdev_noauth op), SFn (dev_parse X n), SFn dev_read, read_branches n]"

end
