(* ===== verification/Filter_Props.thy ===== *)
theory Filter_Props
  imports Planner
begin

text \<open>
  The filters of a query: each operator selects what it says, through the bounds that the parser makes of it
  and the order of the trees; and two places where a bound is lost or kept by mistake.
\<close>

section \<open>Filters\<close>

text \<open>What the bounds of a range let through: the test for the end is the code's, the start is met from the
  bound on.\<close>

definition admits :: "bcfg \<Rightarrow> ropt \<Rightarrow> item \<Rightarrow> bool" where
  "admits c opt a \<longleftrightarrow> \<not> past_end c opt a \<and>
     (if \<not> is_nil (ro_startAt opt) then comp c a (bound_item (ro_startAt opt)) False \<le> 0
      else if \<not> is_nil (ro_startAfter opt) then comp c a (bound_item (ro_startAfter opt)) True < 0
      else True)"

text \<open>What a filter on a number says.\<close>

definition num_of :: "jv \<Rightarrow> int" where
  "num_of v = (case v of JNum y \<Rightarrow> y | _ \<Rightarrow> 0)"

definition compares :: "string \<Rightarrow> int \<Rightarrow> jv \<Rightarrow> bool" where
  "compares op x v \<longleftrightarrow>
     (if op = ''=='' then x = num_of v else if op = ''!='' then x \<noteq> num_of v
      else if op = ''<'' then x < num_of v else if op = ''<='' then x \<le> num_of v
      else if op = ''>'' then x > num_of v else if op = ''>='' then x \<ge> num_of v
      else if op = ''in'' then JNum x \<in> set (jelems v) else JNum x \<notin> set (jelems v))"

definition where_value :: "string \<Rightarrow> jv \<Rightarrow> bool" where
  "where_value op v \<longleftrightarrow>
     (if op \<in> {''in'', ''not-in''} then (\<exists>ys. ys \<noteq> [] \<and> v = JArr (map JNum ys))
      else op \<in> {''=='', ''!='', ''<'', ''<='', ''>'', ''>=''} \<and> (\<exists>y. v = JNum y))"

definition plain_field :: "string \<Rightarrow> bool" where
  "plain_field f \<longleftrightarrow> CHR ''.'' \<notin> set f \<and> f \<notin> {''__id__'', ''startAt'', ''startAfter'', ''endAt'', ''endBefore''}"

definition field_cfg :: "string \<Rightarrow> bcfg" where
  "field_cfg f = tree_cfg ([[f, ''asc'']] @ [idsorter])"

abbreviation fbound :: "string \<Rightarrow> int \<Rightarrow> jv" where
  "fbound f y \<equiv> JObj [(f, JNum y)]"

lemma split_on_none: "c \<notin> set s \<Longrightarrow> split_on c s = [s]"
  by (induction s) auto

lemma comp_num:
  assumes "plain_field f" and "jget (it_val a) f = JNum x" and "it_key a = JStr k"
  shows "comp (field_cfg f) a (bound_item (fbound f y)) nl = (if x < y then 1 else if y < x then -1 else if nl then 1 else -1)"
proof -
  have f: "field_val f a = JNum x" "field_val f (bound_item (fbound f y)) = JNum y"
    using assms by (auto simp: field_val_def plain_field_def split_on_none bound_item_def Let_def nullish_def is_nil_def
        split: if_splits)
  have k: "field_val ''__id__'' a = JStr k" "field_val ''__id__'' (bound_item (fbound f y)) = JUndef"
    using assms by (auto simp: field_val_def bound_item_def plain_field_def)
  show ?thesis
    by (simp add: comp_def field_cfg_def tree_cfg_def sort_pair_def idsorter_def f k compArr_def to_arr_def desc_sign_def)
qed

lemma admits_num:
  assumes "plain_field f" and "jget (it_val a) f = JNum x" and "it_key a = JStr k"
  shows "admits (field_cfg f) (no_opt\<lparr>ro_limit := l, ro_startAt := fbound f y, ro_endAt := fbound f z\<rparr>) a \<longleftrightarrow> y \<le> x \<and> x \<le> z"
    "admits (field_cfg f) (no_opt\<lparr>ro_limit := l, ro_startAt := fbound f y\<rparr>) a \<longleftrightarrow> y \<le> x"
    "admits (field_cfg f) (no_opt\<lparr>ro_limit := l, ro_startAfter := fbound f y\<rparr>) a \<longleftrightarrow> y < x"
    "admits (field_cfg f) (no_opt\<lparr>ro_limit := l, ro_endAt := fbound f z\<rparr>) a \<longleftrightarrow> x \<le> z"
    "admits (field_cfg f) (no_opt\<lparr>ro_limit := l, ro_endBefore := fbound f z\<rparr>) a \<longleftrightarrow> x < z"
    "admits (field_cfg f) (no_opt\<lparr>ro_limit := l, ro_startAfter := fbound f y, ro_endBefore := fbound f z\<rparr>) a \<longleftrightarrow> y < x \<and> x < z"
  by (auto simp: admits_def past_end_def no_opt_def comp_num [OF assms])

lemma insert_val_num:
  "sorted zs \<Longrightarrow> \<exists>us. insert_val (JNum y) (map JNum zs) = map JNum us \<and> sorted us \<and> set us = insert y (set zs)"
proof (induction zs)
  case (Cons z zs)
  then obtain us where us: "insert_val (JNum y) (map JNum zs) = map JNum us" "sorted us" "set us = insert y (set zs)" by auto
  show ?case
  proof (cases "z < y")
    case True
    with us Cons.prems show ?thesis by (intro exI [of _ "z # us"]) auto
  next
    case False
    with Cons.prems show ?thesis by (intro exI [of _ "y # z # zs"]) auto
  qed
qed (auto intro!: exI [of _ "[y]"])

lemma sort_vals_num: "\<exists>zs. sort_vals (map JNum ys) = map JNum zs \<and> sorted zs \<and> set zs = set ys"
proof (induction ys)
  case (Cons y ys)
  then obtain zs where zs: "sort_vals (map JNum ys) = map JNum zs" "sorted zs" "set zs = set ys" by blast
  from insert_val_num [OF zs(2), of y] zs show ?case by (auto simp: sort_vals_def)
qed (simp add: sort_vals_def)

lemma not_in_admits:
  assumes "plain_field f" and "jget (it_val a) f = JNum x" and "it_key a = JStr k"
    and "pq_start q = None" and "pq_end q = None"
  shows "sorted ys \<Longrightarrow> ys \<noteq> [] \<Longrightarrow> \<forall>p. prev = Some p \<longrightarrow> p \<le> hd ys \<Longrightarrow>
    (\<exists>s \<in> set (not_in_queries q (JStr f) (map_option JNum prev) (map JNum ys)). admits (field_cfg f) (sq_opt s) a) \<longleftrightarrow>
    (\<forall>p. prev = Some p \<longrightarrow> p < x) \<and> x \<notin> set ys"
proof (induction ys arbitrary: prev)
  case (Cons y ys)
  have obj: "bound_obj (JStr f) (JNum y) None = fbound f y" for y
    by (simp add: bound_obj_def set_bound_def oput_def)
  have one: "admits (field_cfg f) (opt_bound (case map_option JNum prev of None \<Rightarrow> pq_start q | Some p \<Rightarrow> set_bound ''startAfter'' [] (JStr f) p (pq_start q))
       (no_opt\<lparr>ro_endBefore := fbound f y\<rparr>)) a \<longleftrightarrow> (\<forall>p. prev = Some p \<longrightarrow> p < x) \<and> x < y"
    using admits_num(5) [OF assms(1-3), where l = None and z = y] admits_num(6) [OF assms(1-3), where l = None and z = y]
    by (cases prev) (simp_all add: assms(4) no_opt_def opt_bound_def set_bound_def oput_def)
  have last: "admits (field_cfg f) (no_opt\<lparr>ro_startAfter := fbound f y\<rparr>) a \<longleftrightarrow> y < x"
    using admits_num(3) [OF assms(1-3), where l = None and y = y] by (simp add: no_opt_def)
  show ?case
  proof (cases ys)
    case Nil
    have none: "opt_bound (pq_end q) o' = o'" for o' by (simp add: assms(5) opt_bound_def)
    have objs: "bound_obj (JStr f) (JNum y) (pq_end q) = fbound f y" "bound_obj (JStr f) (JNum y) (pq_start q) = fbound f y"
      by (simp_all only: assms(4,5) obj)
    have "(\<exists>s \<in> set (not_in_queries q (JStr f) (map_option JNum prev) (map JNum (y # ys))). admits (field_cfg f) (sq_opt s) a) \<longleftrightarrow>
        (\<forall>p. prev = Some p \<longrightarrow> p < x) \<and> x < y \<or> y < x"
      using one by (cases prev) (simp_all add: Nil plain_sub_def none objs last)
    then show ?thesis using Nil Cons.prems by (cases prev) auto
  next
    case (Cons z zs)
    have objs: "bound_obj (JStr f) (JNum y) (pq_end q) = fbound f y" by (simp only: assms(5) obj)
    have "(\<exists>s \<in> set (not_in_queries q (JStr f) (Some (JNum y)) (map JNum ys)). admits (field_cfg f) (sq_opt s) a) \<longleftrightarrow>
        y < x \<and> x \<notin> set ys"
      using Cons.IH [of "Some y"] Cons.prems Cons by auto
    then have "(\<exists>s \<in> set (not_in_queries q (JStr f) (map_option JNum prev) (map JNum (y # ys))). admits (field_cfg f) (sq_opt s) a) \<longleftrightarrow>
        (\<forall>p. prev = Some p \<longrightarrow> p < x) \<and> x < y \<or> y < x \<and> x \<notin> set ys"
      using one by (cases prev) (simp_all add: Cons plain_sub_def objs)
    then show ?thesis using Cons Cons.prems by (cases prev) auto
  qed
qed simp

text \<open>The definitions a parse unfolds to.\<close>

lemmas parse_eval = parseQuery_def parser_def parse_option_def parse_clause_def parse_bound_def parse_where_def has_filter_def
    inequities_def clash_def pst0_def query_of_def the_range_def side_def checkSort_def sort_equals_def sort_range_def merge_sort_field_def
    checkStartEnd_def range_bound_def set_bound_def bound_fields_def bound_obj_def buildQueries_def with_limit_def opt_bound_def plain_sub_def
    asc_def js_eq_def is_object_def sorts_of_def as_str_def oput_def Let_def eq_first_def jmem_def jintersection_def juniq_def jidx_def

text \<open>
  C4. A filter selects what it says. For each operator on a number (a list of numbers for \<open>in\<close> and
  \<open>not-in\<close>), a document with a number in the field lies in one of the ranges that the query is parsed into
  exactly if its number passes the filter.
\<close>

theorem where_exact:
  assumes "plain_field f" and "where_value op v" and "jget (it_val a) f = JNum x" and "it_key a = JStr k"
  shows "\<exists>q sf. parseQuery [JStr d, JArr [JStr f, JStr op, v]] = Inr q \<and> sorts_of (pq_sort q) = Inr sf \<and>
     ((\<exists>s \<in> set (pq_queries q). admits (tree_cfg (sf @ [idsorter])) (sq_opt s) a) \<longleftrightarrow> compares op x v)"
proof -
  have f: "f \<notin> {''startAt'', ''startAfter'', ''endAt'', ''endBefore''}" using assms(1) by (auto simp: plain_field_def)
  note A = admits_num [OF assms(1,3,4), unfolded field_cfg_def append_Cons append_Nil]
  have N: "no_opt\<lparr>ro_limit := None\<rparr> = no_opt" by (simp add: no_opt_def)
  note B = A [where l = None, unfolded N]
  note ev = parse_eval
  show ?thesis
  proof (cases "op \<in> {''in'', ''not-in''}")
    case True
    then obtain ys where ys: "ys \<noteq> []" "v = JArr (map JNum ys)" using assms(2) by (auto simp: where_value_def)
    obtain zs where zs: "sort_vals (map JNum ys) = map JNum zs" "sorted zs" "set zs = set ys" using sort_vals_num by blast
    then have zs_ne: "zs \<noteq> []" using ys(1) by auto
    have in_q: "(\<exists>s \<in> set (in_queries q (JStr f) (map JNum zs)). admits (tree_cfg [[f, ''asc''], idsorter]) (sq_opt s) a) \<longleftrightarrow>
        x \<in> set zs" if "pq_start q = None" "pq_end q = None" for q
      using that by (auto simp: in_queries_def plain_sub_def bound_obj_def set_bound_def oput_def B)
    have not_in_q: "(\<exists>s \<in> set (not_in_queries q (JStr f) None (map JNum zs)). admits (tree_cfg [[f, ''asc''], idsorter]) (sq_opt s) a) \<longleftrightarrow>
        x \<notin> set zs" if "pq_start q = None" "pq_end q = None" for q
      using not_in_admits [OF assms(1,3,4) that zs(2) zs_ne, of None] by (simp add: field_cfg_def)
    have mem: "JNum x \<in> JNum ` S \<longleftrightarrow> x \<in> S" for S by auto
    from True consider "op = ''in''" | "op = ''not-in''" by blast
    then show ?thesis
    proof cases
      case 1
      show ?thesis using f ys by (simp add: 1 ev zs(1) in_q compares_def mem zs(3))
    next
      case 2
      show ?thesis using f ys by (simp add: 2 ev zs(1) not_in_q compares_def mem zs(3))
    qed
  next
    case False
    then obtain y where y: "v = JNum y" and op: "op \<in> {''=='', ''!='', ''<'', ''<='', ''>'', ''>=''}"
      using assms(2) by (auto simp: where_value_def)
    consider "op = ''==''" | "op = ''!=''" | "op = ''<''" | "op = ''<=''" | "op = ''>''" | "op = ''>=''" using op by blast
    then show ?thesis
    proof cases
      case 1
      show ?thesis using f y by (auto simp: 1 ev A compares_def num_of_def)
    next
      case 2
      show ?thesis using f y by (auto simp: 2 ev A B ne_queries_def bound_obj_def compares_def num_of_def)
    next
      case 3
      show ?thesis using f y by (auto simp: 3 ev A compares_def num_of_def)
    next
      case 4
      show ?thesis using f y by (auto simp: 4 ev A compares_def num_of_def)
    next
      case 5
      show ?thesis using f y by (auto simp: 5 ev A compares_def num_of_def)
    next
      case 6
      show ?thesis using f y by (auto simp: 6 ev A compares_def num_of_def)
    qed
  qed
qed

theorem where_exact_witness:
  "\<exists>q sf. parseQuery [JStr ''d'', JArr [JStr ''age'', JStr ''not-in'', JArr [JNum 3]]] = Inr q \<and> sorts_of (pq_sort q) = Inr sf \<and>
     (\<exists>s \<in> set (pq_queries q). admits (tree_cfg (sf @ [idsorter])) (sq_opt s) \<lparr>it_key = JStr ''1'', it_val = JObj [(''age'', JNum 5)]\<rparr>)"
proof -
  let ?a = "\<lparr>it_key = JStr ''1'', it_val = JObj [(''age'', JNum 5)]\<rparr>"
  have "where_value ''not-in'' (JArr [JNum 3])"
    by (simp add: where_value_def) (auto intro!: exI [of _ "[3 :: int]"])
  from where_exact [OF _ this, of "''age''" ?a 5 "''1''" "''d''"] show ?thesis
    by (auto simp: plain_field_def compares_def)
qed

section \<open>Bounds that are lost\<close>

text \<open>
  A query with a start and an end loses the end: \<open>checkStartEnd\<close> looks at the end only where there
  is no start, so the range runs to the end of the index.
\<close>

theorem end_is_dropped:
  "\<exists>q. parseQuery [JStr d, JArr [JStr ''age''], JArr [JStr ''startAt'', JNum x], JArr [JStr ''endAt'', JNum y]] = Inr q \<and>
     pq_queries q = [plain_sub (no_opt\<lparr>ro_limit := Some 1000, ro_startAt := JObj [(''age'', JNum x)]\<rparr>)]"
  by (simp add: parse_eval jprop_def)

text \<open>
  \<open>not-in\<close> after \<open>==\<close> lets excluded values through: the bound that \<open>==\<close> sets is a \<open>startAt\<close>, and the
  range after an excluded value keeps it, so a document with the excluded value lies in one of the ranges.
\<close>

theorem not_in_after_equals:
  "\<exists>q sf. parseQuery [JStr d, JArr [JStr ''a'', JStr ''=='', JNum e], JArr [JStr ''age'', JStr ''not-in'', JArr [JNum x, JNum (x + 1)]]] = Inr q \<and>
     sorts_of (pq_sort q) = Inr sf \<and>
     (\<exists>s \<in> set (pq_queries q). admits (tree_cfg (sf @ [idsorter])) (sq_opt s)
        \<lparr>it_key = JStr k, it_val = JObj [(''a'', JNum e), (''age'', JNum x)]\<rparr>)"
proof -
  have comp: "comp (tree_cfg [[''a'', ''asc''], [''age'', ''asc''], idsorter]) \<lparr>it_key = JStr k, it_val = JObj [(''a'', JNum e), (''age'', JNum x)]\<rparr>
      (bound_item (JObj [(''a'', JNum e), (''age'', JNum y)])) nl = (if x < y then 1 else if y < x then -1 else if nl then 1 else -1)" for y nl
    by (simp add: comp_def tree_cfg_def sort_pair_def idsorter_def field_val_def bound_item_def compArr_def to_arr_def desc_sign_def
        nullish_def is_nil_def Let_def)
  have ok: "admits (tree_cfg [[''a'', ''asc''], [''age'', ''asc''], idsorter])
      (no_opt\<lparr>ro_endBefore := JObj [(''a'', JNum e), (''age'', JNum (x + 1))], ro_startAt := JObj [(''a'', JNum e), (''age'', JNum x)]\<rparr>)
      \<lparr>it_key = JStr k, it_val = JObj [(''a'', JNum e), (''age'', JNum x)]\<rparr>"
    by (simp add: admits_def past_end_def no_opt_def comp)
  have "sort_vals [JNum x, JNum (x + 1)] = [JNum x, JNum (x + 1)]" by (simp add: sort_vals_def)
  moreover have "\<not> key_before ''age'' k" for k by (simp add: key_before_def is_index_key_def is_digit_def)
  ultimately show ?thesis using ok by (simp add: parse_eval)
qed
end
