(* ===== verification/Query_Props.thy ===== *)
theory Query_Props
  imports Filter_Props Dev_Frame
begin

text \<open>
  The read path: the filters of a query select what they say, a query returns no more than its limit, and
  reading does not change the store.
\<close>

section \<open>Limits\<close>

lemma take_vals_len:
  "int (length acc) < l \<Longrightarrow>
   int (length (fst (take_vals past (Some l) xs acc))) \<le> l \<and>
   (\<not> snd (take_vals past (Some l) xs acc) \<longrightarrow> int (length (fst (take_vals past (Some l) xs acc))) < l)"
  by (induction xs arbitrary: acc) auto

lemma getVals_len:
  "getVals n V c node acc i opt st = Inr xs \<Longrightarrow> ro_limit opt = Some l \<Longrightarrow> int (length acc) < l \<Longrightarrow> int (length xs) \<le> l"
proof (induction n arbitrary: node acc i)
  case (Suc n)
  let ?r = "take_vals (past_end c opt) (Some l) (map (\<lambda>v. b_data V v st) (drop i (bn_vals node))) acc"
  have r: "int (length (fst ?r)) \<le> l" "\<not> snd ?r \<longrightarrow> int (length (fst ?r)) < l"
    using take_vals_len [OF Suc.prems(3)] by blast+
  show ?case using Suc.prems(1,2) r Suc.IH
    by (auto simp: Let_def split_def rbind_Inr_iff split: if_splits option.splits)
qed simp

lemma getValsReverse_len:
  "getValsReverse n V c node acc i opt st = Inr xs \<Longrightarrow> ro_limit opt = Some l \<Longrightarrow> int (length acc) < l \<Longrightarrow> int (length xs) \<le> l"
proof (induction n arbitrary: node acc i)
  case (Suc n)
  let ?r = "take_vals (past_end_rev c opt) (Some l) (map (\<lambda>v. b_data V v st) (rev (take i (bn_vals node)))) acc"
  have r: "int (length (fst ?r)) \<le> l" "\<not> snd ?r \<longrightarrow> int (length (fst ?r)) < l"
    using take_vals_len [OF Suc.prems(3)] by blast+
  show ?case using Suc.prems(1,2) r Suc.IH
    by (auto simp: Let_def split_def rbind_Inr_iff split: if_splits option.splits)
qed simp

lemma bpt_range_len:
  assumes "bpt_range n V c opt = Inr xs" and "ro_limit opt = Some l" and "1 \<le> l"
  shows "int (length xs) \<le> l"
proof -
  let ?o = "range_limit opt"
  have o: "ro_limit ?o = Some (if l > 1000 then 1000 else l)" by (simp add: range_limit_def assms(2))
  have "int (length xs) \<le> (if l > 1000 then 1000 else l)"
  proof -
    obtain m where m: "(case m of
          None \<Rightarrow> Inr []
        | Some (None, node) \<Rightarrow> Inr []
        | Some (Some i, node) \<Rightarrow>
            if ro_reverse ?o then
              (if i \<ge> int (length (bn_vals node)) then Inl (TypeErr ''Cannot read properties'')
               else getValsReverse n V c node [] (nat (i + 1)) ?o [])
            else if i < 0 then Inl (TypeErr ''Cannot read properties'')
            else getVals n V c node [] (nat i) ?o []) = (Inr xs :: item list res)"
      using assms(1) unfolding bpt_range_def Let_def rbind_Inr_iff by blast
    consider "m = None" | node where "m = Some (None, node)" | i node where "m = Some (Some i, node)"
      by (cases m) (auto, metis option.exhaust)
    then show ?thesis
      using m assms(3) getVals_len [OF _ o, of n V c _ "[]"] getValsReverse_len [OF _ o, of n V c _ "[]"]
      by cases (auto split: if_splits)
  qed
  then show ?thesis by (simp split: if_splits)
qed

lemma opt_bound_limit [simp]: "ro_limit (opt_bound m opt) = ro_limit opt"
  by (auto simp: opt_bound_def Let_def split: option.split)

lemma modOpt_limit [simp]: "ro_limit (modOpt opt cur sf) = ro_limit opt"
proof -
  have s: "ro_limit (fst (swap_bounds opt cur)) = ro_limit opt" by (simp add: swap_bounds_def Let_def)
  have m: "ro_limit (mod_start sf b c o') = ro_limit o'" "ro_limit (mod_end sf b c o') = ro_limit o'" for b c o'
    by (simp_all add: mod_start_def mod_end_def put_bound_def Let_def)
  show ?thesis using s by (auto simp: modOpt_def Let_def m split: prod.split option.split)
qed

lemma plan_range_len:
  assumes "plan_range n sf opt dir p cur w = Inr xs" and "ro_limit opt = Some l" and "1 \<le> l"
  shows "int (length xs) \<le> l"
proof -
  obtain sf1 o1 where f: "flip_desc p sf opt = (sf1, o1)" by force
  then have "ro_limit o1 = Some l"
    using assms(2) by (auto simp: flip_desc_def split: list.splits if_splits)
  with assms(1,3) f show ?thesis
    by (auto simp: plan_range_def Let_def rbind_Inr_iff dest!: bpt_range_len)
qed

lemma run_ranges_len:
  "run_ranges n sf limit dir cur w qs res count = Inr xs \<Longrightarrow> int (length res) \<le> count \<Longrightarrow> count < limit \<Longrightarrow>
   int (length xs) \<le> limit"
proof (induction qs arbitrary: res count)
  case (Cons v vs)
  obtain r where r: "plan_range n sf ((sq_opt v)\<lparr>ro_limit := Some (limit - count)\<rparr>) dir None cur w = Inr r"
    and rest: "(let res1 = res @ r; count1 = count + int (length res1) in
       if count1 \<ge> limit then Inr res1 else run_ranges n sf limit dir cur w vs res1 count1) = Inr xs"
    using Cons.prems(1) by (auto simp: rbind_Inr_iff)
  have "int (length r) \<le> limit - count" using plan_range_len [OF r, of "limit - count"] Cons.prems(3) by simp
  with rest Cons.prems(2) Cons.IH [of "res @ r" "count + int (length (res @ r))"] show ?case
    by (auto simp: Let_def split: if_splits)
qed simp

text \<open>What holds of a result that is not an error, by the shape of the code that makes it.\<close>

definition yields :: "('a \<Rightarrow> bool) \<Rightarrow> 'a res \<Rightarrow> bool" where
  "yields P r \<longleftrightarrow> (case r of Inl e \<Rightarrow> True | Inr x \<Rightarrow> P x)"

lemma yields_D: "yields P r \<Longrightarrow> r = Inr x \<Longrightarrow> P x"
  by (simp add: yields_def)

named_theorems yields_intros

lemma yields_rules [yields_intros]:
  "yields P (Inl e)" "P x \<Longrightarrow> yields P (Inr x)"
  "(b \<Longrightarrow> yields P r) \<Longrightarrow> (\<not> b \<Longrightarrow> yields P r') \<Longrightarrow> yields P (if b then r else r')"
  "(\<And>y. m = Inr y \<Longrightarrow> yields P (f y)) \<Longrightarrow> yields P (rbind m f)"
  by (auto simp: yields_def split: sum.splits) (cases m; auto)

lemma yields_str [yields_intros]:
  "(\<And>t. v = JStr t \<Longrightarrow> yields P (f t)) \<Longrightarrow> yields P (case v of JStr t \<Rightarrow> f t | _ \<Rightarrow> Inl e)"
  by (cases v) (auto simp: yields_def)

lemma parse_where_limit: "yields (\<lambda>s'. ps_limit s' = ps_limit s) (parse_where s op v)"
  unfolding parse_where_def by (intro yields_intros) simp_all

lemma parse_clause_limit: "yields (\<lambda>s'. ps_limit s' = ps_limit s) (parse_clause s v)"
  unfolding parse_clause_def by (intro yields_intros parse_where_limit) simp_all

lemma parse_option_limit:
  "parse_option s v = Inr s' \<Longrightarrow> (case ps_limit s of None \<Rightarrow> True | Some n \<Rightarrow> 1 \<le> n \<and> n \<le> 1000) \<Longrightarrow>
   (case ps_limit s' of None \<Rightarrow> True | Some n \<Rightarrow> 1 \<le> n \<and> n \<le> 1000)"
  by (cases v) (auto simp: parse_option_def split: if_splits dest: yields_D [OF parse_clause_limit])

lemma parser_limit: "parser query = Inr q \<Longrightarrow> 1 \<le> pq_limit q \<and> pq_limit q \<le> 1000"
proof -
  assume "parser query = Inr q"
  then obtain s where s: "rfoldl parse_option pst0 (dropWhile is_str query) = Inr s"
    and q: "pq_limit q = (case ps_limit s of None \<Rightarrow> 1000 | Some n \<Rightarrow> n)"
    by (auto simp: parser_def rbind_Inr_iff query_of_def Let_def split: if_splits)
  have "rfoldl parse_option s0 vs = Inr s \<Longrightarrow> (case ps_limit s0 of None \<Rightarrow> True | Some n \<Rightarrow> 1 \<le> n \<and> n \<le> 1000) \<Longrightarrow>
      (case ps_limit s of None \<Rightarrow> True | Some n \<Rightarrow> 1 \<le> n \<and> n \<le> 1000)" for s0 vs
    by (induction vs arbitrary: s0) (auto simp: rbind_Inr_iff dest: parse_option_limit)
  from this [OF s] show ?thesis by (auto simp: q pst0_def split: option.splits)
qed

lemma checkSort_fields: "checkSort q = Inr q' \<Longrightarrow> \<exists>srt b. q' = q\<lparr>pq_sort := srt, pq_sortByTail := b\<rparr>"
  by (auto simp: checkSort_def rbind_Inr_iff)

lemma foldl_fields:
  "(\<And>q v. pq_limit (f q v) = pq_limit q) \<Longrightarrow> pq_limit (foldl f q vs) = pq_limit q"
  by (induction vs arbitrary: q) simp_all

lemma checkStartEnd_limit: "checkStartEnd q = Inr q' \<Longrightarrow> pq_limit q' = pq_limit q"
  by (auto simp: checkStartEnd_def rbind_Inr_iff Let_def range_bound_def foldl_fields split: if_splits option.splits)

lemma buildQueries_limit:
  "pq_limit (buildQueries q) = pq_limit q"
  "pq_type (buildQueries q) = QRange \<Longrightarrow> pq_queries (buildQueries q) = v # vs \<Longrightarrow> ro_limit (sq_opt v) = Some (pq_limit q)"
  by (auto simp: buildQueries_def array_queries_def plain_sub_def with_limit_def Let_def split: option.splits if_splits)

text \<open>
  C10. A query returns no more documents than its limit, which is between 1 and 1000, whichever way its
  ranges are run.
\<close>

theorem get_within_limit:
  assumes "parseQuery query = Inr q" and "plan_get n q dir w = Inr (FList xs)"
  shows "int (length xs) \<le> pq_limit q \<and> 1 \<le> pq_limit q \<and> pq_limit q \<le> 1000"
proof -
  obtain q0 q1 q2 where q: "parser query = Inr q0" "checkSort q0 = Inr q1" "checkStartEnd q1 = Inr q2" "q = buildQueries q2"
    using assms(1) by (auto simp: parseQuery_def rbind_Inr_iff)
  have lim: "1 \<le> pq_limit q" "pq_limit q \<le> 1000" "pq_limit q = pq_limit q2"
    using parser_limit [OF q(1)] checkSort_fields [OF q(2)] checkStartEnd_limit [OF q(3)] buildQueries_limit(1) [of q2] q(4)
    by auto
  obtain sf where run: "(case pq_type q of
          QRange \<Rightarrow>
            (case pq_queries q of
               [] \<Rightarrow> Inl (TypeErr ''Cannot read properties'')
             | v # _ \<Rightarrow> rbind (plan_range n sf (sq_opt v) dir (sq_prefix v) (query_cur q) w) (\<lambda>r. Inr (FList r)))
        | QRanges \<Rightarrow> rbind (ranges n sf (pq_limit q) dir (query_cur q) (pq_sortRange q) w (pq_queries q)) (\<lambda>r. Inr (FList r))
        | QPranges \<Rightarrow> rbind (pranges n sf (pq_limit q) dir (query_cur q) (pq_sortByTail q) w (pq_queries q)) (\<lambda>r. Inr (FList r))
        | QNone \<Rightarrow> Inr FNull) = Inr (FList xs)"
    using assms(2) by (auto simp: plan_get_def rbind_Inr_iff split: if_splits)
  have "int (length xs) \<le> pq_limit q"
  proof (cases "pq_type q")
    case QRange
    then obtain v vs where "pq_queries q = v # vs" "plan_range n sf (sq_opt v) dir (sq_prefix v) (query_cur q) w = Inr xs"
      using run by (auto simp: rbind_Inr_iff split: list.splits)
    with QRange lim plan_range_len show ?thesis by (metis buildQueries_limit(2) q(4))
  next
    case QRanges
    with run lim(1) show ?thesis by (auto simp: rbind_Inr_iff ranges_def dest!: run_ranges_len split: if_splits)
  next
    case QPranges
    then obtain ps res where "xs = take (nat (pq_limit q)) res"
      using run by (auto simp: rbind_Inr_iff pranges_def Let_def) (case_tac x; auto simp: rbind_Inr_iff Let_def)
    with lim(1) show ?thesis by simp
  qed (use run in auto)
  with lim show ?thesis by simp
qed

text \<open>A directory with two documents and an index on their age, and a query of one of them.\<close>

definition shelf :: wkv where
  "shelf =
     ix_put ''d'' ''age/asc/0'' (node_jv \<lparr>bn_leaf = True, bn_id = ''0'', bn_vals = [JStr ''a'', JStr ''b''], bn_children = [],
         bn_parent = None, bn_next = None, bn_prev = None\<rparr>)
     (ix_put ''d'' ''age/asc/root'' (JStr ''0'')
     (dput ''d'' ''a'' (JObj [(''age'', JNum 1)]) (dput ''d'' ''b'' (JObj [(''age'', JNum 2)]) (kv_new Map.empty))))"

lemma shelf_get:
  "ix_get ''d'' ''age/asc/root'' shelf = JStr ''0''" 
  "ix_get ''d'' ''age/asc/0'' shelf = node_jv \<lparr>bn_leaf = True, bn_id = ''0'', bn_vals = [JStr ''a'', JStr ''b''], bn_children = [],
         bn_parent = None, bn_next = None, bn_prev = None\<rparr>"
  "dget shelf ''d'' ''a'' = JObj [(''age'', JNum 1)]"
  "dget shelf ''d'' ''b'' = JObj [(''age'', JNum 2)]"
  by (simp_all add: shelf_def ix_get_def ix_put_def ikey_def dget_def dput_def dkey_def node_jv_def kv_simps)

lemma shelf_range:
  "plan_range (Suc (Suc n)) [[''age'', ''asc'']] (no_opt\<lparr>ro_limit := Some 1\<rparr>) ''d'' None \<lparr>qc_start = None, qc_end = None, qc_rev_start = False, qc_rev_end = False\<rparr> shelf = 
     Inr [\<lparr>it_key = JStr ''a'', it_val = JObj [(''age'', JNum 1)]\<rparr>]"
proof -
  let ?V = "tree_view ''d'' ''age/asc'' shelf"
  have V: "bv_get ?V ''root'' = Some (SRoot ''0'')"
    "bv_get ?V ''0'' = Some (SNode \<lparr>bn_leaf = True, bn_id = ''0'', bn_vals = [JStr ''a'', JStr ''b''], bn_children = [],
         bn_parent = None, bn_next = None, bn_prev = None\<rparr>)"
    "bv_data ?V ''a'' = JObj [(''age'', JNum 1)]" "bv_data ?V ''b'' = JObj [(''age'', JNum 2)]"
    using jv_sv_jv [of "SNode _"] jv_sv_jv [of "SRoot _"] by (simp_all add: tree_view_def shelf_get)
  show ?thesis
    by (simp add: plan_range_def flip_desc_def isArrayIndex_def range_prefix_def join_sorts_def checkIndex_def index_pair_def 
   bpt_range_def range_limit_def range_start_def modOpt_def swap_bounds_def query_cur_def no_opt_def V b_get_def b_root_def as_node_def start_key_def
   b_data_def past_end_def nullish_def)
qed
lemma shelf_query:
  "parseQuery [JStr ''d'', JArr [JStr ''age''], JNum 1] = Inr q \<Longrightarrow>
   plan_get 2 q ''d'' shelf = Inr (FList [\<lparr>it_key = JStr ''a'', it_val = JObj [(''age'', JNum 1)]\<rparr>])"
  using shelf_range [of 0]
  by (auto simp: parse_eval plan_get_def sorts_of_def query_cur_def numeral_2_eq_2 with_limit_def plain_sub_def no_opt_def)

theorem get_within_limit_witness:
  "\<exists>q xs. parseQuery [JStr ''d'', JArr [JStr ''age''], JNum 1] = Inr q \<and> plan_get 2 q ''d'' shelf = Inr (FList xs) \<and>
     xs \<noteq> [] \<and> int (length xs) \<le> pq_limit q"
proof -
  obtain q where q: "parseQuery [JStr ''d'', JArr [JStr ''age''], JNum 1] = Inr q" by (simp add: parse_eval)
  from get_within_limit [OF q shelf_query [OF q]] q shelf_query [OF q] show ?thesis by auto
qed

section \<open>Reading\<close>

definition parsed_get :: "jv list \<Rightarrow> ctx \<Rightarrow> ctx" where
  "parsed_get xs c =
     (let c1 = c\<lparr>c_query := JArr xs, c_dir := jidx xs 0\<rparr>;
          c2 = (if is_str (jidx xs 1) then c1\<lparr>c_doc := jidx xs 1, c_range := JBool False\<rparr> else c1\<lparr>c_range := JBool True\<rparr>);
          dir = jidx xs 0
      in c2\<lparr>c_dirinfo := (if truthy dir then vget (c_kv c) (JStr ''_'') dir else c_dirinfo c),
            c_kv_dir := Some (to_str dir)\<rparr>)"

lemma dev_parse_get:
  assumes "c_opcode c = JStr op" and "op \<in> {''get'', ''cget''}" and "c_query c = JArr (y # xs)"
  shows "dev_parse X n c = rbind (lift_res c (if is_str (jidx xs 1) then checkDocID (jidx xs 1) (c_kv c) else Inr ()))
     (\<lambda>_. Inr (parsed_get xs c))"
proof -
  let ?c = "c\<lparr>c_query := JArr xs\<rparr>"
  have op: "op_in l (c\<lparr>c_query := v, c_dir := d\<rparr>) \<longleftrightarrow> op \<in> set l" "op_in l (c\<lparr>c_query := v\<rparr>) \<longleftrightarrow> op \<in> set l" for l v d
    using assms(1) by (simp_all add: op_in_def)
  have parse: "parse_query ?c = (if is_str (jidx xs 1)
      then rbind (lift_res ?c (checkDocID (jidx xs 1) (c_kv c))) (\<lambda>_. Inr (?c\<lparr>c_dir := jidx xs 0, c_doc := jidx xs 1, c_range := JBool False\<rparr>))
      else Inr (?c\<lparr>c_dir := jidx xs 0, c_range := JBool True\<rparr>))"
    using assms(2) unfolding parse_query_def Let_def op by (elim insertE) simp_all
  have k: "lift_res ?c m = lift_res c m" for m :: "unit res" by (simp add: lift_res_def)
  have step: "parser_step X n c' = Inr c'" if "c_opcode c' = JStr op" for c'
    using that assms(2) by (auto simp: parser_step_def)
  have dir: "query_dir c' = c_dir c'" if "c_opcode c' = JStr op" for c'
    using that assms(2) by (auto simp: query_dir_def op_in_def)
  have nb: "\<not> op_in [''batch''] ?c" using assms(2) unfolding op by auto
  have sh: "shift_query c = Inr ?c" by (simp add: shift_query_def assms(3))
  show ?thesis
    unfolding dev_parse_def sh rbind_simps
    by (simp only: nb parse k if_False, cases "is_str (jidx xs 1)")
      (simp_all add: rbind_assoc step dir assms(1) parsed_get_def Let_def cong: rbind_cong)
qed

text \<open>A part of a device that leaves the store alone, also when it throws.\<close>

definition quiet :: "wkv \<Rightarrow> ctx sres \<Rightarrow> bool" where
  "quiet w r \<longleftrightarrow> (case r of Inl (e, w') \<Rightarrow> w' = w | Inr c \<Rightarrow> c_kv c = w)"

named_theorems quiet_intros

lemma quiet_rules [quiet_intros]:
  "quiet (c_kv c) (fail e c)" "c_kv c' = w \<Longrightarrow> quiet w (Inr c')"
  "quiet w r \<Longrightarrow> quiet w r' \<Longrightarrow> quiet w (if b then r else r')"
  "quiet (c_kv c) (f c) \<Longrightarrow> quiet (c_kv c) (rbind (need_dir c) f)"
  by (auto simp: quiet_def fail_def need_dir_def)

lemma quiet_lift [quiet_intros]: "(\<And>x. quiet (c_kv c) (f x)) \<Longrightarrow> quiet (c_kv c) (rbind (lift_res c m) f)"
  by (cases m) (auto simp: quiet_def lift_res_def)

lemma quiet_dir [quiet_intros]: "(\<And>x. quiet (c_kv c) (f x)) \<Longrightarrow> quiet (c_kv c) (rbind (kv_dir_name c) f)"
  by (auto simp: quiet_def kv_dir_name_def fail_def split: option.splits)

lemma dev_get_quiet: "quiet (c_kv c) (dev_get n c)"
proof -
  have res: "quiet (c_kv c) (case r of FDoc v \<Rightarrow> fd v | FList xs \<Rightarrow> fl xs | FNull \<Rightarrow> fail e c)"
    if "\<And>v. quiet (c_kv c) (fd v)" "\<And>xs. quiet (c_kv c) (fl xs)" for r fd fl e
    using that by (cases r) (auto intro: quiet_intros)
  show ?thesis unfolding dev_get_def Let_def by (intro quiet_intros res; simp)
qed

lemma read_branch_quiet: "quiet (c_kv c) (match (Some pred) (read_branches n) c)"
  using dev_get_quiet [of c n] by (auto simp: read_branches_def mon_map_def quiet_def)

lemma get_route_split:
  "flow (SSeq (get_route X n op)) (Some pred) c =
     rbind (tdev_noauth op c) (\<lambda>c1. rbind (dev_parse X n c1) (\<lambda>c2. rbind (dev_read c2) (match (Some pred) (read_branches n))))"
  by (simp add: flow_def get_route_def mon_map_def rbind_assoc cong: rbind_cong)

lemma quiet_read: "quiet (c_kv c) (rbind (dev_read c) (match (Some pred) (read_branches n)))"
  using read_branch_quiet [of "c\<lparr>c_branch := JStr ''get''\<rparr>" n] by (simp add: dev_read_def)

lemma quiet_parse:
  assumes "c_opcode c = JStr op" "op \<in> {''get'', ''cget''}" "c_query c = JArr (y # xs)"
  shows "quiet (c_kv c) (rbind (dev_parse X n c) (\<lambda>c1. rbind (dev_read c1) (match (Some pred) (read_branches n))))"
proof -
  have p: "c_kv (parsed_get xs c) = c_kv c" by (simp add: parsed_get_def Let_def)
  show ?thesis unfolding dev_parse_get [OF assms] rbind_assoc rbind_simps
    by (intro quiet_lift) (metis p quiet_read)
qed

lemma get_route_quiet:
  assumes "op \<in> {''get'', ''cget''}"
  shows "quiet (c_kv c) (flow (SSeq (get_route X n op)) (Some pred) c)"
proof (cases "as_list (c_msg c)")
  case (Inl e)
  then show ?thesis by (simp add: get_route_split tdev_noauth_def lift_res_def at_store_def quiet_def)
next
  case (Inr ms)
  then have t: "tdev_noauth op c = Inr (c\<lparr>c_opcode := JStr op, c_query := JArr (JStr op # ms)\<rparr>)"
    by (simp add: tdev_noauth_def)
  show ?thesis unfolding get_route_split t rbind_simps
    using quiet_parse [of "c\<lparr>c_opcode := JStr op, c_query := JArr (JStr op # ms)\<rparr>" op "JStr op" ms] assms by simp
qed

text \<open>What a method that only reads does to the store.\<close>

definition leaves :: "wkv \<Rightarrow> wkv \<times> (js_error + ctx) \<Rightarrow> bool" where
  "leaves w r = (case r of (w', Inl e) \<Rightarrow> w' = kv_reset w | (w', Inr c) \<Rightarrow> w' = w)"

lemma quiet_leaves:
  "quiet w (flow (SSeq devs) (Some pred) (init_ctx opt msg w)) \<Longrightarrow> leaves w (run_method devs opt msg w)"
  by (auto simp: leaves_def quiet_def run_method_def split: sum.splits)

text \<open>
  C18. \<open>get\<close> and \<open>cget\<close> do not change the store: a read that succeeds leaves it as it was, the running
  transaction included, and one that fails leaves what was committed.
\<close>

theorem get_reads_only:
  "leaves w (run_method (get_route X n ''get'') opt msg w) \<and> leaves w (run_method (get_route X n ''cget'') opt msg w)"
proof -
  have "c_kv (init_ctx opt msg w) = w" by (simp add: init_ctx_def)
  then have "quiet w (flow (SSeq (get_route X n op)) (Some pred) (init_ctx opt msg w))" if "op \<in> {''get'', ''cget''}" for op
    using get_route_quiet [OF that, of "init_ctx opt msg w" X n] by simp
  then show ?thesis by (intro conjI quiet_leaves) simp_all
qed

text \<open>
  C17. Reading one document: \<open>get\<close> with the name of a directory that exists and a document id of the right
  form returns what the store holds for it, \<open>null\<close> if it holds nothing.
\<close>

theorem get_returns_doc:
  assumes "\<not> is_nil (vget w (JStr ''_'') (JStr dir))" and "checkDocID (JStr doc) w = Inr ()"
  shows "\<exists>c. run_method (get_route X n ''get'') opt (JArr [JStr dir, JStr doc]) w = (w, Inr c) \<and>
     c_result c = vget w (JStr dir) (JStr doc)"
proof -
  let ?c = "(init_ctx opt (JArr [JStr dir, JStr doc]) w)\<lparr>c_opcode := JStr ''get'', c_query := JArr [JStr ''get'', JStr dir, JStr doc]\<rparr>"
  let ?p = "(parsed_get [JStr dir, JStr doc] ?c)\<lparr>c_branch := JStr ''get''\<rparr>"
  have kv: "c_kv ?c = w" by (simp add: init_ctx_def)
  have p: "dev_parse X n ?c = Inr (parsed_get [JStr dir, JStr doc] ?c)"
    using assms(2) by (subst dev_parse_get [of _ "''get''" "JStr ''get''" "[JStr dir, JStr doc]"]) (simp_all add: kv)
  have q: "\<exists>q. parseQuery [JStr dir, JStr doc] = Inr q \<and> pq_path q = [dir, doc]"
    by (simp add: parse_eval)
  have nn: "nullish (kv_get w k) JNull = kv_get w k" for k
    by (simp add: kv_get_def nullish_def is_nil_def)
  have pk: "c_kv (parsed_get xs c) = c_kv c" "c_kv (init_ctx opt m w) = w" for xs c m
    by (simp_all add: parsed_get_def Let_def init_ctx_def)
  have fields: "c_kv ?p = w" "c_dir ?p = JStr dir" "c_query ?p = JArr [JStr dir, JStr doc]" "c_kv_dir ?p = Some dir"
      "c_range ?p = JBool False" "c_opcode ?p = JStr ''get''"
    by (simp_all add: parsed_get_def Let_def kv init_ctx_def)
  have "\<exists>c. dev_get n ?p = Inr c \<and> c_kv c = w \<and> c_result c = vget w (JStr dir) (JStr doc)"
    using assms(1) q
    by (auto simp: dev_get_def need_dir_def fields as_list_def kv_dir_name_def plan_get_def op_in_def plan_doc_def b_data_def
        tree_view_def vget_def dget_def nn pk Let_def)
  then obtain c where "dev_get n ?p = Inr c" "c_kv c = w" "c_result c = vget w (JStr dir) (JStr doc)" by blast
  moreover have "flow (SSeq (get_route X n ''get'')) (Some pred) (init_ctx opt (JArr [JStr dir, JStr doc]) w) = dev_get n ?p"
    using p
    by (simp add: flow_def get_route_def mon_map_def tdev_noauth_def as_list_def init_ctx_def dev_read_def read_branches_def pred_def
        nullish_def)
  ultimately show ?thesis by (simp add: run_method_def)
qed

definition shop :: wkv where
  "shop = dput ''_config'' ''info'' (JObj [(''max_doc_id'', JNum 168)]) (dput ''_'' ''d'' (JObj []) shelf)"

lemma shop_get:
  "vget shop (JStr ''_'') (JStr ''d'') = JObj []" "vget shop (JStr ''d'') (JStr ''a'') = JObj [(''age'', JNum 1)]"
  "vget shop (JStr ''_config'') (JStr ''info'') = JObj [(''max_doc_id'', JNum 168)]"
  using shelf_get(3) by (simp_all add: shop_def vget_def dget_def dput_def dkey_def kv_simps)

lemma short_id: "checkMaxDocID ''a'' 168" "is_b64url_char (CHR ''a'')"
  by code_simp+

theorem get_returns_doc_witness:
  "\<forall>X n opt. \<exists>c. run_method (get_route X n ''get'') opt (JArr [JStr ''d'', JStr ''a'']) shop = (shop, Inr c) \<and>
     c_result c = JObj [(''age'', JNum 1)]"
proof -
  have "checkDocID (JStr ''a'') shop = Inr ()"
    by (simp add: checkDocID_def shop_get short_id jprop_def as_str_def rguard_def)
  then show ?thesis using get_returns_doc [of shop "''d''" "''a''"] by (simp add: shop_get)
qed

end
