(* ===== verification/Dev_Sst.thy ===== *)
theory Dev_Sst
  imports Planner
begin

text \<open>
  The route \<open>sst\<close> of \<open>core/src/db.js\<close>, the database run as a verifiable replica: a commit carries the
  compressed changes of the primary, which \<open>dev_decode.js\<close> unpacks and enters into a sparse Merkle tree and
  \<open>dev_load.js\<close> stores.

  The record \<open>sst_ext\<close> holds the packages outside the repository: Brotli, the decoder and the delta tables of
  \<open>arjson\<close> (\<open>'j\<close> is an open table) and the tree of \<open>zkjson\<close> (\<open>'z\<close>). All the tree is given of the store is
  \<open>kv_zkp\<close>, with which it reads and writes documents \<open>key_k\<close> of the directory \<open>__zkp__\<close>: a call of it sees a
  view of these and answers with what it puts, in order, where \<open>null\<close> is a \<open>del\<close>. A buffer is the array of
  its bytes. Keys have a directory and a document, parted by a slash; objects are values.
\<close>

type_synonym zk_view = "string \<Rightarrow> string \<Rightarrow> jv"
type_synonym zk_puts = "(string \<times> string \<times> jv) list"
type_synonym 'z zk_step = "'z \<Rightarrow> zk_view \<Rightarrow> js_error option \<times> 'z \<times> zk_puts"

record ('j, 'z) sst_ext =
  sx_brotli :: "bytes \<Rightarrow> bytes res"
  sx_header :: "bytes \<Rightarrow> ((string \<times> nat) list \<times> string list) res"
  sx_open :: "jv \<Rightarrow> 'j res"
  sx_first :: "bytes \<Rightarrow> 'j res"
  sx_load :: "'j \<Rightarrow> bytes \<Rightarrow> 'j res"
  sx_table :: "'j \<Rightarrow> jv"
  sx_json :: "'j \<Rightarrow> jv"
  sx_zk :: "jv \<Rightarrow> zk_view \<Rightarrow> (js_error + 'z) \<times> zk_puts"
  sx_zk_add :: "jv \<Rightarrow> 'z zk_step"
  sx_zk_insert :: "jv \<Rightarrow> string \<Rightarrow> jv \<Rightarrow> 'z zk_step"
  sx_zk_delete :: "jv \<Rightarrow> string \<Rightarrow> 'z zk_step"
  sx_zk_hash :: "'z \<Rightarrow> jv"
  sx_zk_inputs :: "jv \<Rightarrow> 'z \<Rightarrow> zk_view \<Rightarrow> (js_error + jv) \<times> zk_puts"

text \<open>\<open>kv_zkp\<close>\<close>

definition zk_key :: "string \<Rightarrow> string \<Rightarrow> jv" where
  "zk_key key k = JStr (key @ ''_'' @ k)"

definition zk_get :: "wkv \<Rightarrow> zk_view" where
  "zk_get w key k = vget w (JStr ''__zkp__'') (zk_key key k)"

definition zk_store :: "zk_puts \<Rightarrow> wkv \<Rightarrow> wkv" where
  "zk_store ps w = foldl (\<lambda>w (key, k, v). vput (JStr ''__zkp__'') (zk_key key k) v w) w ps"

text \<open>A call of the tree that answers a value or throws.\<close>

definition zk_run :: "(zk_view \<Rightarrow> (js_error + 'a) \<times> zk_puts) \<Rightarrow> wkv \<Rightarrow> ('a \<times> wkv) sres" where
  "zk_run f w =
     (case f (zk_get w) of
        (Inl e, ps) \<Rightarrow> Inl (e, zk_store ps w)
      | (Inr x, ps) \<Rightarrow> Inr (x, zk_store ps w))"

section \<open>dev_normalize_sst\<close>

definition jbytes :: "jv \<Rightarrow> bytes res" where
  "jbytes v = rbind (as_list v) (\<lambda>xs. Inr (map (\<lambda>x. case x of JNum n \<Rightarrow> word_of_int n | _ \<Rightarrow> 0) xs))"

text \<open>\<open>v.toString("base64url")\<close>: only a buffer looks at the argument.\<close>

definition b64url_text :: "jv \<Rightarrow> string res" where
  "b64url_text v =
     (if is_nil v then Inl type_err
      else if is_arr v then rbind (jbytes v) (\<lambda>bs. Inr (bytesToBase64url bs))
      else Inr (to_str v))"

definition put_sst_info :: "jv \<Rightarrow> ctx \<Rightarrow> ctx" where
  "put_sst_info info c = c\<lparr>c_info := info, c_kv := vput (JStr ''__sst__'') (JStr ''info'') info (c_kv c)\<rparr>"

definition setEnv_sst :: "ext \<Rightarrow> dev" where
  "setEnv_sst X c =
     (if \<not> truthy (c_msg c) then Inr c
      else let i0 = nullish (vget (c_kv c) (JStr ''__sst__'') (JStr ''info'')) info_start;
               i1 = jset i0 ''ts'' (nullish (jget (c_msg c) ''ts'') (JNum (x_now X)))
           in Inr (put_sst_info (jset i1 ''i'' (js_incr (jget i1 ''i''))) (c\<lparr>c_version := JStr module_version\<rparr>)))"

text \<open>\<open>state.version\<close>, which only \<open>dev_init_sst\<close> reads: the version of a process message.\<close>

definition is_process :: "ctx \<Rightarrow> bool" where
  "is_process c \<longleftrightarrow> jget (c_msg c) ''type'' = JStr ''Process''"

definition sst_version :: "ctx \<Rightarrow> jv" where
  "sst_version c = (if is_process c then nullish (jget (c_msg c) ''version'') JNull else JUndef)"

definition set_action :: dev where
  "set_action c =
     (let msg = c_msg c; action = (case jget msg ''action'' of JStr s \<Rightarrow> JStr (lower s) | _ \<Rightarrow> JUndef) in
      rbind (lift_res c (b64url_text (jget msg ''target''))) (\<lambda>t.
        let c1 = c\<lparr>c_id := JStr t\<rparr> in
        if action = JStr ''query'' then
          rbind (lift_res c (json_parse (to_str (nullish (jget msg ''query'') (JArr []))))) (\<lambda>q.
          rbind (lift_res c (jprop q ''0'')) (\<lambda>op.
            Inr (c1\<lparr>c_query := q, c_op := op, c_opcode := op\<rparr>)))
        else if action = JStr ''commit'' then
          (if truthy (jget msg ''zkhash'')
           then Inr (c1\<lparr>c_op := action, c_opcode := action, c_info := jset (c_info c) ''zkhash'' (jget msg ''zkhash'')\<rparr>)
           else fail (Err ''zkhash is missing'') c)
        else Inr (c1\<lparr>c_op := action, c_opcode := action\<rparr>)))"

text \<open>The first commitment of a message: its name, and the address of its owner.\<close>

definition first_commitment :: "jv \<Rightarrow> string option" where
  "first_commitment msg = (case for_keys (jget msg ''commitments'') of [] \<Rightarrow> None | k # _ \<Rightarrow> Some k)"

definition msg_signer :: "ext \<Rightarrow> jv \<Rightarrow> jv res" where
  "msg_signer X msg =
     (case first_commitment msg of
        None \<Rightarrow> Inr JUndef
      | Some k \<Rightarrow> rbind (jprop (jget (jget msg ''commitments'') k) ''owner'') (\<lambda>ow. rbind (b64url_text ow) (\<lambda>s.
                    rbind (toAddr (x_sha256 X) s) (\<lambda>a. Inr (JStr a)))))"

definition setMeta_sst :: "ext \<Rightarrow> dev" where
  "setMeta_sst X c =
     rbind (lift_res c (jprop (c_msg c) ''commitments'')) (\<lambda>_.
     rbind (if is_process c
            then Inr (c\<lparr>c_query := JArr [JStr ''init''], c_op := JStr ''init'', c_opcode := JStr ''init'',
                       c_id := (case first_commitment (c_msg c) of None \<Rightarrow> JNull | Some k \<Rightarrow> JStr k)\<rparr>)
            else set_action c) (\<lambda>c1.
     rbind (lift_res c (msg_signer X (c_msg c))) (\<lambda>signer.
     rbind (lift_res c (wdb23_jv signer)) (\<lambda>s23.
       let nonce = jget (c_msg c) ''nonce'' in
       Inr (c1\<lparr>c_signer := signer, c_signer23 := s23, c_nonce := if is_nil nonce then c_nonce c1 else nonce\<rparr>)))))"

definition dev_normalize_sst :: "ext \<Rightarrow> dev" where
  "dev_normalize_sst X c = rbind (setEnv_sst X c) (\<lambda>c1. rbind (setMeta_sst X c1) setTS64)"

section \<open>dev_verify_sst, dev_parse_sst, dev_auth_sst, dev_write_sst\<close>

definition dev_verify_sst :: dev where
  "dev_verify_sst c =
     rbind (dev_version c) (\<lambda>_.
     rbind (lift_res c (jprop (c_info c) ''id'')) (\<lambda>i.
       if truthy i \<and> \<not> js_eq i (c_id c) then fail (Err ''the wrong id'') c
       else if \<not> op_in [''commit'', ''init''] c then Inr c
       else let acc = vget (c_kv c) (JStr ''__accounts__'') (c_signer c) in
         if \<not> nonce_ok (c_nonce c) (next_nonce acc) then fail (Err ''the wrong nonce: '') c
         else Inr (c\<lparr>c_kv := vput (JStr ''__accounts__'') (c_signer c)
                               (JObj (spread (JObj [(''nonce'', next_nonce acc)]) (spread acc []))) (c_kv c)\<rparr>)))"

definition dev_parse_sst :: dev where
  "dev_parse_sst c =
     rbind (if truthy (c_query c) then shift_query c else Inr c) (\<lambda>c1.
       if op_in [''batch''] c1 then Inr c1
       else if op_in [''get'', ''cget''] c1 then
         rbind (lift_res c1 (as_list (c_query c1))) (\<lambda>q.
           let c2 = c1\<lparr>c_dir := jidx q 0, c_kv_dir := Some (to_str (jidx q 0))\<rparr> in
           if is_str (jidx q 1)
           then rbind (lift_res c1 (checkDocID (jidx q 1) (c_kv c1))) (\<lambda>_. Inr (c2\<lparr>c_doc := jidx q 1, c_range := JBool False\<rparr>))
           else Inr (c2\<lparr>c_range := JBool True\<rparr>))
       else if op_in [''upgrade''] c1 then
         rbind (lift_res c1 (as_list (c_query c1))) (\<lambda>q. Inr (c1\<lparr>c_data := jidx q 0\<rparr>))
       else Inr c1)"

definition dev_auth_sst :: dev where
  "dev_auth_sst c =
     (if op_in [''init'', ''get'', ''cget''] c then Inr c
      else if op_in [''set'', ''del'', ''commit'', ''migrate'', ''revert'', ''upgrade''] c then onlyOwner c
      else fail (Err ''operation not allowed:'') c)"

definition br_sst :: "(string \<times> string) list" where
  "br_sst = [(''init'', ''init''), (''migrate'', ''migrate''), (''upgrade'', ''upgrade''), (''revert'', ''revert''),
             (''get'', ''get''), (''cget'', ''get''), (''commit'', ''load'')]"

definition dev_write_sst :: dev where
  "dev_write_sst c =
     (case c_opcode c of
        JStr op \<Rightarrow> Inr (case map_of br_sst op of None \<Rightarrow> c | Some b \<Rightarrow> c\<lparr>c_branch := JStr b\<rparr>)
      | _ \<Rightarrow> Inr c)"

definition reader_sst :: "(string \<times> string) list" where
  "reader_sst = [(''get'', ''get''), (''cget'', ''get''), (''getInputs'', ''get_zkp_inputs'')]"

definition dev_read_sst :: dev where
  "dev_read_sst c =
     Inr (c\<lparr>c_branch := (case c_opcode c of
                           JStr op \<Rightarrow> (case map_of reader_sst op of None \<Rightarrow> JUndef | Some b \<Rightarrow> JStr b)
                         | _ \<Rightarrow> JUndef)\<rparr>)"

section \<open>dev_init_sst, dev_upgrade_sst, dev_revert_sst, dev_migrate_sst\<close>

definition dev_init_sst :: dev where
  "dev_init_sst c =
     (let i = c_info c; ver = sst_version c; db = jget (c_msg c) ''db'';
          info = JObj [(''i'', jget i ''i''), (''id'', c_id c), (''owner'', c_signer c), (''ts'', jget i ''ts''), (''db'', db),
                       (''total_size'', JNum 0)]
      in rbind (lift_res c (jprop i ''id'')) (\<lambda>id'.
           if truthy id' then fail (Err ''already initialized'') c
           else if \<not> truthy db then fail (Err ''db is missing'') c
           else if truthy ver \<and> \<not> js_eq (c_version c) ver \<and> c_ignore_version c \<noteq> JBool True
             then fail (Err ''the wrong version: '') c
           else Inr (c\<lparr>c_kv := vput (JStr ''__sst__'') (JStr ''info'')
                                 (if truthy ver then jset info ''version'' ver else info) (c_kv c)\<rparr>)))"

definition dev_upgrade_sst :: dev where
  "dev_upgrade_sst c =
     (if is_nil (c_info c) then fail type_err c else Inr (put_sst_info (jset (c_info c) ''upgrading'' (c_data c)) c))"

definition dev_revert_sst :: dev where
  "dev_revert_sst c =
     rbind (lift_res c (jprop (c_info c) ''upgrading'')) (\<lambda>u.
       if \<not> truthy u then fail (Err ''not in the process of upgrading'') c
       else Inr (put_sst_info (jdel (c_info c) ''upgrading'') c))"

text \<open>It writes \<open>_config/info\<close>, the information of the replicated database, where the two above write
  \<open>__sst__/info\<close>.\<close>

definition dev_migrate_sst :: dev where
  "dev_migrate_sst c =
     rbind (lift_res c (jprop (c_info c) ''upgrading'')) (\<lambda>u.
       if \<not> truthy u then fail (Err ''not in the process of upgrading'') c
       else if \<not> js_eq (c_version c) u then fail (Err ''the wrong version running'') c
       else if jget (c_info c) ''version'' \<noteq> JStr ''0.1.0'' then fail (Err ''migration not possible from '') c
       else Inr (put_info (jdel (jset (c_info c) ''version'' (c_version c)) ''upgrading'') c))"

section \<open>dev_batch_sst, dev_load\<close>

text \<open>As \<open>dev_batch\<close>, without the rules of the directory, and with the information of the database.\<close>

definition db_info :: "wkv \<Rightarrow> jv" where
  "db_info w = vget w (JStr ''_config'') (JStr ''info'')"

definition batch_ctx_sst :: "ctx \<Rightarrow> jv \<Rightarrow> ctx" where
  "batch_ctx_sst c q = (batch_ctx c q)\<lparr>c_info := db_info (c_kv c)\<rparr>"

definition batch_item_sst :: "ext \<Rightarrow> nat \<Rightarrow> ctx \<Rightarrow> jv \<Rightarrow> ctx sres" where
  "batch_item_sst X n c q =
     rbind (rbind (parseOp (batch_ctx_sst c q)) (\<lambda>b1. rbind (dev_parse X n b1) (batch_write X n)))
       (\<lambda>b. Inr (c\<lparr>c_kv := c_kv b\<rparr>))"

definition dev_batch_sst :: "ext \<Rightarrow> nat \<Rightarrow> dev" where
  "dev_batch_sst X n c = rbind (lift_res c (as_list (c_query c))) (\<lambda>qs. rfoldl (batch_item_sst X n) c qs)"

text \<open>\<open>dir\<close>, \<open>dirinfo\<close> and \<open>data\<close> of the context made for an index.\<close>

definition load_ctx :: "ctx \<Rightarrow> jv \<Rightarrow> jv \<Rightarrow> ctx" where
  "load_ctx c data dir =
     blank\<lparr>c_dir := dir, c_dirinfo := vget (c_kv c) (JStr ''_'') dir, c_data := data, c_kv := c_kv c,
           c_kv_dir := Some (to_str dir)\<rparr>"

definition load_addIndex :: "nat \<Rightarrow> dev" where
  "load_addIndex n c =
     (case c_data c of
        JArr data \<Rightarrow>
          (if length data < 2 then fail (Err ''index must be multi fields'') c
           else rbind (lift_res c (stored_indexes c)) (\<lambda>ixs.
                rbind (lift_res c (normalizeIndex data)) (\<lambda>ix.
                rbind (lift_res c (if truthy (jget ixs ''indexes'') then as_list (jget ixs ''indexes'') else Inr [])) (\<lambda>vs.
                  if list_ex (jequals (JArr ix)) vs then fail (Err ''index already exists:'') c
                  else if \<not> is_arr (jget ixs ''indexes'') then fail type_err c
                  else rbind (lift_res c (jv_sorts data)) (\<lambda>sf.
                       rbind (kv_dir_name c) (\<lambda>d.
                       rbind (addIndex n d sf (c_kv c)) (\<lambda>w. Inr (put_indexes ixs (vs @ [JArr ix]) (set_kv w c)))))))))
      | _ \<Rightarrow> fail (Err ''index must be Array'') c)"

definition load_removeIndex :: "nat \<Rightarrow> dev" where
  "load_removeIndex n c =
     rbind (lift_res c (stored_indexes c)) (\<lambda>ixs.
     rbind (lift_res c (as_list (c_data c))) (\<lambda>data.
     rbind (lift_res c (normalizeIndex data)) (\<lambda>ix.
     rbind (lift_res c (as_list (jget ixs ''indexes''))) (\<lambda>vs.
       if \<not> list_ex (jequals (JArr ix)) vs then fail (Err ''index doesn't exist'') c
       else rbind (lift_res c (jv_sorts data)) (\<lambda>sf.
            rbind (kv_dir_name c) (\<lambda>d.
            rbind (removeIndex n d sf (c_kv c)) (\<lambda>w.
              Inr (put_indexes ixs (filter (\<lambda>v. \<not> jequals (JArr ix) v) vs) (set_kv w c))))))))) "

text \<open>One update of the list: an index is built at once, the others wait for the batch.\<close>

definition load_update :: "nat \<Rightarrow> ctx \<times> jv list \<Rightarrow> jv \<Rightarrow> (ctx \<times> jv list) sres" where
  "load_update n cb v =
     (case cb of (c, waiting) \<Rightarrow>
        rbind (lift_res c (as_list v)) (\<lambda>u. let op = jidx u 0; query = jidx u 1 in
          if op \<in> {JStr ''addIndex'', JStr ''removeIndex''} then
            rbind (lift_res c (jprop query ''1'')) (\<lambda>dir.
            rbind ((if op = JStr ''addIndex'' then load_addIndex n else load_removeIndex n)
                     (load_ctx c (jget query ''0'') dir)) (\<lambda>b. Inr (c\<lparr>c_kv := c_kv b\<rparr>, waiting)))
          else rbind (lift_res c (as_list query)) (\<lambda>q. Inr (c, waiting @ [JArr (op # q)]))))"

definition dev_load :: "ext \<Rightarrow> nat \<Rightarrow> dev" where
  "dev_load X n c =
     rbind (lift_res c (as_list (c_updates c))) (\<lambda>us.
     rbind (rfoldl (load_update n) (c, []) us) (\<lambda>(c1, batch).
     rbind (dev_batch_sst X n (c1\<lparr>c_query := JArr batch\<rparr>)) (\<lambda>c2.
       Inr (c1\<lparr>c_kv := c_kv c2, c_result := JObj [(''decode'', JBool True)]\<rparr>))))"

section \<open>dev_decode: the wire format\<close>

text \<open>\<open>parseInt(bits, 2)\<close> stored in a byte; a part that is not a numeral is \<open>NaN\<close>, stored as 0.\<close>

definition bits_byte :: "string \<Rightarrow> 8 word" where
  "bits_byte s = of_nat (foldl (\<lambda>a c. 2 * a + (if c = CHR ''1'' then 1 else 0)) 0 (takeWhile (\<lambda>c. c \<in> {CHR ''0'', CHR ''1''}) s))"

fun frombits_from :: "string \<Rightarrow> bytes" where
  "frombits_from [] = []"
| "frombits_from (c # cs) =
     (let b = take 8 (c # cs) in bits_byte (b @ replicate (8 - length b) (CHR ''0'')) # frombits_from (drop 7 cs))"

definition frombits :: "string list \<Rightarrow> bytes" where
  "frombits left = frombits_from (concat left)"

text \<open>A length: groups of seven bits, the lowest first, the top bit set on all but the last. Past the end the
  byte is \<open>undefined\<close>, which ends the number. The result is the length and the offset behind it.\<close>

function read_len :: "bytes \<Rightarrow> nat \<Rightarrow> nat \<Rightarrow> nat \<Rightarrow> nat \<times> nat" where
  "read_len bs off shift acc =
     (if off < length bs then
        let b = bs ! off; acc1 = acc + unat (b AND 0x7F) * 2 ^ shift
        in if b AND 0x80 \<noteq> 0 then read_len bs (off + 1) (shift + 7) acc1 else (acc1, off + 1)
      else (acc, off + 1))"
  by auto
termination by (relation "measure (\<lambda>(bs, off, _). length bs - off)") auto

fun read_deltas :: "nat \<Rightarrow> bytes \<Rightarrow> nat \<Rightarrow> bytes list \<times> nat" where
  "read_deltas 0 bs off = ([], off)"
| "read_deltas (Suc k) bs off =
     (case read_len bs off 0 0 of (len, off1) \<Rightarrow>
        (case read_deltas k bs (off1 + len) of (ds, off2) \<Rightarrow> (take len (drop off1 bs) # ds, off2)))"

fun read_changes :: "(string \<times> nat) list \<Rightarrow> bytes \<Rightarrow> nat \<Rightarrow> (string \<times> bytes list) list" where
  "read_changes [] bs off = []"
| "read_changes ((key, k) # hs) bs off =
     (case read_deltas k bs off of (ds, off1) \<Rightarrow> (key, ds) # read_changes hs bs off1)"

definition decodeBuf :: "('j, 'z) sst_ext \<Rightarrow> bytes \<Rightarrow> (string \<times> bytes list) list res" where
  "decodeBuf S buf = rbind (sx_header S buf) (\<lambda>(header, left). Inr (read_changes header (frombits left) 0))"

section \<open>dev_decode: the changes\<close>

text \<open>The table of a key: the stored one, if any, with the deltas loaded, or the one the first delta opens.\<close>

definition open_table :: "('j, 'z) sst_ext \<Rightarrow> jv \<Rightarrow> bytes list \<Rightarrow> 'j res" where
  "open_table S cache ds =
     (if truthy cache then rbind (sx_open S cache) (\<lambda>j. rfoldl (sx_load S) j ds)
      else (case ds of [] \<Rightarrow> Inl type_err | d # ds' \<Rightarrow> rbind (sx_first S d) (\<lambda>j. rfoldl (sx_load S) j ds')))"

text \<open>\<open>changes\<close>, as the objects of the code: a directory or a document is a key.\<close>

record changes =
  ch_dirs :: "(string \<times> jv) list"
  ch_docs :: "(string \<times> (string \<times> jv) list) list"
  ch_indexes :: "(string \<times> jv) list"
  ch_rest :: "(string \<times> string \<times> string \<times> jv) list"

definition no_changes :: changes where
  "no_changes = \<lparr>ch_dirs = [], ch_docs = [], ch_indexes = [], ch_rest = []\<rparr>"

definition key_parts :: "string \<Rightarrow> string \<times> string" where
  "key_parts key = (case split_on (CHR ''/'') key of d # doc # _ \<Rightarrow> (d, doc) | [d] \<Rightarrow> (d, ''undefined'') | [] \<Rightarrow> ([], ''undefined''))"

definition indexes_id :: "string \<Rightarrow> string option" where
  "indexes_id doc =
     (if starts_with ''indexes_'' doc \<and> drop 8 doc \<noteq> [] \<and> list_all is_digit (drop 8 doc) then Some (drop 8 doc) else None)"

text \<open>Where a change goes. \<open>!/^_/.test(v[0])\<close> reads the field \<open>0\<close> of an object that has none, so it always
  holds and the case after it is never reached.\<close>

definition sort_change :: "string \<Rightarrow> jv \<Rightarrow> changes \<Rightarrow> changes" where
  "sort_change key data ch =
     (case key_parts key of (dir, doc) \<Rightarrow>
        let rest = ch\<lparr>ch_rest := oput key (dir, doc, data) (ch_rest ch)\<rparr> in
        if dir = ''_'' then
          (if is_nil (jget data ''index'') then rest else rest\<lparr>ch_dirs := oput doc data (ch_dirs rest)\<rparr>)
        else if dir = ''_config'' then
          (case indexes_id doc of None \<Rightarrow> rest | Some i \<Rightarrow> ch\<lparr>ch_indexes := oput i data (ch_indexes ch)\<rparr>)
        else ch\<lparr>ch_docs := oput dir (oput doc data (case map_of (ch_docs ch) dir of None \<Rightarrow> [] | Some ds \<Rightarrow> ds)) (ch_docs ch)\<rparr>)"

text \<open>The state of the loop: the store, the tree, its collections by directory name, and the changes.\<close>

record 'z dst =
  d_kv :: wkv
  d_zk :: 'z
  d_cols :: jv
  d_ch :: changes

text \<open>A new directory gets a collection; its number is set before the tree is asked for it.\<close>

definition add_collection :: "('j, 'z) sst_ext \<Rightarrow> string \<Rightarrow> string \<Rightarrow> jv \<Rightarrow> 'z dst \<Rightarrow> 'z dst sres" where
  "add_collection S dir doc data s =
     (let ix = jget data ''index'' in
      if dir = ''_'' \<and> \<not> is_nil ix \<and> is_nil (jget (d_cols s) doc) then
        let cols = jset (d_cols s) doc ix in
        (case sx_zk_add S ix (d_zk s) (zk_get (d_kv s)) of
           (Some e, z, ps) \<Rightarrow> Inl (e, zk_store ps (d_kv s))
         | (None, z, ps) \<Rightarrow>
             Inr (s\<lparr>d_cols := cols, d_zk := z, d_kv := vput (JStr ''__zkp__'') (JStr ''cols'') cols (zk_store ps (d_kv s))\<rparr>))
      else Inr s)"

text \<open>Errors of the tree are printed and dropped.\<close>

definition enter_tree :: "('j, 'z) sst_ext \<Rightarrow> string \<Rightarrow> string \<Rightarrow> jv \<Rightarrow> 'z dst \<Rightarrow> 'z dst sres" where
  "enter_tree S dir doc data s =
     (let col = jget (d_cols s) dir;
          (e, z, ps) = (if is_nil data then sx_zk_delete S col doc else sx_zk_insert S col doc data) (d_zk s) (zk_get (d_kv s));
          w = zk_store ps (d_kv s)
      in if e \<noteq> None \<and> data = JUndef then Inl (type_err, w) else Inr (s\<lparr>d_zk := z, d_kv := w\<rparr>))"

definition decode_change :: "('j, 'z) sst_ext \<Rightarrow> 'z dst \<Rightarrow> string \<times> bytes list \<Rightarrow> 'z dst sres" where
  "decode_change S s kd =
     (case kd of (key, ds) \<Rightarrow> case key_parts key of (dir, doc) \<Rightarrow>
        rbind (at_store (d_kv s) (open_table S (vget (d_kv s) (JStr ''__deltas__'') (JStr key)) ds)) (\<lambda>j.
          let data = sx_json S j; s1 = s\<lparr>d_kv := vput (JStr ''__deltas__'') (JStr key) (sx_table S j) (d_kv s)\<rparr> in
          rbind (add_collection S dir doc data s1) (\<lambda>s2.
          rbind (enter_tree S dir doc data s2) (\<lambda>s3.
            Inr (s3\<lparr>d_ch := sort_change key data (d_ch s3)\<rparr>)))))"

text \<open>The directory a number belongs to: a changed one, or one that has a collection.\<close>

definition dir_of_index :: "changes \<Rightarrow> jv \<Rightarrow> string \<Rightarrow> string option" where
  "dir_of_index ch cols dirid =
     (let n = JNum (int (digits_val dirid)) in
      case List.find (\<lambda>kv. jget (snd kv) ''index'' = n) (ch_dirs ch) of
        Some (k, _) \<Rightarrow> (if k = [] then List.find (\<lambda>k. jget cols k = n) (for_keys cols) else Some k)
      | None \<Rightarrow> List.find (\<lambda>k. jget cols k = n) (for_keys cols))"

text \<open>\<open>oldIndexes.map\<close> and \<open>newIndexes.map\<close>: both must be arrays.\<close>

definition as_arr :: "jv \<Rightarrow> jv list res" where
  "as_arr v = (case v of JArr xs \<Rightarrow> Inr xs | _ \<Rightarrow> Inl type_err)"

definition index_update :: "string \<Rightarrow> string \<Rightarrow> jv \<Rightarrow> jv" where
  "index_update op dir ix = JArr [JStr op, JArr [ix, JStr dir]]"

definition index_updates :: "changes \<Rightarrow> jv \<Rightarrow> wkv \<Rightarrow> string \<times> jv \<Rightarrow> jv list res" where
  "index_updates ch cols w ixd =
     (case ixd of (dirid, data) \<Rightarrow>
        let olds = nullish (vget w (JStr ''_config'') (JStr (''indexes_'' @ dirid))) (JArr []);
            news = (if truthy (jget data ''indexes'') then jget data ''indexes'' else JArr [])
        in (case dir_of_index ch cols dirid of
             None \<Rightarrow> Inr []
           | Some dir \<Rightarrow>
               if dir = [] \<or> hd dir = CHR ''_'' then Inr []
               else rbind (as_arr olds) (\<lambda>os. rbind (as_arr news) (\<lambda>ns.
                      Inr (map (index_update ''removeIndex'' dir) (filter (\<lambda>o'. stringify o' \<notin> stringify ` set ns) os) @
                           map (index_update ''addIndex'' dir) (filter (\<lambda>n'. stringify n' \<notin> stringify ` set os) ns))))))"

definition put_rest :: "wkv \<Rightarrow> string \<times> string \<times> string \<times> jv \<Rightarrow> wkv" where
  "put_rest w ch = (case ch of (_, dir, doc, data) \<Rightarrow>
     if is_nil data then vdel (JStr dir) (JStr doc) w else vput (JStr dir) (JStr doc) data w)"

definition doc_update :: "string \<Rightarrow> string \<times> jv \<Rightarrow> jv list" where
  "doc_update dir kv =
     (case kv of (doc, data) \<Rightarrow>
        if data = JNull then [JArr [JStr ''del'', JArr [JStr dir, JStr doc]]]
        else if is_object data then [JArr [JStr ''set'', JArr [data, JStr dir, JStr doc]]]
        else [])"

definition doc_updates :: "changes \<Rightarrow> jv list" where
  "doc_updates ch =
     concat (map (\<lambda>(dir, docs). if dir \<noteq> [] \<and> hd dir = CHR ''_'' then [] else concat (map (doc_update dir) docs)) (ch_docs ch))"

definition cut_buffer :: "jv \<Rightarrow> bytes \<Rightarrow> bytes" where
  "cut_buffer len bs =
     (if truthy len then (case to_num len of
        None \<Rightarrow> []
      | Some n \<Rightarrow> if n \<ge> 0 then take (nat n) bs else take (nat (int (length bs) + n)) bs)
      else bs)"

definition js_plus_int :: "jv \<Rightarrow> int \<Rightarrow> jv" where
  "js_plus_int v k =
     (case to_prim v of
        JStr s \<Rightarrow> JStr (s @ int_to_string k)
      | p \<Rightarrow> (case to_num p of Some n \<Rightarrow> JNum (n + k) | None \<Rightarrow> JUndef))"

text \<open>The message unpacked, and all its changes entered.\<close>

definition decode_loop :: "('j, 'z) sst_ext \<Rightarrow> ctx \<Rightarrow> (ctx \<times> 'z dst) sres" where
  "decode_loop S c =
     rbind (zk_run (sx_zk S (JObj [])) (c_kv c)) (\<lambda>(z, w).
       let cols = nullish (vget w (JStr ''__zkp__'') (JStr ''cols'')) (JObj []); c1 = c\<lparr>c_kv := w\<rparr> in
       rbind (lift_res c1 (jbytes (jget (c_msg c) ''data''))) (\<lambda>data.
       let buf = cut_buffer (jget (c_msg c) ''bytelen'') data;
           c2 = put_sst_info (jset (c_info c) ''total_size'' (js_plus_int (jget (c_info c) ''total_size'') (int (length buf)))) c1
       in rbind (lift_res c2 (rbind (sx_brotli S buf) (decodeBuf S))) (\<lambda>decoded.
       rbind (rfoldl (decode_change S) \<lparr>d_kv = c_kv c2, d_zk = z, d_cols = cols, d_ch = no_changes\<rparr> decoded) (\<lambda>s.
         Inr (c2\<lparr>c_kv := d_kv s\<rparr>, s)))))"

definition dev_decode :: "('j, 'z) sst_ext \<Rightarrow> dev" where
  "dev_decode S c =
     (if c_opcode c \<noteq> JStr ''commit'' then Inr c
      else rbind (decode_loop S c) (\<lambda>(c2, s).
        rbind (at_store (d_kv s) (rmap (index_updates (d_ch s) (d_cols s) (d_kv s)) (ch_indexes (d_ch s)))) (\<lambda>ixs.
          let c3 = c2\<lparr>c_kv := foldl put_rest (d_kv s) (ch_rest (d_ch s)), c_updates := JArr (concat ixs @ doc_updates (d_ch s))\<rparr> in
          if \<not> js_eq (sx_zk_hash S (d_zk s)) (jget (c_msg c) ''zkhash'') then fail (Err ''hash mismatch'') c3
          else Inr c3)))"

section \<open>dev_get_zkp_inputs\<close>

definition pick_props :: "string list \<Rightarrow> jv \<Rightarrow> (string \<times> jv) list" where
  "pick_props ks v = List.map_filter (\<lambda>k. if jget v k = JUndef then None else Some (k, jget v k)) ks"

definition dev_get_zkp_inputs :: "('j, 'z) sst_ext \<Rightarrow> nat \<Rightarrow> dev" where
  "dev_get_zkp_inputs S n c =
     rbind (lift_res c (rbind (as_list (c_query c)) parseQuery)) (\<lambda>q.
     rbind (kv_dir_name c) (\<lambda>d.
     rbind (lift_res c (plan_get n q d (c_kv c))) (\<lambda>r.
     rbind (if c_range c = JBool True
            then (case r of FList xs \<Rightarrow> Inr (JArr (map it_val xs)) | _ \<Rightarrow> fail type_err c)
            else (case r of FDoc v \<Rightarrow> Inr (it_val v) | FList xs \<Rightarrow> Inr JUndef | FNull \<Rightarrow> fail type_err c)) (\<lambda>json.
     rbind (zk_run (sx_zk S (JObj (pick_props [''size_json'', ''level_col'', ''level'', ''size_val'', ''size_path''] (c_data c)))) (c_kv c)) (\<lambda>(z, w).
     rbind (at_store w (jprop (c_dirinfo c) ''index'')) (\<lambda>ix.
     rbind (zk_run (sx_zk_inputs S (JObj ([(''json'', json), (''col_id'', ix), (''id'', c_doc c)] @ pick_props [''query'', ''path''] (c_data c))) z) w)
       (\<lambda>(inputs, w1).
         rbind (at_store w1 (jprop (c_info c) ''i'')) (\<lambda>i.
         Inr (c\<lparr>c_kv := w1, c_result := JObj [(''i'', i), (''zkhash'', sx_zk_hash S z), (''inputs'', inputs)]\<rparr>)))))))))"

section \<open>The asynchronous runner and the routes of sst\<close>

definition run_pmethod :: "dev_stage list \<Rightarrow> opts \<Rightarrow> jv \<Rightarrow> wkv \<Rightarrow> wkv \<times> (js_error + ctx)" where
  "run_pmethod devs opt msg w =
     (case pflow (SSeq devs) (Some pred) (init_ctx opt msg w) of
        Inl (e, w') \<Rightarrow> (kv_reset w', Inl e)
      | Inr c \<Rightarrow> (c_kv c, Inr c))"

definition branches_sst :: "ext \<Rightarrow> nat \<Rightarrow> dev_stage" where
  "branches_sst X n = SBranch None
     [(''init'', SFn dev_init_sst), (''migrate'', SFn dev_migrate_sst), (''upgrade'', SFn dev_upgrade_sst),
      (''revert'', SFn dev_revert_sst), (''get'', SFn (dev_get n)), (''load'', SFn (dev_load X n))]"

definition sst_write_route :: "ext \<Rightarrow> ('j, 'z) sst_ext \<Rightarrow> nat \<Rightarrow> dev_stage list" where
  "sst_write_route X S n =
     [SFn (dev_normalize_sst X), SFn dev_verify_sst, SKa [dev_decode S], SFn dev_parse_sst, SFn dev_auth_sst,
      SFn dev_write_sst, branches_sst X n, SFn dev_result]"

definition sst_read_route :: "ext \<Rightarrow> ('j, 'z) sst_ext \<Rightarrow> nat \<Rightarrow> dev_stage list" where
  "sst_read_route X S n =
     [SFn (dev_normalize X), SFn (dev_parse X n), SFn dev_read_sst,
      SBranch None [(''get'', SFn (dev_get n)), (''get_zkp_inputs'', SFn (dev_get_zkp_inputs S n))]]"

end
