(* ===== verification/Sst_Props.thy ===== *)
theory Sst_Props
  imports Dev_Sst Dev_Props
begin

text \<open>
  The replica: the decoder inverts the wire format of the deltas, a commit is let through only from the owner,
  in order and with the hash its changes lead to; and what the decoder gets wrong.
\<close>

section \<open>The wire format\<close>

text \<open>The reference: a length in groups of seven bits, the lowest first, and a delta behind its length.\<close>

function enc_len :: "nat \<Rightarrow> bytes" where
  "enc_len n = (if n < 128 then [of_nat n] else of_nat (128 + n mod 128) # enc_len (n div 128))"
  by auto
termination by (relation "measure id") auto

declare enc_len.simps [simp del] read_len.simps [simp del]

definition enc_delta :: "bytes \<Rightarrow> bytes" where
  "enc_delta d = enc_len (length d) @ d"

lemma low_seven: "unat ((b :: 8 word) AND 0x7F) = unat b mod 128"
proof -
  have "b AND 0x7F = take_bit 7 b" by (simp add: take_bit_eq_mask mask_eq_exp_minus_1)
  then show ?thesis by (simp add: take_bit_eq_mod unat_mod)
qed

lemma top_bit: "(b :: 8 word) AND 0x80 = 0 \<longleftrightarrow> unat b < 128"
proof -
  have "(b AND 0x80 = 0) \<longleftrightarrow> \<not> bit (unat b) 7"
    using and_exp_eq_0_iff_not_bit [of b 7] by (simp add: bit_unsigned_iff)
  moreover have "unat b < 256" using unsigned_less [of b] by simp
  ultimately show ?thesis by (auto simp: bit_iff_odd odd_iff_mod_2_eq_one)
qed

lemma group_bits:
  "k < 128 \<Longrightarrow> unat ((of_nat k :: 8 word) AND 0x7F) = k" "k < 128 \<Longrightarrow> (of_nat k :: 8 word) AND 0x80 = 0"
  "k < 128 \<Longrightarrow> unat ((of_nat (128 + k) :: 8 word) AND 0x7F) = k" "k < 128 \<Longrightarrow> (of_nat (128 + k) :: 8 word) AND 0x80 \<noteq> 0"
proof -
  have "k < 256 \<Longrightarrow> unat (of_nat k :: 8 word) = k" for k by (simp add: unat_of_nat)
  then show "k < 128 \<Longrightarrow> unat ((of_nat k :: 8 word) AND 0x7F) = k" "k < 128 \<Longrightarrow> (of_nat k :: 8 word) AND 0x80 = 0"
    "k < 128 \<Longrightarrow> unat ((of_nat (128 + k) :: 8 word) AND 0x7F) = k" "k < 128 \<Longrightarrow> (of_nat (128 + k) :: 8 word) AND 0x80 \<noteq> 0"
    unfolding low_seven top_bit by (simp_all del: of_nat_add)
qed

lemma read_enc_len:
  "off = length pre \<Longrightarrow> read_len (pre @ enc_len n @ rest) off shift acc = (acc + n * 2 ^ shift, off + length (enc_len n))"
proof (induction n arbitrary: pre off shift acc rule: enc_len.induct)
  case (1 n)
  show ?case
  proof (cases "n < 128")
    case True
    then show ?thesis using 1 by (subst read_len.simps, subst (1 2) enc_len.simps) (simp add: group_bits nth_append enc_len.simps [of n])
  next
    case False
    let ?b = "of_nat (128 + n mod 128) :: 8 word"
    have e: "enc_len n = ?b # enc_len (n div 128)" using False by (subst enc_len.simps) simp
    have "n mod 128 * 2 ^ shift + n div 128 * 2 ^ (shift + 7) = (n mod 128 + 128 * (n div 128)) * 2 ^ shift"
      by (simp only: power_add add_mult_distrib) simp
    then have sum: "acc + n mod 128 * 2 ^ shift + n div 128 * 2 ^ (shift + 7) = acc + n * 2 ^ shift" by simp
    have "read_len (pre @ enc_len n @ rest) off shift acc =
       read_len ((pre @ [?b]) @ enc_len (n div 128) @ rest) (off + 1) (shift + 7) (acc + n mod 128 * 2 ^ shift)"
      using "1.prems" group_bits(3,4) [of "n mod 128"] by (subst read_len.simps) (simp add: e nth_append)
    also have "\<dots> = (acc + n mod 128 * 2 ^ shift + n div 128 * 2 ^ (shift + 7), off + 1 + length (enc_len (n div 128)))"
      using False "1.prems" by (subst "1.IH") auto
    finally show ?thesis unfolding e using sum by simp
  qed
qed

lemma read_enc_deltas:
  "off = length pre \<Longrightarrow>
   read_deltas (length ds) (pre @ concat (map enc_delta ds) @ rest) off = (ds, off + length (concat (map enc_delta ds)))"
proof (induction ds arbitrary: pre off)
  case (Cons d ds)
  have l: "read_len (pre @ concat (map enc_delta (d # ds)) @ rest) off 0 0 = (length d, off + length (enc_len (length d)))"
    using read_enc_len [OF Cons.prems, of "length d" "d @ concat (map enc_delta ds) @ rest" 0 0] by (simp add: enc_delta_def)
  have "read_deltas (length ds) ((pre @ enc_delta d) @ concat (map enc_delta ds) @ rest) (length (pre @ enc_delta d)) =
      (ds, length (pre @ enc_delta d) + length (concat (map enc_delta ds)))"
    by (rule Cons.IH) simp
  moreover have "enc_delta d = enc_len (length d) @ d" by (simp add: enc_delta_def)
  ultimately show ?case using l Cons.prems by (simp add: add.assoc)
qed simp

lemma read_enc_changes:
  "off = length pre \<Longrightarrow>
   read_changes (map (\<lambda>(k, ds). (k, length ds)) chs) (pre @ concat (map (\<lambda>(k, ds). concat (map enc_delta ds)) chs) @ rest) off = chs"
proof (induction chs arbitrary: pre off)
  case (Cons ch chs)
  obtain k ds where ch: "ch = (k, ds)" by force
  let ?tl = "concat (map (\<lambda>(k, ds). concat (map enc_delta ds)) chs)"
  have "read_deltas (length ds) (pre @ concat (map enc_delta ds) @ (?tl @ rest)) off = (ds, off + length (concat (map enc_delta ds)))"
    by (rule read_enc_deltas [OF Cons.prems])
  moreover have "read_changes (map (\<lambda>(k, ds). (k, length ds)) chs) ((pre @ concat (map enc_delta ds)) @ ?tl @ rest)
      (length (pre @ concat (map enc_delta ds))) = chs"
    by (rule Cons.IH) simp
  ultimately show ?case using Cons.prems by (simp add: ch)
qed simp

text \<open>The bits of a byte, the highest first.\<close>

definition bit_digits :: "nat \<Rightarrow> nat \<Rightarrow> string" where
  "bit_digits k n = map (\<lambda>i. if odd (n div 2 ^ i) then CHR ''1'' else CHR ''0'') (rev [0..<k])"

definition byte_bits :: "8 word \<Rightarrow> string" where
  "byte_bits b = bit_digits 8 (unat b)"

lemma bits_value:
  "foldl (\<lambda>a c. 2 * a + (if c = CHR ''1'' then 1 else 0)) a (bit_digits k n) = a * 2 ^ k + n mod 2 ^ k"
proof (induction k arbitrary: a)
  case (Suc k)
  have d: "(if (if odd (n div 2 ^ k) then CHR ''1'' else CHR ''0'') = CHR ''1'' then 1 else 0) = n div 2 ^ k mod (2 :: nat)"
    by (simp add: odd_iff_mod_2_eq_one)
  have "foldl (\<lambda>a c. 2 * a + (if c = CHR ''1'' then 1 else 0)) a (bit_digits (Suc k) n) =
      (2 * a + n div 2 ^ k mod 2) * 2 ^ k + n mod 2 ^ k"
    using Suc.IH [of "2 * a + n div 2 ^ k mod 2"] d by (simp add: bit_digits_def)
  also have "\<dots> = a * 2 ^ Suc k + n mod 2 ^ Suc k"
    by (simp add: mod_mult2_eq [of n "2 ^ k" 2] mult.commute [of 2] add_mult_distrib)
  finally show ?case .
qed (simp add: bit_digits_def)

lemma bits_byte_bits: "bits_byte (byte_bits b) = b"
proof -
  have all: "takeWhile (\<lambda>c. c \<in> {CHR ''0'', CHR ''1''}) (byte_bits b) = byte_bits b"
    by (auto simp: takeWhile_eq_all_conv byte_bits_def bit_digits_def)
  have "unat b < 256" using unsigned_less [of b] by simp
  then have "unat b mod 2 ^ 8 = unat b" by simp
  then show ?thesis unfolding bits_byte_def all unfolding byte_bits_def bits_value by simp
qed

lemma frombits_bits: "frombits_from (concat (map byte_bits bs)) = bs"
proof (induction bs)
  case (Cons b bs)
  have l: "length (byte_bits b) = 8" by (simp add: byte_bits_def bit_digits_def)
  then obtain c cs where c: "byte_bits b = c # cs" "length cs = 7" by (cases "byte_bits b") auto
  then show ?case using Cons.IH bits_byte_bits [of b] by (simp add: Let_def)
qed simp

definition payload :: "(string \<times> bytes list) list \<Rightarrow> bytes" where
  "payload chs = concat (map (\<lambda>(k, ds). concat (map enc_delta ds)) chs)"

text \<open>
  C12. The decoder inverts the wire format: from the header, the number of deltas of each key, and from the
  bits of the deltas, each behind its length, come the keys with their deltas, whatever bits follow.
\<close>

theorem decodeBuf_inverts:
  assumes "sx_header S buf = Inr (map (\<lambda>(k, ds). (k, length ds)) chs, left)"
    and "concat left = concat (map byte_bits (payload chs @ rest))"
  shows "decodeBuf S buf = Inr chs"
  using read_enc_changes [of 0 "[]" chs rest] assms frombits_bits [of "payload chs @ rest"]
  by (simp add: decodeBuf_def frombits_def payload_def)

section \<open>The transaction of a commit\<close>

text \<open>Every step of a commit writes to the running transaction only. \<open>p\<close> finds the store in the result of a
  part of the decoder.\<close>

definition resets :: "('a \<Rightarrow> wkv) \<Rightarrow> wkv \<Rightarrow> 'a sres \<Rightarrow> bool" where
  "resets p w r = (case r of Inl (e, w') \<Rightarrow> kv_reset w' = kv_reset w | Inr x \<Rightarrow> kv_reset (p x) = kv_reset w)"

lemma resets_simps [simp]:
  "resets p w (Inr x) \<longleftrightarrow> kv_reset (p x) = kv_reset w" "resets p w (Inl (e, w')) \<longleftrightarrow> kv_reset w' = kv_reset w"
  by (simp_all add: resets_def)

lemma resets_bind:
  "resets p w m \<Longrightarrow> (\<And>x. m = Inr x \<Longrightarrow> resets q (p x) (f x)) \<Longrightarrow> resets q w (rbind m f)"
  by (cases m) (auto simp: resets_def split: sum.splits)

lemma resets_at_store: "(\<And>x. resets q w (f x)) \<Longrightarrow> resets q w (rbind (at_store w m) f)"
  by (cases m) (simp_all add: at_store_def)

lemma resets_rfoldl: "(\<And>s x. resets p (p s) (f s x)) \<Longrightarrow> resets p (p s) (rfoldl f s xs)"
  by (induction xs arbitrary: s) (auto intro: resets_bind)

lemma reset_zk_store [simp]: "kv_reset (zk_store ps w) = kv_reset w"
  by (induction ps arbitrary: w) (auto simp: zk_store_def)

lemma reset_put_rest [simp]: "kv_reset (foldl put_rest w xs) = kv_reset w"
  by (induction xs arbitrary: w) (auto simp: put_rest_def)

lemma zk_run_resets: "resets snd w (zk_run f w)"
  by (auto simp: zk_run_def split: prod.split sum.split)

lemma add_collection_resets: "resets d_kv (d_kv s) (add_collection S dir doc data s)"
  by (auto simp: add_collection_def Let_def split: prod.split option.split)

lemma enter_tree_resets: "resets d_kv (d_kv s) (enter_tree S dir doc data s)"
  by (auto simp: enter_tree_def Let_def split: prod.split)

lemma decode_change_resets: "resets d_kv (d_kv s) (decode_change S s kd)"
proof -
  have "resets d_kv (d_kv s)
      (rbind (add_collection S dir doc data (s\<lparr>d_kv := vput d k v (d_kv s)\<rparr>)) (\<lambda>s2. rbind (enter_tree S dir doc data s2) (\<lambda>s3.
         Inr (s3\<lparr>d_ch := ch s3\<rparr>))))" for dir doc data d k v ch
  proof (rule resets_bind [where p = d_kv])
    show "resets d_kv (d_kv s) (add_collection S dir doc data (s\<lparr>d_kv := vput d k v (d_kv s)\<rparr>))"
      using add_collection_resets [of "s\<lparr>d_kv := vput d k v (d_kv s)\<rparr>" S dir doc data] by (auto simp: resets_def split: sum.splits)
  qed (rule resets_bind [OF enter_tree_resets], simp)
  then show ?thesis by (auto simp: decode_change_def Let_def split: prod.split intro!: resets_at_store)
qed

lemma decode_loop_resets: "resets (\<lambda>(c2, s). c_kv c2) (c_kv c) (decode_loop S c)"
proof -
  have fold: "resets (\<lambda>(c2, s). c_kv c2) w
      (rbind (rfoldl (decode_change S) s0 ds) (\<lambda>s. Inr (c2\<lparr>c_kv := d_kv s\<rparr>, s)))"
    if "kv_reset (d_kv s0) = kv_reset w" for w s0 ds c2
    by (rule resets_bind [where p = d_kv])
      (use resets_rfoldl [of d_kv "decode_change S" s0 ds, OF decode_change_resets] that in \<open>auto simp: resets_def split: sum.splits\<close>)
  have lift: "resets p w (rbind (lift_res c' m) f)"
    if "kv_reset (c_kv c') = kv_reset w" "\<And>x. resets p w (f x)" for p w c' f and m :: "'c res"
    using that by (cases m) (simp_all add: lift_res_def at_store_def)
  show ?thesis unfolding decode_loop_def Let_def
    by (rule resets_bind [OF zk_run_resets]) (auto intro!: lift fold simp: put_sst_info_def split: prod.split)
qed

lemma decode_loop_same:
  assumes "decode_loop S c = Inr (c2, s)"
  shows "c_kv c2 = d_kv s \<and> c_no_commit c2 = c_no_commit c \<and> is_nil (c_info c2) = is_nil (c_info c)"
  using assms by (auto simp: decode_loop_def rbind_Inr_iff put_sst_info_def Let_def)

lemma dev_decode_keeps [dev_intros]: "keeps (\<lambda>c. c) c (dev_decode S c)"
proof -
  have loop: "keeps fst c (decode_loop S c)"
    using decode_loop_resets [of c S] decode_loop_same [of S c]
    by (auto simp: keeps_def resets_def same_txn_def split: sum.splits)
  have rest: "keeps (\<lambda>c. c) c2
      (rbind (at_store (d_kv s) m) (\<lambda>ixs.
          let c3 = c2\<lparr>c_kv := foldl put_rest (d_kv s) (ch_rest (d_ch s)), c_updates := u ixs\<rparr> in
          if b then fail e c3 else Inr c3))" if "c_kv c2 = d_kv s"
    for c2 and s :: "'c dst" and m :: "jv list list res" and u b e
    using that by (cases m) (simp_all add: at_store_def fail_def same_txn_def Let_def)
  show ?thesis unfolding dev_decode_def
    by (intro keeps_if keeps_bind [OF loop] keeps_pair) (auto intro!: rest dest: decode_loop_same)
qed

lemma put_sst_info_txn [simp]:
  "is_nil info \<longrightarrow> is_nil (c_info c') \<Longrightarrow> same_txn c c' \<Longrightarrow> same_txn c (put_sst_info info c')"
  by (auto simp: put_sst_info_def same_txn_def)

lemma setEnv_sst_keeps [dev_intros]: "keeps (\<lambda>c. c) c (setEnv_sst X c)"
  unfolding setEnv_sst_def Let_def
  by (intro dev_intros put_sst_info_txn) (simp_all add: same_txn_def nullish_def info_start_def)

lemma set_action_keeps [dev_intros]: "keeps (\<lambda>c. c) c (set_action c)"
  unfolding set_action_def Let_def by (intro dev_intros) (simp_all add: same_txn_def fail_def)

lemma keeps_lift_before:
  assumes "same_txn c c1" and "\<And>x. keeps q c1 (f x)"
  shows "keeps q c1 (rbind (lift_res c m) f)"
  using assms by (cases m) (auto simp: lift_res_def at_store_def same_txn_def)

lemma keeps_InrD: "keeps p c m \<Longrightarrow> m = Inr x \<Longrightarrow> same_txn c (p x)"
  by simp

lemma setMeta_sst_keeps [dev_intros]: "keeps (\<lambda>c. c) c (setMeta_sst X c)"
proof -
  have act: "keeps (\<lambda>c. c) c (if b then Inr (c\<lparr>c_query := q, c_op := p, c_opcode := p, c_id := i\<rparr>) else set_action c)" for b q p i
    by (intro dev_intros) (simp add: same_txn_def)
  show ?thesis unfolding setMeta_sst_def Let_def
  proof (intro keeps_bind_pure keeps_bind_dev [OF act])
    fix c1
    assume "(if is_process c then Inr (c\<lparr>c_query := JArr [JStr ''init''], c_op := JStr ''init'', c_opcode := JStr ''init'',
          c_id := (case first_commitment (c_msg c) of None \<Rightarrow> JNull | Some k \<Rightarrow> JStr k)\<rparr>) else set_action c) = Inr c1"
    then have "same_txn c c1" by (rule keeps_InrD [OF act])
    then show "keeps (\<lambda>c. c) c1
        (rbind (lift_res c (msg_signer X (c_msg c))) (\<lambda>signer. rbind (lift_res c (wdb23_jv signer)) (\<lambda>s23.
           Inr (c1\<lparr>c_signer := signer, c_signer23 := s23,
             c_nonce := if is_nil (jget (c_msg c) ''nonce'') then c_nonce c1 else jget (c_msg c) ''nonce''\<rparr>))))"
      by (intro keeps_lift_before) (simp_all add: same_txn_def)
  qed
qed

lemma dev_normalize_sst_keeps [dev_intros]: "keeps (\<lambda>c. c) c (dev_normalize_sst X c)"
  unfolding dev_normalize_sst_def by (intro dev_intros)

lemma dev_verify_sst_keeps [dev_intros]: "keeps (\<lambda>c. c) c (dev_verify_sst c)"
  unfolding dev_verify_sst_def Let_def
  by (rule keeps_bind_dev, rule dev_version_keeps, drule dev_version_same, simp only:, intro dev_intros)
    (simp_all add: same_txn_def)

lemma dev_verify_sst_info: "dev_verify_sst c = Inr c' \<Longrightarrow> \<not> is_nil (c_info c')"
  by (auto simp: dev_verify_sst_def rbind_Inr_iff fail_def Let_def jprop_def split: if_splits)

lemma dev_parse_sst_keeps [dev_intros]: "keeps (\<lambda>c. c) c (dev_parse_sst c)"
  unfolding dev_parse_sst_def Let_def by (intro dev_intros) (simp_all add: same_txn_def)

lemma dev_auth_sst_keeps [dev_intros]: "keeps (\<lambda>c. c) c (dev_auth_sst c)"
  unfolding dev_auth_sst_def by (intro dev_intros) simp

lemma dev_write_sst_keeps [dev_intros]: "keeps (\<lambda>c. c) c (dev_write_sst c)"
  unfolding dev_write_sst_def by (intro dev_intros) (auto simp: same_txn_def split: option.split)

lemma sst_versions_keep [dev_intros]:
  "keeps (\<lambda>c. c) c (dev_upgrade_sst c)" "keeps (\<lambda>c. c) c (dev_revert_sst c)" "keeps (\<lambda>c. c) c (dev_migrate_sst c)"
  unfolding dev_upgrade_sst_def dev_revert_sst_def dev_migrate_sst_def by (intro dev_intros; simp)+

lemma dev_init_sst_keeps [dev_intros]: "keeps (\<lambda>c. c) c (dev_init_sst c)"
  unfolding dev_init_sst_def Let_def by (intro dev_intros) (simp add: same_txn_def)

lemma batch_item_sst_keeps: "keeps (\<lambda>c. c) c (batch_item_sst X n c q)"
proof -
  have b: "keeps (\<lambda>b. b) (batch_ctx_sst c q) (rbind (parseOp (batch_ctx_sst c q)) (\<lambda>b1. rbind (dev_parse X n b1) (batch_write X n)))"
    by (intro dev_intros)
  show ?thesis unfolding batch_item_sst_def
    by (rule keeps_bind [where p = "\<lambda>b. c\<lparr>c_kv := c_kv b\<rparr>"])
      (use b in \<open>auto simp: keeps_def same_txn_def batch_ctx_sst_def batch_ctx_def split: sum.splits\<close>)
qed

lemma dev_batch_sst_keeps [dev_intros]: "keeps (\<lambda>c. c) c (dev_batch_sst X n c)"
  unfolding dev_batch_sst_def by (intro dev_intros keeps_rfoldl [where p = "\<lambda>c. c"] batch_item_sst_keeps)

lemma load_index_keeps:
  "keeps (\<lambda>c. c) c (load_addIndex n c)" "keeps (\<lambda>c. c) c (load_removeIndex n c)"
  unfolding load_addIndex_def load_removeIndex_def
  by (intro dev_intros; (rule trees.addIndex_ok | rule trees.removeIndex_ok | simp))+

lemma load_update_keeps: "keeps fst (fst cb) (load_update n cb v)"
proof (cases cb)
  case (Pair c waiting)
  have ix: "keeps fst c (rbind ((if b then load_addIndex n else load_removeIndex n) (load_ctx c data dir))
      (\<lambda>b. Inr (c\<lparr>c_kv := c_kv b\<rparr>, waiting)))" for b data dir
    by (rule keeps_bind [where p = "\<lambda>b. c\<lparr>c_kv := c_kv b\<rparr>"])
      (use load_index_keeps [of "load_ctx c data dir" n] in
        \<open>auto simp: keeps_def same_txn_def load_ctx_def split: sum.splits\<close>)
  show ?thesis unfolding load_update_def Let_def Pair by (simp) (intro dev_intros ix; simp)
qed

lemma dev_load_keeps [dev_intros]: "keeps (\<lambda>c. c) c (dev_load X n c)"
proof -
  have batch: "keeps (\<lambda>c. c) c1 (rbind (dev_batch_sst X n (c1\<lparr>c_query := q\<rparr>)) (\<lambda>c2. Inr (c1\<lparr>c_kv := c_kv c2, c_result := r\<rparr>)))"
    for c1 q r
    by (rule keeps_bind [where p = "\<lambda>c2. c1\<lparr>c_kv := c_kv c2\<rparr>"])
      (use dev_batch_sst_keeps [of "c1\<lparr>c_query := q\<rparr>" X n] in \<open>auto simp: keeps_def same_txn_def split: sum.splits\<close>)
  have "keeps fst c (rfoldl (load_update n) (c, ws) us)" for ws us
    using keeps_rfoldl [of fst "load_update n" "(c, ws)" us] load_update_keeps by simp
  then show ?thesis unfolding dev_load_def
    by (intro dev_intros) (rule keeps_bind [where p = fst], auto intro: batch)
qed

lemma dev_get_keeps [dev_intros]: "keeps (\<lambda>c. c) c (dev_get n c)"
  unfolding dev_get_def Let_def
  by (rule keeps_need_dir, intro dev_intros) (auto simp: same_txn_def fail_def split: found.split)

lemma branches_sst_keeps [dev_intros]: "keeps (\<lambda>c. c) c (match (Some pred) (branches_sst X n) c)"
  unfolding branches_sst_def by (simp add: mon_map_def) (auto intro!: dev_intros)

section \<open>Who may commit\<close>

text \<open>What a step of the route leaves alone: the message, the signer and the owner.\<close>

definition same_claim :: "ctx \<Rightarrow> ctx \<Rightarrow> bool" where
  "same_claim c c' \<longleftrightarrow> c_msg c' = c_msg c \<and> c_signer c' = c_signer c \<and> c_opcode c' = c_opcode c \<and>
     jget (c_info c') ''owner'' = jget (c_info c) ''owner''"

lemma jget_jset_other: "k \<noteq> k' \<Longrightarrow> jget (jset v k w) k' = jget v k'"
  by (cases v) simp_all

lemma normalize_commit:
  assumes "dev_normalize_sst X c = Inr c1" and "jget (c_msg c) ''type'' \<noteq> JStr ''Process''"
    and "jget (c_msg c) ''action'' = JStr a" and "lower a = ''commit''"
  shows "c_msg c1 = c_msg c \<and> c_opcode c1 = JStr ''commit'' \<and> msg_signer X (c_msg c) = Inr (c_signer c1) \<and>
     (\<exists>s. c_signer c1 = JStr s) \<and>
     (if is_nil (jget (c_msg c) ''nonce'') then c_nonce c1 = c_nonce c else c_nonce c1 = jget (c_msg c) ''nonce'') \<and>
     jget (c_info c1) ''owner'' = jget (nullish (vget (c_kv c) (JStr ''__sst__'') (JStr ''info'')) info_start) ''owner'' \<and>
     (\<forall>k. vget (c_kv c1) (JStr ''__accounts__'') k = vget (c_kv c) (JStr ''__accounts__'') k)"
proof -
  have other: "vget (vput (JStr d) k v w) (JStr ''__accounts__'') k' = vget w (JStr ''__accounts__'') k'"
    if "d \<in> {''__sst__'', ''__ts__''}" for d k v w k'
    using that by (auto simp: vget_def vput_def dget_def dput_def kv_simps dkey_def)
  obtain cE cM where E: "setEnv_sst X c = Inr cE" and M: "setMeta_sst X cE = Inr cM" and T: "setTS64 cM = Inr c1"
    using assms(1) by (auto simp: dev_normalize_sst_def rbind_Inr_iff)
  have t: "truthy (c_msg c)"
    using assms(3) by (cases "c_msg c") auto
  have eE: "c_msg cE = c_msg c" "c_nonce cE = c_nonce c"
      "jget (c_info cE) ''owner'' = jget (nullish (vget (c_kv c) (JStr ''__sst__'') (JStr ''info'')) info_start) ''owner''"
      "\<forall>k. vget (c_kv cE) (JStr ''__accounts__'') k = vget (c_kv c) (JStr ''__accounts__'') k"
    using E t by (auto simp: setEnv_sst_def put_sst_info_def Let_def jget_jset_other other)
  have np: "\<not> is_process cE" using assms(2) by (simp add: is_process_def eE)
  obtain cA where A: "set_action cE = Inr cA" and sg: "msg_signer X (c_msg cE) = Inr (c_signer cM)"
      and s23: "\<exists>r. wdb23_jv (c_signer cM) = Inr r"
      and M': "c_msg cM = c_msg cA" "c_opcode cM = c_opcode cA" "c_info cM = c_info cA" "c_kv cM = c_kv cA"
        "c_nonce cM = (if is_nil (jget (c_msg cE) ''nonce'') then c_nonce cA else jget (c_msg cE) ''nonce'')"
    using M np by (auto simp: setMeta_sst_def rbind_Inr_iff Let_def)
  have eA: "c_msg cA = c_msg cE" "c_opcode cA = JStr ''commit''" "c_nonce cA = c_nonce cE" "c_kv cA = c_kv cE"
      "jget (c_info cA) ''owner'' = jget (c_info cE) ''owner''"
    using A assms(3,4) by (auto simp: set_action_def rbind_Inr_iff Let_def eE fail_def jget_jset_other split: if_splits)
  have eT: "c_msg c1 = c_msg cM" "c_opcode c1 = c_opcode cM" "c_info c1 = c_info cM" "c_nonce c1 = c_nonce cM"
      "c_signer c1 = c_signer cM" "\<forall>k. vget (c_kv c1) (JStr ''__accounts__'') k = vget (c_kv cM) (JStr ''__accounts__'') k"
    using T by (auto simp: setTS64_def rbind_Inr_iff Let_def other)
  have "\<exists>s. c_signer cM = JStr s"
    using s23 by (auto simp: wdb23_jv_def split: jv.splits)
  then show ?thesis using eE eA M' eT sg by simp
qed

lemma route_split:
  "pflow (SSeq (sst_write_route X S n)) (Some pred) c =
     rbind (dev_normalize_sst X c) (\<lambda>c1. rbind (dev_verify_sst c1) (\<lambda>c2. rbind (dev_decode S c2) (\<lambda>c3.
       rbind (dev_parse_sst c3) (\<lambda>c4. rbind (dev_auth_sst c4) (\<lambda>c5. rbind (dev_write_sst c5) (\<lambda>c6.
       rbind (match (Some pred) (branches_sst X n) c6) dev_result))))))"
  unfolding pflow_def pmatch_Inr
  by (simp add: sst_write_route_def mon_map_def rbind_assoc cong: rbind_cong)

lemma verify_commit:
  assumes "dev_verify_sst c = Inr c1" and "c_opcode c = JStr ''commit''"
  shows "same_claim c c1 \<and> c_nonce c1 = c_nonce c \<and>
     nonce_ok (c_nonce c) (next_nonce (vget (c_kv c) (JStr ''__accounts__'') (c_signer c))) \<and>
     (truthy (jget (c_info c) ''id'') \<longrightarrow> js_eq (jget (c_info c) ''id'') (c_id c))"
  using assms
  by (auto simp: dev_verify_sst_def rbind_Inr_iff same_claim_def op_in_def Let_def fail_def jprop_def split: if_splits)

lemma decode_commit:
  assumes "dev_decode S c = Inr c1" and "c_opcode c = JStr ''commit''"
  shows "same_claim c c1 \<and>
     (\<exists>c2 s. decode_loop S c = Inr (c2, s) \<and> js_eq (sx_zk_hash S (d_zk s)) (jget (c_msg c) ''zkhash''))"
proof -
  obtain c2 s where d: "decode_loop S c = Inr (c2, s)"
    and r: "js_eq (sx_zk_hash S (d_zk s)) (jget (c_msg c2) ''zkhash'') \<or> True"
    using assms by (auto simp: dev_decode_def rbind_Inr_iff)
  have "same_claim c c2"
    using d by (auto simp: decode_loop_def rbind_Inr_iff same_claim_def put_sst_info_def Let_def jget_jset_other)
  then show ?thesis
    using assms d by (auto simp: dev_decode_def rbind_Inr_iff same_claim_def fail_def Let_def split: if_splits)
qed

lemma parse_commit:
  assumes "dev_parse_sst c = Inr c1" and "c_opcode c = JStr ''commit''"
  shows "same_claim c c1"
proof -
  obtain c0 where "(if truthy (c_query c) then shift_query c else Inr c) = Inr c0"
    and rest: "(if op_in [''batch''] c0 then Inr c0
       else if op_in [''get'', ''cget''] c0 then
         rbind (lift_res c0 (as_list (c_query c0))) (\<lambda>q.
           let c2 = c0\<lparr>c_dir := jidx q 0, c_kv_dir := Some (to_str (jidx q 0))\<rparr> in
           if is_str (jidx q 1)
           then rbind (lift_res c0 (checkDocID (jidx q 1) (c_kv c0))) (\<lambda>_. Inr (c2\<lparr>c_doc := jidx q 1, c_range := JBool False\<rparr>))
           else Inr (c2\<lparr>c_range := JBool True\<rparr>))
       else if op_in [''upgrade''] c0 then
         rbind (lift_res c0 (as_list (c_query c0))) (\<lambda>q. Inr (c0\<lparr>c_data := jidx q 0\<rparr>))
       else Inr c0) = Inr c1"
    using assms(1) by (auto simp: dev_parse_sst_def rbind_Inr_iff)
  then have "same_claim c c0"
    by (auto simp: shift_query_def same_claim_def fail_def split: if_splits jv.splits)
  with rest assms(2) show ?thesis by (auto simp: same_claim_def op_in_def)
qed

lemma auth_commit:
  "dev_auth_sst c = Inr c1 \<Longrightarrow> c_opcode c = JStr ''commit'' \<Longrightarrow> js_eq (c_signer c) (jget (c_info c) ''owner'')"
  by (auto simp: dev_auth_sst_def op_in_def onlyOwner_def rbind_Inr_iff fail_def jprop_def split: if_splits)

text \<open>The owner of the replica and the number of its last commit, as the store has them.\<close>

definition sst_owner :: "wkv \<Rightarrow> jv" where
  "sst_owner w = jget (nullish (vget w (JStr ''__sst__'') (JStr ''info'')) info_start) ''owner''"

definition next_commit :: "wkv \<Rightarrow> string \<Rightarrow> jv" where
  "next_commit w s = next_nonce (vget w (JStr ''__accounts__'') (JStr s))"

lemma sst_all_or_nothing: "all_or_nothing opt w (run_pmethod (sst_write_route X S n) opt msg w)"
proof -
  let ?c = "init_ctx opt msg w"
  let ?rest = "\<lambda>c2. rbind (dev_decode S c2) (\<lambda>c3. rbind (dev_parse_sst c3) (\<lambda>c4. rbind (dev_auth_sst c4) (\<lambda>c5.
     rbind (dev_write_sst c5) (match (Some pred) (branches_sst X n)))))"
  let ?m = "rbind (dev_normalize_sst X ?c) (\<lambda>c1. rbind (dev_verify_sst c1) ?rest)"
  have rest: "keeps (\<lambda>c. c) c2 (?rest c2)" for c2 by (intro dev_intros)
  have keep: "keeps (\<lambda>c. c) ?c ?m" by (intro dev_intros)
  have "\<not> is_nil (c_info c)" if "?m = Inr c" for c
  proof -
    obtain c1 c2 where "dev_verify_sst c1 = Inr c2" "?rest c2 = Inr c" using \<open>?m = Inr c\<close> unfolding rbind_Inr_iff by blast
    with rest [of c2] dev_verify_sst_info show ?thesis by (auto simp: same_txn_def)
  qed
  from runner_all_or_nothing [OF keep this] show ?thesis
    by (simp add: run_pmethod_def route_split rbind_assoc)
qed

text \<open>
  C8. A commit takes effect as a whole, and only if it is admitted: its signer is the owner of the replica on
  record, its number is the successor of the last one of the owner, and the tree its changes lead to has the
  hash it claims. Then all that its devices wrote, the tree included, is committed at once. In any other case
  nothing is committed and the running transaction is given up: the store is what it was before the message,
  less the writes of that transaction.
\<close>

theorem commit_admitted:
  assumes "jget msg ''type'' \<noteq> JStr ''Process''" and "jget msg ''action'' = JStr a" and "lower a = ''commit''"
  shows "case run_pmethod (sst_write_route X S n) opt msg w of
       (w', Inl e) \<Rightarrow> w' = kv_reset w
     | (w', Inr c) \<Rightarrow>
         all_or_nothing opt w (w', Inr c) \<and>
         (\<exists>s. msg_signer X msg = Inr (JStr s) \<and> sst_owner w = JStr s \<and> nonce_ok (jget msg ''nonce'') (next_commit w s) \<and>
              (\<exists>c0 c1 c2 t. dev_normalize_sst X (init_ctx opt msg w) = Inr c0 \<and> dev_verify_sst c0 = Inr c1 \<and>
                 decode_loop S c1 = Inr (c2, t) \<and> js_eq (sx_zk_hash S (d_zk t)) (jget msg ''zkhash'')))"
proof -
  let ?c = "init_ctx opt msg w"
  have c: "c_msg ?c = msg" "c_kv ?c = w" "c_nonce ?c = JUndef" by (simp_all add: init_ctx_def blank_def)
  show ?thesis
  proof (cases "pflow (SSeq (sst_write_route X S n)) (Some pred) ?c")
    case (Inl e)
    then show ?thesis using sst_all_or_nothing [of opt w X S n msg] by (cases e) (simp add: run_pmethod_def all_or_nothing_def)
  next
    case (Inr cc)
    obtain c1 c2 c3 c4 c5 where N: "dev_normalize_sst X ?c = Inr c1" and V: "dev_verify_sst c1 = Inr c2" and D: "dev_decode S c2 = Inr c3"
      and P: "dev_parse_sst c3 = Inr c4" and A: "dev_auth_sst c4 = Inr c5"
      using Inr unfolding route_split by (auto simp: rbind_Inr_iff)
    note n = normalize_commit [OF N, unfolded c, OF assms]
    then obtain s where s: "c_signer c1 = JStr s" "msg_signer X msg = Inr (JStr s)" by auto
    have op1: "c_opcode c1 = JStr ''commit''" using n by blast
    note v = verify_commit [OF V op1]
    then have op2: "c_opcode c2 = JStr ''commit''" using op1 by (simp add: same_claim_def)
    note d = decode_commit [OF D op2]
    then have op3: "c_opcode c3 = JStr ''commit''" using op2 by (simp add: same_claim_def)
    note p = parse_commit [OF P op3]
    then have op4: "c_opcode c4 = JStr ''commit''" using op3 by (simp add: same_claim_def)
    have owner: "js_eq (JStr s) (sst_owner w)"
      using auth_commit [OF A op4] n v d p s by (simp add: same_claim_def sst_owner_def)
    have nonce: "nonce_ok (jget msg ''nonce'') (next_commit w s)"
      using n v s by (auto simp: next_commit_def nonce_ok_def split: if_splits)
    obtain c6 t where t: "decode_loop S c2 = Inr (c6, t)" "js_eq (sx_zk_hash S (d_zk t)) (jget (c_msg c2) ''zkhash'')"
      using d by blast
    have "c_msg c2 = msg" using n v by (simp add: same_claim_def)
    with t have "\<exists>c0 c1 c2 t. dev_normalize_sst X ?c = Inr c0 \<and> dev_verify_sst c0 = Inr c1 \<and>
        decode_loop S c1 = Inr (c2, t) \<and> js_eq (sx_zk_hash S (d_zk t)) (jget msg ''zkhash'')"
      using N V by metis
    moreover have "sst_owner w = JStr s" using owner by (simp add: js_eq_def)
    ultimately show ?thesis using Inr s(2) nonce sst_all_or_nothing [of opt w X S n msg] by (simp add: run_pmethod_def)
  qed
qed

text \<open>A commit without changes, and packages for it.\<close>

definition quiet_ext :: ext where
  "quiet_ext = \<lparr>x_sha256 = (\<lambda>_. replicate 32 0), x_eval = (\<lambda>v vs. Inr (v, vs)), x_validate = (\<lambda>_ _. Inr True),
     x_structured = Inr, x_hmacid = (\<lambda>_. Inr []), x_rsaid = (\<lambda>_. Inr []), x_pubkey = (\<lambda>_. Inr []), x_id = (\<lambda>_. Inr []),
     x_hashpath = (\<lambda>_ _. Inr JNull), x_buffer = (\<lambda>_ _. Inr []), x_now = 0\<rparr>"

definition empty_sst :: "(jv, unit) sst_ext" where
  "empty_sst = \<lparr>sx_brotli = Inr, sx_header = (\<lambda>_. Inr ([], [])), sx_open = Inr, sx_first = (\<lambda>_. Inr JNull), sx_load = (\<lambda>j _. Inr j),
     sx_table = (\<lambda>j. j), sx_json = (\<lambda>j. j), sx_zk = (\<lambda>_ v. (Inr (), [])), sx_zk_add = (\<lambda>_ z v. (None, z, [])),
     sx_zk_insert = (\<lambda>_ _ _ z v. (None, z, [])), sx_zk_delete = (\<lambda>_ _ z v. (None, z, [])), sx_zk_hash = (\<lambda>_. JStr ''h''),
     sx_zk_inputs = (\<lambda>_ z v. (Inr JNull, []))\<rparr>"

definition commit_message :: jv where
  "commit_message = JObj [(''action'', JStr ''Commit''), (''target'', JStr ''r''), (''zkhash'', JStr ''h''), (''nonce'', JNum 1),
     (''commitments'', JObj [(''k'', JObj [(''owner'', JStr ''AA'')])]), (''data'', JArr [])]"

definition zero_address :: string where
  "zero_address = replicate 43 (CHR ''A'')"

definition replica :: wkv where
  "replica = vput (JStr ''__sst__'') (JStr ''info'') (JObj [(''id'', JStr ''r''), (''owner'', JStr zero_address)]) (kv_new Map.empty)"

definition plain_opts :: opts where
  "plain_opts = \<lparr>o_branch = JStr ''sst'', o_ignore_version = JUndef, o_no_commit = JUndef, o_id = JUndef\<rparr>"

lemma zero_signer: "toAddr (x_sha256 quiet_ext) ''AA'' = Inr zero_address"
  by (simp add: quiet_ext_def zero_address_def) code_simp
lemma zero_wdb23: "\<exists>r. wdb23 zero_address = Inr r"
proof -
  have "case wdb23 zero_address of Inl e \<Rightarrow> False | Inr r \<Rightarrow> True" unfolding zero_address_def by code_simp
  then show ?thesis by (cases "wdb23 zero_address") auto
qed

lemma commit_lower: "lower ''Commit'' = ''commit''"
  by code_simp

lemma commit_accepted: "\<exists>w' c. run_pmethod (sst_write_route quiet_ext empty_sst 1) plain_opts commit_message replica = (w', Inr c)"
proof -
  obtain r where r: "wdb23 zero_address = Inr r" using zero_wdb23 by blast
  have g: "vget replica (JStr ''__sst__'') (JStr ''info'') = JObj [(''id'', JStr ''r''), (''owner'', JStr zero_address)]"
    by (simp add: replica_def vget_vput_same)
  have acc: "vget (vput (JStr d) k v w) (JStr ''__accounts__'') k' = vget w (JStr ''__accounts__'') k'"
    if "d \<in> {''__sst__'', ''__ts__''}" for d k v w k'
    using that by (auto simp: vget_def vput_def dget_def dput_def kv_simps dkey_def)
  have acc0: "vget replica (JStr ''__accounts__'') k = JNull" for k
    by (simp add: replica_def acc) (simp add: vget_def dget_def)
  have now: "x_now quiet_ext = 0" by (simp add: quiet_ext_def)
  define i where "i = JObj [(''id'', JStr ''r''), (''owner'', JStr zero_address), (''ts'', JNum 0), (''i'', JUndef), (''zkhash'', JStr ''h'')]"
  obtain c1 where N: "dev_normalize_sst quiet_ext (init_ctx plain_opts commit_message replica) = Inr c1"
    and f: "c_opcode c1 = JStr ''commit''" "c_signer c1 = JStr zero_address" "c_msg c1 = commit_message" "c_nonce c1 = JNum 1"
      "c_id c1 = JStr ''r''" "c_query c1 = JUndef" "c_info c1 = i"
      "vget (c_kv c1) (JStr ''__accounts__'') (JStr zero_address) = JNull"
    by (simp add: dev_normalize_sst_def setEnv_sst_def setMeta_sst_def set_action_def init_ctx_def blank_def commit_message_def
       put_sst_info_def is_process_def jprop_def b64url_text_def commit_lower msg_signer_def first_commitment_def zero_signer
       wdb23_jv_def r setTS64_def Let_def g i_def js_incr_def obj_eval acc acc0 now)
  obtain c2 where V: "dev_verify_sst c1 = Inr c2" and f2: "same_claim c1 c2" "c_query c2 = JUndef" "c_info c2 = i"
    using f by (simp add: dev_verify_sst_def dev_version_def jprop_def Let_def op_in_def js_eq_def is_object_def nonce_ok_def
        next_nonce_def js_plus1_def i_def same_claim_def)
  obtain c3 where D: "dev_decode empty_sst c2 = Inr c3" and f3: "same_claim c2 c3" "c_query c3 = JUndef" "c_updates c3 = JArr []" "is_obj (c_info c3)"
    using f f2 by (simp add: dev_decode_def decode_loop_def zk_run_def zk_store_def empty_sst_def jbytes_def as_list_def decodeBuf_def no_changes_def
        doc_updates_def cut_buffer_def Let_def put_sst_info_def js_eq_def is_object_def same_claim_def commit_message_def i_def)
  then have nn: "\<not> is_nil (c_info c3)" by (cases "c_info c3") auto
  have P: "dev_parse_sst c3 = Inr c3" and A: "dev_auth_sst c3 = Inr c3"
    using f f2 f3 by (simp_all add: same_claim_def dev_parse_sst_def op_in_def dev_auth_sst_def onlyOwner_def js_eq_def jprop_def is_object_def i_def nn)
  let ?c = "c3\<lparr>c_branch := JStr ''load''\<rparr>"
  have W: "dev_write_sst c3 = Inr ?c"
    using f f2 f3 by (simp add: same_claim_def dev_write_sst_def br_sst_def)
  obtain c7 where L: "match (Some pred) (branches_sst quiet_ext 1) ?c = Inr c7" and n7: "\<not> is_nil (c_info c7)"
    using f3(3) nn by (simp add: branches_sst_def mon_map_def pred_def dev_load_def dev_batch_sst_def as_list_def)
  have "\<exists>cc. dev_result c7 = Inr cc"
    using n7 by (simp add: dev_result_def jprop_def split_def Let_def)
  then have "\<exists>cc. pflow (SSeq (sst_write_route quiet_ext empty_sst 1)) (Some pred) (init_ctx plain_opts commit_message replica) = Inr cc"
    unfolding route_split N V D P A W L rbind_simps .
  then show ?thesis by (auto simp: run_pmethod_def)
qed

theorem commit_admitted_witness:
  "\<exists>s. msg_signer quiet_ext commit_message = Inr (JStr s) \<and> sst_owner replica = JStr s \<and>
     nonce_ok (jget commit_message ''nonce'') (next_commit replica s)"
proof -
  obtain w' c where run: "run_pmethod (sst_write_route quiet_ext empty_sst 1) plain_opts commit_message replica = (w', Inr c)"
    using commit_accepted by blast
  have "jget commit_message ''type'' \<noteq> JStr ''Process''" "jget commit_message ''action'' = JStr ''Commit''"
    by (simp_all add: commit_message_def)
  from commit_admitted [where X = quiet_ext and S = empty_sst and n = 1 and opt = plain_opts and w = replica, OF this commit_lower] show ?thesis
    unfolding run by auto
qed
text \<open>A delta of two bytes for one document.\<close>

theorem decodeBuf_inverts_witness:
  "\<exists>S :: (jv, unit) sst_ext. decodeBuf S [] = Inr [(''a/1'', [[5, 6]])]"
proof -
  let ?S = "empty_sst\<lparr>sx_header := (\<lambda>_. Inr ([(''a/1'', 1)], map byte_bits (enc_delta [5, 6])))\<rparr>"
  have "decodeBuf ?S [] = Inr [(''a/1'', [[5, 6]])]"
    by (rule decodeBuf_inverts [where left = "map byte_bits (enc_delta [5, 6])" and rest = "[]"]) (simp_all add: payload_def)
  then show ?thesis by blast
qed

section \<open>What a commit loses\<close>

text \<open>
  A second change of the indexes of a directory makes every commit fail: the list that the first one
  stores is an object, and the decoder takes it for an array.
\<close>

theorem second_index_change_throws:
  assumes "load_addIndex n c = Inr c1" and "jget (c_dirinfo c) ''index'' = JNum i"
    and "dir_of_index ch cols (int_to_string i) = Some dir" and "dir \<noteq> []" and "hd dir \<noteq> CHR ''_''"
  shows "\<exists>e. index_updates ch cols (c_kv c1) (int_to_string i, data) = Inl e"
proof -
  obtain ixs vs c0 where c1: "c1 = put_indexes ixs vs c0" and arr: "is_arr (jget ixs ''indexes'')" and di: "c_dirinfo c0 = c_dirinfo c"
    using assms(1) by (auto simp: load_addIndex_def rbind_Inr_iff fail_def set_kv_def split: jv.splits if_splits)
  obtain p where "ixs = JObj p" using arr by (cases ixs) (auto simp: is_index_key_def is_digit_def split: if_splits)
  then obtain q where "vget (c_kv c1) (JStr ''_config'') (JStr (''indexes_'' @ int_to_string i)) = JObj q"
    by (simp add: c1 put_indexes_def put_config_def set_kv_def di assms(2) numbered_def vget_vput_same)
  then show ?thesis using assms(3-5) by (simp add: index_updates_def as_arr_def Let_def)
qed

definition index_call :: ctx where
  "index_call = blank\<lparr>c_dir := JStr ''a'', c_kv_dir := Some ''a'', c_dirinfo := JObj [(''index'', JNum 3)],
     c_data := JArr [JArr [JStr ''x''], JArr [JStr ''y'']]\<rparr>"

theorem second_index_change_throws_witness:
  "\<exists>c1 e. load_addIndex 5 index_call = Inr c1 \<and>
     index_updates no_changes (JObj [(''a'', JNum 3)]) (c_kv c1) (int_to_string 3, JObj []) = Inl e"
proof -
  let ?w = "kv_new Map.empty"
  have i: "get_indexes ''a'' ?w = JObj []" by (simp add: get_indexes_def ix_get_def or_empty_def)
  have v: "validateSortFields (norm_sorts [[''x''], [''y'']])"
    by (simp add: validateSortFields_def norm_sorts_def snd_of_def sort_pair_def)
  have t: "tree_docs 5 ''a'' p s ?w = Inr []" for p s
    by (simp add: eval_nat_numeral tree_docs_def bpt_range_def Let_def range_start_def range_limit_def no_opt_def tree_view_def
        b_get_def ix_get_def jv_sv_def start_key_def b_root_def)
  have a: "snd_of (hd (norm_sorts [[''x''], [''y'']])) \<noteq> ''array''"
    by (simp add: norm_sorts_def snd_of_def sort_pair_def)
  obtain w1 where "addIndex 5 ''a'' [[''x''], [''y'']] ?w = Inr w1"
    using i v t a by (auto simp: addIndex_def Let_def)
  then obtain c1 where c1: "load_addIndex 5 index_call = Inr c1"
    by (simp add: load_addIndex_def index_call_def blank_def stored_indexes_def jprop_def config_def vget_def dget_def normalizeIndex_def
        jv_sorts_def as_str_def as_list_def kv_dir_name_def)
  moreover have "int_to_string 3 = ''3''" by code_simp
  then have "dir_of_index no_changes (JObj [(''a'', JNum 3)]) (int_to_string 3) = Some ''a''"
    by (simp add: dir_of_index_def no_changes_def digits_val_def digit_val_def)
  then have "\<exists>e. index_updates no_changes (JObj [(''a'', JNum 3)]) (c_kv c1) (int_to_string 3, JObj []) = Inl e"
    by (rule second_index_change_throws [OF c1, where dir = "''a''", rotated]) (simp_all add: index_call_def)
  ultimately show ?thesis by blast
qed

definition sorted_changes :: "(string \<times> jv) list \<Rightarrow> changes" where
  "sorted_changes chs = foldl (\<lambda>ch (key, data). sort_change key data ch) no_changes chs"

definition update_dir :: "jv \<Rightarrow> jv" where
  "update_dir u = (case u of JArr [JStr op, JArr q] \<Rightarrow> jidx q (if op = ''del'' then 0 else 1) | _ \<Rightarrow> JUndef)"

lemma snd_set_oput: "x \<in> set (oput k v xs) \<Longrightarrow> snd x = v \<or> x \<in> set xs"
proof -
  have "x \<in> set (oreplace k v xs) \<Longrightarrow> snd x = v \<or> x \<in> set xs"
    by (induction xs) (auto split: if_splits)
  then show "x \<in> set (oput k v xs) \<Longrightarrow> snd x = v \<or> x \<in> set xs"
    by (auto simp: oput_def set_oinsert split: if_splits)
qed

definition settings :: "string \<times> string \<times> string \<times> jv \<Rightarrow> bool" where
  "settings x \<longleftrightarrow> fst (snd x) \<in> {''_'', ''_config''}"

lemma sort_change_rest:
  assumes "\<forall>x \<in> set (ch_rest ch). settings x"
  shows "\<forall>x \<in> set (ch_rest (sort_change key data ch)). settings x"
proof -
  obtain dir doc where k: "key_parts key = (dir, doc)" by force
  have "\<forall>x \<in> set (oput key (dir, doc, data) (ch_rest ch)). settings x" if "dir \<in> {''_'', ''_config''}"
    using assms that snd_set_oput by (fastforce simp: settings_def)
  then show ?thesis using assms by (simp add: sort_change_def k Let_def split: option.split)
qed

lemma rest_dirs: "\<forall>x \<in> set (ch_rest (sorted_changes chs)). settings x"
proof -
  have "\<forall>x \<in> set (ch_rest ch). settings x \<Longrightarrow>
      \<forall>x \<in> set (ch_rest (foldl (\<lambda>ch (key, data). sort_change key data ch) ch chs)). settings x" for ch
  proof (induction chs arbitrary: ch)
    case (Cons c chs)
    obtain k d where c: "c = (k, d)" by force
    show ?case using Cons.IH [OF sort_change_rest [OF Cons.prems]] by (simp only: c foldl_Cons prod.case)
  qed simp
  from this [of no_changes] show ?thesis by (simp add: sorted_changes_def no_changes_def)
qed

text \<open>
  What the primary writes to a private directory never reaches the replica: a change there is neither
  stored with the settings nor among the updates.
\<close>

theorem private_changes_lost:
  assumes "hd dir = CHR ''_''" and "dir \<noteq> []" and "dir \<notin> {''_'', ''_config''}" and "CHR ''/'' \<notin> set dir"
  shows "vget (foldl put_rest w (ch_rest (sorted_changes chs))) (JStr dir) (JStr doc) = vget w (JStr dir) (JStr doc) \<and>
     (\<forall>u \<in> set (doc_updates (sorted_changes chs)). update_dir u \<noteq> JStr dir)"
proof -
  have one: "vget (put_rest w x) (JStr dir) (JStr doc) = vget w (JStr dir) (JStr doc)" if "settings x" for w x
  proof -
    obtain k d dc data where x: "x = (k, d, dc, data)" by (cases x) auto
    have "plain d" "d \<noteq> dir" "plain dir" using that assms(3,4) by (auto simp: settings_def x plain_def)
    then have "dkey d dc \<noteq> dkey dir doc" by (simp add: dkey_eq_iff)
    then show ?thesis
      by (simp add: put_rest_def x vget_def vput_def vdel_def dget_def dput_def ddel_def kv_del_def kv_simps)
  qed
  have "\<forall>x \<in> set xs. settings x \<Longrightarrow> vget (foldl put_rest w xs) (JStr dir) (JStr doc) = vget w (JStr dir) (JStr doc)" for xs w
    by (induction xs arbitrary: w) (simp_all add: one)
  with rest_dirs have a: "vget (foldl put_rest w (ch_rest (sorted_changes chs))) (JStr dir) (JStr doc) = vget w (JStr dir) (JStr doc)"
    by blast
  have "update_dir u \<noteq> JStr dir" if "u \<in> set (doc_updates ch)" for u ch
    using that assms(1,2) by (auto simp: doc_updates_def doc_update_def update_dir_def split: if_splits)
  with a show ?thesis by blast
qed

theorem private_changes_lost_witness:
  "\<forall>w. vget (foldl put_rest w (ch_rest (sorted_changes [(''_p/1'', JObj [])]))) (JStr ''_p'') (JStr ''1'') = vget w (JStr ''_p'') (JStr ''1'')"
  by (intro allI conjunct1 [OF private_changes_lost]) simp_all

end
