(* ===== verification/Hb_Sync.thy ===== *)
theory Hb_Sync
  imports Weave_Kv Json
begin

text \<open>
  Reading a process back: \<open>hb/src/sync.js\<close> copies the messages of a HyperBEAM process into a local store,
  page by page, and notes the slot it has reached. A node is a function from the two optional bounds of
  \<open>getMsgs\<close> (\<open>server-utils.js\<close>) to what the scheduler answers; a list of nodes are the answers to the
  requests of one call, one after the other, and a request past the end of the list fails.
\<close>

section \<open>Pages\<close>

type_synonym node = "int option \<Rightarrow> int option \<Rightarrow> jv res"

text \<open>A bound that is \<open>0\<close> is left out of the request.\<close>

definition getMsgs :: "node \<Rightarrow> int \<Rightarrow> int \<Rightarrow> jv res" where
  "getMsgs nd from to = nd (if from = 0 then None else Some from) (if to = 0 then None else Some to)"

definition js_empty :: "jv \<Rightarrow> bool" where
  "js_empty a \<longleftrightarrow> a = JArr [] \<or> a = JObj [] \<or> a = JStr ''''"

text \<open>The values \<open>for (let k in a)\<close> meets.\<close>

definition assigned :: "jv \<Rightarrow> jv list" where
  "assigned a = map (jget a) (jkeys a)"

record sync =
  sy_slot :: int
  sy_io :: io

text \<open>\<open>onslot\<close> works on the store and may throw half-way.\<close>

type_synonym slot_fn = "jv \<Rightarrow> io \<Rightarrow> io \<times> js_error option"

definition msg_key :: "jv \<Rightarrow> string" where
  "msg_key slot = ''__msg__/'' @ to_str slot"

definition sync_msg :: "slot_fn \<Rightarrow> jv \<Rightarrow> sync \<Rightarrow> sync \<times> js_error option" where
  "sync_msg on m s =
     (case jprop m ''slot'' of
        Inl e \<Rightarrow> (s, Some e)
      | Inr sl \<Rightarrow>
          (let slot = (if JNum (sy_slot s + 1) = sl then sy_slot s + 1 else sy_slot s);
               (st, err) = on m ((sy_io s)(skey (msg_key sl) \<mapsto> m))
           in (\<lparr>sy_slot = slot, sy_io = st\<rparr>, err)))"

fun sync_page :: "slot_fn \<Rightarrow> jv list \<Rightarrow> sync \<Rightarrow> sync \<times> js_error option" where
  "sync_page on [] s = (s, None)"
| "sync_page on (m # ms) s =
     (case sync_msg on m s of (s', None) \<Rightarrow> sync_page on ms s' | (s', Some e) \<Rightarrow> (s', Some e))"

definition note_slot :: "sync \<Rightarrow> sync" where
  "note_slot s = s\<lparr>sy_io := (sy_io s)(skey ''__slot__'' \<mapsto> JNum (sy_slot s))\<rparr>"

fun sync_pages :: "node list \<Rightarrow> slot_fn \<Rightarrow> int \<Rightarrow> int \<Rightarrow> jv \<Rightarrow> sync \<Rightarrow> sync" where
  "sync_pages nds on limit from res s =
     (case jprop res ''assignments'' of
        Inl e \<Rightarrow> s
      | Inr a \<Rightarrow>
          if js_empty a then s
          else (case sync_page on (assigned a) s of
                  (s', Some e) \<Rightarrow> s'
                | (s', None) \<Rightarrow>
                    (let k = int (length (assigned a)); from' = from + k
                     in if limit \<le> k then
                          (case nds of
                             [] \<Rightarrow> note_slot s'
                           | nd # nds' \<Rightarrow>
                               (case getMsgs nd from' (from' + limit) of
                                  Inl e \<Rightarrow> note_slot s'
                                | Inr res' \<Rightarrow> sync_pages nds' on limit from' res' (note_slot s')))
                        else note_slot s')))"

declare sync_pages.simps [simp del]

definition sync_get :: "node list \<Rightarrow> slot_fn \<Rightarrow> int \<Rightarrow> sync \<Rightarrow> sync" where
  "sync_get nds on limit s =
     (case nds of
        [] \<Rightarrow> s
      | nd # nds' \<Rightarrow>
          (let from = sy_slot s + 1
           in case getMsgs nd from (from + (limit - 1)) of
                Inl e \<Rightarrow> s
              | Inr res \<Rightarrow> sync_pages nds' on limit from res s))"

definition sync_init :: "io \<Rightarrow> sync" where
  "sync_init st = \<lparr>sy_slot = (case sget st ''__slot__'' of JNum n \<Rightarrow> n | _ \<Rightarrow> -1), sy_io = st\<rparr>"

section \<open>One call at a time\<close>

text \<open>The fields that guard \<open>get\<close>; \<open>autosync\<close> is \<open>0\<close> when it is not set. \<open>sc_running\<close> counts the calls that are in
  the body, \<open>sc_timers\<close> the ones that wait.\<close>

record sync_ctl =
  sc_init :: bool
  sc_ongoing :: bool
  sc_next :: bool
  sc_autosync :: int
  sc_stop :: bool
  sc_called :: nat
  sc_running :: nat
  sc_timers :: nat

definition ctl_enter :: "sync_ctl \<Rightarrow> sync_ctl" where
  "ctl_enter c =
     (if \<not> sc_init c then c
      else if sc_ongoing c then c\<lparr>sc_next := True\<rparr>
      else c\<lparr>sc_ongoing := True, sc_running := sc_running c + 1\<rparr>)"

text \<open>What follows the body; \<open>this.get()\<close> runs up to its first \<open>await\<close> before \<open>next\<close> is cleared.\<close>

definition ctl_leave :: "sync_ctl \<Rightarrow> sync_ctl" where
  "ctl_leave c =
     (let c1 = c\<lparr>sc_ongoing := False, sc_running := sc_running c - 1\<rparr>;
          c2 = (if sc_autosync c1 \<noteq> 0 then
                  (if \<not> sc_next c1 \<and> sc_stop c1 then c1\<lparr>sc_stop := False, sc_autosync := 0, sc_called := sc_called c1 + 1\<rparr>
                   else c1\<lparr>sc_timers := sc_timers c1 + 1\<rparr>)
                else if sc_next c1 then ctl_enter c1
                else c1)
      in c2\<lparr>sc_next := False\<rparr>)"

definition ctl_timer :: "sync_ctl \<Rightarrow> sync_ctl" where
  "ctl_timer c = ctl_enter (c\<lparr>sc_timers := sc_timers c - 1\<rparr>)"

definition stopSync :: "sync_ctl \<Rightarrow> sync_ctl" where
  "stopSync c = c\<lparr>sc_stop := True\<rparr>"

definition startSync :: "int \<Rightarrow> sync_ctl \<Rightarrow> sync_ctl" where
  "startSync to c = ctl_enter (c\<lparr>sc_autosync := to\<rparr>)"

inductive ctl_reach :: "sync_ctl \<Rightarrow> bool" where
  ctl_new: "ctl_reach \<lparr>sc_init = True, sc_ongoing = False, sc_next = False, sc_autosync = a, sc_stop = False,
      sc_called = 0, sc_running = 0, sc_timers = 0\<rparr>"
| ctl_get: "ctl_reach c \<Longrightarrow> ctl_reach (ctl_enter c)"
| ctl_done: "ctl_reach c \<Longrightarrow> 0 < sc_running c \<Longrightarrow> ctl_reach (ctl_leave c)"
| ctl_fires: "ctl_reach c \<Longrightarrow> 0 < sc_timers c \<Longrightarrow> ctl_reach (ctl_timer c)"
| ctl_stop: "ctl_reach c \<Longrightarrow> ctl_reach (stopSync c)"
| ctl_start: "ctl_reach c \<Longrightarrow> ctl_reach (startSync to c)"

lemma ctl_exclusive: "ctl_reach c \<Longrightarrow> sc_running c = (if sc_ongoing c then 1 else 0)"
  by (induction rule: ctl_reach.induct)
    (auto simp: ctl_enter_def ctl_leave_def ctl_timer_def stopSync_def startSync_def Let_def split: if_splits)

section \<open>The log of the process\<close>

text \<open>What the documentation of the scheduler says of \<open>schedule?from&to\<close>: the assignments from \<open>from\<close> on, in
  order, at least one if there is one; how many is its choice. (\<open>get\<close> asks for ranges that are not empty as long
  as its limit is at least 1.)\<close>

definition page :: "jv list \<Rightarrow> nat \<Rightarrow> nat \<Rightarrow> jv" where
  "page L a b = JObj [(''assignments'', JObj (map (\<lambda>i. (nat_to_string i, L ! i)) [a..<b]))]"

definition first_slot :: "int option \<Rightarrow> nat" where
  "first_slot f = (case f of None \<Rightarrow> 0 | Some n \<Rightarrow> nat n)"

definition serves :: "jv list \<Rightarrow> node \<Rightarrow> bool" where
  "serves L nd \<longleftrightarrow>
     (\<forall>f t. \<exists>k. k \<le> length L \<and> (first_slot f < length L \<longrightarrow> first_slot f < k) \<and> nd f t = Inr (page L (first_slot f) k))"

definition numbered_log :: "jv list \<Rightarrow> bool" where
  "numbered_log L \<longleftrightarrow> (\<forall>i < length L. jprop (L ! i) ''slot'' = Inr (JNum (int i)))"

lemma assigned_page:
  assumes "b \<le> length L" shows "assigned (JObj (map (\<lambda>i. (nat_to_string i, L ! i)) [a..<b])) = map ((!) L) [a..<b]"
proof -
  have d: "distinct (okeys (map (\<lambda>i. (nat_to_string i, L ! i)) [a..<b]))"
    by (simp add: distinct_map comp_def inj_on_def)
  have "map_of (map (\<lambda>i. (nat_to_string i, L ! i)) [a..<b]) (nat_to_string j) = Some (L ! j)" if "j \<in> set [a..<b]" for j
    using d that by (simp add: map_of_eq_Some_iff)
  then show ?thesis by (simp add: assigned_def comp_def)
qed

lemma serves_get:
  assumes "serves L nd" "0 \<le> a"
  shows "\<exists>k. k \<le> length L \<and> (nat a < length L \<longrightarrow> nat a < k) \<and> getMsgs nd a t = Inr (page L (nat a) k)"
proof -
  have "first_slot (if a = 0 then None else Some a) = nat a" by (simp add: first_slot_def)
  with assms(1) show ?thesis unfolding serves_def getMsgs_def by metis
qed

lemma sync_pages_page:
  assumes "k \<le> length L"
  shows "sync_pages nds on limit a (page L i k) s =
     (if k \<le> i then s
      else (case sync_page on (map ((!) L) [i..<k]) s of
              (s', Some e) \<Rightarrow> s'
            | (s', None) \<Rightarrow>
                if limit \<le> int (k - i) then
                  (case nds of
                     [] \<Rightarrow> note_slot s'
                   | nd # nds' \<Rightarrow>
                       (case getMsgs nd (a + int (k - i)) (a + int (k - i) + limit) of
                          Inl e \<Rightarrow> note_slot s'
                        | Inr res' \<Rightarrow> sync_pages nds' on limit (a + int (k - i)) res' (note_slot s')))
                else note_slot s'))"
proof -
  have "int (length (assigned (JObj (map (\<lambda>i. (nat_to_string i, L ! i)) [i..<k])))) = int (k - i)"
    unfolding assigned_page [OF assms] by (simp only: length_map length_upt)
  moreover have "js_empty (JObj (map (\<lambda>i. (nat_to_string i, L ! i)) [i..<k])) \<longleftrightarrow> k \<le> i" by (auto simp: js_empty_def)
  moreover have "jprop (page L i k) ''assignments'' = Inr (JObj (map (\<lambda>i. (nat_to_string i, L ! i)) [i..<k]))"
    by (simp add: page_def jprop_def)
  ultimately show ?thesis
    by (subst sync_pages.simps) (simp only: sum.case assigned_page [OF assms] Let_def)
qed

lemma note_slot_slot [simp]: "sy_slot (note_slot s) = sy_slot s"
  by (simp add: note_slot_def)

lemma msg_key_inj: "msg_key (JNum i) = msg_key (JNum j) \<longleftrightarrow> i = j"
  by (simp add: msg_key_def)

lemma msg_key_not_slot: "msg_key v \<noteq> ''__slot__''"
  by (simp add: msg_key_def)

lemmas slot_not_msg = msg_key_not_slot [symmetric]

text \<open>The store has every message up to the slot, and the slot it has noted is not past that.\<close>

definition mirrored :: "jv list \<Rightarrow> sync \<Rightarrow> bool" where
  "mirrored L s \<longleftrightarrow> -1 \<le> sy_slot s \<and> sy_slot s < int (length L) \<and>
     (\<forall>i. 0 \<le> i \<and> i \<le> sy_slot s \<longrightarrow> sy_io s (skey (msg_key (JNum i))) = Some (L ! nat i)) \<and>
     (case sget (sy_io s) ''__slot__'' of JNum n \<Rightarrow> -1 \<le> n \<and> n \<le> sy_slot s | _ \<Rightarrow> True)"

lemma mirrored_note: "mirrored L s \<Longrightarrow> mirrored L (note_slot s)"
  by (auto simp: mirrored_def note_slot_def msg_key_not_slot sget_upd_same)

text \<open>A new process on the same store takes up the work.\<close>

lemma mirrored_restart: "mirrored L s \<Longrightarrow> mirrored L (sync_init (sy_io s))"
  by (auto simp: mirrored_def sync_init_def split: jv.splits)

text \<open>The keys of \<open>Sync\<close>.\<close>

definition log_key :: "string \<Rightarrow> bool" where
  "log_key k \<longleftrightarrow> k = skey ''__slot__'' \<or> (\<exists>i :: int. k = skey (msg_key (JNum i)))"

text \<open>
  What a handler promises: it leaves the messages and the slot alone; it does not fail on a message that \<open>fits\<close> and then
  \<open>good\<close> holds of the message and the store, which no later message that fits and no write of \<open>Sync\<close> undoes; \<open>sound\<close> is an invariant of
  the store.
\<close>

locale slot_handler =
  fixes on :: slot_fn
    and good :: "jv \<Rightarrow> io \<Rightarrow> bool"
    and fits :: "jv \<Rightarrow> bool"
    and sound :: "io \<Rightarrow> bool"
  assumes leaves_log: "on m st = (st', err) \<Longrightarrow> log_key k \<Longrightarrow> st' k = st k"
    and works: "fits m \<Longrightarrow> on m st = (st', err) \<Longrightarrow> good m st'"
    and good_on: "fits m \<Longrightarrow> fits m' \<Longrightarrow> on m' st = (st', err) \<Longrightarrow> good m st \<Longrightarrow> good m st'"
    and good_put: "log_key k \<Longrightarrow> good m st \<Longrightarrow> good m (st(k \<mapsto> x))"
    and sound_on: "fits m \<Longrightarrow> on m st = (st', err) \<Longrightarrow> sound st \<Longrightarrow> sound st'"
    and sound_put: "log_key k \<Longrightarrow> sound st \<Longrightarrow> sound (st(k \<mapsto> x))"
    and sound_new: "sound Map.empty"
begin

definition synced :: "jv list \<Rightarrow> sync \<Rightarrow> bool" where
  "synced L s \<longleftrightarrow> mirrored L s \<and>
     ((\<forall>m \<in> set L. fits m) \<longrightarrow> sound (sy_io s) \<and> (\<forall>i. 0 \<le> i \<and> i \<le> sy_slot s \<longrightarrow> good (L ! nat i) (sy_io s)))"

lemma synced_note: "synced L s \<Longrightarrow> synced L (note_slot s)"
  using good_put [of "skey ''__slot__''"] sound_put [of "skey ''__slot__''"] mirrored_note [of L s]
  by (auto simp: synced_def log_key_def note_slot_def)

lemma synced_restart: "synced L s \<Longrightarrow> synced L (sync_init (sy_io s))"
  using mirrored_restart [of L s] by (auto simp: synced_def mirrored_def sync_init_def split: jv.splits)

lemma synced_new: "L \<noteq> [] \<Longrightarrow> synced L (sync_init Map.empty)"
  using sound_new by (auto simp: synced_def mirrored_def sync_init_def sget_def)

lemma mirrored_msg:
  assumes "mirrored L s" "numbered_log L" "i < length L" "int i \<le> sy_slot s + 1" "sync_msg on (L ! i) s = (s', err)"
  shows "mirrored L s' \<and> sy_slot s' = (if int i = sy_slot s + 1 then sy_slot s + 1 else sy_slot s)"
proof -
  have slot: "jprop (L ! i) ''slot'' = Inr (JNum (int i))" using assms(2,3) by (simp add: numbered_log_def)
  define st where "st = (sy_io s)(skey (msg_key (JNum (int i))) \<mapsto> L ! i)"
  obtain st' where st': "on (L ! i) st = (st', err)" and
    s': "s' = \<lparr>sy_slot = (if int i = sy_slot s + 1 then sy_slot s + 1 else sy_slot s), sy_io = st'\<rparr>"
    using assms(5) slot by (auto simp: sync_msg_def st_def Let_def split: prod.splits if_splits)
  have same: "st' (skey (msg_key (JNum j))) = (if j = int i then Some (L ! i) else sy_io s (skey (msg_key (JNum j))))" for j
    using leaves_log [OF st', of "skey (msg_key (JNum j))"] by (auto simp: log_key_def st_def msg_key_inj)
  have "st' (skey ''__slot__'') = sy_io s (skey ''__slot__'')"
    using leaves_log [OF st', of "skey ''__slot__''"] by (simp add: log_key_def st_def slot_not_msg)
  then have "sget st' ''__slot__'' = sget (sy_io s) ''__slot__''" by (simp add: sget_def)
  moreover have "L ! i = L ! nat (sy_slot s + 1)" if "int i = sy_slot s + 1" using that by (metis nat_int)
  ultimately show ?thesis using assms(1,3,4) unfolding s' mirrored_def by (auto simp: same split: jv.splits)
qed

lemma synced_msg:
  assumes "synced L s" "numbered_log L" "i < length L" "int i \<le> sy_slot s + 1" "sync_msg on (L ! i) s = (s', err)"
  shows "synced L s' \<and> sy_slot s' = (if int i = sy_slot s + 1 then sy_slot s + 1 else sy_slot s)"
proof -
  have m: "mirrored L s' \<and> sy_slot s' = (if int i = sy_slot s + 1 then sy_slot s + 1 else sy_slot s)"
    by (rule mirrored_msg [OF _ assms(2-5)]) (use assms(1) in \<open>simp add: synced_def\<close>)
  have slot: "jprop (L ! i) ''slot'' = Inr (JNum (int i))" using assms(2,3) by (simp add: numbered_log_def)
  define st where "st = (sy_io s)(skey (msg_key (JNum (int i))) \<mapsto> L ! i)"
  have st': "on (L ! i) st = (sy_io s', err)"
    using assms(5) slot by (auto simp: sync_msg_def st_def Let_def split: prod.splits)
  have "good (L ! nat j) (sy_io s')" if "\<forall>m \<in> set L. fits m" "0 \<le> j" "j \<le> sy_slot s'" for j
  proof (cases "j = int i")
    case True
    then show ?thesis using works [OF _ st'] that(1) assms(3) by simp
  next
    case False
    have js: "j \<le> sy_slot s" using False m that(3) by (auto split: if_splits)
    then have "j < int (length L)" using assms(1) by (simp add: synced_def mirrored_def)
    then have "L ! nat j \<in> set L" using that(2) by simp
    moreover have "good (L ! nat j) st" unfolding st_def
      by (rule good_put) (use assms(1) that js in \<open>auto simp: synced_def log_key_def\<close>)
    ultimately show ?thesis using good_on [OF _ _ st'] that(1) assms(3) by simp
  qed
  moreover have "sound (sy_io s')" if "\<forall>m \<in> set L. fits m"
  proof (rule sound_on [OF _ st'])
    show "sound st" unfolding st_def by (rule sound_put) (use assms(1) that in \<open>auto simp: synced_def log_key_def\<close>)
  qed (use that assms(3) in simp)
  ultimately show ?thesis using m by (simp add: synced_def)
qed

lemma synced_page:
  assumes "synced L s" "numbered_log L" "b \<le> length L" "int a \<le> sy_slot s + 1"
    and "sync_page on (map ((!) L) [a..<b]) s = (s', err)"
  shows "synced L s' \<and> sy_slot s \<le> sy_slot s' \<and> (err = None \<longrightarrow> int b \<le> sy_slot s' + 1) \<and>
    (a < b \<longrightarrow> int a < sy_slot s' + 1)"
  using assms
proof (induction "b - a" arbitrary: a s)
  case 0
  then show ?case by auto
next
  case (Suc n)
  then have ab: "a < b" by simp
  obtain s1 e1 where m: "sync_msg on (L ! a) s = (s1, e1)" by force
  have inv: "synced L s1 \<and> sy_slot s1 = (if int a = sy_slot s + 1 then sy_slot s + 1 else sy_slot s)"
    by (rule synced_msg [OF _ _ _ _ m]) (use Suc.prems ab in auto)
  show ?case
  proof (cases e1)
    case (Some e)
    then have "s' = s1" "err = Some e" using Suc.prems(5) m ab by (auto simp: upt_conv_Cons)
    with inv Suc.prems(4) show ?thesis by auto
  next
    case None
    then have rest: "sync_page on (map ((!) L) [Suc a..<b]) s1 = (s', err)"
      using Suc.prems(5) m ab by (auto simp: upt_conv_Cons)
    have "synced L s' \<and> sy_slot s1 \<le> sy_slot s' \<and> (err = None \<longrightarrow> int b \<le> sy_slot s' + 1) \<and>
        (Suc a < b \<longrightarrow> int (Suc a) < sy_slot s' + 1)"
      by (rule Suc.hyps(1) [OF _ _ Suc.prems(2,3) _ rest]) (use Suc inv in auto)
    moreover have "sy_slot s \<le> sy_slot s1" "int a \<le> sy_slot s1" using inv Suc.prems(4) by auto
    ultimately show ?thesis using ab by auto
  qed
qed

lemma synced_pages:
  assumes "synced L s" "numbered_log L" "\<forall>nd \<in> set nds. serves L nd" "0 \<le> a" "a \<le> sy_slot s + 1" "k \<le> length L"
    and "s2 = sync_pages nds on limit a (page L (nat a) k) s"
  shows "synced L s2 \<and> sy_slot s \<le> sy_slot s2 \<and> (nat a < k \<longrightarrow> a < sy_slot s2 + 1)"
  using assms
proof (induction nds arbitrary: a s k)
  case Nil
  obtain s' err where p: "sync_page on (map ((!) L) [nat a..<k]) s = (s', err)" by force
  have "synced L s' \<and> sy_slot s \<le> sy_slot s' \<and> (err = None \<longrightarrow> int k \<le> sy_slot s' + 1) \<and>
      (nat a < k \<longrightarrow> int (nat a) < sy_slot s' + 1)"
    by (rule synced_page [OF _ _ _ _ p]) (use Nil in auto)
  then show ?case using Nil(1,4,7) synced_note [of L s']
    by (auto simp: sync_pages_page [OF Nil(6)] p split: option.splits if_splits)
next
  case (Cons nd nds)
  obtain s' err where p: "sync_page on (map ((!) L) [nat a..<k]) s = (s', err)" by force
  have inv: "synced L s' \<and> sy_slot s \<le> sy_slot s' \<and> (err = None \<longrightarrow> int k \<le> sy_slot s' + 1) \<and>
      (nat a < k \<longrightarrow> int (nat a) < sy_slot s' + 1)"
    by (rule synced_page [OF _ _ _ _ p]) (use Cons in auto)
  show ?case
  proof (cases "nat a < k \<and> err = None \<and> limit \<le> int (k - nat a)")
    case False
    then show ?thesis using Cons.prems(1,4,7) inv synced_note [of L s']
      by (auto simp: sync_pages_page [OF Cons.prems(6)] p split: option.splits if_splits)
  next
    case True
    then have c: "(k \<le> nat a) = False" "(limit \<le> int (k - nat a)) = True" "err = None" by auto
    from True have fr: "a + int (k - nat a) = int k" using Cons.prems(4) by simp
    obtain k' where k': "k' \<le> length L" "getMsgs nd (int k) (int k + limit) = Inr (page L k k')"
      using serves_get [of L nd "int k"] Cons.prems(3) by auto
    have step: "s2 = sync_pages nds on limit (int k) (page L (nat (int k)) k') (note_slot s')"
      unfolding Cons.prems(7) sync_pages_page [OF Cons.prems(6)] fr p
      by (simp only: c if_False if_True prod.case option.case list.case k' sum.case nat_int)
    have "synced L s2 \<and> sy_slot (note_slot s') \<le> sy_slot s2 \<and> (nat (int k) < k' \<longrightarrow> int k < sy_slot s2 + 1)"
      by (rule Cons.IH [OF _ _ _ _ _ _ step]) (use True Cons.prems inv synced_note k' in auto)
    with inv True Cons.prems(4) show ?thesis by auto
  qed
qed

text \<open>A call never goes back, and it reads on whenever there is something to read.\<close>

lemma synced_get:
  assumes "synced L s" "numbered_log L" "\<forall>nd \<in> set nds. serves L nd" "nds \<noteq> []"
  shows "synced L (sync_get nds on limit s) \<and> sy_slot s \<le> sy_slot (sync_get nds on limit s) \<and>
    (sy_slot s + 1 < int (length L) \<longrightarrow> sy_slot s < sy_slot (sync_get nds on limit s))"
proof -
  obtain nd nds' where nds: "nds = nd # nds'" using assms(4) by (cases nds) auto
  define a where "a = sy_slot s + 1"
  have a: "0 \<le> a" using assms(1) by (simp add: a_def synced_def mirrored_def)
  obtain k where k: "k \<le> length L" "nat a < length L \<longrightarrow> nat a < k" "getMsgs nd a (a + (limit - 1)) = Inr (page L (nat a) k)"
    using serves_get [OF _ a, of L nd] assms(3) nds by auto
  have "sync_get nds on limit s = sync_pages nds' on limit a (page L (nat a) k) s"
    using k(3) by (simp add: sync_get_def nds a_def Let_def)
  moreover have "synced L s2 \<and> sy_slot s \<le> sy_slot s2 \<and> (nat a < k \<longrightarrow> a < sy_slot s2 + 1)"
    if "s2 = sync_pages nds' on limit a (page L (nat a) k) s" for s2
    by (rule synced_pages [OF assms(1,2) _ _ _ _ that]) (use assms(3) nds a k in \<open>auto simp: a_def\<close>)
  ultimately have "synced L (sync_get nds on limit s) \<and> sy_slot s \<le> sy_slot (sync_get nds on limit s) \<and>
      (nat a < k \<longrightarrow> a < sy_slot (sync_get nds on limit s) + 1)" by simp
  with k(2) a show ?thesis by (auto simp: a_def)
qed

lemma synced_calls:
  assumes "synced L s" "numbered_log L" "\<forall>nds \<in> set calls. nds \<noteq> [] \<and> (\<forall>nd \<in> set nds. serves L nd)"
  shows "synced L (foldl (\<lambda>s nds. sync_get nds on limit s) s calls) \<and>
    min (sy_slot s + int (length calls)) (int (length L) - 1) \<le> sy_slot (foldl (\<lambda>s nds. sync_get nds on limit s) s calls)"
  using assms
proof (induction calls arbitrary: s)
  case Nil
  then show ?case by simp
next
  case (Cons nds calls)
  let ?s = "sync_get nds on limit s"
  have m: "synced L ?s \<and> sy_slot s \<le> sy_slot ?s \<and> (sy_slot s + 1 < int (length L) \<longrightarrow> sy_slot s < sy_slot ?s)"
    by (rule synced_get) (use Cons.prems in auto)
  then have "synced L (foldl (\<lambda>s nds. sync_get nds on limit s) ?s calls) \<and>
      min (sy_slot ?s + int (length calls)) (int (length L) - 1) \<le> sy_slot (foldl (\<lambda>s nds. sync_get nds on limit s) ?s calls)"
    by (intro Cons.IH) (use Cons.prems in auto)
  with m show ?case by auto
qed

end

text \<open>\<open>Sync\<close> itself, as \<open>CU\<close> extends it, has no handler.\<close>

definition no_onslot :: slot_fn where
  "no_onslot m st = (st, None)"

interpretation plain_sync: slot_handler no_onslot "\<lambda>m st. True" "\<lambda>m. True" "\<lambda>st. True"
  by unfold_locales (simp_all add: no_onslot_def)

text \<open>
  C11. However few messages a node returns at a time, and from whatever state a process was left in, a caller of
  \<open>get\<close> reads the whole log: after at most as many calls as there are messages left, the slot is the last one and every
  message is stored under its slot.
\<close>

theorem sync_catches_up:
  assumes "numbered_log L" and "L \<noteq> []" and "mirrored L s" and "length L \<le> length calls"
    and "\<forall>nds \<in> set calls. nds \<noteq> [] \<and> (\<forall>nd \<in> set nds. serves L nd)"
  shows "let s' = foldl (\<lambda>s nds. sync_get nds no_onslot limit s) (sync_init (sy_io s)) calls
    in sy_slot s' = int (length L) - 1 \<and>
       list_all (\<lambda>i. sy_io s' (skey (msg_key (JNum (int i)))) = Some (L ! i)) [0..<length L]"
proof -
  define s' where "s' = foldl (\<lambda>s nds. sync_get nds no_onslot limit s) (sync_init (sy_io s)) calls"
  have i: "plain_sync.synced L (sync_init (sy_io s))"
    by (rule plain_sync.synced_restart) (use assms(3) in \<open>simp add: plain_sync.synced_def\<close>)
  then have "-1 \<le> sy_slot (sync_init (sy_io s))" by (simp add: plain_sync.synced_def mirrored_def)
  with plain_sync.synced_calls [OF i assms(1,5), of limit] assms(4)
  have m: "mirrored L s'" "sy_slot s' = int (length L) - 1"
    unfolding s'_def [symmetric] by (auto simp: plain_sync.synced_def mirrored_def)
  then show ?thesis unfolding s'_def [symmetric] by (simp add: mirrored_def list_all_iff Let_def)
qed

lemma sync_catches_up_witness:
  "let L = [JObj [(''slot'', JNum 0)]]; s' = foldl (\<lambda>s nds. sync_get nds no_onslot 20 s) (sync_init Map.empty) [[\<lambda>f t. Inr (page L (first_slot f) 1)]]
   in sy_slot s' = 0"
proof -
  define L where "L = [JObj [(''slot'', JNum 0)]]"
  have n: "numbered_log L" "L \<noteq> []" by (simp_all add: L_def numbered_log_def jprop_def)
  have m: "mirrored L \<lparr>sy_slot = -1, sy_io = Map.empty\<rparr>" by (simp add: mirrored_def L_def sget_def)
  have "serves L (\<lambda>f t. Inr (page L (first_slot f) 1))" by (auto simp: serves_def L_def)
  then have "let s' = foldl (\<lambda>s nds. sync_get nds no_onslot 20 s) (sync_init Map.empty) [[\<lambda>f t. Inr (page L (first_slot f) 1)]]
      in sy_slot s' = int (length L) - 1 \<and> list_all (\<lambda>i. sy_io s' (skey (msg_key (JNum (int i)))) = Some (L ! i)) [0..<length L]"
    using sync_catches_up [OF n m, of "[[\<lambda>f t. Inr (page L (first_slot f) 1)]]" 20] by (simp add: L_def)
  moreover have "int (length L) - 1 = 0" by (simp add: L_def)
  ultimately show ?thesis unfolding Let_def L_def [symmetric] by simp
qed

end
