(* ===== verification/Hb_Wal.thy ===== *)
theory Hb_Wal
  imports Request Kv_Durability
begin

text \<open>
  Shipping the log: \<open>hb/src/wal.js\<close> sends the records of a database's log in bundles to a HyperBEAM process
  and keeps the height it has reached. The database, the node and the process run side by side: the log may
  grow between any two steps, a send may fail, and the process may be restarted. \<open>io\<close> is the store the
  database writes, with the keys of \<open>Weave_Kv\<close>; \<open>send\<close>'s answer is an argument.
\<close>

section \<open>Collecting a bundle\<close>

definition wal_at :: "io \<Rightarrow> int \<Rightarrow> jv" where
  "wal_at st h = nullish (opt_jv (st (logkey ''__wal__'' h))) JNull"

definition is_signed :: "jv \<Rightarrow> bool" where
  "is_signed d \<longleftrightarrow> (let hs = jget (jget d ''opt'') ''headers'' in is_object hs \<and> truthy (jget hs ''signature''))"

text \<open>\<open>{ ...d.opt, hashpath, slot, ts }\<close>\<close>

definition wal_item :: "int \<Rightarrow> jv \<Rightarrow> jv" where
  "wal_item h d =
     JObj (oput ''ts'' (jget d ''ts'') (oput ''slot'' (JNum h) (oput ''hashpath'' (jget d ''hashpath'') (spread (jget d ''opt'') []))))"

text \<open>The \<open>do ... while (d !== null)\<close> loop: \<open>h\<close> goes up on a signed record only.\<close>

partial_function (option) collect :: "io \<Rightarrow> int \<Rightarrow> jv list \<Rightarrow> (jv list \<times> int) option" where
  "collect st h bundle =
     (let d = wal_at st h in
      if d = JNull then Some (bundle, h)
      else if is_signed d then collect st (h + 1) (bundle @ [wal_item h d])
      else collect st h bundle)"

datatype outcome = OHeight int | OIdle | OReject

text \<open>\<open>ok\<close>: what \<open>hb.message\<close> answers; \<open>None\<close> is a throw. The result is the new store, the outcome and the bundle
  the node has taken.\<close>

definition height_key :: string where
  "height_key = ''__meta__/height''"

definition wal_commit :: "bool option \<Rightarrow> int \<Rightarrow> io \<Rightarrow> (io \<times> outcome \<times> jv list) option" where
  "wal_commit ok height st =
     (case collect st height [] of
        None \<Rightarrow> None
      | Some (bundle, h) \<Rightarrow>
          Some (if bundle = [] then (st, OIdle, [])
                else if ok = Some True then (st(skey height_key \<mapsto> JNum h), OHeight h, bundle)
                else (st, OReject, [])))"

definition stored_height :: "io \<Rightarrow> int" where
  "stored_height st = (case sget st height_key of JNum n \<Rightarrow> n | _ \<Rightarrow> 0)"

section \<open>The process\<close>

text \<open>\<open>ws_start\<close> is the height read when the process came up, which every call of \<open>start\<close> begins with;
  \<open>ws_height\<close> is the local one of the call; \<open>ws_sent\<close> is what the node has taken.\<close>

record wal_state =
  ws_io :: io
  ws_start :: int
  ws_height :: int
  ws_sent :: "jv list"

definition wal_boot :: "io \<Rightarrow> jv list \<Rightarrow> wal_state" where
  "wal_boot st sent = \<lparr>ws_io = st, ws_start = stored_height st, ws_height = stored_height st, ws_sent = sent\<rparr>"

text \<open>One turn of the loop of \<open>start\<close>. A rejection ends the call, and the next one begins at the height of
  the start of the process.\<close>

definition wal_tick :: "bool option \<Rightarrow> wal_state \<Rightarrow> wal_state option" where
  "wal_tick ok s =
     (case wal_commit ok (ws_height s) (ws_io s) of
        None \<Rightarrow> None
      | Some (st, OHeight h, b) \<Rightarrow> Some (s\<lparr>ws_io := st, ws_height := h, ws_sent := ws_sent s @ b\<rparr>)
      | Some (st, OIdle, b) \<Rightarrow> Some s
      | Some (st, OReject, b) \<Rightarrow> Some (s\<lparr>ws_height := ws_start s\<rparr>))"

text \<open>The log grows by one signed record behind the last.\<close>

definition log_len :: "io \<Rightarrow> int \<Rightarrow> bool" where
  "log_len st n \<longleftrightarrow> 0 \<le> n \<and> (\<forall>j. (0 \<le> j \<and> j < n \<longrightarrow> wal_at st j \<noteq> JNull \<and> is_signed (wal_at st j)) \<and> (n \<le> j \<longrightarrow> wal_at st j = JNull))"

inductive wal_reach :: "bool \<Rightarrow> wal_state \<Rightarrow> bool" where
  wal_init: "log_len st n \<Longrightarrow> sget st height_key = JNull \<Longrightarrow> wal_reach True (wal_boot st [])"
| wal_append: "wal_reach calm s \<Longrightarrow> log_len (ws_io s) n \<Longrightarrow> is_signed d \<Longrightarrow>
     wal_reach calm (s\<lparr>ws_io := (ws_io s)(logkey ''__wal__'' n \<mapsto> d)\<rparr>)"
| wal_step: "wal_reach calm s \<Longrightarrow> wal_tick ok s = Some s' \<Longrightarrow> wal_reach (calm \<and> ok = Some True) s'"
| wal_restart: "wal_reach calm s \<Longrightarrow> wal_reach calm (wal_boot (ws_io s) (ws_sent s))"
| wal_crash: "wal_reach calm s \<Longrightarrow> wal_commit ok (ws_height s) (ws_io s) = Some (st, oc, b) \<Longrightarrow>
     wal_reach False (wal_boot (ws_io s) (ws_sent s @ b))"

section \<open>Collecting ends at the end of the log, or never\<close>

lemma collect_step: "wal_at st h \<noteq> JNull \<Longrightarrow> is_signed (wal_at st h) \<Longrightarrow>
   collect st h b = collect st (h + 1) (b @ [wal_item h (wal_at st h)])"
  by (subst collect.simps) (simp add: Let_def)

lemma collect_end: "wal_at st h = JNull \<Longrightarrow> collect st h b = Some (b, h)"
  by (subst collect.simps) (simp add: Let_def)

definition items :: "io \<Rightarrow> int \<Rightarrow> int \<Rightarrow> jv list" where
  "items st a b = map (\<lambda>j. wal_item j (wal_at st j)) [a..b - 1]"

lemma collect_log:
  assumes "log_len st n" "0 \<le> h" "h \<le> n"
  shows "collect st h b = Some (b @ items st h n, n)"
  using assms(2,3)
proof (induction "nat (n - h)" arbitrary: h b)
  case 0
  then have "h = n" by simp
  moreover have "wal_at st n = JNull" using assms(1) by (simp add: log_len_def)
  ultimately show ?case by (simp add: collect_end items_def)
next
  case (Suc k)
  then have h: "h < n" by simp
  then have "wal_at st h \<noteq> JNull" "is_signed (wal_at st h)" using assms(1) Suc.prems by (simp_all add: log_len_def)
  then have "collect st h b = collect st (h + 1) (b @ [wal_item h (wal_at st h)])" by (rule collect_step)
  also have "\<dots> = Some ((b @ [wal_item h (wal_at st h)]) @ items st (h + 1) n, n)"
    using Suc h by (intro Suc.hyps) auto
  finally show ?case using h by (simp add: items_def upto_rec1 [of h])
qed

text \<open>An unsigned record: the loop reads it again and again.\<close>

lemma collect_Some:
  assumes "collect st h b = Some y"
  shows "h \<le> snd y \<and> (\<forall>j. h \<le> j \<and> j < snd y \<longrightarrow> is_signed (wal_at st j)) \<and> wal_at st (snd y) = JNull"
proof (rule collect.raw_induct [OF _ assms])
  fix f st h b y
  assume IH: "\<And>st h b y. f st h b = Some y \<Longrightarrow>
      h \<le> snd y \<and> (\<forall>j. h \<le> j \<and> j < snd y \<longrightarrow> is_signed (wal_at st j)) \<and> wal_at st (snd y) = JNull"
    and e: "(let d = wal_at st h in if d = JNull then Some (b, h)
        else if is_signed d then f st (h + 1) (b @ [wal_item h d]) else f st h b) = Some y"
  show "h \<le> snd y \<and> (\<forall>j. h \<le> j \<and> j < snd y \<longrightarrow> is_signed (wal_at st j)) \<and> wal_at st (snd y) = JNull"
  proof (cases "wal_at st h = JNull")
    case False
    have le: "h \<le> j \<Longrightarrow> h = j \<or> h + 1 \<le> j" for j by auto
    show ?thesis
    proof (cases "is_signed (wal_at st h)")
      case True
      then have "f st (h + 1) (b @ [wal_item h (wal_at st h)]) = Some y" using False e by (simp add: Let_def)
      from IH [OF this] le True show ?thesis by force
    next
      case unsigned: False
      then have "f st h b = Some y" using False e by (simp add: Let_def)
      from IH [OF this] show ?thesis .
    qed
  qed (use e in auto)
qed

lemma unsigned_hangs:
  assumes "wal_at st h \<noteq> JNull" and "\<not> is_signed (wal_at st h)"
  shows "collect st h b = None"
proof (rule ccontr)
  assume "collect st h b \<noteq> None"
  then obtain y where y: "collect st h b = Some y" by blast
  have "h \<noteq> snd y" using collect_Some [OF y] assms(1) by metis
  with collect_Some [OF y] assms(2) show False by force
qed

section \<open>Nothing is lost, and without failures nothing is sent twice\<close>

text \<open>All items below the stored height have been sent. While no send has failed and no crash has come
  between a send and the note of it, what was sent is exactly those items, once and in order.\<close>

definition is_item :: "io \<Rightarrow> int \<Rightarrow> jv \<Rightarrow> bool" where
  "is_item st n x \<longleftrightarrow> (\<exists>j. 0 \<le> j \<and> j < n \<and> x = wal_item j (wal_at st j))"

definition wal_inv :: "bool \<Rightarrow> int \<Rightarrow> wal_state \<Rightarrow> bool" where
  "wal_inv calm n s \<longleftrightarrow>
     log_len (ws_io s) n \<and> 0 \<le> ws_start s \<and> ws_start s \<le> ws_height s \<and> ws_height s \<le> stored_height (ws_io s) \<and>
     stored_height (ws_io s) \<le> n \<and> set (items (ws_io s) 0 (stored_height (ws_io s))) \<subseteq> set (ws_sent s) \<and>
     (\<forall>x \<in> set (ws_sent s). is_item (ws_io s) n x) \<and>
     (calm \<longrightarrow> ws_height s = stored_height (ws_io s) \<and> ws_sent s = items (ws_io s) 0 (ws_height s))"

lemma wal_at_append: "wal_at (st(logkey ''__wal__'' n \<mapsto> d)) j = (if j = n then nullish d JNull else wal_at st j)"
  by (simp add: wal_at_def)

lemma items_append: "b \<le> n \<Longrightarrow> items (st(logkey ''__wal__'' n \<mapsto> d)) a b = items st a b"
  by (simp add: items_def wal_at_append)

lemma log_append: "log_len st n \<Longrightarrow> is_signed d \<Longrightarrow> log_len (st(logkey ''__wal__'' n \<mapsto> d)) (n + 1)"
proof -
  assume "log_len st n" and d: "is_signed d"
  moreover have "\<not> is_nil d" using d by (cases d) (auto simp: is_signed_def Let_def is_object_def)
  then have "nullish d JNull = d" "d \<noteq> JNull" by auto
  ultimately show ?thesis by (auto simp: log_len_def wal_at_append)
qed

lemma wal_at_height [simp]: "wal_at (st(skey k \<mapsto> v)) j = wal_at st j"
  by (simp add: wal_at_def)

lemma log_len_height [simp]: "log_len (st(skey k \<mapsto> v)) n = log_len st n"
  by (simp add: log_len_def)

lemma items_height [simp]: "items (st(skey k \<mapsto> v)) a b = items st a b"
  by (simp add: items_def)

lemma stored_height_put [simp]: "stored_height (st(skey height_key \<mapsto> JNum h)) = h"
  by (simp add: stored_height_def sget_upd_same)

lemma stored_height_log [simp]: "stored_height (st(logkey name i \<mapsto> d)) = stored_height st"
  by (simp add: stored_height_def)

lemma items_split: "a \<le> b \<Longrightarrow> b \<le> c \<Longrightarrow> items st a c = items st a b @ items st b c"
  using upto_split1 [of a b "c - 1"] by (cases "b = c") (auto simp: items_def)

lemma items_all: "0 \<le> a \<Longrightarrow> x \<in> set (items st a n) \<Longrightarrow> is_item st n x"
  unfolding items_def is_item_def set_map image_iff by (metis atLeastAtMost_iff order_trans set_upto zle_diff1_eq)

lemma is_item_append: "is_item st n x \<Longrightarrow> is_item (st(logkey ''__wal__'' n \<mapsto> d)) (n + 1) x"
proof -
  assume "is_item st n x"
  then obtain j where "0 \<le> j" "j < n" "x = wal_item j (wal_at st j)" by (auto simp: is_item_def)
  then show ?thesis unfolding is_item_def by (intro exI [of _ j]) (simp add: wal_at_append)
qed

lemma is_item_height [simp]: "is_item (st(skey k \<mapsto> v)) n x = is_item st n x"
  by (simp add: is_item_def)

lemma log_len_unique: "log_len st m \<Longrightarrow> log_len st n \<Longrightarrow> m = n"
proof (rule ccontr)
  assume l: "log_len st m" "log_len st n" and "m \<noteq> n"
  then consider "m < n" | "n < m" by linarith
  then show False using l by cases (auto simp: log_len_def)
qed

text \<open>What a turn does on a log of \<open>n\<close> records.\<close>

lemma wal_commit_log:
  assumes "log_len st n" "0 \<le> h" "h \<le> n"
  shows "wal_commit ok h st =
     Some (if h = n then (st, OIdle, []) else if ok = Some True then (st(skey height_key \<mapsto> JNum n), OHeight n, items st h n)
           else (st, OReject, []))"
  using collect_log [OF assms, of "[]"] assms(3) by (auto simp: wal_commit_def items_def)

lemma wal_inv_boot: "log_len st n \<Longrightarrow> sget st height_key = JNull \<Longrightarrow> wal_inv True n (wal_boot st [])"
  by (auto simp: wal_inv_def wal_boot_def stored_height_def items_def log_len_def)

lemma wal_inv_append:
  assumes "wal_inv calm n s" "is_signed d"
  shows "wal_inv calm (n + 1) (s\<lparr>ws_io := (ws_io s)(logkey ''__wal__'' n \<mapsto> d)\<rparr>)"
  using assms log_append [of "ws_io s" n d] is_item_append by (auto simp: wal_inv_def items_append)

lemma wal_commit_inv:
  assumes "wal_inv calm n s"
  shows "wal_commit ok (ws_height s) (ws_io s) =
     Some (if ws_height s = n then (ws_io s, OIdle, [])
           else if ok = Some True then ((ws_io s)(skey height_key \<mapsto> JNum n), OHeight n, items (ws_io s) (ws_height s) n)
           else (ws_io s, OReject, []))"
  using assms by (intro wal_commit_log) (auto simp: wal_inv_def)

lemma wal_inv_crash:
  assumes "wal_inv calm n s" and "wal_commit ok (ws_height s) (ws_io s) = Some (st, oc, b)"
  shows "wal_inv False n (wal_boot (ws_io s) (ws_sent s @ b))"
proof -
  have "b = [] \<or> b = items (ws_io s) (ws_height s) n" using wal_commit_inv [OF assms(1), of ok] assms(2) by (auto split: if_splits)
  moreover have "0 \<le> ws_height s" using assms(1) by (simp add: wal_inv_def)
  ultimately have "\<forall>x \<in> set b. is_item (ws_io s) n x" using items_all by auto
  with assms(1) show ?thesis by (auto simp: wal_inv_def wal_boot_def)
qed

lemma wal_inv_tick:
  assumes "wal_inv calm n s" and "wal_tick ok s = Some s'"
  shows "wal_inv (calm \<and> ok = Some True) n s'"
proof -
  have h: "0 \<le> ws_height s" "ws_height s \<le> stored_height (ws_io s)" "stored_height (ws_io s) \<le> n"
    using assms(1) by (simp_all add: wal_inv_def)
  consider "ws_height s = n" "s' = s" | "ws_height s \<noteq> n" "ok \<noteq> Some True" "s' = s\<lparr>ws_height := ws_start s\<rparr>"
    | "ok = Some True" "s' = s\<lparr>ws_io := (ws_io s)(skey height_key \<mapsto> JNum n), ws_height := n, ws_sent := ws_sent s @ items (ws_io s) (ws_height s) n\<rparr>"
    using assms(2) wal_commit_inv [OF assms(1), of ok] by (auto simp: wal_tick_def split: if_splits)
  then show ?thesis
  proof cases
    case 3
    have all: "items (ws_io s) 0 n = items (ws_io s) 0 (ws_height s) @ items (ws_io s) (ws_height s) n"
      using h by (intro items_split) simp_all
    moreover have "set (items (ws_io s) 0 (ws_height s)) \<subseteq> set (items (ws_io s) 0 (stored_height (ws_io s)))"
      using items_split [OF h(1,2), of "ws_io s"] by simp
    ultimately have "set (items (ws_io s) 0 n) \<subseteq> set (ws_sent s @ items (ws_io s) (ws_height s) n)"
      using assms(1) by (auto simp: wal_inv_def)
    then show ?thesis using assms(1) 3 all items_all [OF h(1)] h by (simp add: wal_inv_def) blast
  qed (use assms(1) in \<open>auto simp: wal_inv_def\<close>)
qed

lemma wal_inv_restart: "wal_inv calm n s \<Longrightarrow> wal_inv calm n (wal_boot (ws_io s) (ws_sent s))"
  by (auto simp: wal_inv_def wal_boot_def)

lemma wal_reach_inv: "wal_reach calm s \<Longrightarrow> \<exists>n. wal_inv calm n s"
proof (induction rule: wal_reach.induct)
  case (wal_append calm s n d)
  then obtain m where m: "wal_inv calm m s" by blast
  then have "m = n" using wal_append.hyps(2) log_len_unique by (auto simp: wal_inv_def)
  with wal_inv_append [OF m wal_append.hyps(3)] show ?case by blast
qed (blast intro: wal_inv_boot wal_inv_tick wal_inv_restart wal_inv_crash)+

lemma wal_shipped:
  assumes "wal_reach calm s" and "log_len (ws_io s) n"
  shows "wal_inv calm n s"
proof -
  obtain m where m: "wal_inv calm m s" using wal_reach_inv [OF assms(1)] by blast
  with assms(2) have "m = n" using log_len_unique by (auto simp: wal_inv_def)
  with m show ?thesis by simp
qed

text \<open>
  C5. Whatever fails, no record of the log is lost: in every reachable state each record below the stored height
  has been sent, and what was sent are records of the log. While no send fails and no crash comes between a
  send and the note of its height, the records are sent in order and once each.
\<close>

theorem wal_ships_log:
  assumes "wal_reach calm s" and "log_len (ws_io s) n"
  shows "0 \<le> stored_height (ws_io s) \<and> stored_height (ws_io s) \<le> n \<and>
     set (items (ws_io s) 0 (stored_height (ws_io s))) \<subseteq> set (ws_sent s) \<and>
     (x \<in> set (ws_sent s) \<longrightarrow> is_item (ws_io s) n x) \<and>
     (calm \<longrightarrow> ws_sent s = items (ws_io s) 0 (stored_height (ws_io s)))"
  using wal_shipped [OF assms] by (auto simp: wal_inv_def)

text \<open>A log of one signed record.\<close>

definition signed_record :: jv where
  "signed_record = JObj [(''opt'', JObj [(''headers'', JObj [(''signature'', JStr ''s'')])]), (''hashpath'', JNull), (''ts'', JNum 7)]"

definition one_record :: io where
  "one_record = [logkey ''__wal__'' 0 \<mapsto> signed_record]"

lemma one_record_log: "log_len one_record 1"
proof -
  have "wal_at one_record j = (if j = 0 then signed_record else JNull)" for j
    by (simp add: wal_at_def one_record_def signed_record_def)
  then show ?thesis by (simp add: log_len_def is_signed_def is_object_def signed_record_def Let_def)
qed

lemma one_record_reach: "wal_reach True (wal_boot one_record [])"
  by (rule wal_init [OF one_record_log]) (simp add: one_record_def sget_def)

theorem wal_ships_log_witness: "ws_sent (wal_boot one_record []) = items one_record 0 (stored_height one_record)"
proof -
  have "ws_io (wal_boot one_record []) = one_record" by (simp add: wal_boot_def)
  then show ?thesis using wal_ships_log [OF one_record_reach, of 1 JNull] one_record_log by simp
qed

end
