(* ===== verification/Json_Props.thy ===== *)
theory Json_Props
  imports Json
begin

text \<open>
  \<open>JSON.parse\<close> inverts \<open>JSON.stringify\<close>: what one process sends as text another reads as the same value.
\<close>

section \<open>Values that have a text\<close>

text \<open>No \<open>undefined\<close>, and the keys of an object in the order in which an object made from them has them.\<close>

definition in_order :: "(string \<times> jv) list \<Rightarrow> bool" where
  "in_order p \<longleftrightarrow> foldl (\<lambda>o' (k, v). oput k v o') [] p = p"

fun json_ok :: "jv \<Rightarrow> bool" where
  "json_ok JUndef = False"
| "json_ok (JArr xs) = list_all json_ok xs"
| "json_ok (JObj p) = (in_order p \<and> list_all (\<lambda>kv. json_ok (snd kv)) p)"
| "json_ok v = True"

section \<open>Strings\<close>

lemma unhex_hex_digit: "d < 16 \<Longrightarrow> unhex (hex_digit d) = Some d"
  by (simp add: unhex_def hex_digit_def)

lemma hex4_escape: "(of_char c :: nat) < 32 \<Longrightarrow>
   hex4 (CHR ''0'') (CHR ''0'') (hex_digit (of_char c div 16)) (hex_digit (of_char c mod 16)) = Some c"
proof -
  assume "(of_char c :: nat) < 32"
  then have "of_char c div 16 < (16 :: nat)" by simp
  moreover have "unhex (CHR ''0'') = Some 0" by (simp add: unhex_def)
  ultimately show ?thesis by (simp add: hex4_def unhex_hex_digit)
qed

lemma pstr_escape: "pstr (json_escape_char c @ r) = push_char (Some c) (pstr r)"
proof (cases "c \<in> {CHR 0x22, CHR 0x5C, CHR 0x08, CHR 0x0C, CHR 0x0A, CHR 0x0D, CHR 0x09}")
  case True
  then show ?thesis by (auto simp: json_escape_char_def unescape_def)
next
  case False
  then show ?thesis by (auto simp: json_escape_char_def hex4_escape)
qed

lemma pstr_quote: "pstr (concat (map json_escape_char s) @ CHR 0x22 # r) = Some (s, r)"
  by (induction s) (simp_all add: pstr_escape push_char_def del: pstr.simps(2), simp)

lemma pstr_json_quote: "json_quote s @ r = CHR 0x22 # concat (map json_escape_char s) @ CHR 0x22 # r"
  by (simp add: json_quote_def quote_char_def)

section \<open>Numbers\<close>

lemma digit_char_zero: "digit_char 0 = CHR ''0''"
  by code_simp

lemma hd_nat_to_string: "n \<noteq> 0 \<Longrightarrow> hd (nat_to_string n) \<noteq> CHR ''0''"
proof (induction n rule: nat_to_string.induct)
  case (1 n)
  show ?case
  proof (cases "n < 10")
    case True
    have "digit_char n \<noteq> CHR ''0''"
      using True 1(2) digit_char_inj [of n 0] unfolding digit_char_zero by auto
    with True show ?thesis by (subst nat_to_string.simps) simp
  next
    case False
    then have "hd (nat_to_string (n div 10)) \<noteq> CHR ''0''" by (intro 1(1)) auto
    with False show ?thesis by (subst nat_to_string.simps) simp
  qed
qed

lemma nat_to_string_zero: "nat_to_string 0 = ''0''"
  by (subst nat_to_string.simps) (simp add: digit_char_zero)

text \<open>What may stand behind a value.\<close>

definition follows :: "string \<Rightarrow> bool" where
  "follows r \<longleftrightarrow> (case r of [] \<Rightarrow> True | c # _ \<Rightarrow> c \<in> {CHR '','', CHR '']'', CHR ''}''})"

lemma follows_not_digit: "follows r \<Longrightarrow> takeWhile is_digit (nat_to_string n @ r) = nat_to_string n \<and> dropWhile is_digit (nat_to_string n @ r) = r"
proof -
  assume "follows r"
  then have "r = [] \<or> \<not> is_digit (hd r)" by (auto simp: follows_def is_digit_def split: list.splits)
  moreover have "\<forall>c \<in> set (nat_to_string n). is_digit c" using nat_to_string_digits by (simp add: list_all_iff)
  ultimately show ?thesis by (cases r) (simp_all add: takeWhile_append2 dropWhile_append2)
qed

lemma pnum_int: "follows r \<Longrightarrow> pnum (int_to_string n @ r) = Some (JNum n, r)"
proof -
  assume r: "follows r"
  have fw: "\<not> (r \<noteq> [] \<and> hd r \<in> {CHR ''.'', CHR ''e'', CHR ''E''})"
    using r by (auto simp: follows_def split: list.splits)
  have lead: "\<not> (hd (nat_to_string m) = CHR ''0'' \<and> tl (nat_to_string m) \<noteq> [])" for m
    using hd_nat_to_string [of m] by (cases "m = 0") (auto simp: nat_to_string_zero)
  have digit: "take 1 (nat_to_string m @ r) \<noteq> ''-''" for m
    using minus_not_in_nat_to_string [of m] by (cases "nat_to_string m") auto
  have tw: "takeWhile is_digit (nat_to_string m @ r) = nat_to_string m"
       and dw: "dropWhile is_digit (nat_to_string m @ r) = r" for m
    using follows_not_digit [OF r, of m] by auto
  show ?thesis
  proof (cases "n < 0")
    case True
    then have s: "int_to_string n @ r = CHR ''-'' # (nat_to_string (nat (- n)) @ r)"
      by (simp add: int_to_string_def)
    have "pnum (int_to_string n @ r) = (let (sg, t) = (-1 :: int, nat_to_string (nat (- n)) @ r);
          ds = takeWhile is_digit t; rest = dropWhile is_digit t
      in if ds = [] \<or> (hd ds = CHR ''0'' \<and> tl ds \<noteq> []) \<or>
            (rest \<noteq> [] \<and> hd rest \<in> {CHR ''.'', CHR ''e'', CHR ''E''}) then None
         else Some (JNum (sg * int (digits_val ds)), rest))"
      unfolding pnum_def s by simp
    also have "\<dots> = Some (JNum n, r)"
      unfolding Let_def prod.case tw dw using lead [of "nat (- n)"] fw True by simp
    finally show ?thesis .
  next
    case False
    then have s: "int_to_string n @ r = nat_to_string (nat n) @ r"
      by (simp add: int_to_string_def)
    have "pnum (int_to_string n @ r) = (let (sg, t) = (1 :: int, nat_to_string (nat n) @ r);
          ds = takeWhile is_digit t; rest = dropWhile is_digit t
      in if ds = [] \<or> (hd ds = CHR ''0'' \<and> tl ds \<noteq> []) \<or>
            (rest \<noteq> [] \<and> hd rest \<in> {CHR ''.'', CHR ''e'', CHR ''E''}) then None
         else Some (JNum (sg * int (digits_val ds)), rest))"
      unfolding pnum_def s using digit [of "nat n"] by simp
    also have "\<dots> = Some (JNum n, r)"
      unfolding Let_def prod.case tw dw using lead [of "nat n"] fw False by simp
    finally show ?thesis .
  qed
qed

section \<open>Values\<close>

lemma digit_no_ws: "is_digit c \<Longrightarrow> \<not> json_ws c \<and> c \<notin> {CHR '']'', CHR ''}'', CHR 0x22, CHR ''['', CHR ''{''}"
  by (auto simp: is_digit_def json_ws_def)

lemma int_to_string_head:
  obtains c t where "int_to_string n = c # t" "c = CHR ''-'' \<or> is_digit c"
proof (cases "n < 0")
  case True
  then show ?thesis using that by (simp add: int_to_string_def)
next
  case False
  then have e: "int_to_string n = nat_to_string (nat n)" by (simp add: int_to_string_def)
  obtain c t where c: "nat_to_string (nat n) = c # t" by (cases "nat_to_string (nat n)") auto
  have "is_digit c" using nat_to_string_digits [of "nat n"] c by simp
  with e c that show ?thesis by simp
qed

lemma stringify_head:
  obtains c t where "stringify v = c # t" "\<not> json_ws c" "c \<noteq> CHR '']''" "c \<noteq> CHR ''}''"
proof (cases v)
  case (JNum n)
  obtain c t where "int_to_string n = c # t" "c = CHR ''-'' \<or> is_digit c" by (rule int_to_string_head)
  then show ?thesis using that JNum digit_no_ws [of c] by (auto simp: json_ws_def)
next
  case (JBool b)
  then show ?thesis using that by (cases b) (auto simp: json_ws_def)
qed (use that in \<open>auto simp: json_ws_def json_quote_def quote_char_def split: if_splits\<close>)

lemma skip_ws_stringify: "skip_ws (stringify v @ r) = stringify v @ r"
  by (rule stringify_head [of v]) (simp add: skip_ws_def)

lemma stringify_not_Nil: "stringify v \<noteq> []"
  by (rule stringify_head [of v]) simp

lemma follows_simps: "follows (CHR '','' # r)" "follows (CHR '']'' # r)" "follows (CHR ''}'' # r)" "follows []"
  by (simp_all add: follows_def)

lemma skip_ws_sep: "skip_ws (CHR '','' # r) = CHR '','' # r" "skip_ws (CHR '']'' # r) = CHR '']'' # r"
  "skip_ws (CHR ''}'' # r) = CHR ''}'' # r" "skip_ws (CHR '':'' # r) = CHR '':'' # r" "skip_ws (CHR 0x22 # r) = CHR 0x22 # r"
  by (simp_all add: skip_ws_def json_ws_def)

text \<open>A value is read back with enough calls.\<close>

definition reads :: "jv \<Rightarrow> bool" where
  "reads v \<longleftrightarrow> (\<forall>n r. follows r \<longrightarrow> 2 * length (stringify v) \<le> n \<longrightarrow> pval n (stringify v @ r) = Some (v, r))"

lemma readsD: "reads v \<Longrightarrow> follows r \<Longrightarrow> 2 * length (stringify v) \<le> n \<Longrightarrow> pval n (stringify v @ r) = Some (v, r)"
  unfolding reads_def by blast

definition elems_text :: "jv list \<Rightarrow> string" where
  "elems_text xs = join_with '','' (map stringify xs)"

lemma elems_text_Cons: "elems_text [x] = stringify x"
  "elems_text (x # y # ys) = stringify x @ CHR '','' # elems_text (y # ys)"
  by (simp_all add: elems_text_def)

lemma pelems_stringify:
  assumes "xs \<noteq> []" "\<forall>x \<in> set xs. reads x" "2 * length (elems_text xs) + 1 \<le> n"
  shows "pelems n (elems_text xs @ CHR '']'' # r) = Some (xs, r)"
  using assms
proof (induction xs arbitrary: n rule: induct_list012)
  case (2 x)
  then obtain m where n: "n = Suc m" "2 * length (stringify x) \<le> m" by (cases n) (auto simp: elems_text_Cons)
  have "pval m (stringify x @ CHR '']'' # r) = Some (x, CHR '']'' # r)"
    by (rule readsD) (use 2 n in \<open>auto simp: follows_simps\<close>)
  with n show ?case by (simp add: elems_text_Cons skip_ws_sep)
next
  case (3 x y ys)
  then obtain m where n: "n = Suc m" "2 * length (stringify x) \<le> m" "2 * length (elems_text (y # ys)) + 1 \<le> m"
    by (cases n) (auto simp: elems_text_Cons)
  have "pval m (stringify x @ CHR '','' # elems_text (y # ys) @ CHR '']'' # r) = Some (x, CHR '','' # elems_text (y # ys) @ CHR '']'' # r)"
    by (rule readsD) (use 3 n in \<open>auto simp: follows_simps\<close>)
  moreover have "pelems m (elems_text (y # ys) @ CHR '']'' # r) = Some (y # ys, r)"
    by (rule 3(2)) (use 3 n in auto)
  ultimately show ?case using n(1) by (simp add: elems_text_Cons skip_ws_sep)
qed simp

definition members_text :: "(string \<times> jv) list \<Rightarrow> string" where
  "members_text p = join_with '','' (map (\<lambda>(k, v). json_quote k @ '':'' @ stringify v) p)"

lemma members_text_Cons: "members_text [(k, v)] = json_quote k @ '':'' @ stringify v"
  "members_text ((k, v) # q # ys) = json_quote k @ '':'' @ stringify v @ CHR '','' # members_text (q # ys)"
  by (simp_all add: members_text_def)

lemma pmembers_member:
  assumes "reads v" "follows (c # r)" "c \<noteq> CHR '']''" "2 * length (stringify v) \<le> m"
  shows "pmembers (Suc m) a (json_quote k @ CHR '':'' # stringify v @ c # r) =
    (if c = CHR ''}'' then Some (oput k v a, r) else pmembers m (oput k v a) r)"
proof -
  have "pval m (stringify v @ c # r) = Some (v, c # r)" by (rule readsD) (use assms in auto)
  moreover have "skip_ws (c # r) = c # r" "c = CHR ''}'' \<or> c = CHR '',''"
    using assms by (auto simp: follows_def skip_ws_sep)
  ultimately show ?thesis
    by (auto simp: pstr_json_quote pstr_quote skip_ws_sep simp del: pstr.simps)
qed

lemma pmembers_stringify:
  assumes "p \<noteq> []" "\<forall>kv \<in> set p. reads (snd kv)" "2 * length (members_text p) + 1 \<le> n"
  shows "pmembers n a (members_text p @ CHR ''}'' # r) = Some (foldl (\<lambda>o' (k, v). oput k v o') a p, r)"
  using assms
proof (induction p arbitrary: n a rule: induct_list012)
  case (2 x)
  obtain k v where x: "x = (k, v)" by (cases x)
  with 2 obtain m where n: "n = Suc m" "2 * length (stringify v) \<le> m" by (cases n) (auto simp: members_text_Cons)
  have "pmembers (Suc m) a (json_quote k @ CHR '':'' # stringify v @ CHR ''}'' # r) = Some (oput k v a, r)"
    by (subst pmembers_member) (use 2 n x in \<open>auto simp: follows_simps\<close>)
  with n x show ?case by (simp add: members_text_Cons del: pmembers.simps)
next
  case (3 x y ys)
  obtain k v where x: "x = (k, v)" by (cases x)
  with 3 obtain m where n: "n = Suc m" "2 * length (stringify v) \<le> m" "2 * length (members_text (y # ys)) + 1 \<le> m"
    by (cases n) (auto simp: members_text_Cons)
  have "pmembers (Suc m) a (json_quote k @ CHR '':'' # stringify v @ CHR '','' # members_text (y # ys) @ CHR ''}'' # r)
      = pmembers m (oput k v a) (members_text (y # ys) @ CHR ''}'' # r)"
    by (subst pmembers_member) (use 3 n x in \<open>auto simp: follows_simps\<close>)
  also have "\<dots> = Some (foldl (\<lambda>o' (k, v). oput k v o') (oput k v a) (y # ys), r)"
    by (rule 3(2)) (use 3 n in auto)
  finally show ?case using n(1) x by (simp add: members_text_Cons del: pmembers.simps)
qed simp

lemma json_ok_reads: "json_ok v \<Longrightarrow> reads v"
proof (induction v)
  case (JNum k)
  obtain c t where c: "int_to_string k = c # t" "c = CHR ''-'' \<or> is_digit c" by (rule int_to_string_head)
  have "pval (Suc m) (int_to_string k @ r) = Some (JNum k, r)" if "follows r" for m r
  proof -
    have "skip_ws (int_to_string k @ r) = c # t @ r" using c digit_no_ws [of c] by (auto simp: skip_ws_def json_ws_def)
    with c show ?thesis using pnum_int [OF that, of k] digit_no_ws [of c] by auto
  qed
  note step = this
  show ?case unfolding reads_def
  proof (intro allI impI)
    fix n r assume r: "follows r" and "2 * length (stringify (JNum k)) \<le> n"
    then obtain m where "n = Suc m" using c by (cases n) auto
    with step [OF r] show "pval n (stringify (JNum k) @ r) = Some (JNum k, r)" by simp
  qed
next
  case (JStr t)
  show ?case unfolding reads_def
  proof (intro allI impI)
    fix n r assume "2 * length (stringify (JStr t)) \<le> n"
    then obtain m where "n = Suc m" by (cases n) (auto simp: json_quote_def)
    then show "pval n (stringify (JStr t) @ r) = Some (JStr t, r)"
      by (simp add: pstr_json_quote pstr_quote skip_ws_sep del: pstr.simps)
  qed
next
  case (JArr xs)
  then have ok: "\<forall>x \<in> set xs. reads x" by (auto simp: list_all_iff)
  show ?case unfolding reads_def
  proof (intro allI impI)
    fix n r assume "2 * length (stringify (JArr xs)) \<le> n"
    then obtain m where n: "n = Suc m" "2 * length (elems_text xs) + 1 \<le> m" by (cases n) (auto simp: elems_text_def)
    have t: "stringify (JArr xs) @ r = CHR ''['' # elems_text xs @ CHR '']'' # r" by (simp add: elems_text_def)
    show "pval n (stringify (JArr xs) @ r) = Some (JArr xs, r)"
    proof (cases xs)
      case Nil
      with n show ?thesis unfolding t by (simp add: elems_text_def skip_ws_def json_ws_def)
    next
      case (Cons y ys)
      obtain c q where c: "stringify y = c # q" "\<not> json_ws c" "c \<noteq> CHR '']''" by (rule stringify_head)
      have "\<exists>q'. elems_text xs = c # q'" using Cons c by (cases ys) (auto simp: elems_text_Cons)
      then have "take 1 (skip_ws (elems_text xs @ CHR '']'' # r)) \<noteq> '']''" using c by (auto simp: skip_ws_def)
      moreover have "pelems m (elems_text xs @ CHR '']'' # r) = Some (xs, r)"
        by (rule pelems_stringify) (use Cons ok n in auto)
      moreover have "skip_ws (CHR ''['' # x) = CHR ''['' # x" for x by (simp add: skip_ws_def json_ws_def)
      ultimately show ?thesis unfolding t using n(1) by simp
    qed
  qed
next
  case (JObj p)
  then have ok: "\<forall>kv \<in> set p. reads (snd kv)" "foldl (\<lambda>o' (k, v). oput k v o') [] p = p"
    unfolding json_ok.simps in_order_def list_all_iff by (metis snds.simps prod.collapse, blast)
  have no_undef: "filter (\<lambda>(k, v). v \<noteq> JUndef) p = p"
    using JObj(2) by (auto simp: list_all_iff intro!: filter_True)
  show ?case unfolding reads_def
  proof (intro allI impI)
    fix n r assume "2 * length (stringify (JObj p)) \<le> n"
    then obtain m where n: "n = Suc m" "2 * length (members_text p) + 1 \<le> m"
      unfolding stringify.simps no_undef by (cases n) (auto simp: members_text_def)
    have t: "stringify (JObj p) @ r = CHR ''{'' # members_text p @ CHR ''}'' # r"
      unfolding stringify.simps no_undef by (simp add: members_text_def)
    have ws: "skip_ws (CHR ''{'' # x) = CHR ''{'' # x" for x by (simp add: skip_ws_def json_ws_def)
    show "pval n (stringify (JObj p) @ r) = Some (JObj p, r)"
    proof (cases p)
      case Nil
      with n show ?thesis unfolding t by (simp add: members_text_def skip_ws_def json_ws_def)
    next
      case (Cons y ys)
      obtain k v where y: "y = (k, v)" by (cases y)
      have "\<exists>q'. members_text p = CHR 0x22 # q'" using Cons y
        by (cases ys) (auto simp: members_text_Cons json_quote_def quote_char_def)
      then have "take 1 (skip_ws (members_text p @ CHR ''}'' # r)) \<noteq> ''}''" by (auto simp: skip_ws_sep)
      moreover have "pmembers m [] (members_text p @ CHR ''}'' # r) = Some (p, r)"
        using pmembers_stringify [of p m "[]" r] Cons ok n by auto
      ultimately show ?thesis unfolding t using n(1) by (simp add: ws)
    qed
  qed
next
  case (JBool b)
  show ?case unfolding reads_def
  proof (intro allI impI)
    fix n r assume "2 * length (stringify (JBool b)) \<le> n"
    then obtain m where "n = Suc m" by (cases n) (auto split: if_splits)
    then show "pval n (stringify (JBool b) @ r) = Some (JBool b, r)"
      by (cases b) (simp_all add: skip_ws_def json_ws_def plit_def starts_with_def is_digit_def)
  qed
next
  case JNull
  show ?case unfolding reads_def
  proof (intro allI impI)
    fix n r assume "2 * length (stringify JNull) \<le> n"
    then obtain m where "n = Suc m" by (cases n) auto
    then show "pval n (stringify JNull @ r) = Some (JNull, r)"
      by (simp add: skip_ws_def json_ws_def plit_def starts_with_def is_digit_def)
  qed
qed simp

section \<open>The round trip\<close>

lemma parse_stringify:
  assumes "json_ok v"
  shows "json_parse (stringify v) = Inr v"
proof -
  have "pval (2 * length (stringify v) + 2) (stringify v @ []) = Some (v, [])"
    by (rule readsD) (use json_ok_reads [OF assms] in \<open>auto simp: follows_simps\<close>)
  then show ?thesis by (simp add: json_parse_def skip_ws_def)
qed

end
