(* ===== verification/Hb_Validator.thy ===== *)
theory Hb_Validator
  imports Hb_Sync Hb_Wal Json_Props Dev_Props Dev_Sst
begin

text \<open>
  A replica: \<open>hb/src/validate.js\<close> reads the bundles of a process back (\<open>Hb_Sync\<close>), keeps each message under
  its slot of the log, applies them one after the other to a database of its own without committing, commits the batch
  and ships the changes. The database, the messages and the slots live in one store, \<open>kv_io\<close> of \<open>va_kv\<close>.
\<close>

section \<open>Unpacking a bundle\<close>

definition wmsg_key :: "jv \<Rightarrow> string" where
  "wmsg_key slot = ''__wmsg__/'' @ to_str slot"

fun put_items :: "jv list \<Rightarrow> io \<Rightarrow> io \<times> js_error option" where
  "put_items [] st = (st, None)"
| "put_items (v # vs) st =
     (case jprop v ''slot'' of
        Inl e \<Rightarrow> (st, Some e)
      | Inr sl \<Rightarrow> put_items vs (st(skey (wmsg_key sl) \<mapsto> v)))"

text \<open>\<open>for (const v of JSON.parse(m.body.data))\<close>\<close>

definition bundle_of :: "jv \<Rightarrow> jv list res" where
  "bundle_of m =
     rbind (jprop m ''body'') (\<lambda>b. rbind (jprop b ''data'') (\<lambda>d.
       if truthy d then rbind (json_parse (to_str d)) as_list else Inr []))"

definition val_onslot :: slot_fn where
  "val_onslot m st = (case bundle_of m of Inl e \<Rightarrow> (st, Some e) | Inr vs \<Rightarrow> put_items vs st)"

section \<open>The database of the replica\<close>

type_synonym writer = "jv \<Rightarrow> wkv \<Rightarrow> wkv"

definition val_opts :: opts where
  "val_opts = \<lparr>o_branch = JStr ''main'', o_ignore_version = JUndef, o_no_commit = JBool True, o_id = JUndef\<rparr>"

text \<open>\<open>db.write\<close> behind the queue of \<open>Core\<close>: an error is an answer the replica does not look at.\<close>

definition bundled :: "ext \<Rightarrow> nat \<Rightarrow> writer" where
  "bundled X n msg w = fst (run_method (write_route X n) val_opts msg w)"

text \<open>\<open>Core.init\<close>: the bundled version unless the database names one, which is fetched.\<close>

definition core_db :: "ext \<Rightarrow> nat \<Rightarrow> (jv \<Rightarrow> writer option) \<Rightarrow> jv \<Rightarrow> writer option" where
  "core_db X n fetch version = (if truthy version then fetch version else Some (bundled X n))"

record val =
  va_slot :: int
  va_wslot :: int
  va_cslot :: int
  va_ch :: int
  va_cols :: "(string \<times> jv) list"
  va_kv :: wkv
  va_db :: "writer option"

definition num_or :: "jv \<Rightarrow> int \<Rightarrow> int" where
  "num_or v d = (case v of JNum n \<Rightarrow> n | _ \<Rightarrow> d)"

text \<open>The constructor and \<open>init\<close>.\<close>

definition val_init :: "(jv \<Rightarrow> writer option) \<Rightarrow> io \<Rightarrow> val" where
  "val_init load st =
     \<lparr>va_slot = sy_slot (sync_init st), va_wslot = num_or (sget st ''__wslot__'') (-1), va_cslot = num_or (sget st ''__cslot__'') (-1),
      va_ch = num_or (sget st ''__ch__'') (-1), va_cols = own_props (sget st ''__zkp__/cols''), va_kv = kv_new st,
      va_db = (if 0 \<le> num_or (sget st ''__wslot__'') (-1) then load (jget (sget st ''_config/info'') ''version'') else None)\<rparr>"

definition val_get :: "node list \<Rightarrow> int \<Rightarrow> val \<Rightarrow> val" where
  "val_get nds limit v =
     (let s = sync_get nds val_onslot limit \<lparr>sy_slot = va_slot v, sy_io = kv_io (va_kv v)\<rparr>
      in v\<lparr>va_slot := sy_slot s, va_kv := (va_kv v)\<lparr>kv_io := sy_io s\<rparr>\<rparr>)"

section \<open>Applying the messages\<close>

definition next_msg :: "val \<Rightarrow> jv" where
  "next_msg v = sget (kv_io (va_kv v)) (wmsg_key (JNum (va_wslot v + 1)))"

definition first_version :: "jv \<Rightarrow> jv res" where
  "first_version msg =
     rbind (jprop msg ''headers'') (\<lambda>h. rbind (jprop h ''query'') (\<lambda>q. rbind (json_parse (to_str q)) (\<lambda>j.
       rbind (as_list j) (\<lambda>xs. jprop (jidx xs 1) ''version''))))"

definition val_begin :: "(jv \<Rightarrow> writer option) \<Rightarrow> val \<Rightarrow> val res" where
  "val_begin load v =
     (if va_wslot v + 1 = 0 \<and> truthy (next_msg v) then rbind (first_version (next_msg v)) (\<lambda>ver. Inr (v\<lparr>va_db := load ver\<rparr>))
      else Inr v)"

definition put_io :: "string \<Rightarrow> jv \<Rightarrow> val \<Rightarrow> val" where
  "put_io k x v = v\<lparr>va_kv := (va_kv v)\<lparr>kv_io := (kv_io (va_kv v))(skey k \<mapsto> x)\<rparr>\<rparr>"

text \<open>One message: \<open>write\<close>, then the slot, which is stored at once.\<close>

definition val_step :: "writer \<Rightarrow> val \<Rightarrow> jv \<Rightarrow> val" where
  "val_step f v msg = put_io ''__wslot__'' (JNum (va_wslot v + 1)) (v\<lparr>va_kv := f msg (va_kv v), va_wslot := va_wslot v + 1\<rparr>)"

text \<open>The loop, with at most \<open>k\<close> messages; how many it has applied.\<close>

fun val_apply :: "nat \<Rightarrow> val \<Rightarrow> val \<times> nat" where
  "val_apply 0 v = (v, 0)"
| "val_apply (Suc k) v =
     (if \<not> truthy (next_msg v) then (v, 0)
      else (case va_db v of
              None \<Rightarrow> (v, 0)
            | Some f \<Rightarrow> (let (v', i) = val_apply k (val_step f v (next_msg v)) in (v', Suc i))))"

section \<open>Committing a batch\<close>

text \<open>The package \<open>arjson\<close>: the deltas and the table of a new document, and those of an update of a table.\<close>

record arj =
  aj_new :: "jv \<Rightarrow> jv \<times> jv"
  aj_update :: "jv \<Rightarrow> jv \<Rightarrow> jv \<times> jv"

definition note_change :: "arj \<Rightarrow> io \<times> (string \<times> jv) list \<Rightarrow> string \<times> jv \<Rightarrow> io \<times> (string \<times> jv) list" where
  "note_change A s kv =
     (case s of (st, changes) \<Rightarrow> case kv of (k, x) \<Rightarrow>
        let cache = sget st (''__deltas__/'' @ k);
            (deltas, table) = (if truthy cache then aj_update A cache x else aj_new A x)
        in if truthy deltas \<and> js_lt (JNum 0) (jget deltas ''length'') then
             (st(skey (''__deltas__/'' @ k) \<mapsto> table), oput k (JObj [(''to'', x), (''deltas'', deltas)]) changes)
           else (st, changes))"

text \<open>The callback of \<open>getKV\<close>. (The keys it means to strip from a directory record it strips from the replica object, which has
  none.)\<close>

definition on_commit :: "arj \<Rightarrow> int \<Rightarrow> jv list \<Rightarrow> io \<Rightarrow> io \<times> int" where
  "on_commit A ch data st =
     (let (st1, changes) = foldl (\<lambda>s d. foldl (note_change A) s (own_props (jget d ''cl''))) (st, []) data
      in (st1(skey ''__ch__'' \<mapsto> JNum (ch + 1), skey (''__changes__/'' @ int_to_string (ch + 1)) \<mapsto> JObj changes), ch + 1))"

definition val_flush :: "arj \<Rightarrow> val \<Rightarrow> val" where
  "val_flush A v =
     (let (w1, i, cl) = kv_commit (JObj [(''delta'', JBool True), (''slot'', JNum (va_wslot v))]) JUndef JUndef (va_kv v);
          w2 = kv_flush w1;
          (st, ch) = on_commit A (va_ch v) (fr_data (last (kv_log w2))) (kv_io w2)
      in v\<lparr>va_kv := kv_flush (w2\<lparr>kv_io := st\<rparr>), va_ch := ch\<rparr>)"

text \<open>\<open>write\<close> calls itself as long as it fills a batch; \<open>g\<close> bounds the rounds.\<close>

fun val_write :: "arj \<Rightarrow> (jv \<Rightarrow> writer option) \<Rightarrow> nat \<Rightarrow> nat \<Rightarrow> val \<Rightarrow> val option" where
  "val_write A load maxm 0 v = None"
| "val_write A load maxm (Suc g) v =
     (case val_begin load v of
        Inl e \<Rightarrow> Some v
      | Inr v1 \<Rightarrow>
          (let (v2, i) = val_apply maxm v1
           in if i = 0 then Some v2
              else if maxm \<le> i then val_write A load maxm g (val_flush A v2)
              else Some (val_flush A v2)))"

section \<open>Shipping the changes\<close>

text \<open>\<open>sortBy(prop("key"))\<close> over the changes of a batch.\<close>

fun insert_entry :: "string \<times> jv \<Rightarrow> (string \<times> jv) list \<Rightarrow> (string \<times> jv) list" where
  "insert_entry x [] = [x]"
| "insert_entry x (y # ys) = (if js_lt (JStr (fst x)) (JStr (fst y)) then x # y # ys else y # insert_entry x ys)"

definition entries :: "jv \<Rightarrow> (string \<times> jv) list" where
  "entries changes = foldl (\<lambda>xs x. insert_entry x xs) [] (own_props changes)"

text \<open>The header of the bundle: each key with the number of its deltas.\<close>

definition bundle_header :: "(string \<times> jv) list \<Rightarrow> jv" where
  "bundle_header es = JArr (map (\<lambda>(k, c). JArr [JStr k, jget (jget c ''deltas'') ''length'']) es)"

text \<open>\<open>calcZKHash\<close>: the calls of the tree package it makes, in order, the collections it notes and the store.
  (\<open>io.put("__zkp__", "cols", cols)\<close> stores the text \<open>cols\<close>.)\<close>

datatype zk_call = ZkAdd jv | ZkDelete jv string | ZkInsert jv string jv

definition calc_zk :: "(string \<times> jv) list \<times> io \<times> zk_call list \<Rightarrow> string \<times> jv \<Rightarrow> (string \<times> jv) list \<times> io \<times> zk_call list" where
  "calc_zk s kc =
     (case s of (cols, st, zs) \<Rightarrow> case kc of (k, c) \<Rightarrow> case key_parts k of (dir, doc) \<Rightarrow>
        let data = jget c ''to'';
            (cols1, st1, zs1) =
              (if dir = ''_'' \<and> is_nil (opt_jv (map_of cols doc)) \<and> \<not> is_nil (jget data ''index'') then
                 (oput doc (jget data ''index'') cols, st(skey ''__zkp__'' \<mapsto> JStr ''cols''), zs @ [ZkAdd (jget data ''index'')])
               else (cols, st, zs));
            col = opt_jv (map_of cols1 dir)
        in (cols1, st1, zs1 @ [if is_nil data then ZkDelete col doc else ZkInsert col doc data]))"

text \<open>The loop of \<open>commit\<close>. An answer \<open>Some b\<close>: the bundle was accepted and \<open>b\<close> is \<open>{ zkhash, buf }\<close>; \<open>None\<close>: all attempts failed and
  the process exits. The result lists what was shipped.\<close>

fun val_ship :: "jv option list \<Rightarrow> val \<Rightarrow> val \<times> (string \<times> jv) list list" where
  "val_ship [] v = (v, [])"
| "val_ship (r # rs) v =
     (let changes = sget (kv_io (va_kv v)) (''__changes__/'' @ int_to_string (va_cslot v + 1)) in
      if \<not> truthy changes then (v, [])
      else
        (let (cols, st, zs) = foldl calc_zk (va_cols v, kv_io (va_kv v), []) (entries changes);
             v1 = v\<lparr>va_cols := cols, va_kv := (va_kv v)\<lparr>kv_io := st\<rparr>\<rparr>
         in case r of
              None \<Rightarrow> (v1, [])
            | Some b \<Rightarrow>
                (let v2 = put_io ''__cslot__'' (JNum (va_cslot v + 1)) ((put_io ''__bundle__'' b v1)\<lparr>va_cslot := va_cslot v + 1\<rparr>);
                     (v3, sent) = val_ship rs v2
                 in (v3, entries changes # sent))))"

section \<open>Unpacking leaves the log of messages alone\<close>

lemma wmsg_key_inj: "wmsg_key (JNum i) = wmsg_key (JNum j) \<longleftrightarrow> i = j"
  by (simp add: wmsg_key_def)

lemma wmsg_key_neq [simp]: "wmsg_key v \<noteq> ''__slot__''" "wmsg_key v \<noteq> ''__wslot__''" "wmsg_key v \<noteq> msg_key u" "msg_key u \<noteq> wmsg_key v"
  "''__wslot__'' \<noteq> wmsg_key v"
  by (simp_all add: wmsg_key_def msg_key_def)

lemma put_items_other: "put_items vs st = (st', err) \<Longrightarrow> (\<And>v. k \<noteq> skey (wmsg_key v)) \<Longrightarrow> st' k = st k"
  by (induction vs arbitrary: st) (auto split: sum.splits)

lemma val_onslot_log: "val_onslot m st = (st', err) \<Longrightarrow> log_key k \<Longrightarrow> st' k = st k"
  by (auto simp: val_onslot_def log_key_def split: sum.splits intro!: put_items_other)

text \<open>A log of items: \<open>ref j\<close> is the one of slot \<open>j\<close>, if there is one.\<close>

definition item_ok :: "(int \<Rightarrow> jv option) \<Rightarrow> jv \<Rightarrow> bool" where
  "item_ok ref v \<longleftrightarrow> (\<exists>j. jprop v ''slot'' = Inr (JNum j) \<and> ref j = Some v)"

definition kept :: "jv \<Rightarrow> io \<Rightarrow> bool" where
  "kept v st \<longleftrightarrow> (\<forall>j. jprop v ''slot'' = Inr (JNum j) \<longrightarrow> st (skey (wmsg_key (JNum j))) = Some v)"

definition carries_items :: "(int \<Rightarrow> jv option) \<Rightarrow> jv \<Rightarrow> bool" where
  "carries_items ref m \<longleftrightarrow> (\<exists>vs. bundle_of m = Inr vs \<and> (\<forall>v \<in> set vs. item_ok ref v))"

definition all_kept :: "jv \<Rightarrow> io \<Rightarrow> bool" where
  "all_kept m st \<longleftrightarrow> (\<forall>vs. bundle_of m = Inr vs \<longrightarrow> (\<forall>v \<in> set vs. kept v st))"

definition only_items :: "(int \<Rightarrow> jv option) \<Rightarrow> io \<Rightarrow> bool" where
  "only_items ref st \<longleftrightarrow> (\<forall>j x. st (skey (wmsg_key (JNum j))) = Some x \<longrightarrow> ref j = Some x)"

lemma put_items_ok:
  assumes "\<forall>v \<in> set vs. item_ok ref v" "put_items vs st = (st', err)"
  shows "(\<forall>v \<in> set vs. kept v st') \<and> (\<forall>v. item_ok ref v \<longrightarrow> kept v st \<longrightarrow> kept v st') \<and> (only_items ref st \<longrightarrow> only_items ref st')"
  using assms
proof (induction vs arbitrary: st)
  case (Cons v vs)
  then obtain j where j: "jprop v ''slot'' = Inr (JNum j)" "ref j = Some v" by (auto simp: item_ok_def)
  define st1 where "st1 = st(skey (wmsg_key (JNum j)) \<mapsto> v)"
  have IH: "(\<forall>v \<in> set vs. kept v st') \<and> (\<forall>v. item_ok ref v \<longrightarrow> kept v st1 \<longrightarrow> kept v st') \<and> (only_items ref st1 \<longrightarrow> only_items ref st')"
  proof (rule Cons.IH)
    show "\<forall>v \<in> set vs. item_ok ref v" using Cons.prems(1) by simp
    show "put_items vs st1 = (st', err)" using Cons.prems(2) j(1) by (simp add: st1_def)
  qed
  have "kept v st1" using j by (simp add: kept_def st1_def)
  moreover have "kept u st1" if "item_ok ref u" "kept u st" for u
    using that j by (auto simp: kept_def st1_def item_ok_def wmsg_key_inj)
  moreover have "only_items ref st1" if "only_items ref st"
    using that j by (auto simp: only_items_def st1_def wmsg_key_inj)
  ultimately show ?case using IH Cons.prems(1) by auto
qed simp

lemma kept_log: "log_key k \<Longrightarrow> kept v (st(k \<mapsto> x)) = kept v st"
proof -
  assume "log_key k"
  then have "skey (wmsg_key (JNum j)) \<noteq> k" for j by (auto simp: log_key_def)
  then show ?thesis by (simp add: kept_def)
qed

lemma val_onslot_ok:
  assumes "carries_items ref m" "val_onslot m st = (st', err)"
  obtains vs where "bundle_of m = Inr vs" "\<forall>v \<in> set vs. item_ok ref v" "put_items vs st = (st', err)"
  using assms by (auto simp: carries_items_def val_onslot_def)

interpretation val_sync: slot_handler val_onslot all_kept "carries_items ref" "only_items ref" for ref
proof unfold_locales
  fix m m' st st' err k x
  show "val_onslot m st = (st', err) \<Longrightarrow> log_key k \<Longrightarrow> st' k = st k" by (rule val_onslot_log)
  show "all_kept m st'" if m: "carries_items ref m" "val_onslot m st = (st', err)"
  proof (rule val_onslot_ok [OF m])
    fix vs assume "bundle_of m = Inr vs" "\<forall>v \<in> set vs. item_ok ref v" "put_items vs st = (st', err)"
    with put_items_ok [of vs ref st st' err] show ?thesis by (simp add: all_kept_def)
  qed
  show "all_kept m st'" if m: "carries_items ref m" "carries_items ref m'" "val_onslot m' st = (st', err)" and k: "all_kept m st"
  proof (rule val_onslot_ok [OF m(2,3)])
    fix vs assume "bundle_of m' = Inr vs" "\<forall>v \<in> set vs. item_ok ref v" "put_items vs st = (st', err)"
    then have "\<forall>v. item_ok ref v \<longrightarrow> kept v st \<longrightarrow> kept v st'" using put_items_ok [of vs ref st st' err] by blast
    with k m(1) show ?thesis by (force simp: all_kept_def carries_items_def)
  qed
  show "all_kept m (st(k \<mapsto> x))" if "log_key k" "all_kept m st" using that by (simp add: all_kept_def kept_log)
  show "only_items ref st'" if m: "carries_items ref m" "val_onslot m st = (st', err)" and o: "only_items ref st"
  proof (rule val_onslot_ok [OF m])
    fix vs assume "\<forall>v \<in> set vs. item_ok ref v" "put_items vs st = (st', err)"
    with put_items_ok [of vs ref st st' err] o show ?thesis by blast
  qed
  show "only_items ref (st(k \<mapsto> x))" if "log_key k" "only_items ref st"
  proof -
    have "skey (wmsg_key (JNum j)) \<noteq> k" for j using that(1) by (auto simp: log_key_def)
    with that(2) show ?thesis by (simp add: only_items_def)
  qed
  show "only_items ref Map.empty" by (simp add: only_items_def)
qed

section \<open>The loop\<close>

text \<open>What the loop asks of a database: it writes to its transaction and not to the store.\<close>

locale replica_writer =
  fixes f :: writer
  assumes keeps_base: "kv_reset (f msg w) = kv_reset w"
begin

lemma keeps_io: "kv_io (f msg w) = kv_io w" "kv_s (f msg w) = kv_s w" "kv_c (f msg w) = kv_c w"
  using keeps_base [of msg w] by (auto simp: reset_same_iff)

lemma step_io: "kv_io (va_kv (val_step f v msg)) = (kv_io (va_kv v))(skey ''__wslot__'' \<mapsto> JNum (va_wslot v + 1))"
  by (simp add: val_step_def put_io_def keeps_io)

lemma step_fields: "va_wslot (val_step f v msg) = va_wslot v + 1" "va_db (val_step f v msg) = va_db v"
  "kv_s (va_kv (val_step f v msg)) = kv_s (va_kv v)"
  by (simp_all add: val_step_def put_io_def keeps_io)

lemma steps_fields: "va_wslot (foldl (val_step f) v ms) = va_wslot v + int (length ms)" "va_db (foldl (val_step f) v ms) = va_db v"
  "kv_s (va_kv (foldl (val_step f) v ms)) = kv_s (va_kv v)"
  by (induction ms arbitrary: v) (simp_all add: step_fields)

lemma steps_io: "k \<noteq> skey ''__wslot__'' \<Longrightarrow> kv_io (va_kv (foldl (val_step f) v ms)) k = kv_io (va_kv v) k"
  by (induction ms arbitrary: v) (simp_all add: step_io)

lemma steps_wslot: "kv_io (va_kv (foldl (val_step f) v ms)) (skey ''__wslot__'') =
   (if ms = [] then kv_io (va_kv v) (skey ''__wslot__'') else Some (JNum (va_wslot v + int (length ms))))"
  by (induction ms arbitrary: v) (auto simp: step_io step_fields)

lemma steps_next: "next_msg (foldl (val_step f) v ms) = sget (kv_io (va_kv v)) (wmsg_key (JNum (va_wslot v + int (length ms) + 1)))"
  using steps_io [of "skey (wmsg_key (JNum (va_wslot v + int (length ms) + 1)))" v ms]
  by (simp add: next_msg_def steps_fields sget_def)

lemma val_apply_steps:
  assumes "va_db v = Some f" "val_apply k v = (v', i)"
  shows "i \<le> k \<and>
    v' = foldl (val_step f) v (map (\<lambda>j. sget (kv_io (va_kv v)) (wmsg_key (JNum (va_wslot v + 1 + int j)))) [0..<i]) \<and>
    (\<forall>j < i. truthy (sget (kv_io (va_kv v)) (wmsg_key (JNum (va_wslot v + 1 + int j))))) \<and>
    (i < k \<longrightarrow> \<not> truthy (sget (kv_io (va_kv v)) (wmsg_key (JNum (va_wslot v + 1 + int i)))))"
  using assms
proof (induction k arbitrary: v i)
  case (Suc k)
  let ?g = "\<lambda>v j. sget (kv_io (va_kv v)) (wmsg_key (JNum (va_wslot v + 1 + int j)))"
  have g0: "?g v 0 = next_msg v" by (simp add: next_msg_def)
  show ?case
  proof (cases "truthy (next_msg v)")
    case False
    then show ?thesis using Suc.prems by (auto simp: next_msg_def)
  next
    case True
    let ?v = "val_step f v (next_msg v)"
    obtain i' where i': "val_apply k ?v = (v', i')" "i = Suc i'" using Suc.prems True by (auto split: prod.splits)
    have db: "va_db ?v = Some f" using Suc.prems(1) by (simp add: step_fields)
    have gs: "?g ?v j = ?g v (Suc j)" for j by (simp add: step_io step_fields sget_def add.commute add.left_commute)
    have IH: "i' \<le> k \<and> v' = foldl (val_step f) ?v (map (?g ?v) [0..<i']) \<and> (\<forall>j < i'. truthy (?g ?v j)) \<and> (i' < k \<longrightarrow> \<not> truthy (?g ?v i'))"
      by (rule Suc.IH [OF db i'(1)])
    have m: "map (?g v) [0..<Suc i'] = next_msg v # map (?g ?v) [0..<i']"
      unfolding gs by (simp add: upt_conv_Cons map_Suc_upt [symmetric] g0 [symmetric] del: upt_Suc)
    have "\<forall>j < Suc i'. truthy (?g v j)" using IH True g0 gs by (auto simp: less_Suc_eq_0_disj)
    then show ?thesis unfolding i'(2) m using IH gs by simp
  qed
qed simp

end

lemma bundled_keeps: "kv_reset (bundled X n msg w) = kv_reset w"
proof -
  have "all_or_nothing val_opts w (run_method (write_route X n) val_opts msg w)"
    by (intro result_all_or_nothing [OF _ routes_split(1)] dev_intros)
  then show ?thesis
    by (auto simp: all_or_nothing_def bundled_def val_opts_def kv_reset_def split: prod.splits sum.splits)
qed

interpretation bundled: replica_writer "bundled X n" for X n
  by unfold_locales (rule bundled_keeps)

section \<open>From the log of the database to the replica\<close>

text \<open>The messages of the process after the bundles \<open>bs\<close>: the one that made it, without data, and one for each bundle.
  \<open>wal_message\<close> is a message as the node hands it out again, with its slot and the text \<open>wal.js\<close> has sent as its data.\<close>

definition wal_message :: "nat \<Rightarrow> jv list \<Rightarrow> jv" where
  "wal_message slot b = JObj [(''slot'', JNum (int slot)), (''body'', JObj [(''data'', JStr (stringify (JArr b)))])]"

definition posted :: "jv list list \<Rightarrow> jv list" where
  "posted bs = JObj [(''slot'', JNum 0), (''body'', JObj [])] # map (\<lambda>i. wal_message (Suc i) (bs ! i)) [0..<length bs]"

lemma bundle_of_message: "\<forall>x \<in> set b. json_ok x \<Longrightarrow> bundle_of (wal_message i b) = Inr b"
proof -
  assume "\<forall>x \<in> set b. json_ok x"
  then have "json_parse (stringify (JArr b)) = Inr (JArr b)" by (intro parse_stringify) (simp add: list_all_iff)
  then show ?thesis by (simp add: bundle_of_def wal_message_def jprop_def as_list_def)
qed

lemma numbered_posted: "numbered_log (posted bs)"
  by (auto simp: numbered_log_def posted_def wal_message_def jprop_def nth_Cons split: nat.splits)

definition log_item :: "io \<Rightarrow> int \<Rightarrow> int \<Rightarrow> jv option" where
  "log_item st n j = (if 0 \<le> j \<and> j < n then Some (wal_item j (wal_at st j)) else None)"

lemma wal_item_slot: "jprop (wal_item j d) ''slot'' = Inr (JNum j)"
  by (simp add: wal_item_def jprop_def)

lemma posted_carries:
  assumes "\<forall>b \<in> set bs. \<forall>x \<in> set b. json_ok x \<and> is_item st n x"
  shows "\<forall>m \<in> set (posted bs). carries_items (log_item st n) m"
proof -
  have it: "item_ok (log_item st n) x" if "is_item st n x" for x
  proof -
    obtain j where "0 \<le> j" "j < n" "x = wal_item j (wal_at st j)" using \<open>is_item st n x\<close> by (auto simp: is_item_def)
    then show ?thesis unfolding item_ok_def by (intro exI [of _ j]) (simp add: log_item_def wal_item_slot)
  qed
  have "carries_items (log_item st n) (wal_message (Suc i) (bs ! i))" if "i < length bs" for i
  proof -
    have "bs ! i \<in> set bs" using that by simp
    then have "bundle_of (wal_message (Suc i) (bs ! i)) = Inr (bs ! i)" "\<forall>x \<in> set (bs ! i). item_ok (log_item st n) x"
      using assms bundle_of_message it by blast+
    then show ?thesis by (simp add: carries_items_def)
  qed
  moreover have "carries_items (log_item st n) (JObj [(''slot'', JNum 0), (''body'', JObj [])])"
    by (simp add: carries_items_def bundle_of_def jprop_def)
  ultimately show ?thesis by (auto simp: posted_def)
qed

text \<open>\<open>get\<close> of the replica is \<open>get\<close> of \<open>Sync\<close> on its store.\<close>

lemma val_gets:
  "foldl (\<lambda>v nds. val_get nds limit v) v calls =
     (let s = foldl (\<lambda>s nds. sync_get nds val_onslot limit s) \<lparr>sy_slot = va_slot v, sy_io = kv_io (va_kv v)\<rparr> calls
      in v\<lparr>va_slot := sy_slot s, va_kv := (va_kv v)\<lparr>kv_io := sy_io s\<rparr>\<rparr>)"
proof (induction calls arbitrary: v)
  case Nil
  then show ?case by simp
next
  case (Cons nds calls)
  have "\<lparr>sy_slot = va_slot (val_get nds limit v), sy_io = kv_io (va_kv (val_get nds limit v))\<rparr> =
      sync_get nds val_onslot limit \<lparr>sy_slot = va_slot v, sy_io = kv_io (va_kv v)\<rparr>"
    by (simp add: val_get_def Let_def)
  then show ?case using Cons.IH [of "val_get nds limit v"] by (simp add: Let_def) (simp add: val_get_def Let_def)
qed

text \<open>After enough calls every shipped record is under its slot, and nothing else is.\<close>

lemma replica_mirrors:
  assumes "wal_reach calm s" "log_len (ws_io s) n" "concat bs = ws_sent s" "\<forall>x \<in> set (ws_sent s). json_ok x"
    and "length (posted bs) \<le> length calls" "\<forall>nds \<in> set calls. nds \<noteq> [] \<and> (\<forall>nd \<in> set nds. serves (posted bs) nd)"
    and "v1 = foldl (\<lambda>v nds. val_get nds limit v) (val_init load Map.empty) calls"
  shows "va_wslot v1 = -1 \<and> only_items (log_item (ws_io s) n) (kv_io (va_kv v1)) \<and>
    (\<forall>j. 0 \<le> j \<and> j < stored_height (ws_io s) \<longrightarrow> kv_io (va_kv v1) (skey (wmsg_key (JNum j))) = Some (wal_item j (wal_at (ws_io s) j)))"
proof -
  let ?L = "posted bs" and ?ref = "log_item (ws_io s) n"
  define sy where "sy = foldl (\<lambda>s nds. sync_get nds val_onslot limit s) (sync_init Map.empty) calls"
  have v1: "va_wslot v1 = -1" "kv_io (va_kv v1) = sy_io sy"
    unfolding assms(7) val_gets by (simp_all add: Let_def val_init_def kv_new_def sget_def num_or_def sync_init_def sy_def)
  have w: "wal_inv calm n s" by (rule wal_shipped [OF assms(1,2)])
  then have "\<forall>b \<in> set bs. \<forall>x \<in> set b. json_ok x \<and> is_item (ws_io s) n x"
    using assms(4) unfolding assms(3) [symmetric] by (simp add: wal_inv_def assms(3) [symmetric])
  then have fit: "\<forall>m \<in> set ?L. carries_items ?ref m" by (rule posted_carries)
  have ne: "?L \<noteq> []" by (simp add: posted_def)
  have c: "val_sync.synced ?ref ?L sy \<and> min (sy_slot (sync_init Map.empty) + int (length calls)) (int (length ?L) - 1) \<le> sy_slot sy"
    unfolding sy_def by (rule val_sync.synced_calls [OF val_sync.synced_new [OF ne] numbered_posted assms(6)])
  then have m: "mirrored ?L sy" "only_items ?ref (sy_io sy)" "\<forall>i. 0 \<le> i \<and> i \<le> sy_slot sy \<longrightarrow> all_kept (?L ! nat i) (sy_io sy)"
    using fit by (auto simp: val_sync.synced_def)
  have "sy_slot (sync_init Map.empty) = -1" by (simp add: sync_init_def sget_def)
  then have slot: "sy_slot sy = int (length ?L) - 1" using c m(1) assms(5) by (auto simp: mirrored_def)
  have "sy_io sy (skey (wmsg_key (JNum j))) = Some (wal_item j (wal_at (ws_io s) j))" if j: "0 \<le> j" "j < stored_height (ws_io s)" for j
  proof -
    let ?x = "wal_item j (wal_at (ws_io s) j)"
    have "?x \<in> set (items (ws_io s) 0 (stored_height (ws_io s)))" using j by (auto simp: items_def)
    then have "?x \<in> set (concat bs)" using w assms(3) by (auto simp: wal_inv_def)
    then obtain i where i: "i < length bs" "?x \<in> set (bs ! i)" by (auto simp: in_set_conv_nth) (metis nth_mem)
    have "?L ! Suc i = wal_message (Suc i) (bs ! i)" using i(1) by (simp add: posted_def)
    moreover have "int (Suc i) \<le> sy_slot sy" using slot i(1) by (simp add: posted_def)
    then have "all_kept (?L ! nat (int (Suc i))) (sy_io sy)" using m(3) of_nat_0_le_iff by blast
    then have "all_kept (?L ! Suc i) (sy_io sy)" by (simp only: nat_int)
    moreover have "bundle_of (wal_message (Suc i) (bs ! i)) = Inr (bs ! i)"
      by (rule bundle_of_message) (use assms(4) nth_mem [OF i(1)] in \<open>auto simp: assms(3) [symmetric]\<close>)
    ultimately have "kept ?x (sy_io sy)" using i(2) by (simp add: all_kept_def)
    then show ?thesis by (simp add: kept_def wal_item_slot)
  qed
  with v1 m(2) show ?thesis by simp
qed

text \<open>
  C2. The replica is a faithful copy, whatever has failed on the way. When bundles were sent twice, the pages of the
  process came in any size, and the log has moved on: a round of \<open>write\<close> of a replica that has read the process applies
  the signed records of the primary's log from the first one on, in order and once each, as many as it may take or as
  have been shipped.
\<close>

theorem replica_replays_log:
  assumes "wal_reach calm s" "log_len (ws_io s) n" "concat bs = ws_sent s" "\<forall>x \<in> set (ws_sent s). json_ok x"
    and "length (posted bs) \<le> length calls" "\<forall>nds \<in> set calls. nds \<noteq> [] \<and> (\<forall>nd \<in> set nds. serves (posted bs) nd)"
    and "v1 = (foldl (\<lambda>v nds. val_get nds limit v) (val_init load Map.empty) calls)\<lparr>va_db := Some (bundled X g)\<rparr>"
    and "val_apply maxm v1 = (v2, i)"
  shows "v2 = foldl (val_step (bundled X g)) v1 (items (ws_io s) 0 (int i)) \<and> int i \<le> n \<and> i \<le> maxm \<and>
    min (int maxm) (stored_height (ws_io s)) \<le> int i"
proof -
  define u where "u = foldl (\<lambda>v nds. val_get nds limit v) (val_init load Map.empty) calls"
  have v1: "v1 = u\<lparr>va_db := Some (bundled X g)\<rparr>" using assms(7) by (simp add: u_def)
  have m: "va_wslot u = -1" "only_items (log_item (ws_io s) n) (kv_io (va_kv u))"
    "\<And>j. 0 \<le> j \<Longrightarrow> j < stored_height (ws_io s) \<Longrightarrow> kv_io (va_kv u) (skey (wmsg_key (JNum j))) = Some (wal_item j (wal_at (ws_io s) j))"
    using replica_mirrors [OF assms(1-6), of u] by (auto simp: u_def)
  let ?g = "\<lambda>j. sget (kv_io (va_kv v1)) (wmsg_key (JNum (va_wslot v1 + 1 + int j)))"
  have g: "?g j = sget (kv_io (va_kv u)) (wmsg_key (JNum (int j)))" for j by (simp add: v1 m(1))
  have a: "i \<le> maxm \<and> v2 = foldl (val_step (bundled X g)) v1 (map ?g [0..<i]) \<and> (\<forall>j < i. truthy (?g j)) \<and> (i < maxm \<longrightarrow> \<not> truthy (?g i))"
    by (rule bundled.val_apply_steps [OF _ assms(8)]) (simp add: v1)
  have item: "?g j = wal_item (int j) (wal_at (ws_io s) (int j)) \<and> int j < n" if "truthy (?g j)" for j
  proof -
    have "kv_io (va_kv u) (skey (wmsg_key (JNum (int j)))) \<noteq> None" 
    proof
      assume "kv_io (va_kv u) (skey (wmsg_key (JNum (int j)))) = None"
      then have "?g j = JNull" unfolding g by (simp add: sget_def)
      with that show False by simp
    qed
    then obtain x where "kv_io (va_kv u) (skey (wmsg_key (JNum (int j)))) = Some x" by blast
    then have x: "kv_io (va_kv u) (skey (wmsg_key (JNum (int j)))) = Some x" "nullish x JNull = ?g j"
      unfolding g by (simp_all add: sget_def)
    then have "log_item (ws_io s) n (int j) = Some x" using m(2) by (simp add: only_items_def)
    with x show ?thesis by (auto simp: log_item_def wal_item_def split: if_splits)
  qed
  have "map ?g [0..<i] = items (ws_io s) 0 (int i)"
    using a item by (auto simp: items_def intro!: nth_equalityI)
  moreover have "int i \<le> n"
    using a item [of "i - 1"] assms(2) by (cases i) (auto simp: log_len_def)
  moreover have "min (int maxm) (stored_height (ws_io s)) \<le> int i"
  proof (rule ccontr)
    assume "\<not> ?thesis"
    then have lt: "i < maxm" "int i < stored_height (ws_io s)" by auto
    have "?g i = wal_item (int i) (wal_at (ws_io s) (int i))" using m(3) [of "int i"] lt(2)
      unfolding g by (simp add: sget_def wal_item_def)
    then show False using a lt(1) by (simp add: wal_item_def)
  qed
  ultimately show ?thesis using a by auto
qed

section \<open>What a batch can lose\<close>

text \<open>
  The runner gives the whole transaction up when a message fails, and a replica keeps a batch in one
  transaction: a message that fails undoes every message the batch has applied before it, while their slots
  stay noted as applied.
\<close>

theorem failed_message_drops_batch:
  assumes "run_method (write_route X g) val_opts msg (va_kv (foldl (val_step (bundled X g)) v ms)) = (w', Inl e)"
    and "k \<noteq> ''__wslot__''"
  shows "let v' = foldl (val_step (bundled X g)) v (ms @ [msg])
    in va_wslot v' = va_wslot v + int (length ms) + 1 \<and> kv_get (va_kv v') k = kv_get (kv_reset (va_kv v)) k"
proof -
  let ?v = "foldl (val_step (bundled X g)) v ms"
  have "bundled X g msg (va_kv ?v) = w'" using assms(1) by (simp add: bundled_def)
  moreover have "w' = kv_reset w'" using assms(1) by (auto simp: run_method_def kv_reset_def split: sum.splits)
  ultimately have "kv_l (bundled X g msg (va_kv ?v)) = []" by (metis kv_reset_def wkv.select_convs(1) wkv.surjective wkv.update_convs(1))
  then have "kv_l (va_kv (val_step (bundled X g) ?v msg)) = []" by (simp add: val_step_def put_io_def)
  moreover have "sget (kv_io (va_kv (val_step (bundled X g) ?v msg))) k = sget (kv_io (va_kv v)) k"
    using bundled.steps_io [where k = "skey k" and v = v and ms = "ms @ [msg]"] assms(2) by (simp add: sget_def)
  ultimately show ?thesis
    by (simp add: Let_def bundled.step_fields bundled.steps_fields kv_get_def kv_reset_def)
qed

lemma null_message_fails: "run_method (write_route X g) val_opts JNull w = (kv_reset w, Inl (TypeErr ''Cannot read properties''))"
  by (simp add: run_method_def flow_def write_route_def mon_map_def dev_normalize_def normalize_httpsig_def toLower_def
      pickInput_def setEnv_def setState_def setMeta_def init_ctx_def blank_def jprop_def lift_res_def at_store_def)

text \<open>
  C39. The slot is stored when a message is applied, its effects only when the batch is committed: after a crash in between
  the replica resumes behind messages whose effects it has lost.
\<close>

theorem crash_skips_batch:
  assumes "k \<noteq> ''__wslot__''" and "ms \<noteq> []"
  shows "let v' = foldl (val_step (bundled X g)) v ms; r = val_init load (kv_io (va_kv v'))
    in va_wslot r = va_wslot v + int (length ms) \<and> kv_get (va_kv r) k = sget (kv_io (va_kv v)) k"
proof -
  let ?v = "foldl (val_step (bundled X g)) v ms"
  have "sget (kv_io (va_kv ?v)) k = sget (kv_io (va_kv v)) k"
    using bundled.steps_io [where k = "skey k" and v = v and ms = ms] assms(1) by (simp add: sget_def)
  moreover have "sget (kv_io (va_kv ?v)) ''__wslot__'' = JNum (va_wslot v + int (length ms))"
    using bundled.steps_wslot [where v = v and ms = ms] assms(2) by (simp add: sget_def)
  moreover have "nullish (sget st k) JNull = sget st k" for st by (simp add: sget_def nullish_def)
  ultimately show ?thesis by (simp add: Let_def val_init_def kv_new_def kv_get_def num_or_def)
qed

section \<open>Witnesses\<close>

definition pending_val :: val where
  "pending_val = (val_init (\<lambda>_. None) Map.empty)\<lparr>va_kv := kv_put ''posts/a'' (JNum 5) (kv_new Map.empty)\<rparr>"

theorem failed_message_drops_batch_witness:
  "\<forall>X g. kv_get (va_kv pending_val) ''posts/a'' = JNum 5 \<and> kv_get (va_kv (val_step (bundled X g) pending_val JNull)) ''posts/a'' = JNull"
proof (intro allI conjI)
  fix X g
  show "kv_get (va_kv pending_val) ''posts/a'' = JNum 5" by (simp add: pending_val_def kv_get_put_same)
  have r: "run_method (write_route X g) val_opts JNull (va_kv (foldl (val_step (bundled X g)) pending_val [])) =
      (kv_reset (va_kv pending_val), Inl (TypeErr ''Cannot read properties''))"
    by (simp add: null_message_fails)
  have "kv_get (kv_reset (va_kv pending_val)) ''posts/a'' = JNull"
    by (simp add: pending_val_def kv_get_def kv_reset_def kv_put_def kv_new_def sget_def)
  with failed_message_drops_batch [OF r, of "''posts/a''"]
  show "kv_get (va_kv (val_step (bundled X g) pending_val JNull)) ''posts/a'' = JNull" by (simp add: Let_def)
qed

theorem crash_skips_batch_witness:
  "\<forall>X g msg. va_wslot (val_init (\<lambda>_. None) (kv_io (va_kv (val_step (bundled X g) (val_init (\<lambda>_. None) Map.empty) msg)))) = 0"
proof (intro allI)
  fix X g msg
  have "va_wslot (val_init (\<lambda>_. None) Map.empty) = -1" by (simp add: val_init_def num_or_def sget_def)
  then show "va_wslot (val_init (\<lambda>_. None) (kv_io (va_kv (val_step (bundled X g) (val_init (\<lambda>_. None) Map.empty) msg)))) = 0"
    using crash_skips_batch [of "''posts/a''" "[msg]" X g "val_init (\<lambda>_. None) Map.empty" "\<lambda>_. None"] by (simp add: Let_def)
qed

definition shipped :: wal_state where
  "shipped = \<lparr>ws_io = one_record(skey height_key \<mapsto> JNum 1), ws_start = 0, ws_height = 1, ws_sent = items one_record 0 1\<rparr>"

lemma shipped_reach: "wal_reach True shipped"
proof -
  let ?s = "wal_boot one_record []"
  have "stored_height one_record = 0" by (simp add: stored_height_def one_record_def sget_def)
  then have s: "?s = \<lparr>ws_io = one_record, ws_start = 0, ws_height = 0, ws_sent = []\<rparr>" by (simp add: wal_boot_def)
  have "wal_tick (Some True) ?s = Some shipped"
    using wal_commit_log [OF one_record_log, of 0 "Some True"] by (simp add: wal_tick_def s shipped_def)
  from wal_step [OF one_record_reach this] show ?thesis by simp
qed

lemma shipped_item: "ws_sent shipped = [wal_item 0 signed_record]" "json_ok (wal_item 0 signed_record)"
  by (simp_all add: shipped_def items_def wal_at_def one_record_def signed_record_def wal_item_def spread_def in_order_def obj_eval)

theorem replica_replays_log_witness:
  "\<forall>X g. \<exists>v. va_db v = Some (bundled X g) \<and> snd (val_apply 5 v) = 1"
proof (intro allI)
  fix X g
  define L where "L = posted [ws_sent shipped]"
  define calls where "calls = replicate 2 [\<lambda>f (t :: int option). (Inr (page L (first_slot f) 2) :: jv res)]"
  define v1 where "v1 = (foldl (\<lambda>v nds. val_get nds 20 v) (val_init (\<lambda>_. None) Map.empty) calls)\<lparr>va_db := Some (bundled X g)\<rparr>"
  obtain v2 i where a: "val_apply 5 v1 = (v2, i)" by force
  have len: "length L = 2" by (simp add: L_def posted_def)
  have log: "log_len (ws_io shipped) 1" using one_record_log by (simp add: shipped_def)
  have h: "stored_height (ws_io shipped) = 1" by (simp add: shipped_def)
  have sv: "\<forall>nds \<in> set calls. nds \<noteq> [] \<and> (\<forall>nd \<in> set nds. serves L nd)"
    using len by (auto simp: calls_def serves_def)
  have "v2 = foldl (val_step (bundled X g)) v1 (items (ws_io shipped) 0 (int i)) \<and> int i \<le> 1 \<and> i \<le> 5 \<and>
    min (int 5) (stored_height (ws_io shipped)) \<le> int i"
  proof (rule replica_replays_log [OF shipped_reach log])
    show "concat [ws_sent shipped] = ws_sent shipped" by simp
    show "\<forall>x \<in> set (ws_sent shipped). json_ok x" using shipped_item by simp
    show "length (posted [ws_sent shipped]) \<le> length calls" using len by (simp add: L_def calls_def)
    show "\<forall>nds \<in> set calls. nds \<noteq> [] \<and> (\<forall>nd \<in> set nds. serves (posted [ws_sent shipped]) nd)" using sv by (simp add: L_def)
    show "val_apply 5 v1 = (v2, i)" by (rule a)
  qed (rule v1_def)
  then have "i = 1" using h by simp
  with a v1_def show "\<exists>v. va_db v = Some (bundled X g) \<and> snd (val_apply 5 v) = 1"
    by (intro exI [of _ v1]) simp
qed

end
