(* ===== verification/Hb_Recover.thy ===== *)
theory Hb_Recover
  imports Hb_Validator
begin

text \<open>
  Bringing a database back from its process: \<open>hb/src/recover.js\<close> reads the bundles and writes the records the local
  store has not seen, which it tells by counting them. It works on the store of the database, in which the shipper of
  \<open>Hb_Wal\<close> keeps its height.
\<close>

section \<open>The records of a bundle\<close>

definition live_opts :: opts where
  "live_opts = val_opts\<lparr>o_no_commit := JUndef\<rparr>"

text \<open>\<open>db.write\<close> of a database that commits; the flush the commit schedules is taken at once.\<close>

definition live :: "ext \<Rightarrow> nat \<Rightarrow> writer" where
  "live X n msg w = kv_flush (fst (run_method (write_route X n) live_opts msg w))"

record rec_state =
  rc_i :: int
  rc_height :: int
  rc_db :: "writer option"
  rc_kv :: wkv

text \<open>\<open>new Core({ io, gateway }).init(opt)\<close>\<close>

definition open_core :: "(jv \<Rightarrow> writer option) \<Rightarrow> jv \<Rightarrow> rec_state \<Rightarrow> rec_state" where
  "open_core load version s = s\<lparr>rc_db := load version, rc_kv := kv_new (kv_io (rc_kv s))\<rparr>"

text \<open>The body of the \<open>try\<close>, in which an error leaves what was done before it, and the count behind it.\<close>

definition write_item :: "(jv \<Rightarrow> writer option) \<Rightarrow> jv \<Rightarrow> rec_state \<Rightarrow> rec_state" where
  "write_item load v s =
     (if rc_i s < rc_height s then s
      else
        (case jprop v ''slot'' of
           Inl e \<Rightarrow> s
         | Inr sl \<Rightarrow>
             (case (if sl = JNum 1 then rbind (first_version v) (\<lambda>ver. Inr (open_core load ver s)) else Inr s) of
                Inl e \<Rightarrow> s
              | Inr s1 \<Rightarrow>
                  (case rc_db s1 of
                     None \<Rightarrow> s1
                   | Some f \<Rightarrow> s1\<lparr>rc_kv := f v (rc_kv s1), rc_height := rc_i s1\<rparr>))))"

definition rec_item :: "(jv \<Rightarrow> writer option) \<Rightarrow> rec_state \<Rightarrow> jv \<Rightarrow> rec_state" where
  "rec_item load s v = (write_item load v s)\<lparr>rc_i := rc_i s + 1\<rparr>"

section \<open>Messages and pages\<close>

text \<open>The search for the committer of the first message, whose result is not used.\<close>

fun find_committer :: "jv list \<Rightarrow> unit res" where
  "find_committer [] = Inr ()"
| "find_committer (c # cs) = rbind (jprop c ''committer'') (\<lambda>a. if truthy a then Inr () else find_committer cs)"

definition check_first :: "jv \<Rightarrow> unit res" where
  "check_first m =
     rbind (jprop m ''slot'') (\<lambda>sl.
       if sl = JNum 0 then rbind (jprop m ''body'') (\<lambda>b. find_committer (assigned (jget b ''commitments''))) else Inr ())"

definition rec_msg :: "(jv \<Rightarrow> writer option) \<Rightarrow> jv \<Rightarrow> rec_state \<Rightarrow> rec_state \<times> js_error option" where
  "rec_msg load m s =
     (case rbind (check_first m) (\<lambda>u. bundle_of m) of
        Inl e \<Rightarrow> (s, Some e)
      | Inr vs \<Rightarrow> (foldl (rec_item load) s vs, None))"

fun rec_page :: "(jv \<Rightarrow> writer option) \<Rightarrow> jv list \<Rightarrow> rec_state \<Rightarrow> rec_state \<times> js_error option" where
  "rec_page load [] s = (s, None)"
| "rec_page load (m # ms) s =
     (case rec_msg load m s of (s', None) \<Rightarrow> rec_page load ms s' | (s', Some e) \<Rightarrow> (s', Some e))"

definition note_height :: "rec_state \<Rightarrow> rec_state" where
  "note_height s =
     (if rc_height s < rc_i s then s\<lparr>rc_kv := (rc_kv s)\<lparr>kv_io := (kv_io (rc_kv s))(skey height_key \<mapsto> JNum (rc_i s))\<rparr>\<rparr> else s)"

text \<open>The loop; a request the list of nodes does not answer fails, and \<open>recover\<close> with it.\<close>

fun rec_pages :: "(jv \<Rightarrow> writer option) \<Rightarrow> node list \<Rightarrow> int \<Rightarrow> int \<Rightarrow> jv \<Rightarrow> rec_state \<Rightarrow> rec_state \<times> js_error option" where
  "rec_pages load nds limit from res s =
     (case jprop res ''assignments'' of
        Inl e \<Rightarrow> (s, Some e)
      | Inr a \<Rightarrow>
          if js_empty a then (s, None)
          else (case rec_page load (assigned a) s of
                  (s', Some e) \<Rightarrow> (s', Some e)
                | (s', None) \<Rightarrow>
                    (case nds of
                       [] \<Rightarrow> (note_height s', Some Fuel)
                     | nd # nds' \<Rightarrow>
                         (case getMsgs nd (from + limit) (from + limit + (limit - 1)) of
                            Inl e \<Rightarrow> (note_height s', Some e)
                          | Inr res' \<Rightarrow> rec_pages load nds' limit (from + limit) res' (note_height s')))))"

declare rec_pages.simps [simp del]

definition rec_start :: "(jv \<Rightarrow> writer option) \<Rightarrow> io \<Rightarrow> rec_state" where
  "rec_start load st =
     (let h = stored_height st; s = \<lparr>rc_i = 0, rc_height = h, rc_db = None, rc_kv = kv_new st\<rparr>
      in if 0 < h then open_core load (jget (sget st ''_config/info'') ''version'') s else s)"

definition recover :: "(jv \<Rightarrow> writer option) \<Rightarrow> node list \<Rightarrow> int \<Rightarrow> io \<Rightarrow> rec_state \<times> js_error option" where
  "recover load nds limit st =
     (case nds of
        [] \<Rightarrow> (rec_start load st, Some Fuel)
      | nd # nds' \<Rightarrow>
          (case getMsgs nd 0 99 of
             Inl e \<Rightarrow> (rec_start load st, Some e)
           | Inr res \<Rightarrow> rec_pages load nds' limit 0 res (rec_start load st)))"

section \<open>The first record\<close>

text \<open>
  A database that is rebuilt from an empty store never gets the record that made it: the log counts from 0, and
  \<open>recover\<close> opens a database at the record with slot 1, so the record at slot 0 meets none and is counted only.
\<close>

theorem recover_skips_init:
  assumes "stored_height st = 0" and "jprop v ''slot'' = Inr (JNum 0)"
  shows "rec_item load (rec_start load st) v = (rec_start load st)\<lparr>rc_i := 1\<rparr>"
  using assms by (simp add: rec_item_def write_item_def rec_start_def Let_def)

theorem recover_skips_init_witness:
  "\<forall>load. rec_item load (rec_start load Map.empty) (JObj [(''slot'', JNum 0)]) = (rec_start load Map.empty)\<lparr>rc_i := 1\<rparr>"
proof
  fix load
  have "stored_height Map.empty = 0" by (simp add: stored_height_def sget_def)
  then show "rec_item load (rec_start load Map.empty) (JObj [(''slot'', JNum 0)]) = (rec_start load Map.empty)\<lparr>rc_i := 1\<rparr>"
    by (rule recover_skips_init) (simp add: jprop_def)
qed

section \<open>What is counted\<close>

lemma rec_items_i: "rc_i (foldl (rec_item load) s vs) = rc_i s + int (length vs)"
  by (induction vs arbitrary: s) (simp_all add: rec_item_def)

text \<open>The highest count a height can have come from.\<close>

lemma write_item_height: "rc_height (write_item load v s) = rc_height s \<or> rc_height (write_item load v s) = rc_i s"
  by (auto simp: write_item_def open_core_def Let_def rbind_def split: sum.splits option.splits)

lemma rec_items_height: "rc_height (foldl (rec_item load) s vs) = rc_height s \<or> rc_height (foldl (rec_item load) s vs) < rc_i s + int (length vs)"
proof (induction vs arbitrary: s)
  case (Cons v vs)
  have "rc_height (rec_item load s v) = rc_height s \<or> rc_height (rec_item load s v) < rc_i s + 1"
    using write_item_height [of load v s] by (auto simp: rec_item_def)
  moreover have "rc_i (rec_item load s v) = rc_i s + 1" by (simp add: rec_item_def)
  ultimately show ?case using Cons.IH [of "rec_item load s v"] by auto
qed simp

text \<open>A node that answers with the messages asked for, both bounds included.\<close>

definition exact :: "jv list \<Rightarrow> node" where
  "exact L f t = Inr (page L (first_slot f) (case t of None \<Rightarrow> length L | Some b \<Rightarrow> min (length L) (nat b + 1)))"

definition records :: "jv \<Rightarrow> jv list" where
  "records m = (case rbind (check_first m) (\<lambda>u. bundle_of m) of Inr vs \<Rightarrow> vs | Inl e \<Rightarrow> [])"

definition readable :: "jv list \<Rightarrow> bool" where
  "readable L \<longleftrightarrow> (\<forall>m \<in> set L. \<exists>vs. rbind (check_first m) (\<lambda>u. bundle_of m) = Inr vs)"

lemma rec_page_eq: "readable ms \<Longrightarrow> rec_page load ms s = (foldl (rec_item load) s (concat (map records ms)), None)"
  by (induction ms arbitrary: s) (auto simp: readable_def rec_msg_def records_def)

text \<open>A page of a readable log.\<close>

lemma rec_pages_page:
  assumes "k \<le> length L" "readable L" "i < k"
  shows "rec_pages load (nd # nds) limit fr (page L i k) s =
     (let s' = note_height (foldl (rec_item load) s (concat (map records (map ((!) L) [i..<k])))) in
      case getMsgs nd (fr + limit) (fr + limit + (limit - 1)) of
        Inl e \<Rightarrow> (s', Some e)
      | Inr res' \<Rightarrow> rec_pages load nds limit (fr + limit) res' s')"
proof -
  have "readable (map ((!) L) [i..<k])" using assms by (auto simp: readable_def)
  note pg = rec_page_eq [OF this, of load s]
  have "jprop (page L i k) ''assignments'' = Inr (JObj (map (\<lambda>i. (nat_to_string i, L ! i)) [i..<k]))"
    by (simp add: page_def jprop_def)
  moreover have "\<not> js_empty (JObj (map (\<lambda>i. (nat_to_string i, L ! i)) [i..<k]))" using assms(3) by (simp add: js_empty_def)
  ultimately show ?thesis
    by (subst rec_pages.simps) (simp only: sum.case if_False assigned_page [OF assms(1)] pg prod.case option.case list.case Let_def)
qed

lemma rec_pages_end: "k \<le> i \<Longrightarrow> rec_pages load nds limit fr (page L i k) s = (s, None)"
  by (subst rec_pages.simps) (simp add: page_def jprop_def js_empty_def)

lemma rec_start_fields: "rc_i (rec_start load st) = 0" "rc_height (rec_start load st) = stored_height st"
  by (simp_all add: rec_start_def open_core_def Let_def)

lemma note_height_fields [simp]: "rc_i (note_height s) = rc_i s" "rc_height (note_height s) = rc_height s"
  by (simp_all add: note_height_def)

lemma map_nth_part: "map ((!) L) [i..<length L] = drop i L"
  by (rule nth_equalityI) simp_all

text \<open>
  The first request of \<open>recover\<close> names no bounds and gets a hundred messages, the next begins at message 20 again: on a process
  with more than 20 messages (and no more than 40, to name the number) the records past the first 20 messages are
  counted twice. The height it leaves is past the end of the log, and the shipper, which begins there, never
  sends the records in between.
\<close>

theorem recover_overcounts:
  assumes "readable L" and "20 < length L" and "length L \<le> 40"
    and "stored_height st \<le> int (length (concat (map records L)))" and "concat (map records (drop 20 L)) \<noteq> []"
  shows "stored_height (kv_io (rc_kv (fst (recover load [exact L, exact L, exact L] 20 st)))) =
    int (length (concat (map records L)) + length (concat (map records (drop 20 L))))"
proof -
  let ?all = "concat (map records L)" and ?rest = "concat (map records (drop 20 L))"
  define s0 where "s0 = rec_start load st"
  define s1 where "s1 = foldl (rec_item load) s0 ?all"
  define s2 where "s2 = foldl (rec_item load) (note_height s1) ?rest"
  have p0: "getMsgs (exact L) 0 99 = Inr (page L 0 (length L))" using assms(3) by (simp add: getMsgs_def exact_def first_slot_def min_def)
  have p1: "getMsgs (exact L) 20 39 = Inr (page L 20 (length L))" using assms(3) by (simp add: getMsgs_def exact_def first_slot_def min_def)
  have p2: "\<exists>k \<le> length L. getMsgs (exact L) 40 59 = Inr (page L 40 k)" by (intro exI [of _ "min (length L) 60"]) (simp add: getMsgs_def exact_def first_slot_def)
  then obtain k where k: "k \<le> length L" "getMsgs (exact L) 40 59 = Inr (page L 40 k)" by blast
  have ne: "L \<noteq> []" using assms(2) by auto
  have "recover load [exact L, exact L, exact L] 20 st = rec_pages load [exact L, exact L] 20 0 (page L 0 (length L)) s0"
    by (simp add: recover_def p0 s0_def)
  also have "\<dots> = rec_pages load [exact L] 20 20 (page L 20 (length L)) (note_height s1)"
    using rec_pages_page [of "length L" L 0 load "exact L" "[exact L]" 20 0 s0] assms(1,2) ne by (simp add: p1 Let_def map_nth s1_def)
  also have "\<dots> = rec_pages load [] 20 40 (page L 40 k) (note_height s2)"
    using rec_pages_page [of "length L" L 20 load "exact L" "[]" 20 20 "note_height s1"] assms(1,2) k
    by (simp add: Let_def map_nth_part s2_def)
  also have "\<dots> = (note_height s2, None)" using k(1) assms(3) by (intro rec_pages_end) simp
  finally have run: "fst (recover load [exact L, exact L, exact L] 20 st) = note_height s2" by simp
  have i1: "rc_i s1 = int (length ?all)" unfolding s1_def rec_items_i by (simp add: s0_def rec_start_fields)
  have i2: "rc_i s2 = int (length ?all + length ?rest)" unfolding s2_def rec_items_i by (simp add: i1)
  have "rc_height s1 = stored_height st \<or> rc_height s1 < int (length ?all)"
    using rec_items_height [of load s0 ?all] by (simp add: s1_def s0_def rec_start_fields)
  moreover have "rc_height s2 = rc_height s1 \<or> rc_height s2 < rc_i s2"
    using rec_items_height [of load "note_height s1" ?rest] by (simp add: s2_def [symmetric] i1 i2)
  moreover have "0 < int (length ?rest)" using assms(5) unfolding of_nat_0_less_iff length_greater_0_conv .
  moreover have "rc_i s2 = int (length ?all) + int (length ?rest)" using i2 by (simp only: of_nat_add)
  ultimately have "rc_height s2 < rc_i s2" using assms(4) by linarith
  then have "note_height s2 = s2\<lparr>rc_kv := (rc_kv s2)\<lparr>kv_io := (kv_io (rc_kv s2))(skey height_key \<mapsto> JNum (rc_i s2))\<rparr>\<rparr>"
    by (simp add: note_height_def)
  then show ?thesis unfolding run by (simp add: i2)
qed

text \<open>A process with 21 messages of one record each: 22 are counted.\<close>

definition long_log :: "jv list" where
  "long_log = map (\<lambda>i. wal_message (Suc i) [JObj [(''slot'', JNum (int i))]]) [0..<21]"

theorem recover_overcounts_witness:
  "\<forall>load. stored_height (kv_io (rc_kv (fst (recover load [exact long_log, exact long_log, exact long_log] 20 Map.empty)))) = 22"
proof
  fix load
  have b: "bundle_of (wal_message i [JObj [(''slot'', JNum z)]]) = Inr [JObj [(''slot'', JNum z)]]" for i z
    by (rule bundle_of_message) (simp add: in_order_def obj_eval)
  have c: "check_first (wal_message (Suc i) b) = Inr ()" for i b by (simp add: check_first_def wal_message_def jprop_def)
  have r: "records (wal_message (Suc i) [JObj [(''slot'', JNum z)]]) = [JObj [(''slot'', JNum z)]]" for i z
    by (simp add: records_def c b)
  have "readable long_log" by (auto simp: readable_def long_log_def c b)
  moreover have len: "length (concat (map records long_log)) = 21" "length (concat (map records (drop 20 long_log))) = 1"
    by (simp_all add: long_log_def r comp_def drop_map upt_conv_Cons length_concat)
  moreover have "concat (map records (drop 20 long_log)) \<noteq> []" using len(2) by (metis list.size(3) zero_neq_one)
  moreover have "stored_height Map.empty = 0" by (simp add: stored_height_def sget_def)
  moreover have "length long_log = 21" by (simp add: long_log_def)
  ultimately show "stored_height (kv_io (rc_kv (fst (recover load [exact long_log, exact long_log, exact long_log] 20 Map.empty)))) = 22"
    using recover_overcounts [of long_log Map.empty load] by simp
qed

end
