(* ===== verification/Hb_Cu.thy ===== *)
theory Hb_Cu
  imports Hb_Sync Dev_Sst
begin

text \<open>
  The compute unit: \<open>hb/src/cu.js\<close> extends \<open>Sync\<close>, feeds the messages it has read, one slot after the other, to the
  database of the rollup (the route \<open>sst\<close>) and stores what each comes to for those who ask.
\<close>

section \<open>The result of a message\<close>

definition contains_at :: "string \<Rightarrow> string \<Rightarrow> string option" where
  "contains_at pat s =
     (case List.find (\<lambda>i. starts_with pat (drop i s)) [0..<Suc (length s)] of None \<Rightarrow> None | Some i \<Rightarrow> Some (drop (i + length pat) s))"

text \<open>\<open>/correct:\s*(\d+)/\<close>: the number behind the first occurrence that has one.\<close>

definition find_correct :: "string \<Rightarrow> int option" where
  "find_correct s =
     (let after = map (\<lambda>i. takeWhile is_digit (dropWhile is_space (drop (i + 8) s)))
                    (filter (\<lambda>i. starts_with ''correct:'' (drop i s)) [0..<length s])
      in map_option (\<lambda>ds. int (digits_val ds)) (List.find (\<lambda>ds. ds \<noteq> []) after))"

text \<open>What \<open>db.write\<close> answers behind the queue: \<open>success\<close>, \<open>err\<close>, \<open>res\<close>.\<close>

type_synonym cu_writer = "jv \<Rightarrow> wkv \<Rightarrow> wkv \<times> bool \<times> jv \<times> jv"

definition failure_of :: "jv \<Rightarrow> jv \<Rightarrow> jv" where
  "failure_of m err =
     JObj [(''success'', JBool False), (''err'', err),
           (''res'',
            if jget (jget m ''body'') ''action'' = JStr ''Commit'' then
              (if contains_at ''wrong nonce'' (to_str err) \<noteq> None then
                 JObj [(''nonce'', JBool False),
                       (''correct'', case find_correct (to_str err) of None \<Rightarrow> JNull | Some n \<Rightarrow> JNum n)]
               else JObj [(''decode'', JBool False)])
            else JNull)]"

definition result_of :: "jv \<Rightarrow> bool \<Rightarrow> jv \<Rightarrow> jv \<Rightarrow> jv" where
  "result_of m success err res =
     (if \<not> success then failure_of m err
      else JObj [(''err'', JNull), (''success'', JBool True), (''res'', nullish (jget res ''result'') JNull)])"

section \<open>The loop\<close>

text \<open>\<open>cu_subs\<close>: who waits for a slot; \<open>cu_told\<close>: who has been told what.\<close>

record cu =
  cu_wslot :: int
  cu_kv :: wkv
  cu_db :: "cu_writer option"
  cu_subs :: "string \<rightharpoonup> nat list"
  cu_told :: "(nat \<times> jv) list"
  cu_next :: bool

definition results_key :: "int \<Rightarrow> string" where
  "results_key slot = logkey ''__results__'' slot"

definition cu_result :: "int \<Rightarrow> nat \<Rightarrow> cu \<Rightarrow> cu" where
  "cu_result slot cb c =
     (let r = opt_jv (kv_io (cu_kv c) (results_key slot)) in
      if truthy r then c\<lparr>cu_told := cu_told c @ [(cb, r)]\<rparr>
      else c\<lparr>cu_next := True,
             cu_subs := (cu_subs c)(int_to_string slot \<mapsto> (case cu_subs c (int_to_string slot) of None \<Rightarrow> [] | Some cs \<Rightarrow> cs) @ [cb])\<rparr>)"

definition cu_put :: "string \<Rightarrow> jv \<Rightarrow> cu \<Rightarrow> cu" where
  "cu_put k v c = c\<lparr>cu_kv := (cu_kv c)\<lparr>kv_io := (kv_io (cu_kv c))(k \<mapsto> v)\<rparr>\<rparr>"

definition tell :: "jv \<Rightarrow> jv \<Rightarrow> cu \<Rightarrow> cu" where
  "tell slot r c =
     (case cu_subs c (to_str slot) of
        None \<Rightarrow> c
      | Some cs \<Rightarrow> c\<lparr>cu_told := cu_told c @ map (\<lambda>cb. (cb, r)) cs, cu_subs := (cu_subs c)(to_str slot := None)\<rparr>)"

definition cu_msg :: "cu \<Rightarrow> jv" where
  "cu_msg c = sget (kv_io (cu_kv c)) (msg_key (JNum (cu_wslot c + 1)))"

text \<open>One call of \<open>write\<close> on a message: an exception ends it before the slot moves on. \<open>["__results__", m.slot]\<close> is the key of a
  slot that is a number, as the scheduler gives them.\<close>

definition cu_step :: "(jv \<Rightarrow> cu_writer option) \<Rightarrow> cu \<Rightarrow> cu" where
  "cu_step load c =
     (let m = cu_msg c;
          c1 = (if jget m ''slot'' = JNum 0 then c\<lparr>cu_db := load (jget (jget m ''body'') ''version'')\<rparr> else c)
      in case cu_db c1 of
           None \<Rightarrow> c1
         | Some f \<Rightarrow>
             (let (w, success, err, res) = f (jget m ''body'') (cu_kv c1);
                  r = result_of m success err res;
                  c2 = cu_put (case jget m ''slot'' of JNum n \<Rightarrow> results_key n | v \<Rightarrow> ''__array__:'' @ stringify (JArr [JStr ''__results__'', v])) r
                         (c1\<lparr>cu_kv := w\<rparr>);
                  c3 = tell (jget m ''slot'') r c2
              in cu_put (skey ''__wslot__'') (JNum (cu_wslot c + 1)) (c3\<lparr>cu_wslot := cu_wslot c + 1\<rparr>)))"

text \<open>
  \<open>write\<close> calls itself after every message it has found, whether or not it could be handled, and waits for that call; it resolves
  its own promise only when it has found none. The flag is whether the promise is resolved. (The timers that call it again are left out.)
\<close>

partial_function (option) cu_write :: "(jv \<Rightarrow> cu_writer option) \<Rightarrow> cu \<Rightarrow> (cu \<times> bool) option" where
  "cu_write load c =
     (if \<not> truthy (cu_msg c) then Some (c, True)
      else Option.bind (cu_write load (cu_step load c)) (\<lambda>r. Some (fst r, False)))"

section \<open>A database that does not open\<close>

lemma stuck_step:
  assumes "jget (cu_msg c) ''slot'' = JNum 0" "load (jget (jget (cu_msg c) ''body'') ''version'') = None"
  shows "cu_step load c = c\<lparr>cu_db := None\<rparr>"
  using assms by (simp add: cu_step_def Let_def)

definition stuck :: "(jv \<Rightarrow> cu_writer option) \<Rightarrow> cu \<Rightarrow> bool" where
  "stuck load c \<longleftrightarrow> truthy (cu_msg c) \<and> jget (cu_msg c) ''slot'' = JNum 0 \<and> load (jget (jget (cu_msg c) ''body'') ''version'') = None"

lemma cu_write_ends:
  assumes "cu_write load c = Some r"
  shows "\<not> stuck load c"
proof (rule cu_write.raw_induct [where P = "\<lambda>load c r. \<not> stuck load c", OF _ assms])
  fix f load c and y :: "cu \<times> bool"
  assume IH: "\<And>load c y. f load c = Some y \<Longrightarrow> \<not> stuck load c"
    and e: "(if \<not> truthy (cu_msg c) then Some (c, True) else Option.bind (f load (cu_step load c)) (\<lambda>r. Some (fst r, False))) = Some y"
  show "\<not> stuck load c"
  proof
    assume s: "stuck load c"
    then have "cu_step load c = c\<lparr>cu_db := None\<rparr>" by (intro stuck_step) (auto simp: stuck_def)
    moreover have "truthy (cu_msg c)" using s by (simp add: stuck_def)
    ultimately have "Option.bind (f load (c\<lparr>cu_db := None\<rparr>)) (\<lambda>r. Some (fst r, False)) = Some y" using e by simp
    then obtain z where "f load (c\<lparr>cu_db := None\<rparr>) = Some z" unfolding bind_eq_Some_conv by blast
    moreover have "cu_msg (c\<lparr>cu_db := None\<rparr>) = cu_msg c" by (simp add: cu_msg_def)
    then have "stuck load (c\<lparr>cu_db := None\<rparr>)" using s by (simp add: stuck_def)
    ultimately show False using IH by blast
  qed
qed

text \<open>
  A process whose first message names a version that cannot be fetched is read over and over: the loop counts the message as
  found, the exception leaves the slot where it is, and the call never returns. A compute unit with such a process spins on it.
\<close>

theorem cu_write_hangs:
  assumes "truthy (cu_msg c)" and "jget (cu_msg c) ''slot'' = JNum 0" and "load (jget (jget (cu_msg c) ''body'') ''version'') = None"
  shows "cu_write load c = None"
  using cu_write_ends [of load c] assms by (cases "cu_write load c") (auto simp: stuck_def)

definition first_seen :: cu where
  "first_seen = \<lparr>cu_wslot = -1, cu_kv = kv_new [skey (msg_key (JNum 0)) \<mapsto> JObj [(''slot'', JNum 0), (''body'', JObj [(''version'', JStr ''9.9.9'')])]],
     cu_db = None, cu_subs = Map.empty, cu_told = [], cu_next = False\<rparr>"

theorem cu_write_hangs_witness: "cu_write (\<lambda>_. None) first_seen = None"
proof (rule cu_write_hangs)
  have "cu_msg first_seen = JObj [(''slot'', JNum 0), (''body'', JObj [(''version'', JStr ''9.9.9'')])]"
    by (simp add: cu_msg_def first_seen_def kv_new_def sget_def Let_def)
  then show "truthy (cu_msg first_seen)" "jget (cu_msg first_seen) ''slot'' = JNum 0" by simp_all
qed simp

section \<open>A promise that is left\<close>

text \<open>
  A call of \<open>write\<close> that finds a message works it off, and all that follow, but its promise is never resolved: who awaits it
  waits for ever. Only a call that has nothing to do returns.
\<close>

theorem cu_write_settles:
  assumes "cu_write load c = Some (c', resolved)"
  shows "resolved \<longleftrightarrow> \<not> truthy (cu_msg c)"
  using assms by (subst (asm) cu_write.simps) (auto simp: bind_eq_Some_conv split: if_splits)

theorem cu_write_settles_witness: "cu_write (\<lambda>_. None) (first_seen\<lparr>cu_wslot := 0\<rparr>) = Some (first_seen\<lparr>cu_wslot := 0\<rparr>, True)"
proof -
  have "\<not> truthy (cu_msg (first_seen\<lparr>cu_wslot := 0\<rparr>))"
    by (simp add: cu_msg_def first_seen_def kv_new_def sget_def msg_key_inj Let_def)
  then have "cu_write (\<lambda>_. None) (first_seen\<lparr>cu_wslot := 0\<rparr>) = Some (first_seen\<lparr>cu_wslot := 0\<rparr>, True)"
    by (subst cu_write.simps) simp
  with cu_write_settles [OF this] show ?thesis by simp
qed

section \<open>Who is told what\<close>

text \<open>What somebody is told about a slot is what is stored for it.\<close>

lemma told_is_stored:
  assumes "cu_msg c = m" "jget m ''slot'' = JNum n" "n \<noteq> 0" "cu_db c = Some f" "f (jget m ''body'') (cu_kv c) = (w, success, err, res)"
    and "cu_subs c (int_to_string n) = Some cs"
  shows "cu_told (cu_step load c) = cu_told c @ map (\<lambda>cb. (cb, result_of m success err res)) cs"
    and "kv_io (cu_kv (cu_step load c)) (results_key n) = Some (result_of m success err res)"
    and "cu_subs (cu_step load c) (int_to_string n) = None"
  using assms by (simp_all add: cu_step_def Let_def tell_def cu_put_def results_key_def)

end
