(* ===== verification/Hb_Bundler.thy ===== *)
theory Hb_Bundler
  imports Js_Value
begin

text \<open>
  The bundler: \<open>hb/src/bundler.js\<close> uploads each message of a process and its assignment and keeps track of the slots it
  has seen, so that it can ask for the ones it has missed.
\<close>

section \<open>The slots of a process\<close>

text \<open>An entry of \<open>dbs\<close>: every slot up to \<open>min\<close> is done, \<open>current\<close> is the last one seen, \<open>done\<close> those done above \<open>min\<close>.\<close>

record track =
  tk_min :: int
  tk_current :: int
  tk_missing :: "int list"
  tk_done :: "int list"

definition track_new :: track where
  "track_new = \<lparr>tk_min = -1, tk_current = -1, tk_missing = [], tk_done = []\<rparr>"

text \<open>The loop of \<open>delDone\<close>.\<close>

fun del_from :: "int list \<Rightarrow> track \<Rightarrow> track" where
  "del_from [] d = d"
| "del_from (i # is) d =
     (if i \<in> set (tk_done d) then del_from is (d\<lparr>tk_min := i, tk_done := removeAll i (tk_done d)\<rparr>) else d)"

definition delDone :: "track \<Rightarrow> track" where
  "delDone d = (if tk_min d + 1 < tk_current d then del_from [tk_min d + 1 .. tk_current d - 1] d else d)"

definition add_missing :: "int \<Rightarrow> track \<Rightarrow> track" where
  "add_missing i d = (if i \<notin> set (tk_done d) \<and> i \<notin> set (tk_missing d) then d\<lparr>tk_missing := tk_missing d @ [i]\<rparr> else d)"

definition track_slot :: "int \<Rightarrow> track \<Rightarrow> track" where
  "track_slot slot d =
     (let d1 = (if tk_current d + 1 < slot then foldl (\<lambda>d i. add_missing i d) d [tk_current d + 1 .. slot - 1]
                else d\<lparr>tk_missing := removeAll slot (tk_missing d)\<rparr>);
          d2 = (if tk_min d1 < slot \<and> slot \<notin> set (tk_done d1) then d1\<lparr>tk_done := slot # tk_done d1\<rparr> else d1);
          d3 = (if tk_current d2 < slot then d2\<lparr>tk_current := slot\<rparr> else d2)
      in delDone d3)"

section \<open>Uploads: bundler-utils.js\<close>

text \<open>What \<open>upload\<close> comes to: status 200, another answer, a throw.\<close>

datatype upload = UOk | UBad "int option" | UThrow

text \<open>A request to the gateway: the status of the answer, or a throw.\<close>

datatype net = NStatus int | NThrow

text \<open>The attempts, at most five: whether \<open>Math.random() > 0.8\<close>, and how the request would end. The result and how many
  requests were made.\<close>

fun try_upload :: "(bool \<times> net) list \<Rightarrow> upload \<times> nat" where
  "try_upload [] = (UBad (Some 502), 0)"
| "try_upload ((lucky, n) # rest) =
     (if lucky then (UOk, 0)
      else (case n of
              NStatus s \<Rightarrow> (if s = 200 then UOk else UBad (Some s), 1)
            | NThrow \<Rightarrow> (case try_upload rest of (u, k) \<Rightarrow> (u, Suc k))))"

definition upload :: "bool \<Rightarrow> (bool \<times> net) list \<Rightarrow> upload \<times> nat" where
  "upload mock attempts = (if mock then (UOk, 0) else try_upload (take 5 attempts))"

text \<open>The tags of the item \<open>assignment\<close> makes; \<open>msg\<close> is the id of the message, a string.\<close>

definition assignment_tags :: "jv \<Rightarrow> (string \<times> jv) list \<Rightarrow> (string \<times> jv) list" where
  "assignment_tags msg atags = (if truthy (jget msg ''original-tags'') then atags else [])"

section \<open>A message\<close>

record bmsg =
  bm_message :: "bool option"
  bm_assign :: "bool option"
  bm_done :: bool
  bm_status :: "int option"
  bm_assign_status :: "int option"

definition bmsg_new :: bmsg where
  "bmsg_new = \<lparr>bm_message = None, bm_assign = None, bm_done = False, bm_status = None, bm_assign_status = None\<rparr>"

definition uploadMsg :: "upload \<Rightarrow> bmsg \<Rightarrow> bmsg" where
  "uploadMsg u m =
     (case u of UOk \<Rightarrow> m\<lparr>bm_message := Some True\<rparr> | UBad st \<Rightarrow> m\<lparr>bm_message := Some False, bm_status := st\<rparr>
      | UThrow \<Rightarrow> m\<lparr>bm_message := Some False\<rparr>)"

definition uploadAssign :: "upload \<Rightarrow> bmsg \<Rightarrow> bmsg" where
  "uploadAssign u m =
     (case u of UOk \<Rightarrow> m\<lparr>bm_assign := Some True\<rparr> | UBad st \<Rightarrow> m\<lparr>bm_assign := Some False, bm_assign_status := st\<rparr>
      | UThrow \<Rightarrow> m)"

text \<open>\<open>bu_undone\<close> is the object \<open>undone\<close>, \<open>bu_io\<close> the stored messages, \<open>bu_assigns\<close> the entries \<open>["assign", process, slot]\<close>.\<close>

record bundler =
  bu_msgs :: "string \<rightharpoonup> bmsg"
  bu_io :: "string \<rightharpoonup> bmsg"
  bu_assigns :: "string \<times> int \<rightharpoonup> string"
  bu_dbs :: "string \<rightharpoonup> track"
  bu_ongoing :: "string list"
  bu_undone :: "string list"
  bu_unsolved :: "string list"

text \<open>A message as it arrives, with what the outside makes of it: whether it is an \<open>ans104@1.0\<close> item with a valid
  signature, whether it is the process itself, and the two uploads.\<close>

record incoming =
  in_process :: string
  in_slot :: int
  in_ans104 :: bool
  in_valid :: bool
  in_is_process :: bool
  in_up :: upload
  in_up_assign :: upload

definition initMessage :: "string \<Rightarrow> incoming \<Rightarrow> bundler \<Rightarrow> bundler" where
  "initMessage i x b =
     (if bu_msgs b i = None then
        b\<lparr>bu_msgs := (bu_msgs b)(i \<mapsto> bmsg_new), bu_io := (bu_io b)(i \<mapsto> bmsg_new),
          bu_assigns := (bu_assigns b)((in_process x, in_slot x) \<mapsto> i)\<rparr>
      else b)"

definition uploads :: "incoming \<Rightarrow> bmsg \<Rightarrow> bmsg" where
  "uploads x m =
     (let m1 = (if bm_message m \<noteq> Some True then uploadMsg (in_up x) m else m)
      in if \<not> in_is_process x \<and> bm_message m1 = Some True \<and> bm_assign m1 \<noteq> Some True
         then uploadAssign (in_up_assign x) m1 else m1)"

definition finished :: "incoming \<Rightarrow> bmsg \<Rightarrow> bool" where
  "finished x m \<longleftrightarrow> \<not> bm_done m \<and> bm_message m = Some True \<and> (bm_assign m = Some True \<or> in_is_process x)"

definition processMessage :: "string \<Rightarrow> incoming \<Rightarrow> bundler \<Rightarrow> bundler" where
  "processMessage i x b =
     (if \<not> in_ans104 x \<or> \<not> in_valid x then b
      else
        (let b1 = initMessage i x b;
             m = uploads x (case bu_msgs b1 i of None \<Rightarrow> bmsg_new | Some m \<Rightarrow> m)
         in if finished x m then
              b1\<lparr>bu_msgs := (bu_msgs b1)(i \<mapsto> m\<lparr>bm_done := True\<rparr>), bu_io := (bu_io b1)(i \<mapsto> m\<lparr>bm_done := True\<rparr>),
                 bu_undone := removeAll i (bu_undone b1),
                 bu_dbs := (bu_dbs b1)(in_process x \<mapsto>
                   track_slot (in_slot x) (case bu_dbs b1 (in_process x) of None \<Rightarrow> track_new | Some d \<Rightarrow> d))\<rparr>
            else b1\<lparr>bu_msgs := (bu_msgs b1)(i \<mapsto> m), bu_io := (bu_io b1)(i \<mapsto> m)\<rparr>))"

text \<open>One commitment of \<open>processOut\<close>; \<open>ongoing\<close> is set for the time of the call.\<close>

definition processOut :: "string \<Rightarrow> incoming \<Rightarrow> bundler \<Rightarrow> bundler" where
  "processOut i x b =
     (if i \<in> set (bu_ongoing b) \<or> (\<exists>m \<in> set_option (bu_msgs b i). bm_done m) then b
      else if (\<exists>m \<in> set_option (bu_msgs b i). bm_message m = Some True) then b
      else processMessage i x b)"

text \<open>\<open>processUndone\<close>: one of the messages listed as undone, tried again or given up.\<close>

definition bad :: "int option \<Rightarrow> bool option \<Rightarrow> bool" where
  "bad st flag \<longleftrightarrow> (case st of None \<Rightarrow> False | Some s \<Rightarrow> 300 \<le> s \<and> flag \<noteq> Some True)"

definition retryUndone :: "string \<Rightarrow> incoming \<Rightarrow> bundler \<Rightarrow> bundler" where
  "retryUndone i x b =
     (if i \<notin> set (bu_undone b) \<or> i \<in> set (bu_ongoing b) then b
      else (case bu_io b i of
              None \<Rightarrow> b\<lparr>bu_undone := removeAll i (bu_undone b)\<rparr>
            | Some m \<Rightarrow>
                if bad (bm_status m) (bm_message m) \<or> bad (bm_assign_status m) (bm_assign m) then
                  processMessage i x (if bu_msgs b i = None then b\<lparr>bu_msgs := (bu_msgs b)(i \<mapsto> m)\<rparr> else b)
                else b\<lparr>bu_undone := removeAll i (bu_undone b), bu_unsolved := bu_unsolved b @ [i]\<rparr>))"

text \<open>A new process: the messages in memory are gone.\<close>

definition bundler_boot :: "bundler \<Rightarrow> bundler" where
  "bundler_boot b = b\<lparr>bu_msgs := Map.empty, bu_ongoing := []\<rparr>"

section \<open>What is missing\<close>

text \<open>\<open>P\<close>: the slots that have been processed.\<close>

definition track_inv :: "int set \<Rightarrow> track \<Rightarrow> bool" where
  "track_inv P d \<longleftrightarrow>
     -1 \<le> tk_min d \<and> (tk_min d < tk_current d \<or> (tk_min d = -1 \<and> tk_current d = -1)) \<and>
     (\<forall>i. 0 \<le> i \<and> i \<le> tk_min d \<longrightarrow> i \<in> P) \<and> (\<forall>i. i \<in> set (tk_done d) \<longleftrightarrow> i \<in> P \<and> tk_min d < i) \<and>
     (\<forall>i \<in> P. 0 \<le> i \<and> i \<le> tk_current d) \<and> (tk_current d = -1 \<or> tk_current d \<in> P) \<and>
     (\<forall>i. i \<in> set (tk_missing d) \<longleftrightarrow> 0 \<le> i \<and> i < tk_current d \<and> i \<notin> P) \<and> distinct (tk_missing d)"

lemma track_invD:
  assumes "track_inv P d"
  shows "-1 \<le> tk_min d" "tk_min d < tk_current d \<or> (tk_min d = -1 \<and> tk_current d = -1)"
    "0 \<le> i \<Longrightarrow> i \<le> tk_min d \<Longrightarrow> i \<in> P" "i \<in> set (tk_done d) \<longleftrightarrow> i \<in> P \<and> tk_min d < i"
    "i \<in> P \<Longrightarrow> 0 \<le> i \<and> i \<le> tk_current d" "tk_current d = -1 \<or> tk_current d \<in> P"
    "i \<in> set (tk_missing d) \<longleftrightarrow> 0 \<le> i \<and> i < tk_current d \<and> i \<notin> P" "distinct (tk_missing d)"
  using assms by (simp_all add: track_inv_def)

lemma track_invI:
  assumes "-1 \<le> tk_min d" "tk_min d < tk_current d \<or> (tk_min d = -1 \<and> tk_current d = -1)"
    "\<And>i. 0 \<le> i \<Longrightarrow> i \<le> tk_min d \<Longrightarrow> i \<in> P" "\<And>i. i \<in> set (tk_done d) \<longleftrightarrow> i \<in> P \<and> tk_min d < i"
    "\<And>i. i \<in> P \<Longrightarrow> 0 \<le> i \<and> i \<le> tk_current d" "tk_current d = -1 \<or> tk_current d \<in> P"
    "\<And>i. i \<in> set (tk_missing d) \<longleftrightarrow> 0 \<le> i \<and> i < tk_current d \<and> i \<notin> P" "distinct (tk_missing d)"
  shows "track_inv P d"
  using assms unfolding track_inv_def by blast

lemma add_missing_fold:
  assumes "distinct (tk_missing d)"
  shows "let d' = foldl (\<lambda>d i. add_missing i d) d is in
     tk_min d' = tk_min d \<and> tk_current d' = tk_current d \<and> tk_done d' = tk_done d \<and>
     set (tk_missing d') = set (tk_missing d) \<union> (set is - set (tk_done d)) \<and> distinct (tk_missing d')"
  using assms
proof (induction "is" arbitrary: d)
  case (Cons i "is")
  have "distinct (tk_missing (add_missing i d))" using Cons.prems by (simp add: add_missing_def)
  from Cons.IH [OF this] show ?case by (auto simp: add_missing_def Let_def)
qed simp

lemma del_from_inv:
  assumes "track_inv P d" "a \<le> tk_current d" "a = tk_min d + 1"
  shows "let d' = del_from [a .. tk_current d - 1] d in
     track_inv P d' \<and> tk_current d' = tk_current d \<and> (tk_min d' + 1 < tk_current d' \<longrightarrow> tk_min d' + 1 \<notin> P)"
  using assms
proof (induction "nat (tk_current d - a)" arbitrary: d a)
  case 0
  then show ?case by (simp add: Let_def)
next
  case (Suc k)
  then have lt: "a < tk_current d" by simp
  then have l: "[a .. tk_current d - 1] = a # [a + 1 .. tk_current d - 1]" by (simp add: upto_rec1)
  show ?case
  proof (cases "a \<in> set (tk_done d)")
    case False
    then have "tk_min d + 1 \<notin> P" using track_invD(4) [OF Suc.prems(1), of a] Suc.prems(3) by simp
    with False Suc.prems(1) show ?thesis unfolding l by (simp add: Let_def)
  next
    case True
    let ?d = "d\<lparr>tk_min := a, tk_done := removeAll a (tk_done d)\<rparr>"
    note D = track_invD [OF Suc.prems(1)]
    have a: "a \<in> P" "0 \<le> a" using True D(4) [of a] D(1) Suc.prems(3) by auto
    have inv: "track_inv P ?d"
    proof (rule track_invI)
      fix i
      show "i \<in> P" if "0 \<le> i" "i \<le> tk_min ?d" using that a(1) D(3) [of i] Suc.prems(3) by (cases "i = a") auto
      show "i \<in> set (tk_done ?d) \<longleftrightarrow> i \<in> P \<and> tk_min ?d < i" using D(4) [of i] Suc.prems(3) by auto
      show "0 \<le> i \<and> i \<le> tk_current ?d" if "i \<in> P" using D(5) [OF that] by simp
      show "i \<in> set (tk_missing ?d) \<longleftrightarrow> 0 \<le> i \<and> i < tk_current ?d \<and> i \<notin> P" using D(7) [of i] by simp
    qed (use a lt D(6,8) in auto)
    have "let d' = del_from [a + 1 .. tk_current ?d - 1] ?d in
       track_inv P d' \<and> tk_current d' = tk_current ?d \<and> (tk_min d' + 1 < tk_current d' \<longrightarrow> tk_min d' + 1 \<notin> P)"
      by (rule Suc.hyps(1) [OF _ inv]) (use Suc.hyps(2) lt in auto)
    with True show ?thesis unfolding l by simp
  qed
qed

lemma delDone_inv:
  assumes "track_inv P d"
  shows "track_inv P (delDone d) \<and> tk_current (delDone d) = tk_current d \<and>
    (tk_min (delDone d) + 1 < tk_current (delDone d) \<longrightarrow> tk_min (delDone d) + 1 \<notin> P)"
  using del_from_inv [OF assms, of "tk_min d + 1"] assms by (simp add: delDone_def Let_def)

lemma track_slot_inv:
  assumes "track_inv P d" "0 \<le> slot"
  shows "track_inv (insert slot P) (track_slot slot d) \<and>
    (tk_min (track_slot slot d) + 1 < tk_current (track_slot slot d) \<longrightarrow> tk_min (track_slot slot d) + 1 \<notin> insert slot P)"
proof -
  define d1 where "d1 = (if tk_current d + 1 < slot then foldl (\<lambda>d i. add_missing i d) d [tk_current d + 1 .. slot - 1]
      else d\<lparr>tk_missing := removeAll slot (tk_missing d)\<rparr>)"
  define d2 where "d2 = (if tk_min d1 < slot \<and> slot \<notin> set (tk_done d1) then d1\<lparr>tk_done := slot # tk_done d1\<rparr> else d1)"
  define d3 where "d3 = (if tk_current d2 < slot then d2\<lparr>tk_current := slot\<rparr> else d2)"
  have eq: "track_slot slot d = delDone d3" by (simp add: track_slot_def d1_def d2_def d3_def Let_def)
  let ?c = "max (tk_current d) slot"
  note D = track_invD [OF assms(1)]
  note F = add_missing_fold [OF D(8), of "[tk_current d + 1 .. slot - 1]", unfolded Let_def]
  have f1: "tk_min d1 = tk_min d" "tk_current d1 = tk_current d" "tk_done d1 = tk_done d" "distinct (tk_missing d1)"
    using F D(8) by (simp_all add: d1_def distinct_removeAll)
  have m1: "i \<in> set (tk_missing d1) \<longleftrightarrow> 0 \<le> i \<and> i < ?c \<and> i \<notin> insert slot P" for i
  proof (cases "tk_current d + 1 < slot")
    case True
    have "i \<in> set (tk_missing d1) \<longleftrightarrow> i \<in> set (tk_missing d) \<or> (tk_current d + 1 \<le> i \<and> i \<le> slot - 1 \<and> i \<notin> set (tk_done d))"
      using F True by (simp add: d1_def)
    also have "\<dots> \<longleftrightarrow> (0 \<le> i \<and> i < tk_current d \<and> i \<notin> P) \<or> (tk_current d < i \<and> i < slot \<and> i \<notin> P)"
      using D(7) [of i] D(4) [of i] D(1,2) by auto
    also have "\<dots> \<longleftrightarrow> 0 \<le> i \<and> i < slot \<and> i \<notin> P"
      using True D(1,2,6) by (cases "i = tk_current d") auto
    finally show ?thesis using True by auto
  next
    case False
    have "i \<in> set (tk_missing d1) \<longleftrightarrow> i \<noteq> slot \<and> 0 \<le> i \<and> i < tk_current d \<and> i \<notin> P"
      using False D(7) [of i] by (auto simp: d1_def)
    also have "\<dots> \<longleftrightarrow> 0 \<le> i \<and> i < ?c \<and> i \<notin> insert slot P"
      using False D(6) by (cases "i = tk_current d") auto
    finally show ?thesis .
  qed
  have f3: "tk_min d3 = tk_min d" "tk_current d3 = ?c" "tk_missing d3 = tk_missing d1"
    using f1 by (auto simp: d3_def d2_def)
  have f4: "i \<in> set (tk_done d3) \<longleftrightarrow> i \<in> insert slot P \<and> tk_min d < i" for i
    using f1 D(4) [of i] D(4) [of slot] by (auto simp: d3_def d2_def)
  have "track_inv (insert slot P) d3"
  proof (rule track_invI)
    fix i
    show "i \<in> insert slot P" if "0 \<le> i" "i \<le> tk_min d3" using that D(3) [of i] by (simp add: f3)
    show "i \<in> set (tk_done d3) \<longleftrightarrow> i \<in> insert slot P \<and> tk_min d3 < i" using f4 [of i] by (simp add: f3)
    show "0 \<le> i \<and> i \<le> tk_current d3" if "i \<in> insert slot P" using that D(5) [of i] assms(2) by (auto simp: f3)
    show "i \<in> set (tk_missing d3) \<longleftrightarrow> 0 \<le> i \<and> i < tk_current d3 \<and> i \<notin> insert slot P" using m1 [of i] by (simp add: f3)
    show "tk_current d3 = -1 \<or> tk_current d3 \<in> insert slot P" using D(6) assms(2) by (auto simp: f3 max_def)
    show "tk_min d3 < tk_current d3 \<or> (tk_min d3 = -1 \<and> tk_current d3 = -1)" using D(2) assms(2) by (auto simp: f3)
  qed (use D(1) f1 f3 in simp_all)
  from delDone_inv [OF this] show ?thesis unfolding eq by simp
qed

text \<open>
  C26. Whatever the order in which the slots of a process come, and however often: \<open>missing\<close> holds exactly the
  slots below the last one that have not come, \<open>min\<close> is the last slot up to which all have come (short of the last
  one), and above it \<open>done\<close> holds those that have come.
\<close>

theorem missing_exact:
  assumes "list_all (\<lambda>i. 0 \<le> i) xs"
  shows "let d = foldl (\<lambda>d i. track_slot i d) track_new xs in
    set (tk_missing d) = {i. 0 \<le> i \<and> i < tk_current d \<and> i \<notin> set xs} \<and> distinct (tk_missing d) \<and>
    {0 .. tk_min d} \<subseteq> set xs \<and> (tk_min d + 1 < tk_current d \<longrightarrow> tk_min d + 1 \<notin> set xs) \<and>
    set (tk_done d) = {i \<in> set xs. tk_min d < i} \<and> tk_current d = (if xs = [] then -1 else Max (set xs))"
proof -
  have "track_inv (set xs) (foldl (\<lambda>d i. track_slot i d) track_new xs) \<and>
    (tk_min (foldl (\<lambda>d i. track_slot i d) track_new xs) + 1 < tk_current (foldl (\<lambda>d i. track_slot i d) track_new xs) \<longrightarrow>
     tk_min (foldl (\<lambda>d i. track_slot i d) track_new xs) + 1 \<notin> set xs)"
    using assms
  proof (induction xs rule: rev_induct)
    case Nil
    then show ?case by (simp add: track_inv_def track_new_def)
  next
    case (snoc x xs)
    then have "track_inv (set xs) (foldl (\<lambda>d i. track_slot i d) track_new xs)" "0 \<le> x" by simp_all
    from track_slot_inv [OF this] show ?case by simp
  qed
  then have inv: "track_inv (set xs) d \<and> (tk_min d + 1 < tk_current d \<longrightarrow> tk_min d + 1 \<notin> set xs)"
    if "d = foldl (\<lambda>d i. track_slot i d) track_new xs" for d using that by simp
  define d where "d = foldl (\<lambda>d i. track_slot i d) track_new xs"
  note D = track_invD [OF inv [OF d_def, THEN conjunct1]]
  have cur: "tk_current d = (if xs = [] then -1 else Max (set xs))"
  proof (cases xs)
    case Nil
    then show ?thesis using D(6) by simp
  next
    case (Cons y ys)
    then have "0 \<le> y \<and> y \<le> tk_current d" using D(5) [of y] by simp
    then have "tk_current d \<in> set xs" using D(6) by auto
    moreover have "\<And>i. i \<in> set xs \<Longrightarrow> i \<le> tk_current d" using D(5) by blast
    ultimately have "Max (set xs) = tk_current d" by (intro Max_eqI) auto
    with Cons show ?thesis by simp
  qed
  have "set (tk_missing d) = {i. 0 \<le> i \<and> i < tk_current d \<and> i \<notin> set xs}" using D(7) by blast
  moreover have "set (tk_done d) = {i \<in> set xs. tk_min d < i}" using D(4) by blast
  moreover have "{0 .. tk_min d} \<subseteq> set xs" using D(3) by auto
  ultimately show ?thesis using cur D(8) inv [OF d_def] unfolding d_def [symmetric] Let_def by blast
qed

theorem missing_exact_witness: "set (tk_missing (foldl (\<lambda>d i. track_slot i d) track_new [0, 3, 1, 5])) = {2, 4}"
proof -
  define xs where "xs = [0, 3, 1, 5 :: int]"
  have p: "list_all (\<lambda>i. 0 \<le> i) xs" "xs \<noteq> []" by (simp_all add: xs_def)
  define d where "d = foldl (\<lambda>d i. track_slot i d) track_new xs"
  have "set (tk_missing d) = {i. 0 \<le> i \<and> i < tk_current d \<and> i \<notin> set xs} \<and> tk_current d = Max (set xs)"
    using missing_exact [OF p(1)] p(2) unfolding d_def Let_def by metis
  moreover have "set xs = {0, 3, 1, 5}" by (simp add: xs_def)
  moreover have "Max {0, 3, 1, 5 :: int} = 5" by simp
  ultimately have "set (tk_missing d) = {i. 0 \<le> i \<and> i < 5 \<and> i \<notin> {0, 3, 1, 5}}" by metis
  also have "\<dots> = {2, 4}" by auto
  finally show ?thesis unfolding d_def xs_def .
qed

section \<open>What is not uploaded\<close>

text \<open>
  One attempt in five is not made: when the random number is above 0.8 the upload reports success without a request.
  A message whose two uploads are of this kind is marked as uploaded and assigned, is done, and its slot counts as done.
\<close>

theorem upload_faked:
  assumes "in_up x = fst (upload False ((True, n1) # r1))" "in_up_assign x = fst (upload False ((True, n2) # r2))"
    and "in_ans104 x" "in_valid x" "bu_msgs b i = None"
  shows "snd (upload False ((True, n1) # r1)) + snd (upload False ((True, n2) # r2)) = 0 \<and>
    (\<exists>m. bu_msgs (processMessage i x b) i = Some m \<and> bm_done m \<and> bm_message m = Some True \<and>
         (in_is_process x \<or> bm_assign m = Some True)) \<and>
    bu_dbs (processMessage i x b) (in_process x) =
      Some (track_slot (in_slot x) (case bu_dbs b (in_process x) of None \<Rightarrow> track_new | Some d \<Rightarrow> d))"
proof -
  have "in_up x = UOk" "in_up_assign x = UOk" using assms(1,2) by (simp_all add: upload_def)
  then have u: "uploads x bmsg_new = bmsg_new\<lparr>bm_message := Some True, bm_assign := (if in_is_process x then None else Some True)\<rparr>"
    by (simp add: uploads_def bmsg_new_def uploadMsg_def uploadAssign_def Let_def)
  then have "finished x (uploads x bmsg_new)" by (simp add: finished_def bmsg_new_def)
  with u show ?thesis using assms(3-5)
    by (simp add: processMessage_def initMessage_def Let_def upload_def bmsg_new_def)
qed

lemma undone_empty:
  "bu_undone b = [] \<Longrightarrow> bu_undone (processMessage i x b) = []"
  "bu_undone b = [] \<Longrightarrow> bu_undone (processOut i x b) = []"
  "bu_undone b = [] \<Longrightarrow> retryUndone i x b = b"
  by (simp_all add: processMessage_def processOut_def initMessage_def retryUndone_def Let_def)

text \<open>
  A message that was uploaded while its assignment was not is never tried again: it counts as uploaded, so \<open>processOut\<close> passes
  it by, and \<open>undone\<close>, which nothing is ever added to, does not list it.
\<close>

theorem failed_assignment_stays:
  assumes "bu_undone b = []" and "bu_msgs b i = Some m" and "bm_message m = Some True" and "bm_assign m \<noteq> Some True"
  shows "bu_msgs (foldl (\<lambda>b (retry, j, x). if retry then retryUndone j x b else processOut j x b) b evs) i = Some m"
  using assms(1,2)
proof (induction evs arbitrary: b)
  case (Cons ev evs)
  obtain retry j x where ev: "ev = (retry, j, x)" by (cases ev)
  define b' where "b' = (if retry then retryUndone j x b else processOut j x b)"
  have "bu_undone b' = []" using Cons.prems(1) undone_empty by (simp add: b'_def)
  moreover have "bu_msgs b' i = Some m"
  proof (cases "j = i")
    case True
    then show ?thesis using Cons.prems undone_empty(3) assms(3) by (simp add: b'_def processOut_def)
  next
    case False
    then show ?thesis using Cons.prems undone_empty(3)
      by (simp add: b'_def processOut_def processMessage_def initMessage_def Let_def)
  qed
  ultimately show ?case using Cons.IH [of b'] by (simp add: ev b'_def)
qed simp

text \<open>The item of an assignment carries no tags: the test looks for tags on an id.\<close>

lemma assignment_untagged: "assignment_tags (JStr mid) atags = []"
  by (simp add: assignment_tags_def is_index_key_def is_digit_def)

section \<open>Witnesses\<close>

definition one_message :: incoming where
  "one_message = \<lparr>in_process = ''p'', in_slot = 0, in_ans104 = True, in_valid = True, in_is_process = False, in_up = UOk, in_up_assign = UOk\<rparr>"

definition no_messages :: bundler where
  "no_messages = \<lparr>bu_msgs = Map.empty, bu_io = Map.empty, bu_assigns = Map.empty, bu_dbs = Map.empty, bu_ongoing = [], bu_undone = [], bu_unsolved = []\<rparr>"

theorem upload_faked_witness: "bu_dbs (processMessage ''m'' one_message no_messages) ''p'' = Some (track_slot 0 track_new)"
  using upload_faked [of one_message NThrow "[]" NThrow "[]" no_messages "''m''"]
  by (simp add: one_message_def no_messages_def upload_def)

theorem failed_assignment_stays_witness:
  "let m = bmsg_new\<lparr>bm_message := Some True\<rparr>; b = no_messages\<lparr>bu_msgs := [''m'' \<mapsto> m]\<rparr>
   in bu_msgs (processOut ''m'' one_message b) ''m'' = Some m"
  using failed_assignment_stays [of "no_messages\<lparr>bu_msgs := [''m'' \<mapsto> bmsg_new\<lparr>bm_message := Some True\<rparr>]\<rparr>" "''m''"
      "bmsg_new\<lparr>bm_message := Some True\<rparr>" "[(False, ''m'', one_message)]"]
  by (simp add: no_messages_def bmsg_new_def Let_def)

end
