(* ===== verification/Core_Loader.thy ===== *)
theory Core_Loader
  imports Queue
begin

text \<open>
  Which version of the database runs: \<open>core/src/core.js\<close> opens the bundled one or a fetched one, forwards every call
  to it, and changes it when a call that has succeeded was an upgrade or a revert. A database is a family of methods
  on a store \<open>'w\<close>, behind the queue of \<open>Queue\<close>, which turns a throw into an answer. Fetching and evaluating a module is the
  parameter \<open>fetch\<close>; \<open>None\<close> is a failure.
\<close>

section \<open>The loader\<close>

record 'w database =
  db_keys :: "string list"
  db_call :: "string \<Rightarrow> jv list \<Rightarrow> 'w \<Rightarrow> 'w \<times> jv answer"

text \<open>\<open>co_keys\<close>: the methods of \<open>core.db\<close>, made once. \<open>co_upgrading\<close> is \<open>undefined\<close> before the first upgrade.\<close>

record 'w core =
  co_keys :: "string list"
  co_db :: "'w database option"
  co_old :: "'w database option"
  co_upgrading :: jv
  co_error :: bool

definition core_init :: "'w database \<Rightarrow> (jv \<Rightarrow> 'w database option) \<Rightarrow> jv \<Rightarrow> 'w core" where
  "core_init wdb fetch version =
     (let d = (if truthy version then fetch version else Some wdb)
      in \<lparr>co_keys = (case d of None \<Rightarrow> [] | Some d \<Rightarrow> db_keys d), co_db = d, co_old = None, co_upgrading = JUndef, co_error = False\<rparr>)"

text \<open>What a call that has been answered does to the loader.\<close>

definition after_call :: "(jv \<Rightarrow> 'w database option) \<Rightarrow> jv \<Rightarrow> 'w core \<Rightarrow> 'w core" where
  "after_call fetch res c =
     (if jget res ''opcode'' = JStr ''revert'' then c\<lparr>co_db := co_old c, co_old := None\<rparr>
      else if jget res ''opcode'' = JStr ''upgrade'' then
        (let v = jget res ''data''; c1 = c\<lparr>co_upgrading := v\<rparr>
         in case fetch v of
              None \<Rightarrow> c1\<lparr>co_error := True\<rparr>
            | Some d \<Rightarrow> c1\<lparr>co_old := co_db c1, co_db := Some d, co_upgrading := JBool False\<rparr>)
      else c)"

definition answer_res :: "jv answer \<Rightarrow> jv" where
  "answer_res a = (case an_res a of None \<Rightarrow> JNull | Some r \<Rightarrow> r)"

definition core_call ::
    "(jv \<Rightarrow> 'w database option) \<Rightarrow> string \<Rightarrow> jv list \<Rightarrow> 'w core \<times> 'w \<Rightarrow> ('w core \<times> 'w) \<times> (js_error + jv answer)" where
  "core_call fetch k q cw =
     (case cw of (c, w) \<Rightarrow>
        if k \<notin> set (co_keys c) then (cw, Inl (TypeErr ''is not a function''))
        else (case co_db c of
                None \<Rightarrow> (cw, Inl (TypeErr ''Cannot read properties''))
              | Some d \<Rightarrow>
                  if k \<notin> set (db_keys d) then (cw, Inl (TypeErr ''is not a function''))
                  else (let (w', a) = db_call d k q w in
                        if \<not> an_success a then ((c, w'), Inr a)
                        else (case jprop (answer_res a) ''opcode'' of
                                Inl e \<Rightarrow> ((c, w'), Inl e)
                              | Inr op \<Rightarrow> ((after_call fetch (answer_res a) c, w'), Inr a)))))"

section \<open>Upgrade and revert\<close>

text \<open>Answers that are a success with this operation.\<close>

definition succeeds :: "'w database \<Rightarrow> string \<Rightarrow> jv list \<Rightarrow> 'w \<Rightarrow> 'w \<Rightarrow> jv \<Rightarrow> bool" where
  "succeeds d k q w w' res \<longleftrightarrow> (\<exists>a. db_call d k q w = (w', a) \<and> an_success a \<and> an_res a = Some res \<and> \<not> is_nil res)"

lemma core_call_success:
  assumes "k \<in> set (co_keys c)" "co_db c = Some d" "k \<in> set (db_keys d)" "succeeds d k q w w' res"
  shows "fst (core_call fetch k q (c, w)) = (after_call fetch res c, w')"
  using assms by (auto simp: core_call_def succeeds_def jprop_def answer_res_def)

text \<open>
  C28. An upgrade that is reverted leaves the database that ran before: the calls in between go to the fetched one, and afterwards
  every call goes to the old one again.
\<close>

theorem upgrade_then_revert:
  assumes "co_db c = Some d" and "succeeds d k q w w1 up" and "jget up ''opcode'' = JStr ''upgrade''"
    and "fetch (jget up ''data'') = Some d'" and "succeeds d' k r w1 w2 back" and "jget back ''opcode'' = JStr ''revert''"
    and "k \<in> set (co_keys c)" and "k \<in> set (db_keys d)" and "k \<in> set (db_keys d')"
  shows "let (c1, w1) = fst (core_call fetch k q (c, w)); (c2, w2') = fst (core_call fetch k r (c1, w1))
    in co_db c1 = Some d' \<and> co_db c2 = Some d \<and> co_old c2 = None \<and> w2' = w2"
proof -
  let ?c1 = "after_call fetch up c"
  have c1: "co_db ?c1 = Some d'" "co_old ?c1 = Some d" "co_keys ?c1 = co_keys c"
    using assms(1,3,4) by (simp_all add: after_call_def Let_def)
  have "fst (core_call fetch k q (c, w)) = (?c1, w1)" by (rule core_call_success [OF assms(7,1,8,2)])
  moreover have "fst (core_call fetch k r (?c1, w1)) = (after_call fetch back ?c1, w2)"
    by (rule core_call_success [OF _ c1(1) assms(9,5)]) (simp add: c1(3) assms(7))
  ultimately show ?thesis using c1 assms(6) by (simp add: after_call_def)
qed

text \<open>
  C40. A process that was started during an upgrade has no old database: the revert, which is the only operation such
  a database lets through, succeeds, and from then on every call of every method throws.
\<close>

theorem revert_after_restart:
  assumes "co_db (core_init wdb fetch version) = Some d" and "k \<in> set (db_keys d)"
    and "succeeds d k q w w' back" and "jget back ''opcode'' = JStr ''revert''"
  shows "let (c, w1) = fst (core_call fetch k q (core_init wdb fetch version, w)) in w1 = w' \<and> (\<exists>e. snd (core_call fetch k' q' (c, w2)) = Inl e)"
proof -
  let ?c = "core_init wdb fetch version"
  have "k \<in> set (co_keys ?c)" "co_old ?c = None" using assms(1,2) by (auto simp: core_init_def Let_def split: option.splits)
  then have "fst (core_call fetch k q (?c, w)) = (?c\<lparr>co_db := None, co_old := None\<rparr>, w')"
    using core_call_success [OF _ assms(1,2,3), of fetch] assms(4) by (simp add: after_call_def)
  then show ?thesis by (simp add: core_call_def)
qed

section \<open>Witnesses\<close>

text \<open>A database whose method answers with the operation it is given.\<close>

definition echo :: "nat \<Rightarrow> nat database" where
  "echo n = \<lparr>db_keys = [''write''],
     db_call = (\<lambda>k q w. (w + n, \<lparr>an_success = True, an_err = JNull, an_res = Some (JObj [(''opcode'', hd q), (''data'', JStr ''0.1.1'')])\<rparr>))\<rparr>"

lemma echo_succeeds: "succeeds (echo n) ''write'' [v] w (w + n) (JObj [(''opcode'', v), (''data'', JStr ''0.1.1'')])"
  by (simp add: succeeds_def echo_def)

theorem upgrade_then_revert_witness:
  "let fetch = (\<lambda>_. Some (echo 2)); c = core_init (echo 1) fetch JUndef;
       (c1, w1) = fst (core_call fetch ''write'' [JStr ''upgrade''] (c, 0));
       (c2, w2') = fst (core_call fetch ''write'' [JStr ''revert''] (c1, w1))
   in co_db c1 = Some (echo 2) \<and> co_db c2 = Some (echo 1) \<and> co_old c2 = None \<and> w2' = 0 + 1 + 2"
  unfolding Let_def
  by (rule upgrade_then_revert [unfolded Let_def, OF _ echo_succeeds _ _ echo_succeeds])
    (simp_all add: core_init_def echo_def)

theorem revert_after_restart_witness:
  "let fetch = (\<lambda>_. None); (c, w1) = fst (core_call fetch ''write'' [JStr ''revert''] (core_init (echo 1) fetch JUndef, 0))
   in w1 = 0 + 1 \<and> (\<exists>e. snd (core_call fetch ''write'' [] (c, 5)) = Inl e)"
  unfolding Let_def
  by (rule revert_after_restart [unfolded Let_def, OF _ _ echo_succeeds]) (simp_all add: core_init_def echo_def)

end
