(* ===== verification/Hb_Server.thy ===== *)
theory Hb_Server
  imports Core_Loader Json_Props Fpjson
begin

text \<open>
  A node: the handlers of \<open>hb/src/server.js\<close> that open, write and remove databases. The signature of a request is checked
  by \<open>hbsig\<close>, whose verdict comes with the request; the shipper and the validator, which run beside the node, are \<open>Hb_Wal\<close> and
  \<open>Hb_Validator\<close>. \<open>sv_store\<close> are the stores of the databases, \<open>sv_disk\<close> the list of databases in the store of the node.
  A node with a path (\<open>dbpath\<close>) opens a database on disk behind the loader; one without makes it in memory, from an
  empty store (\<open>w0\<close>) and the bundled version.
\<close>

section \<open>The node\<close>

datatype 'w hosted = Loaded "'w core" | Plain "'w database"

record 'w server =
  sv_dbs :: "string \<rightharpoonup> 'w hosted"
  sv_store :: "string \<Rightarrow> 'w"
  sv_pids :: "string list"
  sv_disk :: "string list"
  sv_ios :: "string list"

record signed =
  sg_valid :: bool
  sg_query :: jv
  sg_address :: string
  sg_id :: string
  sg_header :: string
  sg_req :: jv

text \<open>\<open>Answer\<close> is the answer of the queue as it is.\<close>

datatype response = Done jv | Answer "jv answer" | Refused string | Thrown js_error

text \<open>A call of a method of \<open>dbs[id]\<close>.\<close>

definition hosted_call ::
    "(jv \<Rightarrow> 'w database option) \<Rightarrow> string \<Rightarrow> jv list \<Rightarrow> 'w hosted \<times> 'w \<Rightarrow> ('w hosted \<times> 'w) \<times> (js_error + jv answer)" where
  "hosted_call fetch k q hw =
     (case hw of
        (Loaded c, w) \<Rightarrow> (let ((c', w'), a) = core_call fetch k q (c, w) in ((Loaded c', w'), a))
      | (Plain d, w) \<Rightarrow>
          if k \<notin> set (db_keys d) then (hw, Inl (TypeErr ''is not a function''))
          else (let (w', a) = db_call d k q w in ((Plain d, w'), Inr a)))"

text \<open>\<open>const [op, { version }] = JSON.parse(req.headers.query)\<close>\<close>

definition init_version :: "string \<Rightarrow> jv res" where
  "init_version q = rbind (json_parse q) (\<lambda>j. rbind (as_list j) (\<lambda>xs. jprop (jidx xs 1) ''version''))"

definition note_db :: "string \<Rightarrow> 'w hosted \<Rightarrow> 'w server \<Rightarrow> 'w server" where
  "note_db pid h s =
     s\<lparr>sv_dbs := (sv_dbs s)(pid \<mapsto> h), sv_ios := pid # sv_ios s,
       sv_pids := sv_pids s @ [pid], sv_disk := sv_pids s @ [pid]\<rparr>"

definition open_db :: "'w database \<Rightarrow> (jv \<Rightarrow> 'w database option) \<Rightarrow> bool \<Rightarrow> 'w \<Rightarrow> signed \<Rightarrow> 'w server \<Rightarrow> 'w server res" where
  "open_db wdb fetch dbpath w0 r s =
     (if dbpath
      then rbind (init_version (sg_header r)) (\<lambda>version. Inr (note_db (sg_id r) (Loaded (core_init wdb fetch version)) s))
      else Inr (note_db (sg_id r) (Plain wdb) (s\<lparr>sv_store := (sv_store s)(sg_id r := w0)\<rparr>)))"

text \<open>A write that succeeds is answered with \<open>_res.result\<close>, which the answer of the queue does not have.\<close>


definition write_db :: "(jv \<Rightarrow> 'w database option) \<Rightarrow> signed \<Rightarrow> 'w server \<Rightarrow> 'w server \<times> response" where
  "write_db fetch r s =
     (case sv_dbs s (sg_id r) of
        None \<Rightarrow> (s, Refused (''db doesn't exist: '' @ sg_id r))
      | Some c \<Rightarrow>
          (let ((c', w'), res) = hosted_call fetch ''write'' [sg_req r] (c, sv_store s (sg_id r));
               s' = s\<lparr>sv_dbs := (sv_dbs s)(sg_id r \<mapsto> c'), sv_store := (sv_store s)(sg_id r := w')\<rparr>
           in case res of
                Inl e \<Rightarrow> (s', Thrown e)
              | Inr a \<Rightarrow> (s', if an_success a then Done JUndef else Refused (to_str (an_err a)))))"

text \<open>\<open>POST /~weavedb@1.0/set\<close>\<close>

definition handle_set ::
    "'w database \<Rightarrow> (jv \<Rightarrow> 'w database option) \<Rightarrow> bool \<Rightarrow> 'w \<Rightarrow> bool \<Rightarrow> string \<Rightarrow> signed \<Rightarrow> 'w server \<Rightarrow> 'w server \<times> response" where
  "handle_set wdb fetch dbpath w0 admin_only addr r s =
     (if \<not> sg_valid r then (s, Refused ''invalid signature'')
      else (case jprop (sg_query r) ''0'' of
              Inl e \<Rightarrow> (s, Thrown e)
            | Inr op \<Rightarrow>
                if op = JStr ''init'' \<and> sv_dbs s (sg_id r) = None then
                  (if admin_only \<and> addr \<noteq> sg_address r then (s, Refused ''only node admin can add instances'')
                   else (case open_db wdb fetch dbpath w0 r s of
                           Inl e \<Rightarrow> (s, Thrown e)
                         | Inr s1 \<Rightarrow> write_db fetch r s1))
                else write_db fetch r s))"

text \<open>\<open>POST /~weavedb@1.0/admin\<close>; a query that is no array, or has no second element, throws. Nothing is ever entered into
  \<open>dbmap\<close>, so \<open>delete dbs[dbmap[opt.id]]\<close> removes the database with the id \<open>undefined\<close>.\<close>

definition handle_admin :: "string \<Rightarrow> signed \<Rightarrow> 'w server \<Rightarrow> 'w server \<times> response" where
  "handle_admin addr r s =
     (if \<not> sg_valid r \<or> sg_address r \<noteq> addr then (s, Refused ''not authorized'')
      else (case as_list (sg_query r) of
              Inl e \<Rightarrow> (s, Thrown e)
            | Inr xs \<Rightarrow>
                if jidx xs 0 = JStr ''remove_db'' then
                  (case jprop (jidx xs 1) ''id'' of
                     Inl e \<Rightarrow> (s, Thrown e)
                   | Inr i \<Rightarrow>
                       (case i of
                          JStr pid \<Rightarrow>
                            (if pid \<notin> set (sv_pids s) then (s, Refused ''db not found'')
                             else (let ps = filter (\<lambda>p. p \<noteq> pid) (sv_disk s)
                                   in (s\<lparr>sv_pids := ps, sv_disk := ps, sv_dbs := (sv_dbs s)(''undefined'' := None, pid := None), sv_ios := removeAll pid (sv_ios s)\<rparr>,
                                       Done (JArr (map JStr ps)))))
                        | _ \<Rightarrow> (s, Refused ''db not found'')))
                else (s, Refused ''operation not found'')))"

text \<open>\<open>GET /~weavedb@1.0/get\<close>: \<open>dbs[id][query[0]](query.slice(1))\<close>.\<close>

definition handle_get :: "(jv \<Rightarrow> 'w database option) \<Rightarrow> string \<Rightarrow> string \<Rightarrow> 'w server \<Rightarrow> 'w server \<times> response" where
  "handle_get fetch pid q s =
     (case json_parse q of
        Inl e \<Rightarrow> (s, Thrown e)
      | Inr j \<Rightarrow>
          (case (sv_dbs s pid, j) of
             (Some c, JArr (JStr k # xs)) \<Rightarrow>
               (let ((c', w'), res) = hosted_call fetch k [JArr xs] (c, sv_store s pid);
                    s' = s\<lparr>sv_dbs := (sv_dbs s)(pid \<mapsto> c'), sv_store := (sv_store s)(pid := w')\<rparr>
                in case res of Inl e \<Rightarrow> (s', Thrown e) | Inr a \<Rightarrow> (s', Answer a))
           | _ \<Rightarrow> (s, Thrown (TypeErr ''is not a function''))))"

datatype request = Set signed | Admin signed | Get string string

definition handle ::
    "'w database \<Rightarrow> (jv \<Rightarrow> 'w database option) \<Rightarrow> bool \<Rightarrow> 'w \<Rightarrow> bool \<Rightarrow> string \<Rightarrow> request \<Rightarrow> 'w server \<Rightarrow> 'w server \<times> response" where
  "handle wdb fetch dbpath w0 admin_only addr r s =
     (case r of Set x \<Rightarrow> handle_set wdb fetch dbpath w0 admin_only addr x s | Admin x \<Rightarrow> handle_admin addr x s | Get pid q \<Rightarrow> handle_get fetch pid q s)"

section \<open>Who opens and removes databases\<close>

definition from_admin :: "string \<Rightarrow> request \<Rightarrow> bool" where
  "from_admin addr r \<longleftrightarrow> (case r of Set x \<Rightarrow> sg_valid x \<and> sg_address x = addr | Admin x \<Rightarrow> sg_valid x \<and> sg_address x = addr | Get _ _ \<Rightarrow> False)"

lemma write_db_domain: "dom (sv_dbs (fst (write_db fetch r s))) = dom (sv_dbs s) \<and> sv_pids (fst (write_db fetch r s)) = sv_pids s \<and>
    sv_disk (fst (write_db fetch r s)) = sv_disk s"
  by (auto simp: write_db_def Let_def split: option.splits prod.splits sum.splits)

lemma handle_get_domain: "dom (sv_dbs (fst (handle_get fetch pid q s))) = dom (sv_dbs s) \<and> sv_pids (fst (handle_get fetch pid q s)) = sv_pids s \<and>
    sv_disk (fst (handle_get fetch pid q s)) = sv_disk s"
  by (auto simp: handle_get_def Let_def split: option.splits prod.splits sum.splits list.splits jv.splits)

text \<open>
  C27. On a node for its administrator only, no sequence of requests adds, replaces or removes a database unless one of them is validly signed by
  the administrator.
\<close>

theorem only_admin_changes_databases:
  assumes "list_all (\<lambda>r. \<not> from_admin addr r) rs"
  shows "let s' = foldl (\<lambda>s r. fst (handle wdb fetch dbpath w0 True addr r s)) s rs
    in dom (sv_dbs s') = dom (sv_dbs s) \<and> sv_pids s' = sv_pids s \<and> sv_disk s' = sv_disk s"
  using assms
proof (induction rs arbitrary: s)
  case (Cons r rs)
  let ?s = "fst (handle wdb fetch dbpath w0 True addr r s)"
  have "dom (sv_dbs ?s) = dom (sv_dbs s) \<and> sv_pids ?s = sv_pids s \<and> sv_disk ?s = sv_disk s"
  proof (cases r)
    case (Set x)
    with Cons.prems have "\<not> sg_valid x \<or> addr \<noteq> sg_address x" by (auto simp: from_admin_def)
    then have "fst (handle_set wdb fetch dbpath w0 True addr x s) = s \<or> fst (handle_set wdb fetch dbpath w0 True addr x s) = fst (write_db fetch x s)"
      by (auto simp: handle_set_def split: sum.split)
    then show ?thesis unfolding handle_def Set request.case using write_db_domain [of fetch x s] by (elim disjE) simp_all
  next
    case (Admin x)
    with Cons.prems have "\<not> sg_valid x \<or> sg_address x \<noteq> addr" by (auto simp: from_admin_def)
    then show ?thesis using Admin by (auto simp: handle_def handle_admin_def)
  next
    case (Get pid q)
    then show ?thesis using handle_get_domain by (simp add: handle_def)
  qed
  with Cons show ?case by (simp add: Let_def)
qed simp

section \<open>A database that cannot be opened\<close>

lemma no_methods: "truthy version \<Longrightarrow> fetch version = None \<Longrightarrow> co_keys (core_init wdb fetch version) = []"
  by (simp add: core_init_def)

text \<open>
  On a node with a path an \<open>init\<close> with a version that cannot be fetched is refused, but it leaves a database without methods under its id: it is listed, and
  every later request for that id fails, a correct \<open>init\<close> among them.
\<close>

theorem failed_init_blocks:
  assumes "sg_valid r" "jprop (sg_query r) ''0'' = Inr (JStr ''init'')" "sv_dbs s (sg_id r) = None" "addr = sg_address r"
    and "init_version (sg_header r) = Inr version" "truthy version" "fetch version = None"
    and "sg_valid r'" "sg_id r' = sg_id r" "jprop (sg_query r') ''0'' = Inr op"
  shows "let (s1, a1) = handle_set wdb fetch True w0 admin_only addr r s; (s2, a2) = handle_set wdb fetch' True w0 admin_only addr r' s1
    in sg_id r \<in> set (sv_disk s1) \<and> (\<exists>e. a1 = Thrown e) \<and> (\<exists>e. a2 = Thrown e) \<and> sv_store s2 = sv_store s"
proof -
  let ?c = "core_init wdb fetch version"
  have call: "hosted_call f ''write'' q (Loaded ?c, w) = ((Loaded ?c, w), Inl (TypeErr ''is not a function''))" for f q w
    using no_methods [of version fetch wdb] assms(6,7) by (simp add: hosted_call_def core_call_def)
  have s1: "handle_set wdb fetch True w0 admin_only addr r s =
      (note_db (sg_id r) (Loaded ?c) s, Thrown (TypeErr ''is not a function''))"
    using assms(1-5) by (simp add: handle_set_def write_db_def open_db_def note_db_def call)
  have "handle_set wdb fetch' True w0 admin_only addr r' (note_db (sg_id r) (Loaded ?c) s) =
      (note_db (sg_id r) (Loaded ?c) s, Thrown (TypeErr ''is not a function''))"
    using assms(8-10) by (simp add: handle_set_def write_db_def open_db_def note_db_def call)
  with s1 show ?thesis by (simp add: note_db_def)
qed

section \<open>Witnesses\<close>

definition idle :: "nat server" where
  "idle = \<lparr>sv_dbs = Map.empty, sv_store = (\<lambda>_. 0), sv_pids = [], sv_disk = [], sv_ios = []\<rparr>"

definition init_request :: signed where
  "init_request = \<lparr>sg_valid = True, sg_query = JArr [JStr ''init'', JObj [(''version'', JStr ''9.9.9'')]], sg_address = ''admin'', sg_id = ''db'',
     sg_header = stringify (JArr [JStr ''init'', JObj [(''version'', JStr ''9.9.9'')]]), sg_req = JNull\<rparr>"

theorem only_admin_changes_databases_witness:
  "dom (sv_dbs (fst (handle (echo 1) (\<lambda>_. None) True 0 True ''owner'' (Set init_request) idle))) = {}"
  using only_admin_changes_databases [of "''owner''" "[Set init_request]" "echo 1" "\<lambda>_. None" True 0 idle]
  by (simp add: from_admin_def init_request_def idle_def Let_def)

lemma init_header: "init_version (sg_header init_request) = Inr (JStr ''9.9.9'')"
proof -
  have "json_parse (sg_header init_request) = Inr (JArr [JStr ''init'', JObj [(''version'', JStr ''9.9.9'')]])"
    unfolding init_request_def signed.simps by (rule parse_stringify) (simp add: in_order_def obj_eval)
  then show ?thesis by (simp add: init_version_def as_list_def jprop_def)
qed

theorem failed_init_blocks_witness:
  "let (s1, a1) = handle_set (echo 1) (\<lambda>_. None) True 0 True ''admin'' init_request idle;
       (s2, a2) = handle_set (echo 1) (\<lambda>_. Some (echo 1)) True 0 True ''admin'' init_request s1
   in ''db'' \<in> set (sv_disk s1) \<and> (\<exists>e. a2 = Thrown e)"
proof -
  have f: "sg_valid init_request" "jprop (sg_query init_request) ''0'' = Inr (JStr ''init'')" "sv_dbs idle (sg_id init_request) = None"
    "''admin'' = sg_address init_request" "sg_id init_request = ''db''"
    by (simp_all add: init_request_def idle_def jprop_def is_index_key_def is_digit_def digits_val_def digit_val_def)
  have "let (s1, a1) = handle_set (echo 1) (\<lambda>_. None) True 0 True ''admin'' init_request idle;
       (s2, a2) = handle_set (echo 1) (\<lambda>_. Some (echo 1)) True 0 True ''admin'' init_request s1
    in sg_id init_request \<in> set (sv_disk s1) \<and> (\<exists>e. a1 = Thrown e) \<and> (\<exists>e. a2 = Thrown e) \<and> sv_store s2 = sv_store idle"
    by (rule failed_init_blocks [OF f(1-4) init_header _ _ f(1) refl f(2)]) simp_all
  then show ?thesis unfolding f(5) Let_def split_def by blast
qed

end
