(* ===== verification/Spec2Isabelle.thy ===== *)
theory Spec2Isabelle
  imports Kv_Durability Monade Codec Queue Bpt_Contents Md5 Indexer_Props Dev_Props Dev_Auth_Props Dev_State_Props Filter_Props Query_Props Sst_Props Hb_Recover Hb_Cu Hb_Bundler Hb_Server
begin

text \<open>
  A verification library for WeaveDB: the document database of \<open>core/src\<close>, the composition library \<open>monade/src\<close> it is
  written with, and the node of \<open>hb/src\<close> that ships its log to a process and replicates it from there.

  \<^bold>\<open>The program.\<close> A request is a message. A route of \<open>core/src/db.js\<close> sends it through a chain of devices (\<open>dev_*.js\<close>), each a
  function from a context (\<open>state\<close>, \<open>msg\<close>, \<open>env\<close>) to a context that may throw: it is normalised, its nonce is verified, its
  query is parsed and merged with the document it names, the rules of the directory are run on it, and one of the branches carries it out: a
  document is checked against its schema and written with all indexes of its directory, the triggers of the directory
  fire, or a directory, rule, schema, index, trigger or version changes. Writes go to a transaction of a layered store
  (\<open>weavekv.js\<close>); the last device commits it, and a throw anywhere makes the runner (\<open>build.js\<close>) reset it. A later flush moves
  commits to the backend and appends each to a log. Reads are parsed into ranges over the B+ trees of the indexes and carried
  out by the planner. The node keeps such databases behind a queue, ships their logs as bundles of signed messages to a
  HyperBEAM process, and other programs read the process back: the validator replays the messages and publishes the
  changes as commits, the compute unit loads commits into a rollup database, recovery rebuilds a database, and the bundler
  uploads what the process holds.

  \<^bold>\<open>The theories.\<close>
  \<^item> \<open>Js_Prelude\<close>, \<open>Js_Value\<close>, \<open>Json\<close>, \<open>Json_Props\<close>: the language. Errors are the left side of a sum (\<open>res\<close>; \<open>sres\<close> with the
    store at the throw), values are the datatype \<open>jv\<close>, objects association lists in the order of their keys,
    \<open>stringify\<close> and \<open>json_parse\<close> are inverse on values without \<open>undefined\<close>.
  \<^item> \<open>Weave_Kv\<close>, \<open>Kv_Durability\<close>: \<open>io.js\<close>, \<open>kv.js\<close>, \<open>weavekv.js\<close> and the directory view of \<open>build.js\<close>. The record \<open>wkv\<close> has the
    layers \<open>kv_l\<close> (transaction), \<open>kv_s\<close> (committed) and \<open>kv_io\<close> (backend) and the queue \<open>kv_c\<close>. Commits and flushes interleave freely
    (\<open>kv_reach\<close>): the log is complete and a restart resumes at its end.
  \<^item> \<open>Monade\<close>: \<open>monade.js\<close>, \<open>flow.js\<close>, flows as compositions of their stages. \<open>Queue\<close>: \<open>queue.js\<close>, first in, first out.
  \<^item> \<open>Codec\<close>, \<open>Md5\<close>, \<open>Keccak\<close>: the encoders of \<open>utils.js\<close>, \<open>md5.js\<close>, \<open>keccak.js\<close> on words of 32 and 8 bits; the permutation is Keccak-f.
  \<^item> \<open>Bpt\<close>, \<open>Bpt_Order\<close>, \<open>Bpt_Props\<close>: \<open>bpt.js\<close>, nodes in the store with an overlay; the order, the binary search, the
    descent and the walk along the leaves. \<open>Bpt_Tree\<close>, \<open>Bpt_Insert\<close>, \<open>Bpt_Contents\<close>: the abstract trees (\<open>bt\<close>) the nodes of a store stand
    for (\<open>stands\<close>: parents, children and both neighbours of every node, numbers that are free), with the sizes and the order
    the code keeps; inserting a document, with the splits up to the root, is insertion into the sorted list of keys (\<open>contents\<close>),
    and a range without start lists them. \<open>Indexer\<close>, \<open>Indexer_Props\<close>: \<open>indexer.js\<close>; a document is stored under
    its key and no other document changes.
  \<^item> \<open>Fpjson\<close>, \<open>Fpjson_Props\<close>: the rule language \<open>fpjson.js\<close>, evaluated in a given table of functions; what a run of rules can do to a store.
  \<^item> \<open>Draft07\<close>, \<open>Request\<close>, \<open>Dev_Normalize\<close>, \<open>Dev_Parse\<close>, \<open>Dev_Ops\<close>, \<open>Pipeline\<close>: the context (\<open>ctx\<close>), the devices, the routes and the runner.
    \<open>Dev_Frame\<close>, \<open>Dev_Props\<close>, \<open>Dev_Auth_Props\<close>, \<open>Dev_State_Props\<close>: a write is atomic, carries the next number of its signer, is let
    through only by an owner or a rule that allows it, and is valid under the schema of its directory; ids, time stamps and directory numbers do not repeat.
  \<^item> \<open>Parser\<close>, \<open>Planner\<close>, \<open>Filter_Props\<close>, \<open>Query_Props\<close>: \<open>parser.js\<close>, \<open>planner.js\<close>, \<open>dev_get.js\<close>; a filter selects what it says, a
    limit holds, a read of one document returns it, and reads change nothing.
  \<^item> \<open>Dev_Sst\<close>, \<open>Sst_Props\<close>: the rollup database, \<open>dev_*_sst.js\<close>, \<open>dev_load.js\<close>, \<open>dev_decode.js\<close>; only the owner commits, anything else
    leaves nothing behind, and the decoder inverts the wire format.
  \<^item> \<open>Core_Loader\<close>: \<open>core.js\<close>, which version of the database runs, across upgrades and reverts.
  \<^item> \<open>Hb_Wal\<close>, \<open>Hb_Sync\<close>, \<open>Hb_Validator\<close>, \<open>Hb_Recover\<close>, \<open>Hb_Cu\<close>, \<open>Hb_Bundler\<close>, \<open>Hb_Server\<close>: the node, \<open>hb/src\<close>. The shipper sends every record at least
    once, the reader reads the whole process whatever the size of its pages, and the replica applies the records of the
    primary's log in order and once each.

  \<^bold>\<open>Interfaces.\<close> Locales state what one part asks of another, and interpretations on the model's definitions discharge them:
  \<open>kv_view\<close>, \<open>kv_txn\<close> (the store under the devices), \<open>cmp_order\<close> (the comparison under the search), \<open>store_rel\<close> and the
  tables of functions under the rule language (access control, triggers), \<open>slot_handler\<close> (what reads a process does with a
  message: nothing for the compute unit, unpacking for the validator) and \<open>replica_writer\<close> (the database under a replica).

  \<^bold>\<open>Outside code.\<close> The record \<open>ext\<close> holds the packages a request uses (HTTP signatures, SHA-256, the JSON schema validator,
  the evaluator of pure ramda functions, the clock), \<open>sst_ext\<close> those of a commit (Brotli, arjson, zkjson, whose tree reaches the store only
  through the view \<open>kv_zkp\<close> it is given), \<open>arj\<close> the delta tables of a
  validator. What a node, a gateway or a fetched module answers is an argument of the step that asks. The hypotheses
  about them are \<open>serves\<close> and \<open>exact\<close>: what the scheduler returns for a range of slots.

  \<^bold>\<open>Bounds.\<close> The argument \<open>n\<close> of the definitions over trees, rules, queries and triggers bounds their recursion; running out is the error
  \<open>Fuel\<close>, which is no error of the code. No property assumes that it does not happen: those that say what a result is say
  it of every \<open>n\<close> with a result, and those that say there is one name the \<open>n\<close>. One more than the number of keys of a
  tree is enough for an insertion and for a range (\<open>insert_refines\<close>, \<open>range_lists\<close>), the nesting of a rule for a rule, the chain of triggers that fire one another for a write. \<open>json_parse\<close> takes
  twice the length of the text, which \<open>parse_stringify\<close> shows to be enough. The loops of the shipper and of the compute unit,
  which may not end, are partial functions: not ending is the result \<open>None\<close>.

  \<^bold>\<open>Limits.\<close> Numbers are integers, \<open>NaN\<close> is \<open>undefined\<close>, characters are below 256, prototype members are not found on objects. Objects are
  values: where the code shares one and changes it in place, the model passes the new value on (the code does not rely
  on an old reference in what is modelled, except for \<open>$after\<close> in a rule, whose aliasing is modelled). The rule \<open>get\<close> of a
  rule sees the context without its environment, as the code passes it. Fields of filters and indexes are strings, documents are
  objects, buffers are arrays of bytes. A flush is one step; LMDB and \<open>io.js\<close> are the same map.

  \<^bold>\<open>Not modelled.\<close> The SQL and vector databases (\<open>sql.js\<close>, \<open>vec.js\<close>, \<open>kv_vec.js\<close> and their devices), which hand statements to engines outside
  the repository; the bytes of a commit and its proof (arjson, Brotli, zkjson, \<open>zkp.js\<close>, \<open>zkjson.js\<close>, \<open>zkdb_ab.js\<close>); building and
  signing of uploaded items; HTTP plumbing, timers, \<open>su.js\<close>, \<open>gateway.js\<close> and scripts; \<open>sdk\<close>, \<open>cli\<close>, \<open>scan\<close>, \<open>lp\<close>, \<open>docs\<close>, \<open>examples\<close>; the
  previous generation of the system under \<open>legacy\<close>; the parts in Solidity, Rust and Lean.
\<close>

end
